(* ===== verification/Prelude.thy ===== *)
theory Prelude
  imports Main "HOL-Library.Word" "HOL-Library.Monad_Syntax" "HOL-Library.Signed_Division"
begin

unbundle bit_operations_syntax

text \<open>
  What the component theories share: the machine integers of the i686 target, the reading of C
  integer conversions, the constants of \<^verbatim>\<open>src/src/config.h\<close>, \<^verbatim>\<open>src/src/status.h\<close> and
  \<^verbatim>\<open>src/src/memory/paging/paging.h\<close>, the counting loop with its invariant rule, and the
  generic lemmas on lists, options and words that carry the component proofs.

  Conventions. A C \<^verbatim>\<open>unsigned\<close>, \<^verbatim>\<open>size_t\<close>, \<^verbatim>\<open>uint32_t\<close> or pointer is a \<open>u32\<close> and wraps
  around; a C \<^verbatim>\<open>int\<close> is a HOL \<open>int\<close>, and where it is made from an unsigned value or may
  leave its range the conversion \<open>int_of_u32\<close> or \<open>u32_of_int\<close> is written out. \<open>None\<close> is
  undefined behaviour of the C program: an access outside an object, through the null
  pointer, through a freed pointer, or a loop that never ends.
\<close>

section \<open>Machine integers\<close>

type_synonym u8 = "8 word"
type_synonym u16 = "16 word"
type_synonym u32 = "32 word"
type_synonym ptr = "32 word"

abbreviation (input) int_of_u32 :: "u32 \<Rightarrow> int" where
  "int_of_u32 w \<equiv> sint w"

abbreviation (input) u32_of_int :: "int \<Rightarrow> u32" where
  "u32_of_int i \<equiv> word_of_int i"

text \<open>A C \<^verbatim>\<open>char\<close> is signed on this target.\<close>

abbreviation (input) int_of_char :: "u8 \<Rightarrow> int" where
  "int_of_char c \<equiv> sint c"

section \<open>Constants\<close>

abbreviation (input) PEACHOS_ALL_OK :: int where "PEACHOS_ALL_OK \<equiv> 0"
abbreviation (input) EIO :: int where "EIO \<equiv> 1"
abbreviation (input) EINVAGR :: int where "EINVAGR \<equiv> 2"
abbreviation (input) ENOMEM :: int where "ENOMEM \<equiv> 3"
abbreviation (input) EBADPATH :: int where "EBADPATH \<equiv> 4"
abbreviation (input) EFSNOTUS :: int where "EFSNOTUS \<equiv> 5"
abbreviation (input) ERDONLY :: int where "ERDONLY \<equiv> 6"
abbreviation (input) EUNIMP :: int where "EUNIMP \<equiv> 7"
abbreviation (input) EISTKN :: int where "EISTKN \<equiv> 8"
abbreviation (input) EINFORMAT :: int where "EINFORMAT \<equiv> 9"

abbreviation (input) PEACHOS_HEAP_SIZE_BYTES :: u32 where "PEACHOS_HEAP_SIZE_BYTES \<equiv> 104857600"
abbreviation (input) PEACHOS_HEAP_BLOCK_SIZE :: u32 where "PEACHOS_HEAP_BLOCK_SIZE \<equiv> 4096"
abbreviation (input) PEACHOS_HEAP_ADDRESS :: u32 where "PEACHOS_HEAP_ADDRESS \<equiv> 0x01000000"

abbreviation (input) PAGING_CACHE_DISABLED :: u8 where "PAGING_CACHE_DISABLED \<equiv> 16"
abbreviation (input) PAGING_WRITE_THROUGH :: u8 where "PAGING_WRITE_THROUGH \<equiv> 8"
abbreviation (input) PAGING_ACCESS_FROM_ALL :: u8 where "PAGING_ACCESS_FROM_ALL \<equiv> 4"
abbreviation (input) PAGING_IS_WRITEABLE :: u8 where "PAGING_IS_WRITEABLE \<equiv> 2"
abbreviation (input) PAGING_IS_PRESENT :: u8 where "PAGING_IS_PRESENT \<equiv> 1"
abbreviation (input) PAGING_TOTAL_ENTRIES_PER_TABLE :: nat where "PAGING_TOTAL_ENTRIES_PER_TABLE \<equiv> 1024"
abbreviation (input) PAGING_PAGE_SIZE :: u32 where "PAGING_PAGE_SIZE \<equiv> 4096"

section \<open>Array accesses\<close>

text \<open>Reading and writing an element of a C array; outside the array is undefined.\<close>

definition aget :: "'a list \<Rightarrow> nat \<Rightarrow> 'a option" where
  "aget xs i = (if i < length xs then Some (xs ! i) else None)"

definition aset :: "'a list \<Rightarrow> nat \<Rightarrow> 'a \<Rightarrow> 'a list option" where
  "aset xs i x = (if i < length xs then Some (xs[i := x]) else None)"

lemma aget_in [simp]: "i < length xs \<Longrightarrow> aget xs i = Some (xs ! i)"
  by (simp add: aget_def)

lemma aget_out [simp]: "length xs \<le> i \<Longrightarrow> aget xs i = None"
  by (simp add: aget_def)

lemma aget_Some_iff: "aget xs i = Some x \<longleftrightarrow> i < length xs \<and> xs ! i = x"
  by (simp add: aget_def)

lemma aget_append_middle [simp]: "aget (xs @ x # ys) (length xs) = Some x"
  by (simp add: aget_def)

lemma aset_in [simp]: "i < length xs \<Longrightarrow> aset xs i x = Some (xs[i := x])"
  by (simp add: aset_def)

lemma aset_out [simp]: "length xs \<le> i \<Longrightarrow> aset xs i x = None"
  by (simp add: aset_def)

lemma aset_Some_iff: "aset xs i x = Some ys \<longleftrightarrow> i < length xs \<and> ys = xs[i := x]"
  by (auto simp: aset_def)

lemma aset_append_middle [simp]: "aset (xs @ x # ys) (length xs) z = Some (xs @ z # ys)"
  by (simp add: aset_def)

text \<open>The same with an \<^verbatim>\<open>int\<close> index, which may be negative.\<close>

definition aget_i :: "'a list \<Rightarrow> int \<Rightarrow> 'a option" where
  "aget_i xs i = (if 0 \<le> i then aget xs (nat i) else None)"

definition aset_i :: "'a list \<Rightarrow> int \<Rightarrow> 'a \<Rightarrow> 'a list option" where
  "aset_i xs i x = (if 0 \<le> i then aset xs (nat i) x else None)"

lemma aget_i_int [simp]: "aget_i xs (int i) = aget xs i"
  by (simp add: aget_i_def)

lemma aset_i_int [simp]: "aset_i xs (int i) x = aset xs i x"
  by (simp add: aset_i_def)

lemma aget_i_neg [simp]: "i < 0 \<Longrightarrow> aget_i xs i = None"
  by (simp add: aget_i_def)

lemma aset_i_neg [simp]: "i < 0 \<Longrightarrow> aset_i xs i x = None"
  by (simp add: aset_i_def)

section \<open>Little-endian fields\<close>

text \<open>The 16- and 32-bit integers that a packed struct has at a byte offset.\<close>

definition le16 :: "u8 list \<Rightarrow> nat \<Rightarrow> u16" where
  "le16 bs i = ucast (bs ! i) OR push_bit 8 (ucast (bs ! (i + 1)))"

definition le32 :: "u8 list \<Rightarrow> nat \<Rightarrow> u32" where
  "le32 bs i = ucast (le16 bs i) OR push_bit 16 (ucast (le16 bs (i + 2)))"

section \<open>Counting loops\<close>

text \<open>
  \<open>for_range i n body s\<close> is \<^verbatim>\<open>for (k = i; k < i + n; k++) body\<close>; the body threads the
  state and may fail.
\<close>

fun for_range :: "nat \<Rightarrow> nat \<Rightarrow> (nat \<Rightarrow> 's \<Rightarrow> 's option) \<Rightarrow> 's \<Rightarrow> 's option" where
  "for_range i 0 body s = Some s"
| "for_range i (Suc n) body s = do { s' \<leftarrow> body i s; for_range (Suc i) n body s' }"

text \<open>The total-correctness rule: an invariant that every iteration keeps and makes succeed.\<close>

lemma for_range_rule:
  assumes "P i s"
    and "\<And>k t. i \<le> k \<Longrightarrow> k < i + n \<Longrightarrow> P k t \<Longrightarrow> \<exists>t'. body k t = Some t' \<and> P (Suc k) t'"
  shows "\<exists>s'. for_range i n body s = Some s' \<and> P (i + n) s'"
  using assms
proof (induction n arbitrary: i s)
  case 0
  then show ?case by simp
next
  case (Suc n)
  obtain s1 where s1: "body i s = Some s1" "P (Suc i) s1"
    using Suc.prems(2) [of i s] Suc.prems(1) by auto
  have "\<exists>s'. for_range (Suc i) n body s1 = Some s' \<and> P (Suc i + n) s'"
    using Suc.prems(2) by (intro Suc.IH [OF s1(2)]) auto
  with s1 show ?case by simp
qed

text \<open>The partial-correctness rule.\<close>

lemma for_range_inv:
  assumes "for_range i n body s = Some s'" and "P i s"
    and "\<And>k t t'. i \<le> k \<Longrightarrow> k < i + n \<Longrightarrow> P k t \<Longrightarrow> body k t = Some t' \<Longrightarrow> P (Suc k) t'"
  shows "P (i + n) s'"
  using assms
proof (induction n arbitrary: i s)
  case 0
  then show ?case by simp
next
  case (Suc n)
  then obtain s1 where s1: "body i s = Some s1" "for_range (Suc i) n body s1 = Some s'"
    by (auto split: Option.bind_splits)
  have "P (Suc i + n) s'"
    using s1 Suc.prems(2,3) by (intro Suc.IH [OF s1(2)]) auto
  then show ?case by simp
qed

text \<open>The loop that fills an array: every iteration writes its own element.\<close>

lemma for_range_fill:
  assumes "\<And>k. i \<le> k \<Longrightarrow> k < i + n \<Longrightarrow> f k = Some (g k)" and "i + n \<le> length b"
  shows "for_range i n (\<lambda>k b. do { x \<leftarrow> f k; aset b k x }) b =
    Some (take i b @ map g [i..<i + n] @ drop (i + n) b)"
  using assms
proof (induction n arbitrary: i b)
  case 0
  then show ?case by simp
next
  case (Suc n)
  have "for_range (Suc i) n (\<lambda>k b. do { x \<leftarrow> f k; aset b k x }) (b[i := g i]) =
      Some (take (Suc i) (b[i := g i]) @ map g [Suc i..<Suc i + n] @ drop (Suc i + n) (b[i := g i]))"
    using Suc.prems by (intro Suc.IH) auto
  moreover have "take (Suc i) (b[i := g i]) = take i b @ [g i]"
    using Suc.prems by (simp add: take_Suc_conv_app_nth)
  moreover have "[i..<i + Suc n] = i # [Suc i..<Suc i + n]"
    by (simp add: upt_conv_Cons)
  ultimately show ?case using Suc.prems by simp
qed

text \<open>A loop over a body that fails at one of its iterations fails.\<close>

lemma for_range_None:
  assumes "i \<le> k" and "k < i + n" and "\<And>t. body k t = None"
  shows "for_range i n body s = None"
  using assms
proof (induction n arbitrary: i s)
  case 0
  then show ?case by simp
next
  case (Suc n)
  then show ?case
  proof (cases "i = k")
    case True
    with Suc.prems show ?thesis by simp
  next
    case False
    with Suc show ?thesis by (auto split: Option.bind_split)
  qed
qed

section \<open>Words\<close>

lemma uint_eq_iff [simp]: "uint a = uint b \<longleftrightarrow> a = b"
  by (simp add: word_uint_eq_iff)

lemma uint_zero_iff [simp]: "uint w = 0 \<longleftrightarrow> w = 0"
  using uint_eq_iff [of w 0] by (simp del: uint_eq_iff)

lemma unat_u32_bound [simp]: "unat (w :: u32) < 4294967296"
  using unsigned_less [of w, where 'a = nat] by simp

lemma unat_u8_bound [simp]: "unat (w :: u8) < 256"
  using unsigned_less [of w, where 'a = nat] by simp

lemma unat_of_nat_u32: "n < 4294967296 \<Longrightarrow> unat (of_nat n :: u32) = n"
  by (simp add: unat_of_nat take_bit_nat_eq_self)

lemma sint_u32_small:
  assumes "unat (w :: u32) < 2147483648"
  shows "sint w = int (unat w)"
proof -
  have u: "uint w = int (unat w)" by simp
  with assms have "uint w < 2147483648" by linarith
  then have "signed_take_bit 31 (uint w) = uint w"
    by (intro signed_take_bit_int_eq_self) (simp_all add: order_trans [OF _ uint_ge_0])
  with u show ?thesis by (simp add: sint_uint)
qed

end
