(* ===== verification/Memory_Ops.thy ===== *)
theory Memory_Ops
  imports Prelude
begin

text \<open>
  \<^verbatim>\<open>src/src/memory/memory.c\<close>. A buffer argument is the list of the bytes from the pointer
  to the end of its object, and the operation returns the buffer it leaves; an access past the
  end is \<open>None\<close>. Source and destination of a copy are different objects.
\<close>

section \<open>Operations\<close>

definition memset :: "u8 list \<Rightarrow> int \<Rightarrow> u32 \<Rightarrow> u8 list option" where
  "memset buf c sz = for_range 0 (unat sz) (\<lambda>i b. aset b i (word_of_int c)) buf"

text \<open>The same on memory that need not be initialised: a cell is \<open>None\<close> until it is written.\<close>

definition memset_raw :: "u8 option list \<Rightarrow> int \<Rightarrow> u32 \<Rightarrow> u8 option list option" where
  "memset_raw mem c sz = for_range 0 (unat sz) (\<lambda>i m. aset m i (Some (word_of_int c))) mem"

fun memcmp_loop :: "u8 list \<Rightarrow> u8 list \<Rightarrow> nat \<Rightarrow> int option" where
  "memcmp_loop c1 c2 0 = Some 0"
| "memcmp_loop (a # c1) (b # c2) (Suc count) =
     (if a \<noteq> b then Some (if int_of_char a < int_of_char b then - 1 else 1)
      else memcmp_loop c1 c2 count)"
| "memcmp_loop _ _ (Suc count) = None"

definition memcmp :: "u8 list \<Rightarrow> u8 list \<Rightarrow> int \<Rightarrow> int option" where
  "memcmp s1 s2 count = memcmp_loop s1 s2 (nat count)"

text \<open>\<^verbatim>\<open>while (len--)\<close> runs once for every unit of \<open>len\<close> read as unsigned.\<close>

definition memcpy :: "u8 list \<Rightarrow> u8 list \<Rightarrow> int \<Rightarrow> u8 list option" where
  "memcpy dest src len =
     for_range 0 (unat (u32_of_int len)) (\<lambda>i d. do { x \<leftarrow> aget src i; aset d i x }) dest"

section \<open>What they compute\<close>

lemma memset_ok:
  "unat sz \<le> length buf \<Longrightarrow>
   memset buf c sz = Some (replicate (unat sz) (word_of_int c) @ drop (unat sz) buf)"
  using for_range_fill [of 0 "unat sz" "\<lambda>_. Some (word_of_int c)" "\<lambda>_. word_of_int c" buf]
  by (simp add: memset_def map_replicate_const)

lemma memset_raw_ok:
  "unat sz \<le> length mem \<Longrightarrow>
   memset_raw mem c sz = Some (replicate (unat sz) (Some (word_of_int c)) @ drop (unat sz) mem)"
  using for_range_fill [of 0 "unat sz" "\<lambda>_. Some (Some (word_of_int c))" "\<lambda>_. Some (word_of_int c)" mem]
  by (simp add: memset_raw_def map_replicate_const)

lemma length_for_aset:
  assumes "for_range i n (\<lambda>k b. aset b k (g k)) b = Some b'"
  shows "length b' = length b"
  using for_range_inv [OF assms, where P = "\<lambda>_ t. length t = length b"]
  by (auto simp: aset_Some_iff)

lemma memset_None:
  assumes "length buf < unat sz"
  shows "memset buf c sz = None"
proof (rule ccontr)
  let ?body = "\<lambda>i b. aset b i (word_of_int c)"
  assume "memset buf c sz \<noteq> None"
  then obtain b where b: "for_range 0 (unat sz) ?body buf = Some b"
    by (auto simp: memset_def)
  have "length b = length buf \<and> 0 + unat sz \<le> length buf"
    using for_range_inv [OF b, where P = "\<lambda>k t. length t = length buf \<and> k \<le> length buf"]
    by (auto simp: aset_Some_iff)
  with assms show False by simp
qed

lemma memset_eq:
  "memset buf c sz =
    (if unat sz \<le> length buf
     then Some (replicate (unat sz) (word_of_int c) @ drop (unat sz) buf) else None)"
  by (simp add: memset_ok memset_None)

lemma memcpy_ok:
  assumes "unat (u32_of_int len) \<le> length dest" and "unat (u32_of_int len) \<le> length src"
  shows "memcpy dest src len =
    Some (take (unat (u32_of_int len)) src @ drop (unat (u32_of_int len)) dest)"
proof -
  let ?n = "unat (u32_of_int len)"
  have "map (nth src) [0..<?n] = take ?n src"
    using assms(2) by (auto intro!: nth_equalityI)
  with assms for_range_fill [of 0 ?n "aget src" "nth src" dest]
  show ?thesis by (simp add: memcpy_def)
qed

lemma memcmp_loop_zero_iff:
  "n \<le> length s1 \<Longrightarrow> n \<le> length s2 \<Longrightarrow>
   (memcmp_loop s1 s2 n = Some 0) = (take n s1 = take n s2)"
  by (induction s1 s2 n rule: memcmp_loop.induct) auto

lemma memcmp_zero_iff:
  "nat n \<le> length s1 \<Longrightarrow> nat n \<le> length s2 \<Longrightarrow>
   (memcmp s1 s2 n = Some 0) = (take (nat n) s1 = take (nat n) s2)"
  by (simp add: memcmp_def memcmp_loop_zero_iff)

lemma memcmp_loop_total:
  "n \<le> length s1 \<Longrightarrow> n \<le> length s2 \<Longrightarrow> \<exists>r. memcmp_loop s1 s2 n = Some r"
  by (induction s1 s2 n rule: memcmp_loop.induct) auto

end
