(* ===== verification/Strings_OS.thy ===== *)
theory Strings_OS
  imports Prelude
begin

text \<open>
  \<^verbatim>\<open>src/src/stringos/stringos.c\<close>. A \<^verbatim>\<open>const char*\<close> is the list of the bytes from the pointer
  to the end of its object; reading on past an object that holds no terminator is \<open>None\<close>.
  \<open>cstr s\<close> is the C string such a list holds.
\<close>

section \<open>Operations\<close>

definition tolower :: "u8 \<Rightarrow> u8" where
  "tolower s1 = (if int_of_char s1 \<ge> 65 \<and> int_of_char s1 \<le> 90 then s1 + 32 else s1)"

fun strlen_loop :: "u8 list \<Rightarrow> int \<Rightarrow> int option" where
  "strlen_loop [] i = None"
| "strlen_loop (c # s) i = (if c \<noteq> 0 then strlen_loop s (i + 1) else Some i)"

definition strlen :: "u8 list \<Rightarrow> int option" where
  "strlen s = strlen_loop s 0"

fun strnlen_loop :: "u8 list \<Rightarrow> nat \<Rightarrow> nat \<Rightarrow> nat option" where
  "strnlen_loop s i 0 = Some i"
| "strnlen_loop s i (Suc n) =
     do { c \<leftarrow> aget s i; if c = 0 then Some i else strnlen_loop s (Suc i) n }"

definition strnlen :: "u8 list \<Rightarrow> int \<Rightarrow> int option" where
  "strnlen s mx = map_option int (strnlen_loop s 0 (nat mx))"

fun strnlen_terminator_loop :: "u8 list \<Rightarrow> u8 \<Rightarrow> nat \<Rightarrow> nat \<Rightarrow> nat option" where
  "strnlen_terminator_loop s terminator i 0 = Some i"
| "strnlen_terminator_loop s terminator i (Suc n) =
     do { c \<leftarrow> aget s i;
          if c = 0 \<or> c = terminator then Some i
          else strnlen_terminator_loop s terminator (Suc i) n }"

definition strnlen_terminator :: "u8 list \<Rightarrow> int \<Rightarrow> u8 \<Rightarrow> int option" where
  "strnlen_terminator s mx terminator =
     map_option int (strnlen_terminator_loop s terminator 0 (nat mx))"

text \<open>
  The difference \<^verbatim>\<open>u1 - u2\<close> of two \<^verbatim>\<open>unsigned char\<close>s is an \<^verbatim>\<open>int\<close>.
\<close>

fun istrncmp_loop :: "u8 list \<Rightarrow> u8 list \<Rightarrow> nat \<Rightarrow> int option" where
  "istrncmp_loop s1 s2 0 = Some 0"
| "istrncmp_loop (u1 # s1) (u2 # s2) (Suc n) =
     (if u1 \<noteq> u2 \<and> tolower u1 \<noteq> tolower u2 then Some (uint u1 - uint u2)
      else if u1 = 0 then Some 0
      else istrncmp_loop s1 s2 n)"
| "istrncmp_loop _ _ (Suc n) = None"

definition istrncmp :: "u8 list \<Rightarrow> u8 list \<Rightarrow> int \<Rightarrow> int option" where
  "istrncmp s1 s2 n = istrncmp_loop s1 s2 (nat n)"

fun strncmp_loop :: "u8 list \<Rightarrow> u8 list \<Rightarrow> nat \<Rightarrow> int option" where
  "strncmp_loop s1 s2 0 = Some 0"
| "strncmp_loop (u1 # s1) (u2 # s2) (Suc n) =
     (if u1 \<noteq> u2 then Some (uint u1 - uint u2)
      else if u1 = 0 then Some 0
      else strncmp_loop s1 s2 n)"
| "strncmp_loop _ _ (Suc n) = None"

definition strncmp :: "u8 list \<Rightarrow> u8 list \<Rightarrow> int \<Rightarrow> int option" where
  "strncmp s1 s2 n = strncmp_loop s1 s2 (nat n)"

fun strcpy_loop :: "u8 list \<Rightarrow> nat \<Rightarrow> u8 list \<Rightarrow> u8 list option" where
  "strcpy_loop dest i [] = None"
| "strcpy_loop dest i (c # src) =
     (if c \<noteq> 0 then do { dest' \<leftarrow> aset dest i c; strcpy_loop dest' (Suc i) src }
      else aset dest i 0)"

definition strcpy :: "u8 list \<Rightarrow> u8 list \<Rightarrow> u8 list option" where
  "strcpy dest src = strcpy_loop dest 0 src"

fun strncpy_loop :: "u8 list \<Rightarrow> u8 list \<Rightarrow> nat \<Rightarrow> nat \<Rightarrow> (nat \<times> u8 list) option" where
  "strncpy_loop dest src i 0 = Some (i, dest)"
| "strncpy_loop dest src i (Suc n) =
     do { c \<leftarrow> aget src i;
          if c = 0 then Some (i, dest)
          else do { dest' \<leftarrow> aset dest i c; strncpy_loop dest' src (Suc i) n } }"

definition strncpy :: "u8 list \<Rightarrow> u8 list \<Rightarrow> int \<Rightarrow> u8 list option" where
  "strncpy dest src count =
     do { (i, dest') \<leftarrow> strncpy_loop dest src 0 (nat (count - 1)); aset dest' i 0 }"

definition isdigit :: "u8 \<Rightarrow> bool" where
  "isdigit c \<longleftrightarrow> int_of_char c \<ge> 48 \<and> int_of_char c \<le> 57"

definition tonumericdigit :: "u8 \<Rightarrow> int" where
  "tonumericdigit c = int_of_char c - 48"

section \<open>What they compute\<close>

definition cstr :: "u8 list \<Rightarrow> u8 list" where
  "cstr s = takeWhile (\<lambda>c. c \<noteq> 0) s"

lemma cstr_simps [simp]:
  "cstr [] = []" "cstr (0 # s) = []" "c \<noteq> 0 \<Longrightarrow> cstr (c # s) = c # cstr s"
  by (simp_all add: cstr_def)

lemma cstr_append_zero [simp]: "0 \<notin> set s \<Longrightarrow> cstr (s @ 0 # r) = s"
  by (induction s) auto

lemma length_cstr_less: "0 \<in> set s \<Longrightarrow> length (cstr s) < length s"
  by (induction s) (auto simp: cstr_def)

lemma length_cstr_le: "length (cstr s) \<le> length s"
  by (simp add: cstr_def length_takeWhile_le)

lemma nth_cstr: "i < length (cstr s) \<Longrightarrow> cstr s ! i = s ! i \<and> s ! i \<noteq> 0"
  by (induction s arbitrary: i) (auto simp: cstr_def nth_Cons split: nat.splits if_splits)

lemma nth_length_cstr: "0 \<in> set s \<Longrightarrow> s ! length (cstr s) = 0"
  by (induction s) (auto simp: cstr_def)

lemma nth_below_cstr: "i < length s \<Longrightarrow> length (cstr s) > i \<Longrightarrow> s ! i \<noteq> 0"
  using nth_cstr by blast

lemma strlen_loop_eq:
  "strlen_loop s i = (if 0 \<in> set s then Some (i + int (length (cstr s))) else None)"
  by (induction s i rule: strlen_loop.induct) (auto simp: cstr_def)

lemma strlen_eq: "strlen s = (if 0 \<in> set s then Some (int (length (cstr s))) else None)"
  by (simp add: strlen_def strlen_loop_eq)

lemma cstr_drop_Cons:
  assumes "i < length s"
  shows "cstr (drop i s) = (if s ! i = 0 then [] else s ! i # cstr (drop (Suc i) s))"
proof -
  have "drop i s = s ! i # drop (Suc i) s"
    using assms by (simp add: Cons_nth_drop_Suc)
  then show ?thesis by simp
qed

lemma take_drop_Cons:
  "i < length s \<Longrightarrow> take (Suc n) (drop i s) = s ! i # take n (drop (Suc i) s)"
  by (simp add: Cons_nth_drop_Suc [symmetric])

lemma strnlen_loop_eq:
  "strnlen_loop s i n =
    (if 0 \<in> set (take n (drop i s)) \<or> n = 0 \<or> i + n \<le> length s
     then Some (i + min (length (cstr (drop i s))) n) else None)"
proof (induction s i n rule: strnlen_loop.induct)
  case (1 s i)
  then show ?case by simp
next
  case (2 s i n)
  show ?case
  proof (cases "i < length s")
    case True
    with 2 show ?thesis by (auto simp: take_drop_Cons cstr_drop_Cons)
  next
    case False
    then show ?thesis by simp
  qed
qed

lemma strnlen_eq:
  "strnlen s mx =
    (if 0 \<in> set (take (nat mx) s) \<or> nat mx \<le> length s
     then Some (int (min (length (cstr s)) (nat mx))) else None)"
  by (auto simp: strnlen_def strnlen_loop_eq)

lemma tolower_zero_iff [simp]: "tolower c = 0 \<longleftrightarrow> c = 0"
proof
  assume t: "tolower c = 0"
  show "c = 0"
  proof (rule ccontr)
    assume "c \<noteq> 0"
    with t have c: "c + 32 = 0" and le: "sint c \<le> 90" "65 \<le> sint c"
      by (auto simp: tolower_def split: if_splits)
    from c have "c = - 32" by (simp add: eq_neg_iff_add_eq_0)
    with le show False by simp
  qed
qed (simp add: tolower_def)

lemma tolower_0 [simp]: "tolower 0 = 0"
  by (simp add: tolower_def)

lemma istrncmp_loop_spec:
  "0 \<in> set s1 \<Longrightarrow> 0 \<in> set s2 \<Longrightarrow> \<exists>r. istrncmp_loop s1 s2 n = Some r \<and>
    (r = 0 \<longleftrightarrow> map tolower (take n (cstr s1)) = map tolower (take n (cstr s2)))"
proof (induction s1 s2 n rule: istrncmp_loop.induct)
  case (2 u1 s1 u2 s2 n)
  with tolower_0 show ?case
    by (cases "u1 = 0"; cases "u2 = 0") (auto simp: eq_commute [of 0 "tolower _"])
qed auto

lemma strncmp_loop_spec:
  "0 \<in> set s1 \<Longrightarrow> 0 \<in> set s2 \<Longrightarrow> \<exists>r. strncmp_loop s1 s2 n = Some r \<and>
    (r = 0 \<longleftrightarrow> take n (cstr s1) = take n (cstr s2))"
proof (induction s1 s2 n rule: strncmp_loop.induct)
  case (2 u1 s1 u2 s2 n)
  then show ?case by (cases "u1 = 0"; cases "u2 = 0") auto
qed auto

lemma strncmp_spec:
  "0 \<in> set s1 \<Longrightarrow> 0 \<in> set s2 \<Longrightarrow> \<exists>r. strncmp s1 s2 n = Some r \<and>
    (r = 0 \<longleftrightarrow> take (nat n) (cstr s1) = take (nat n) (cstr s2))"
  by (simp add: strncmp_def strncmp_loop_spec)

lemma strcpy_loop_eq:
  "i \<le> length dest \<Longrightarrow> 0 \<in> set src \<Longrightarrow> strcpy_loop dest i src =
    (if i + length (cstr src) < length dest
     then Some (take i dest @ cstr src @ 0 # drop (Suc (i + length (cstr src))) dest) else None)"
proof (induction dest i src rule: strcpy_loop.induct)
  case (2 dest i c src)
  show ?case
  proof (cases "c = 0")
    case True
    with 2 show ?thesis by (auto simp: upd_conv_take_nth_drop)
  next
    case False
    with 2 show ?thesis
      by (cases "i < length dest") (auto simp: take_Suc_conv_app_nth)
  qed
qed simp

lemma strcpy_eq:
  "0 \<in> set src \<Longrightarrow> strcpy dest src =
    (if length (cstr src) < length dest
     then Some (cstr src @ 0 # drop (Suc (length (cstr src))) dest) else None)"
  by (simp add: strcpy_def strcpy_loop_eq)

lemma strncpy_loop_eq:
  assumes "i + n \<le> length dest" and "0 \<in> set (take n (drop i src)) \<or> i + n \<le> length src"
    and "l = min n (length (cstr (drop i src)))"
  shows "strncpy_loop dest src i n =
    Some (i + l, take i dest @ take l (drop i src) @ drop (i + l) dest)"
  using assms
proof (induction dest src i n arbitrary: l rule: strncpy_loop.induct)
  case (1 dest src i)
  then show ?case by simp
next
  case (2 dest src i n)
  have i: "i < length src" "i < length dest"
    using 2(2,3) by (auto simp: not_less dest: in_set_takeD split: if_splits)
      (metis drop_all empty_iff list.set(1) not_less take_Nil)
  show ?case
  proof (cases "src ! i = 0")
    case True
    with i 2(4) show ?thesis by (simp add: cstr_drop_Cons)
  next
    case False
    let ?l = "min n (length (cstr (drop (Suc i) src)))"
    have l: "l = Suc ?l" using 2(4) False i by (simp add: cstr_drop_Cons)
    have "strncpy_loop (dest[i := src ! i]) src (Suc i) n =
        Some (Suc i + ?l, take (Suc i) (dest[i := src ! i]) @ take ?l (drop (Suc i) src) @
          drop (Suc i + ?l) (dest[i := src ! i]))"
      using 2(2,3) False i by (intro 2(1)) (auto simp: take_drop_Cons)
    with False i l show ?thesis
      by (simp add: take_Suc_conv_app_nth take_drop_Cons)
  qed
qed

text \<open>\<^verbatim>\<open>strncpy\<close> copies at most \<open>count - 1\<close> characters and always terminates.\<close>

lemma strncpy_eq:
  assumes "1 \<le> count" and "nat count \<le> length dest"
    and "0 \<in> set src \<or> nat count \<le> length src"
    and "l = min (nat (count - 1)) (length (cstr src))"
  shows "strncpy dest src count = Some (take l src @ 0 # drop (Suc l) dest)"
proof -
  have n: "nat (count - 1) < length dest" using assms by linarith
  have "0 \<in> set (take (nat (count - 1)) src) \<or> nat (count - 1) \<le> length src"
    using assms(3) by (cases "nat (count - 1) \<le> length src") auto
  with n assms(4) have "strncpy_loop dest src 0 (nat (count - 1)) =
      Some (l, take l src @ drop l dest)"
    using strncpy_loop_eq [of 0 "nat (count - 1)" dest src l] by simp
  moreover have "l < length dest" "l \<le> length src"
    using n assms(4) length_cstr_le [of src] by auto
  ultimately show ?thesis
    by (simp add: strncpy_def list_update_append upd_conv_take_nth_drop)
qed

end
