(* ===== verification/Heap_Scan.thy ===== *)
theory Heap_Scan
  imports Heap
begin

text \<open>
  The scan of \<^verbatim>\<open>heap_get_start_block\<close> in \<^verbatim>\<open>src/src/memory/heap/heap.c\<close>: its loop invariant and what it
  finds, on a table with and without a fit.
\<close>

section \<open>Table bytes\<close>

lemma length_chain [simp]: "length (chain m) = m"
  by (simp add: chain_def)

lemma length_seg_entries [simp]: "length (seg_entries s) = seg_len s"
  by (cases s rule: seg_entries.cases) auto

lemma render_simps [simp]:
  "render [] = []" "render (s # segs) = seg_entries s @ render segs"
  "render (xs @ ys) = render xs @ render ys"
  by (simp_all add: render_def)

lemma blocks_simps [simp]:
  "blocks [] = 0" "blocks (s # segs) = seg_len s + blocks segs"
  "blocks (xs @ ys) = blocks xs + blocks ys"
  by (simp_all add: blocks_def)

lemma length_render [simp]: "length (render segs) = blocks segs"
  by (induction segs) auto

lemma render_replicate_Free [simp]: "render (replicate n Free) = replicate n 0"
  by (induction n) auto

lemma blocks_replicate_Free [simp]: "blocks (replicate n Free) = n"
  by (induction n) auto

lemma chain_Suc: "chain (Suc m) = (if m = 0 then 0x01 else 0x81) # chain m"
  by (cases m) (auto simp: chain_def)

text \<open>A table byte is free or taken by its low nibble.\<close>

definition free_byte :: "u8 \<Rightarrow> bool" where
  "free_byte e \<longleftrightarrow> heap_get_entry_type e = 0"

lemma free_byte_consts [simp]:
  "free_byte 0" "\<not> free_byte 0x41" "\<not> free_byte 0xC1" "\<not> free_byte 0x81" "\<not> free_byte 1"
  by (simp_all add: free_byte_def heap_get_entry_type_def)

lemma chain_not_free: "e \<in> set (chain m) \<Longrightarrow> \<not> free_byte e"
  by (auto simp: chain_def split: if_splits)

lemma used_not_free: "e \<in> set (seg_entries (Used n)) \<Longrightarrow> \<not> free_byte e"
  by (cases n) (auto dest: chain_not_free split: if_splits)

section \<open>The scan for a free run\<close>

definition fits :: "u8 list \<Rightarrow> nat \<Rightarrow> nat \<Rightarrow> bool" where
  "fits es n b \<longleftrightarrow> b + n \<le> length es \<and> (\<forall>j. b \<le> j \<and> j < b + n \<longrightarrow> free_byte (es ! j))"

definition trailing :: "u8 list \<Rightarrow> nat" where
  "trailing es = length (takeWhile free_byte (rev es))"

definition scan_result :: "u8 list \<Rightarrow> nat \<Rightarrow> int" where
  "scan_result es n =
     (if 0 < n \<and> (\<exists>b. fits es n b) then int (LEAST b. fits es n b)
      else if trailing es = 0 then - 1 else int (length es - trailing es))"

definition scan_inv :: "u8 list \<Rightarrow> nat \<Rightarrow> nat \<Rightarrow> nat \<Rightarrow> bool" where
  "scan_inv es n i k \<longleftrightarrow>
     k \<le> i \<and> i \<le> length es \<and> (0 < n \<longrightarrow> k < n) \<and>
     (\<forall>j. i - k \<le> j \<and> j < i \<longrightarrow> free_byte (es ! j)) \<and>
     (k < i \<longrightarrow> \<not> free_byte (es ! (i - k - 1))) \<and>
     (\<forall>b. 0 < n \<longrightarrow> fits es n b \<longrightarrow> i - k \<le> b)"

lemma trailing_eq:
  assumes "k \<le> length es" and "\<forall>j. length es - k \<le> j \<and> j < length es \<longrightarrow> free_byte (es ! j)"
    and "k < length es \<longrightarrow> \<not> free_byte (es ! (length es - k - 1))"
  shows "trailing es = k"
proof -
  have take_free: "\<forall>x \<in> set (take k (rev es)). free_byte x"
  proof
    fix x assume "x \<in> set (take k (rev es))"
    then obtain j where "j < k" "j < length es" "x = rev es ! j"
      by (auto simp: in_set_conv_nth)
    moreover from this have "length es - k \<le> length es - Suc j" "length es - Suc j < length es"
      by linarith+
    ultimately show "free_byte x" using assms(2) by (simp add: rev_nth)
  qed
  have "takeWhile free_byte (rev es) = take k (rev es)"
  proof (cases "k < length es")
    case True
    have "rev es = take k (rev es) @ rev es ! k # drop (Suc k) (rev es)"
      using True by (simp add: id_take_nth_drop)
    moreover have "\<not> free_byte (rev es ! k)"
      using True assms(3) by (simp add: rev_nth)
    ultimately show ?thesis
      using take_free by (metis takeWhile_tail takeWhile_eq_all_conv)
  next
    case False
    with assms(1) take_free show ?thesis by (simp add: takeWhile_eq_all_conv)
  qed
  with assms(1) show ?thesis by (simp add: trailing_def)
qed

lemma scan_end:
  assumes "scan_inv es n (length es) k"
  shows "scan_result es n = (if k = 0 then - 1 else int (length es - k))"
proof -
  have "trailing es = k"
    using assms by (intro trailing_eq) (auto simp: scan_inv_def)
  moreover have "\<not> (0 < n \<and> (\<exists>b. fits es n b))"
  proof
    assume "0 < n \<and> (\<exists>b. fits es n b)"
    then obtain b where b: "0 < n" "fits es n b" by blast
    with assms have "length es - k \<le> b" "k < n" "k \<le> length es"
      unfolding scan_inv_def by blast+
    moreover have "b + n \<le> length es" using b by (simp add: fits_def)
    ultimately show False by linarith
  qed
  ultimately show ?thesis by (auto simp: scan_result_def)
qed

lemma scan_hit:
  assumes "scan_inv es n i k" and "i < length es" and "free_byte (es ! i)" and "Suc k = n"
  shows "scan_result es n = int (i - k)"
proof -
  have "fits es n (i - k)"
    using assms by (auto simp: fits_def scan_inv_def less_Suc_eq)
  moreover have "\<And>b. fits es n b \<Longrightarrow> i - k \<le> b"
    using assms by (auto simp: scan_inv_def)
  ultimately have "(LEAST b. fits es n b) = i - k" by (intro Least_equality)
  with \<open>fits es n (i - k)\<close> assms(4) show ?thesis by (auto simp: scan_result_def)
qed

lemma scan_inv_free:
  assumes "scan_inv es n i k" and "i < length es" and "free_byte (es ! i)" and "Suc k \<noteq> n"
  shows "scan_inv es n (Suc i) (Suc k)"
  using assms by (auto simp: scan_inv_def less_Suc_eq)

lemma scan_inv_taken:
  assumes "scan_inv es n i k" and "i < length es" and "\<not> free_byte (es ! i)"
  shows "scan_inv es n (Suc i) 0"
proof -
  have "Suc i \<le> b" if "0 < n" "fits es n b" for b
  proof -
    from that assms(1) have "i - k \<le> b" "k < n" "k \<le> i" unfolding scan_inv_def by blast+
    moreover have "i < b \<or> b + n \<le> i"
      using that(2) assms(3) by (auto simp: fits_def not_less)
    ultimately show ?thesis by linarith
  qed
  with assms show ?thesis by (auto simp: scan_inv_def)
qed

lemma start_block_loop_eq:
  assumes "scan_inv es (unat tb) i k" and "i + m = length es" and "length es < 2147483648"
  shows "start_block_loop es tb i m (int k) (if k = 0 then - 1 else int (i - k)) =
    Some (scan_result es (unat tb))"
  using assms
proof (induction m arbitrary: i k)
  case 0
  then show ?case by (simp add: scan_end)
next
  case (Suc m)
  then have i: "i < length es" and ki: "k \<le> i" by (auto simp: scan_inv_def)
  show ?case
  proof (cases "free_byte (es ! i)")
    case False
    with Suc i scan_inv_taken [OF Suc.prems(1) i False]
    have "start_block_loop es tb (Suc i) m 0 (- 1) = Some (scan_result es (unat tb))"
      using Suc.IH [of "Suc i" 0] by simp
    with False i show ?thesis by (simp add: free_byte_def)
  next
    case True
    have i_word: "sint (of_nat i :: u32) = int i"
      using i Suc.prems(3) by (simp add: sint_u32_small unat_of_nat_u32)
    have bs: "(if (if k = 0 then - 1 else int (i - k)) = - 1 then sint (of_nat i :: u32)
        else (if k = 0 then - 1 else int (i - k))) = int (i - k)"
      using i_word by simp
    have hit: "u32_of_int (int k + 1) = tb \<longleftrightarrow> Suc k = unat tb"
    proof -
      have "unat (word_of_int (int k + 1) :: u32) = Suc k"
        using ki i Suc.prems(3) unat_of_nat_u32 [of "Suc k"] by (simp add: add.commute)
      then show ?thesis by (metis word_unat_eq_iff)
    qed
    show ?thesis
    proof (cases "Suc k = unat tb")
      case h: True
      with scan_hit [OF Suc.prems(1) i True h] True i bs hit show ?thesis
        by (simp add: free_byte_def Let_def)
    next
      case h: False
      have "start_block_loop es tb (Suc i) m (int (Suc k)) (int (i - k)) =
          Some (scan_result es (unat tb))"
        using Suc.IH [of "Suc i" "Suc k"] scan_inv_free [OF Suc.prems(1) i True h] Suc.prems
        by simp
      with True i bs hit h show ?thesis
        by (simp add: free_byte_def Let_def add.commute)
    qed
  qed
qed

lemma heap_get_start_block_eq:
  assumes "unat (ht_total (hp_table h)) = length (ht_entries (hp_table h))"
    and "length (ht_entries (hp_table h)) < 2147483648"
  shows "heap_get_start_block h tb =
    Some (let r = scan_result (ht_entries (hp_table h)) (unat tb)
          in if r = - 1 then - ENOMEM else r)"
proof -
  let ?es = "ht_entries (hp_table h)"
  have "scan_inv ?es (unat tb) 0 0" by (simp add: scan_inv_def)
  from start_block_loop_eq [OF this, of "length ?es"] assms show ?thesis
    by (simp add: heap_get_start_block_def Let_def)
qed

section \<open>Marking blocks\<close>

lemma mark_taken_step:
  "mark_taken_loop (xs @ x # ys) (int (length xs)) end_block (Suc n) e =
    mark_taken_loop ((xs @ [e]) @ ys) (int (length (xs @ [e]))) end_block n
      (if int (length xs) \<noteq> end_block - 1 then 0x81 else 1)"
  by (simp add: add.commute)

lemma mark_taken_loop_eq:
  "length zs = m \<Longrightarrow>
   mark_taken_loop (xs @ x # zs @ ys) (int (length xs)) (int (length xs + m)) (Suc m) e =
     Some (xs @ e # chain m @ ys)"
proof (induction m arbitrary: xs x zs e)
  case 0
  then show ?case by (simp add: mark_taken_step chain_def)
next
  case (Suc m)
  then obtain z zs' where zs: "zs = z # zs'" "length zs' = m" by (cases zs) auto
  let ?e = "if m = 0 then 0x01 else 0x81 :: u8"
  have "mark_taken_loop ((xs @ [e]) @ z # zs' @ ys) (int (length (xs @ [e])))
      (int (length (xs @ [e]) + m)) (Suc m) ?e = Some ((xs @ [e]) @ ?e # chain m @ ys)"
    by (rule Suc.IH) (rule zs)
  moreover have "(if int (length xs) \<noteq> int (length xs + Suc m) - 1 then 0x81 else 1) = ?e" by simp
  moreover have "length (xs @ [e]) + m = length xs + Suc m" by simp
  ultimately show ?case
    by (simp only: mark_taken_step zs append_Cons chain_Suc) (simp add: chain_Suc)
qed

text \<open>Marking more blocks than the table has left runs past its end.\<close>

lemma mark_taken_loop_None:
  "length ys \<le> m \<Longrightarrow> mark_taken_loop (xs @ ys) (int (length xs)) end_block (Suc m) e = None"
proof (induction m arbitrary: xs ys e)
  case 0
  then show ?case by simp
next
  case (Suc m)
  show ?case
  proof (cases ys)
    case Nil
    then show ?thesis by simp
  next
    case (Cons y ys')
    have "mark_taken_loop ((xs @ [e]) @ ys') (int (length (xs @ [e]))) end_block (Suc m) e' = None"
      for e' using Suc.prems Cons by (intro Suc.IH) simp
    with Cons show ?thesis by (simp only: mark_taken_step)
  qed
qed

lemma has_next_consts [simp]:
  "(0x81 :: u8) AND 128 \<noteq> 0" "(0xC1 :: u8) AND 128 \<noteq> 0"
  "(0x41 :: u8) AND 128 = 0" "(1 :: u8) AND 128 = 0"
  by simp_all

lemma mark_free_step:
  "mark_free_loop (xs @ e # ys) (int (length xs)) (Suc r) =
    (if e AND 128 = 0 then Some (xs @ 0 # ys)
     else mark_free_loop ((xs @ [0]) @ ys) (int (length (xs @ [0]))) r)"
  by (simp add: add.commute)

lemma mark_free_chain:
  "mark_free_loop (xs @ chain (Suc m) @ ys) (int (length xs)) (Suc m + r) =
    Some (xs @ replicate (Suc m) 0 @ ys)"
proof (induction m arbitrary: xs)
  case 0
  show ?case by (simp add: chain_def mark_free_step del: mark_free_loop.simps)
next
  case (Suc m)
  have "mark_free_loop ((xs @ [0]) @ chain (Suc m) @ ys) (int (length (xs @ [0]))) (Suc m + r) =
      Some ((xs @ [0]) @ replicate (Suc m) 0 @ ys)"
    by (rule Suc.IH)
  then show ?case
    by (simp only: chain_Suc [of "Suc m"] add_Suc append_Cons mark_free_step has_next_consts)
      simp
qed

lemma mark_free_used:
  assumes "0 < n" and "n \<le> r"
  shows "mark_free_loop (xs @ seg_entries (Used n) @ ys) (int (length xs)) r =
    Some (xs @ replicate n 0 @ ys)"
proof -
  from assms obtain m q where m: "n = Suc m" and q: "r = Suc (m + q)"
    by (metis Suc_pred le_Suc_ex add_Suc)
  show ?thesis
  proof (cases m)
    case 0
    with m q show ?thesis by (simp add: chain_def mark_free_step del: mark_free_loop.simps)
  next
    case (Suc k)
    have "mark_free_loop ((xs @ [0]) @ chain (Suc k) @ ys) (int (length (xs @ [0]))) (Suc k + q) =
        Some ((xs @ [0]) @ replicate (Suc k) 0 @ ys)"
      by (rule mark_free_chain)
    moreover have "seg_entries (Used n) = 0xC1 # chain (Suc k)" using m Suc by simp
    ultimately show ?thesis using Suc m q
      by (simp only: append_Cons mark_free_step has_next_consts) simp
  qed
qed

section \<open>Segments and free runs\<close>

lemma fits_zero_Free_run:
  "fits (render segs) n 0 \<Longrightarrow> Used 0 \<notin> set segs \<Longrightarrow> \<exists>post. segs = replicate n Free @ post"
proof (induction n arbitrary: segs)
  case 0
  then show ?case by simp
next
  case (Suc n)
  then obtain s rest where s: "segs = s # rest" by (cases segs) (auto simp: fits_def)
  have hd_free: "free_byte (render segs ! 0)" using Suc.prems(1) by (simp add: fits_def)
  have "s = Free"
  proof (cases s)
    case (Used m)
    with s Suc.prems(2) have "0 < m" by (cases m) auto
    then have "render segs ! 0 \<in> set (seg_entries (Used m))"
      using s Used by (auto simp: nth_append intro!: nth_mem)
    with used_not_free hd_free show ?thesis by blast
  qed simp
  moreover have "fits (render rest) n 0"
    using Suc.prems(1) s \<open>s = Free\<close> by (auto simp: fits_def nth_Cons')
  ultimately show ?case using Suc.IH [of rest] Suc.prems(2) s by auto
qed

lemma fits_skip:
  assumes "fits (xs @ ys) n b" and "length xs \<le> b"
  shows "fits ys n (b - length xs)"
  unfolding fits_def
proof (intro conjI allI impI)
  show "b - length xs + n \<le> length ys" using assms by (auto simp: fits_def)
  fix j assume j: "b - length xs \<le> j \<and> j < b - length xs + n"
  then have "b \<le> length xs + j \<and> length xs + j < b + n" using assms(2) by linarith
  with assms(1) have "free_byte ((xs @ ys) ! (length xs + j))" unfolding fits_def by blast
  then show "free_byte (ys ! j)" by simp
qed

lemma fits_append_replicate: "fits (xs @ replicate n 0 @ ys) n (length xs)"
  by (auto simp: fits_def nth_append)

lemma a_alloc_Some:
  assumes "a_alloc n segs = Some (b, segs')" and "0 < n" and "Used 0 \<notin> set segs"
  shows "\<exists>pre post. segs = pre @ replicate n Free @ post \<and> segs' = pre @ Used n # post \<and>
    b = blocks pre \<and> (\<forall>b'. fits (render segs) n b' \<longrightarrow> b \<le> b')"
  using assms
proof (induction n segs arbitrary: b segs' rule: a_alloc.induct)
  case (1 n)
  then show ?case by simp
next
  case (2 n s segs)
  show ?case
  proof (cases "take n (s # segs) = replicate n Free")
    case True
    then have "s # segs = replicate n Free @ drop n (s # segs)"
      by (metis append_take_drop_id)
    with True "2.prems" show ?thesis
      by (intro exI [of _ "[]"] exI [of _ "drop n (s # segs)"]) auto
  next
    case False
    with "2.prems" obtain b1 segs1 where
      b1: "a_alloc n segs = Some (b1, segs1)" "b = b1 + seg_len s" "segs' = s # segs1" by auto
    with "2.IH" [OF False b1(1)] "2.prems" obtain pre post where
      ih: "segs = pre @ replicate n Free @ post" "segs1 = pre @ Used n # post" "b1 = blocks pre"
        "\<forall>b'. fits (render segs) n b' \<longrightarrow> b1 \<le> b'" by auto
    have "b \<le> b'" if f: "fits (render (s # segs)) n b'" for b'
    proof (cases "seg_len s \<le> b'")
      case True
      with f have "fits (render segs) n (b' - seg_len s)" using fits_skip by force
      with ih(4) b1(2) True show ?thesis by fastforce
    next
      case c: False
      show ?thesis
      proof (cases s)
        case Free
        with c have "b' = 0" by simp
        with f have "fits (render (s # segs)) n 0" by simp
        with False fits_zero_Free_run "2.prems"(3) show ?thesis by fastforce
      next
        case (Used m)
        with c have "render (s # segs) ! b' \<in> set (seg_entries (Used m))"
          by (auto simp: nth_append intro!: nth_mem)
        moreover have "free_byte (render (s # segs) ! b')"
          using f "2.prems"(2) unfolding fits_def by (metis le_refl less_add_same_cancel1)
        ultimately show ?thesis using used_not_free by blast
      qed
    qed
    with ih b1 show ?thesis
      by (intro exI [of _ "s # pre"] exI [of _ post]) auto
  qed
qed

lemma a_alloc_Free_run:
  "\<exists>b segs'. a_alloc n (pre @ replicate n Free @ post) = Some (b, segs')" if "0 < n"
proof (induction pre)
  case Nil
  then show ?case using that by (cases n) auto
next
  case (Cons s pre)
  then show ?case by auto
qed

lemma fits_Free_run:
  assumes "fits (render segs) n b" and "0 < n" and "Used 0 \<notin> set segs"
  shows "\<exists>pre post. segs = pre @ replicate n Free @ post"
  using assms
proof (induction segs arbitrary: b)
  case Nil
  then show ?case by (simp add: fits_def)
next
  case (Cons s segs)
  show ?case
  proof (cases "seg_len s \<le> b")
    case True
    with Cons.prems(1) have "fits (render segs) n (b - seg_len s)" using fits_skip by force
    with Cons.IH [OF this] Cons.prems(2,3) obtain pre post where
      "segs = pre @ replicate n Free @ post" by auto
    then have "s # segs = (s # pre) @ replicate n Free @ post" by simp
    then show ?thesis by blast
  next
    case c: False
    show ?thesis
    proof (cases s)
      case Free
      with c have "b = 0" by simp
      with Cons.prems(1) have "fits (render (s # segs)) n 0" by simp
      with fits_zero_Free_run Cons.prems(3) have "\<exists>post. s # segs = [] @ replicate n Free @ post"
        by simp
      then show ?thesis by blast
    next
      case (Used m)
      with c have "render (s # segs) ! b \<in> set (seg_entries (Used m))"
        by (auto simp: nth_append intro!: nth_mem)
      moreover have "free_byte (render (s # segs) ! b)"
        using Cons.prems(1,2) unfolding fits_def by (metis le_refl less_add_same_cancel1)
      ultimately show ?thesis using used_not_free by blast
    qed
  qed
qed

lemma a_alloc_None:
  assumes "a_alloc n segs = None" and "0 < n" and "Used 0 \<notin> set segs"
  shows "\<not> fits (render segs) n b"
proof
  assume "fits (render segs) n b"
  then obtain pre post where "segs = pre @ replicate n Free @ post"
    using fits_Free_run assms by blast
  with a_alloc_Free_run [OF assms(2)] assms(1) show False by (metis option.distinct(1))
qed

end
