(* ===== verification/Heap_Refinement.thy ===== *)
theory Heap_Refinement
  imports Heap_Scan
begin

text \<open>
  The block table read back: the segments that a table renders, the addresses of live allocations
  and the number of free blocks, for \<^verbatim>\<open>src/src/memory/heap/heap.c\<close>.
\<close>

section \<open>The abstraction function\<close>

text \<open>Reading the table back: \<open>cur\<close> counts the blocks of the allocation being read.\<close>

fun parse :: "nat \<Rightarrow> u8 list \<Rightarrow> seg list" where
  "parse cur [] = []"
| "parse cur (e # es) =
     (if cur = 0 \<and> e = 0 then Free # parse 0 es
      else if e AND HEAP_BLOCK_HAS_NEXT = 0 then Used (Suc cur) # parse 0 es
      else parse (Suc cur) es)"

definition heap_segs :: "heap \<Rightarrow> seg list" where
  "heap_segs h = parse 0 (ht_entries (hp_table h))"

lemma parse_chain:
  "0 < cur \<Longrightarrow> parse cur (chain (Suc m) @ es) = Used (cur + Suc m) # parse 0 es"
  by (induction m arbitrary: cur) (simp_all add: chain_Suc chain_def)

lemma parse_render: "Used 0 \<notin> set segs \<Longrightarrow> parse 0 (render segs) = segs"
proof (induction segs)
  case Nil
  then show ?case by simp
next
  case (Cons s segs)
  show ?case
  proof (cases s)
    case Free
    with Cons show ?thesis by simp
  next
    case (Used n)
    with Cons.prems obtain m where m: "n = Suc m" by (cases n) auto
    show ?thesis
    proof (cases m)
      case 0
      with Cons Used m show ?thesis by (simp add: chain_def)
    next
      case (Suc k)
      with Cons Used m show ?thesis
        by (simp add: parse_chain [of 1 k, simplified])
    qed
  qed
qed

lemma heap_rep_segs: "heap_rep h segs \<Longrightarrow> heap_segs h = segs"
  by (simp add: heap_rep_def heap_segs_def parse_render)

lemma heap_inv_rep: "heap_inv h \<longleftrightarrow> heap_rep h (heap_segs h)"
  using heap_rep_segs by (auto simp: heap_inv_def)

definition block_addr :: "heap \<Rightarrow> nat \<Rightarrow> ptr" where
  "block_addr h b = hp_saddr h + of_nat (4096 * b)"

lemma unat_block_addr:
  assumes "heap_rep h segs" and "b \<le> blocks segs"
  shows "unat (block_addr h b) = unat (hp_saddr h) + 4096 * b"
proof -
  have lt: "unat (hp_saddr h) + 4096 * b < 4294967296"
    using assms by (simp add: heap_rep_def)
  then have "unat (of_nat (4096 * b) :: u32) = 4096 * b"
    by (intro unat_of_nat_u32) linarith
  with lt show ?thesis
    by (simp add: block_addr_def unat_word_ariths del: of_nat_mult)
qed

lemma block_addr_nonzero:
  assumes "heap_rep h segs" and "b \<le> blocks segs"
  shows "block_addr h b \<noteq> 0"
proof -
  have "unat (hp_saddr h) \<noteq> 0" using assms by (simp add: heap_rep_def unat_eq_zero)
  with unat_block_addr [OF assms] show ?thesis by (metis add_is_0 unat_0)
qed

lemma block_addr_inj:
  "heap_rep h segs \<Longrightarrow> b \<le> blocks segs \<Longrightarrow> b' \<le> blocks segs \<Longrightarrow>
   block_addr h b = block_addr h b' \<longleftrightarrow> b = b'"
  by (metis add_left_cancel mult_cancel1 unat_block_addr zero_neq_numeral)

lemma heap_address_to_block_eq:
  assumes "heap_rep h segs" and "b \<le> blocks segs"
  shows "heap_address_to_block h (block_addr h b) = int b"
proof -
  have lt: "4096 * b < 2147483648" using assms by (simp add: heap_rep_def)
  then have "unat (of_nat (4096 * b) :: u32) = 4096 * b"
    by (intro unat_of_nat_u32) linarith
  with lt have "sint (of_nat (4096 * b) :: u32) = int (4096 * b)"
    by (subst sint_u32_small) simp_all
  moreover have "block_addr h b - hp_saddr h = of_nat (4096 * b)"
    by (simp add: block_addr_def)
  moreover have "int (4096 * b) sdiv 4096 = int b" by (auto simp: signed_divide_int_def sgn_if)
  ultimately show ?thesis by (simp only: heap_address_to_block_def)
qed

lemma heap_block_to_address_eq: "heap_block_to_address h (int b) = block_addr h b"
  by (simp add: heap_block_to_address_def block_addr_def mult.commute)

section \<open>Allocation refines first fit\<close>

lemma heap_rep_update:
  assumes "heap_rep h segs" and "blocks segs' = blocks segs" and "Used 0 \<notin> set segs'"
  shows "heap_rep (h\<lparr>hp_table := (hp_table h)\<lparr>ht_entries := render segs'\<rparr>\<rparr>) segs'"
  using assms by (simp add: heap_rep_def)

lemma heap_mark_blocks_taken_eq:
  assumes "ht_entries (hp_table h) = xs @ ys @ zs" and "length ys = n" and "0 < n"
  shows "heap_mark_blocks_taken h (int (length xs)) (int n) =
    Some (h\<lparr>hp_table := (hp_table h)\<lparr>ht_entries := xs @ seg_entries (Used n) @ zs\<rparr>\<rparr>)"
proof -
  obtain m where m: "n = Suc m" using assms(3) by (cases n) auto
  then obtain y ys' where ys: "ys = y # ys'" "length ys' = m" using assms(2) by (cases ys) auto
  have "mark_taken_loop (xs @ y # ys' @ zs) (int (length xs)) (int (length xs + m)) (Suc m)
      (if m = 0 then 0x41 else 0xC1) = Some (xs @ (if m = 0 then 0x41 else 0xC1) # chain m @ zs)"
    by (rule mark_taken_loop_eq) (rule ys)
  moreover have "nat (int (length xs) + int n - 1 - int (length xs) + 1) = Suc m" using m by simp
  moreover have "int (length xs) + int n - 1 = int (length xs + m)" using m by simp
  moreover have "(if int n > 1 then (1 OR 64) OR 128 else 1 OR 64 :: u8) =
      (if m = 0 then 0x41 else 0xC1)" using m by simp
  ultimately show ?thesis
    by (simp only: heap_mark_blocks_taken_def Let_def assms(1) ys(1) append_Cons) (simp add: m)
qed

lemma heap_mark_blocks_taken_None:
  assumes "ht_entries (hp_table h) = xs @ ys" and "length ys < n"
  shows "heap_mark_blocks_taken h (int (length xs)) (int n) = None"
proof -
  obtain m where m: "n = Suc m" using assms(2) by (cases n) auto
  have "nat (int (length xs) + int n - 1 - int (length xs) + 1) = Suc m" using m by simp
  then have "mark_taken_loop (xs @ ys) (int (length xs)) e
      (nat (int (length xs) + int n - 1 - int (length xs) + 1)) x = None" for e x
    using mark_taken_loop_None [of ys m xs e x] assms(2) m by simp
  then show ?thesis
    by (simp only: heap_mark_blocks_taken_def Let_def assms(1) Option.bind.simps)
qed

lemma render_last_Free:
  "Used 0 \<notin> set segs \<Longrightarrow> trailing (render segs) = 0 \<longleftrightarrow> segs = [] \<or> last segs \<noteq> Free"
proof (cases segs rule: rev_cases)
  case Nil
  then show ?thesis by (simp add: trailing_def)
next
  case (snoc pre s)
  assume wf: "Used 0 \<notin> set segs"
  show ?thesis
  proof (cases s)
    case Free
    with snoc show ?thesis by (simp add: trailing_def)
  next
    case (Used n)
    with wf snoc have n: "seg_entries s \<noteq> []" by (cases n) auto
    then have "last (seg_entries s) \<in> set (seg_entries (Used n))" using Used by simp
    then have "\<not> free_byte (last (seg_entries s))" by (rule used_not_free)
    with n snoc Used show ?thesis
      by (cases "seg_entries s" rule: rev_cases) (simp_all add: trailing_def)
  qed
qed

lemma heap_rep_total:
  assumes "heap_rep h segs"
  shows "unat (ht_total (hp_table h)) = length (ht_entries (hp_table h))"
    and "length (ht_entries (hp_table h)) < 2147483648"
  using assms by (simp_all add: heap_rep_def)

lemma heap_malloc_blocks_hit:
  assumes rep: "heap_rep h segs" and n: "0 < unat tb"
    and alloc: "a_alloc (unat tb) segs = Some (b, segs')"
  shows "\<exists>h'. heap_malloc_blocks h tb = Some (block_addr h b, h') \<and> heap_rep h' segs' \<and>
    hp_saddr h' = hp_saddr h"
proof -
  have wf: "Used 0 \<notin> set segs" and es: "ht_entries (hp_table h) = render segs"
    using rep by (simp_all add: heap_rep_def)
  from a_alloc_Some [OF alloc n wf] obtain pre post where
    segs: "segs = pre @ replicate (unat tb) Free @ post" "segs' = pre @ Used (unat tb) # post"
    and b: "b = blocks pre" and least: "\<And>b'. fits (render segs) (unat tb) b' \<Longrightarrow> b \<le> b'"
    by blast
  have "fits (render segs) (unat tb) b"
    using fits_append_replicate [of "render pre"] segs b by simp
  with least n have "scan_result (render segs) (unat tb) = int b"
    by (auto simp: scan_result_def intro!: Least_equality)
  then have start: "heap_get_start_block h tb = Some (int b)"
    using heap_get_start_block_eq [OF heap_rep_total [OF rep]] es by (simp add: Let_def)
  have small: "sint tb = int (unat tb)"
    using rep segs by (intro sint_u32_small) (simp add: heap_rep_def)
  have "ht_entries (hp_table h) = render pre @ replicate (unat tb) 0 @ render post"
    using es segs by simp
  from heap_mark_blocks_taken_eq [OF this _ n] have
    mark: "heap_mark_blocks_taken h (int b) (sint tb) =
      Some (h\<lparr>hp_table := (hp_table h)\<lparr>ht_entries := render segs'\<rparr>\<rparr>)"
    using b segs small by simp
  have "heap_rep (h\<lparr>hp_table := (hp_table h)\<lparr>ht_entries := render segs'\<rparr>\<rparr>) segs'"
    using rep wf segs n by (intro heap_rep_update [OF rep]) auto
  with start mark show ?thesis
    by (simp add: heap_malloc_blocks_def heap_block_to_address_eq)
qed

lemma heap_malloc_blocks_miss:
  assumes rep: "heap_rep h segs" and n: "0 < unat tb" "unat tb < 2147483648"
    and alloc: "a_alloc (unat tb) segs = None"
  shows "heap_malloc_blocks h tb =
    (if segs = [] \<or> last segs \<noteq> Free then Some (0, h) else None)"
proof -
  let ?es = "render segs"
  have wf: "Used 0 \<notin> set segs" and es: "ht_entries (hp_table h) = render segs"
    using rep by (simp_all add: heap_rep_def)
  have nofit: "\<not> fits ?es (unat tb) b" for b
    using a_alloc_None [OF alloc n(1) wf] .
  then have scan: "scan_result ?es (unat tb) =
      (if trailing ?es = 0 then - 1 else int (length ?es - trailing ?es))"
    by (simp add: scan_result_def)
  have start: "heap_get_start_block h tb =
      Some (if trailing ?es = 0 then - 3 else int (length ?es - trailing ?es))"
    using heap_get_start_block_eq [OF heap_rep_total [OF rep]] es scan by (simp add: Let_def)
  show ?thesis
  proof (cases "trailing ?es = 0")
    case True
    with start render_last_Free [OF wf] show ?thesis by (simp add: heap_malloc_blocks_def)
  next
    case False
    let ?t = "trailing ?es"
    have t: "?t \<le> length ?es"
      unfolding trailing_def by (metis length_rev length_takeWhile_le)
    have "fits ?es ?t (length ?es - ?t)"
    proof -
      have "free_byte (?es ! j)" if "length ?es - ?t \<le> j" "j < length ?es" for j
      proof -
        have "rev ?es ! (length ?es - Suc j) = ?es ! j" using that by (simp add: rev_nth)
        moreover have "length ?es - Suc j < ?t" using that t False by linarith
        ultimately show ?thesis
          unfolding trailing_def by (metis nth_mem set_takeWhileD takeWhile_nth)
      qed
      with t show ?thesis by (simp add: fits_def)
    qed
    have "?t < unat tb"
    proof (rule ccontr)
      assume "\<not> ?t < unat tb"
      with \<open>fits ?es ?t (length ?es - ?t)\<close> have "fits ?es (unat tb) (length ?es - ?t)"
        by (auto simp: fits_def)
      with nofit show False by blast
    qed
    then have "heap_mark_blocks_taken h (int (length (take (length ?es - ?t) ?es)))
        (int (unat tb)) = None"
      using es t by (intro heap_mark_blocks_taken_None [where ys = "drop (length ?es - ?t) ?es"]) simp_all
    moreover have "sint tb = int (unat tb)" using n(2) by (rule sint_u32_small)
    ultimately show ?thesis
      using start False render_last_Free [OF wf] by (simp add: heap_malloc_blocks_def)
  qed
qed

section \<open>Sizes\<close>

lemma unat_minus_mod_page: "unat (w - w mod 4096 :: u32) = unat w - unat w mod 4096"
proof -
  have "unat (w mod 4096) = unat w mod 4096" by (simp add: unat_mod)
  moreover have "w mod 4096 \<le> w" by (simp add: word_le_nat_alt unat_mod)
  ultimately show ?thesis by (simp add: unat_sub)
qed

lemma mod_page_zero_iff: "(w :: u32) mod 4096 = 0 \<longleftrightarrow> unat w mod 4096 = 0"
  by (simp add: unat_eq_zero [symmetric] unat_mod)

definition blocks_for :: "u32 \<Rightarrow> nat" where
  "blocks_for sz = (unat sz + 4095) div 4096"

lemma page_split: "\<exists>q r. n = 4096 * q + r \<and> r < 4096" for n :: nat
  by (intro exI [of _ "n div 4096"] exI [of _ "n mod 4096"]) simp

lemma blocks_for_split:
  "unat sz = 4096 * q + r \<Longrightarrow> r < 4096 \<Longrightarrow> blocks_for sz = q + (if r = 0 then 0 else 1)"
  unfolding blocks_for_def by (intro div_nat_eqI) auto

lemma unat_align_upper:
  assumes "unat val \<le> 4294963200"
  shows "unat (heap_align_value_to_upper val) = 4096 * blocks_for val"
proof -
  obtain q r where v: "unat val = 4096 * q + r" and r: "r < 4096" using page_split by blast
  then have m: "unat val mod 4096 = r" by simp
  show ?thesis
  proof (cases "r = 0")
    case True
    with v m blocks_for_split [OF v r] show ?thesis
      by (simp add: heap_align_value_to_upper_def mod_page_zero_iff)
  next
    case False
    have "unat (val - val mod 4096 + 4096) = 4096 * q + 4096"
      using v m r assms False by (simp add: unat_word_ariths unat_minus_mod_page)
    with False v m blocks_for_split [OF v r] show ?thesis
      by (simp add: heap_align_value_to_upper_def mod_page_zero_iff)
  qed
qed

text \<open>Above 0xFFFFF000 the rounding wraps around to 0.\<close>

lemma align_upper_wraps:
  assumes "4294963200 < unat val"
  shows "heap_align_value_to_upper val = 0"
proof -
  have "unat val < 4294967296" by simp
  with assms have q: "unat val div 4096 = 1048575" by (intro div_nat_eqI) simp_all
  moreover have "unat val mod 4096 = unat val - 4096 * (unat val div 4096)"
    by (simp add: minus_mult_div_eq_mod)
  ultimately have r: "unat val mod 4096 = unat val - 4294963200" by simp
  with assms have nz: "val mod 4096 \<noteq> 0" by (simp add: mod_page_zero_iff)
  have "unat (val - val mod 4096) = 4294963200"
    using assms r by (simp add: unat_minus_mod_page)
  then have "unat (val - val mod 4096 + 4096) = 0" by (simp add: unat_word_ariths)
  with nz show ?thesis by (simp add: heap_align_value_to_upper_def unat_eq_zero)
qed

lemma heap_malloc_blocks_for:
  assumes "unat sz \<le> 4294963200"
  shows "unat (heap_align_value_to_upper sz div 4096) = blocks_for sz"
  using unat_align_upper [OF assms] by (simp add: unat_div)

section \<open>Live allocations\<close>

text \<open>The live allocations: base address and number of blocks.\<close>

definition heap_live :: "heap \<Rightarrow> (ptr \<times> nat) set" where
  "heap_live h = (\<lambda>(b, n). (block_addr h b, n)) ` set (extents 0 (heap_segs h))"

definition heap_avail :: "heap \<Rightarrow> nat" where
  "heap_avail h = count_list (heap_segs h) Free"

lemma extents_append [simp]:
  "extents b (xs @ ys) = extents b xs @ extents (b + blocks xs) ys"
  by (induction b xs rule: extents.induct) (simp_all add: add.assoc)

lemma extents_replicate_Free [simp]: "extents b (replicate n Free) = []"
  by (induction n arbitrary: b) auto

lemma extents_split:
  "(c, n) \<in> set (extents b segs) \<longleftrightarrow>
   (\<exists>pre post. segs = pre @ Used n # post \<and> c = b + blocks pre)"
proof (induction b segs rule: extents.induct)
  case (1 b)
  then show ?case by simp
next
  case (2 b segs)
  show ?case
  proof
    assume "(c, n) \<in> set (extents b (Free # segs))"
    then obtain pre post where "segs = pre @ Used n # post" "c = Suc b + blocks pre"
      using 2 by auto
    then have "Free # segs = (Free # pre) @ Used n # post \<and> c = b + blocks (Free # pre)" by simp
    then show "\<exists>pre post. Free # segs = pre @ Used n # post \<and> c = b + blocks pre"
      by blast
  qed (auto simp: 2 Cons_eq_append_conv)
next
  case (3 b m segs)
  show ?case
  proof
    assume "(c, n) \<in> set (extents b (Used m # segs))"
    then consider "c = b" "n = m" |
      pre post where "segs = pre @ Used n # post" "c = b + m + blocks pre"
      using 3 by auto
    then show "\<exists>pre post. Used m # segs = pre @ Used n # post \<and> c = b + blocks pre"
    proof cases
      case 1
      then have "Used m # segs = [] @ Used n # segs \<and> c = b + blocks []" by simp
    then show ?thesis by blast
    next
      case (2 pre post)
      then have "Used m # segs = (Used m # pre) @ Used n # post \<and> c = b + blocks (Used m # pre)" by simp
    then show ?thesis by blast
    qed
  qed (auto simp: 3 Cons_eq_append_conv)
qed

lemma extents_bounds:
  "(c, n) \<in> set (extents b segs) \<Longrightarrow> b \<le> c \<and> c + n \<le> b + blocks segs"
  by (auto simp: extents_split)

lemma extents_disjoint:
  "(c, n) \<in> set (extents b segs) \<Longrightarrow> (c', n') \<in> set (extents b segs) \<Longrightarrow>
   (c, n) \<noteq> (c', n') \<Longrightarrow> c + n \<le> c' \<or> c' + n' \<le> c"
proof (induction b segs rule: extents.induct)
  case (3 b m segs)
  then show ?case by (auto dest: extents_bounds)
qed auto

lemma extents_remove:
  assumes "Used 0 \<notin> set segs" and "segs = pre @ Used n # post"
  shows "set (extents 0 (pre @ replicate n Free @ post)) =
    set (extents 0 segs) - {(blocks pre, n)}"
proof -
  have "0 < n" using assms by (cases n) auto
  moreover have "(blocks pre, n) \<notin> set (extents 0 pre)"
    using \<open>0 < n\<close> by (auto dest!: extents_bounds)
  moreover have "(blocks pre, n) \<notin> set (extents (blocks pre + n) post)"
    using \<open>0 < n\<close> by (auto dest!: extents_bounds)
  ultimately show ?thesis using assms(2) by auto
qed

end
