(* ===== verification/Heap_Allocator.thy ===== *)
theory Heap_Allocator
  imports Heap_Refinement
begin

text \<open>
  Release and allocation on live extents, the allocator interface as a locale with its
  interpretation on the heap, the heap as a state machine, and the properties of the heap.
\<close>

section \<open>Release\<close>

lemma heap_free_rep:
  assumes rep: "heap_rep h segs" and segs: "segs = pre @ Used n # post"
  shows "\<exists>h'. heap_free h (block_addr h (blocks pre)) = Some h' \<and>
    heap_rep h' (pre @ replicate n Free @ post) \<and> hp_saddr h' = hp_saddr h"
proof -
  let ?segs' = "pre @ replicate n Free @ post"
  have n: "0 < n" using rep segs by (cases n) (auto simp: heap_rep_def)
  have blk: "heap_address_to_block h (block_addr h (blocks pre)) = int (blocks pre)"
    using segs by (intro heap_address_to_block_eq [OF rep]) simp
  have tot: "sint (ht_total (hp_table h)) = int (blocks segs)"
    using rep by (subst sint_u32_small) (simp_all add: heap_rep_def)
  let ?r = "nat (sint (ht_total (hp_table h)) - int (blocks pre))"
  have "n \<le> ?r" using tot segs by simp
  with n have "mark_free_loop (render pre @ seg_entries (Used n) @ render post)
      (int (length (render pre))) ?r = Some (render pre @ replicate n 0 @ render post)"
    by (rule mark_free_used)
  then have "mark_free_loop (ht_entries (hp_table h)) (int (blocks pre)) ?r =
      Some (render ?segs')"
    using rep segs by (simp add: heap_rep_def del: mark_free_loop.simps)
  with blk have "heap_free h (block_addr h (blocks pre)) =
      Some (h\<lparr>hp_table := (hp_table h)\<lparr>ht_entries := render ?segs'\<rparr>\<rparr>)"
    by (simp add: heap_free_def heap_mark_blocks_free_def)
  moreover have "heap_rep (h\<lparr>hp_table := (hp_table h)\<lparr>ht_entries := render ?segs'\<rparr>\<rparr>) ?segs'"
    using rep segs by (intro heap_rep_update [OF rep]) (auto simp: heap_rep_def)
  ultimately show ?thesis by simp
qed

lemma block_addr_saddr: "hp_saddr h' = hp_saddr h \<Longrightarrow> block_addr h' = block_addr h"
  by (simp add: block_addr_def fun_eq_iff)

lemma count_replicate_Free [simp]: "count_list (replicate n Free) Free = n"
  by (induction n) auto

lemma heap_live_iff:
  assumes rep: "heap_rep h (heap_segs h)" and c: "c \<le> blocks (heap_segs h)"
  shows "(block_addr h c, m) \<in> heap_live h \<longleftrightarrow> (c, m) \<in> set (extents 0 (heap_segs h))"
proof
  assume "(block_addr h c, m) \<in> heap_live h"
  then obtain b where b: "block_addr h c = block_addr h b" "(b, m) \<in> set (extents 0 (heap_segs h))"
    by (auto simp: heap_live_def)
  from b(2) have "b \<le> blocks (heap_segs h)" by (auto dest: extents_bounds)
  with b show "(c, m) \<in> set (extents 0 (heap_segs h))"
    using block_addr_inj [OF rep c] by simp
qed (auto simp: heap_live_def)

lemma inj_on_extents:
  assumes rep: "heap_rep h (heap_segs h)"
  shows "inj_on (\<lambda>(b, n). (block_addr h b, n)) (set (extents 0 (heap_segs h)))"
proof (rule inj_onI)
  fix x y :: "nat \<times> nat"
  obtain b n c m where xy: "x = (b, n)" "y = (c, m)" by (cases x; cases y)
  assume x: "x \<in> set (extents 0 (heap_segs h))" and y: "y \<in> set (extents 0 (heap_segs h))"
    and eq: "(case x of (b, n) \<Rightarrow> (block_addr h b, n)) = (case y of (b, n) \<Rightarrow> (block_addr h b, n))"
  have "b \<le> blocks (heap_segs h)" using x xy by (auto dest: extents_bounds)
  moreover have "c \<le> blocks (heap_segs h)" using y xy by (auto dest: extents_bounds)
  ultimately show "x = y" using eq xy block_addr_inj [OF rep] by simp
qed

lemma heap_free_live:
  assumes inv: "heap_inv h" and live: "(p, n) \<in> heap_live h"
  shows "\<exists>h'. heap_free h p = Some h' \<and> heap_inv h' \<and> hp_saddr h' = hp_saddr h \<and>
    heap_live h' = heap_live h - {(p, n)} \<and> heap_avail h' = heap_avail h + n"
proof -
  from inv have rep: "heap_rep h (heap_segs h)" by (simp add: heap_inv_rep)
  from live obtain b where b: "p = block_addr h b" "(b, n) \<in> set (extents 0 (heap_segs h))"
    by (auto simp: heap_live_def)
  then obtain pre post where segs: "heap_segs h = pre @ Used n # post" and bpre: "b = blocks pre"
    by (auto simp: extents_split)
  from heap_free_rep [OF rep segs] obtain h' where h': "heap_free h p = Some h'"
    "heap_rep h' (pre @ replicate n Free @ post)" "hp_saddr h' = hp_saddr h"
    using b bpre by auto
  let ?ext = "set (extents 0 (heap_segs h))" and ?f = "\<lambda>(b, n). (block_addr h b, n)"
  have inj: "inj_on ?f ?ext" using inj_on_extents [OF rep] .
  have "heap_live h' = ?f ` (?ext - {(b, n)})"
    using extents_remove [OF _ segs] rep h'(2) bpre heap_rep_segs [OF h'(2)]
    by (simp add: heap_live_def block_addr_saddr [OF h'(3)] heap_rep_def)
  also have "\<dots> = ?f ` ?ext - ?f ` {(b, n)}"
    using inj b(2) by (intro inj_on_image_set_diff [where C = ?ext]) auto
  also have "\<dots> = heap_live h - {(p, n)}" using b(1) by (simp add: heap_live_def)
  finally have "heap_live h' = heap_live h - {(p, n)}" .
  moreover have "heap_avail h' = heap_avail h + n"
    using segs heap_rep_segs [OF h'(2)] by (simp add: heap_avail_def)
  ultimately show ?thesis using h' by (auto simp: heap_inv_def)
qed

section \<open>Allocation\<close>

lemma heap_malloc_hit:
  assumes inv: "heap_inv h" and sz: "0 < blocks_for sz" "unat sz \<le> 4294963200"
    and alloc: "a_alloc (blocks_for sz) (heap_segs h) = Some (b, segs')"
  shows "\<exists>h'. heap_malloc h sz = Some (block_addr h b, h') \<and> heap_inv h' \<and>
    heap_segs h' = segs' \<and> hp_saddr h' = hp_saddr h"
proof -
  let ?tb = "heap_align_value_to_upper sz div 4096"
  have tb: "unat ?tb = blocks_for sz" using sz(2) by (rule heap_malloc_blocks_for)
  have rep: "heap_rep h (heap_segs h)" using inv by (simp add: heap_inv_rep)
  from heap_malloc_blocks_hit [OF rep, of ?tb b segs'] tb sz alloc heap_rep_segs
  show ?thesis by (fastforce simp: heap_malloc_def heap_inv_def)
qed

lemma blocks_for_le: "blocks_for sz \<le> 1048576"
proof -
  have "unat sz + 4095 < 1048577 * 4096" using unat_u32_bound [of sz] by linarith
  then have "blocks_for sz < 1048577" unfolding blocks_for_def by (rule less_mult_imp_div_less)
  then show ?thesis by simp
qed

lemma heap_malloc_miss:
  assumes inv: "heap_inv h" and sz: "0 < blocks_for sz" "unat sz \<le> 4294963200"
    and alloc: "a_alloc (blocks_for sz) (heap_segs h) = None"
  shows "heap_malloc h sz =
    (if heap_segs h = [] \<or> last (heap_segs h) \<noteq> Free then Some (0, h) else None)"
proof -
  let ?tb = "heap_align_value_to_upper sz div 4096"
  have tb: "unat ?tb = blocks_for sz" using sz(2) by (rule heap_malloc_blocks_for)
  have rep: "heap_rep h (heap_segs h)" using inv by (simp add: heap_inv_rep)
  from heap_malloc_blocks_miss [OF rep, of ?tb] tb sz alloc blocks_for_le [of sz]
  show ?thesis by (simp add: heap_malloc_def)
qed

lemma a_alloc_live:
  assumes "a_alloc n segs = Some (b, segs')" and "0 < n" and "Used 0 \<notin> set segs"
  shows "set (extents 0 segs') = insert (b, n) (set (extents 0 segs))"
    and "(b, m) \<notin> set (extents 0 segs)"
    and "count_list segs Free = count_list segs' Free + n"
    and "b + n \<le> blocks segs"
proof -
  from a_alloc_Some [OF assms] obtain pre post where
    *: "segs = pre @ replicate n Free @ post" "segs' = pre @ Used n # post" "b = blocks pre"
    by blast
  then show "set (extents 0 segs') = insert (b, n) (set (extents 0 segs))"
    and "count_list segs Free = count_list segs' Free + n" and "b + n \<le> blocks segs"
    by auto
  have wf: "Used 0 \<notin> set pre" "Used 0 \<notin> set post" using assms(3) * by auto
  show "(b, m) \<notin> set (extents 0 segs)"
  proof
    assume mem: "(b, m) \<in> set (extents 0 segs)"
    then have "0 < m" using assms(3) by (cases m) (auto simp: extents_split)
    with mem * assms(2) show False by (auto dest!: extents_bounds)
  qed
qed

text \<open>
  Where a run of free blocks is long enough, \<open>heap_malloc\<close> returns the first such run, and the
  live allocations grow by exactly that one.
\<close>

lemma heap_malloc_live:
  assumes inv: "heap_inv h" and sz: "0 < blocks_for sz" "unat sz \<le> 4294963200"
    and alloc: "a_alloc (blocks_for sz) (heap_segs h) = Some (b, segs')"
  shows "\<exists>p h'. heap_malloc h sz = Some (p, h') \<and> p = block_addr h b \<and> p \<noteq> 0 \<and> heap_inv h' \<and>
    hp_saddr h' = hp_saddr h \<and> heap_segs h' = segs' \<and> (\<forall>m. (p, m) \<notin> heap_live h) \<and>
    heap_live h' = insert (p, blocks_for sz) (heap_live h) \<and>
    heap_avail h = heap_avail h' + blocks_for sz"
proof -
  have rep: "heap_rep h (heap_segs h)" using inv by (simp add: heap_inv_rep)
  then have wf: "Used 0 \<notin> set (heap_segs h)" by (simp add: heap_rep_def)
  note al = a_alloc_live [OF alloc sz(1) wf]
  from heap_malloc_hit [OF assms] obtain h' where h': "heap_malloc h sz = Some (block_addr h b, h')"
    "heap_inv h'" "heap_segs h' = segs'" "hp_saddr h' = hp_saddr h" by blast
  have "(block_addr h b, m) \<notin> heap_live h" for m
    using al(2,4) heap_live_iff [OF rep, of b m] by simp
  moreover have "heap_live h' = insert (block_addr h b, blocks_for sz) (heap_live h)"
    using h'(3) al(1) by (simp add: heap_live_def block_addr_saddr [OF h'(4)])
  moreover have "block_addr h b \<noteq> 0" using al(4) by (intro block_addr_nonzero [OF rep]) simp
  moreover have "heap_avail h = heap_avail h' + blocks_for sz"
    using h'(3) al(3) by (simp add: heap_avail_def)
  ultimately show ?thesis using h' by blast
qed

text \<open>A request of no blocks: nothing is marked, whatever is returned.\<close>

lemma heap_malloc_blocks_zero: "heap_malloc_blocks h 0 = Some (p, h') \<Longrightarrow> h' = h"
  by (auto simp: heap_malloc_blocks_def heap_mark_blocks_taken_def split: Option.bind_splits if_splits)

section \<open>Geometry of the live allocations\<close>

lemma heap_live_geometry:
  assumes inv: "heap_inv h" and live: "(p, n) \<in> heap_live h"
  shows "p mod 4096 = 0" and "p \<noteq> 0" and "0 < n" and "unat (hp_saddr h) \<le> unat p"
    and "unat p + 4096 * n \<le> unat (hp_saddr h) + 4096 * unat (ht_total (hp_table h))"
    and "unat p + 4096 * n < 2147483648"
proof -
  have rep: "heap_rep h (heap_segs h)" using inv by (simp add: heap_inv_rep)
  from live obtain b where b: "p = block_addr h b" "(b, n) \<in> set (extents 0 (heap_segs h))"
    by (auto simp: heap_live_def)
  then have le: "b + n \<le> blocks (heap_segs h)" by (auto dest: extents_bounds)
  then have u: "unat p = unat (hp_saddr h) + 4096 * b"
    using unat_block_addr [OF rep, of b] b(1) by simp
  show "p \<noteq> 0" using block_addr_nonzero [OF rep, of b] b(1) le by simp
  show "0 < n" using b(2) rep by (cases n) (auto simp: extents_split heap_rep_def)
  have "unat (hp_saddr h) mod 4096 = 0" using rep by (simp add: heap_rep_def mod_page_zero_iff)
  then show "p mod 4096 = 0" using u by (simp add: mod_page_zero_iff mod_add_eq [symmetric])
  show "unat (hp_saddr h) \<le> unat p" using u by simp
  show "unat p + 4096 * n \<le> unat (hp_saddr h) + 4096 * unat (ht_total (hp_table h))"
    using u le rep by (simp add: heap_rep_def)
  show "unat p + 4096 * n < 2147483648" using u le rep by (simp add: heap_rep_def)
qed

lemma heap_live_apart:
  assumes inv: "heap_inv h" and "(p, n) \<in> heap_live h" and "(q, m) \<in> heap_live h"
    and ne: "(p, n) \<noteq> (q, m)"
  shows "unat p + 4096 * n \<le> unat q \<or> unat q + 4096 * m \<le> unat p"
proof -
  have rep: "heap_rep h (heap_segs h)" using inv by (simp add: heap_inv_rep)
  from assms obtain b c where
    b: "p = block_addr h b" "(b, n) \<in> set (extents 0 (heap_segs h))" and
    c: "q = block_addr h c" "(c, m) \<in> set (extents 0 (heap_segs h))"
    by (auto simp: heap_live_def)
  then have "b + n \<le> c \<or> c + m \<le> b" using ne by (intro extents_disjoint) auto
  moreover have "b \<le> blocks (heap_segs h)" "c \<le> blocks (heap_segs h)"
    using b c by (auto dest: extents_bounds)
  ultimately show ?thesis
    using unat_block_addr [OF rep] b(1) c(1) by fastforce
qed

section \<open>Frame\<close>

definition with_entries :: "heap \<Rightarrow> u8 list \<Rightarrow> heap" where
  "with_entries h es = h\<lparr>hp_table := (hp_table h)\<lparr>ht_entries := es\<rparr>\<rparr>"

lemma with_entries_with [simp]: "with_entries (with_entries h es) es' = with_entries h es'"
  by (simp add: with_entries_def)

lemma with_entries_same: "with_entries h (ht_entries (hp_table h)) = h"
  by (simp add: with_entries_def)

lemma heap_mark_blocks_taken_frame:
  "heap_mark_blocks_taken h b n = Some h' \<Longrightarrow> \<exists>es. h' = with_entries h es"
  by (auto simp: heap_mark_blocks_taken_def Let_def with_entries_def split: Option.bind_splits)

lemma heap_malloc_frame:
  assumes "heap_malloc h sz = Some (p, h')"
  shows "\<exists>es. h' = with_entries h es"
proof -
  from assms have "h' = h \<or> (\<exists>b n. heap_mark_blocks_taken h b n = Some h')"
    by (auto simp: heap_malloc_def heap_malloc_blocks_def Let_def split: Option.bind_splits if_splits)
  then show ?thesis
    using with_entries_same [of h] heap_mark_blocks_taken_frame by metis
qed

lemma heap_free_frame: "heap_free h p = Some h' \<Longrightarrow> \<exists>es. h' = with_entries h es"
  by (auto simp: heap_free_def heap_mark_blocks_free_def with_entries_def
      split: Option.bind_splits)

lemma heap_inv_eqI:
  assumes "heap_inv h" and "h' = with_entries h es" and "heap_inv h'"
    and "heap_segs h' = heap_segs h"
  shows "h' = h"
proof -
  have "ht_entries (hp_table h') = ht_entries (hp_table h)"
    using assms by (simp add: heap_inv_rep heap_rep_def)
  moreover have "ht_entries (hp_table h') = es" using assms(2) by (simp add: with_entries_def)
  ultimately show ?thesis using assms(2) with_entries_same [of h] by simp
qed

lemma blocks_for_pos: "sz \<noteq> 0 \<longleftrightarrow> 0 < blocks_for sz"
  by (simp add: blocks_for_def unat_gt_0 [symmetric] div_greater_zero_iff) linarith

section \<open>The allocator interface\<close>

text \<open>
  What the rest of the kernel relies on: requests of at most one block. Every client of the
  kernel heap that allocates a struct, a page table or a path buffer makes such requests.
\<close>

locale block_allocator =
  fixes malloc :: "u32 \<Rightarrow> 's \<Rightarrow> (ptr \<times> 's) option"
    and free :: "ptr \<Rightarrow> 's \<Rightarrow> 's option"
    and live :: "'s \<Rightarrow> (ptr \<times> nat) set"
    and avail :: "'s \<Rightarrow> nat"
    and inv :: "'s \<Rightarrow> bool"
  assumes malloc_avail: "inv s \<Longrightarrow> sz \<noteq> 0 \<Longrightarrow> unat sz \<le> 4096 \<Longrightarrow> 0 < avail s \<Longrightarrow>
      \<exists>p s'. malloc sz s = Some (p, s') \<and> inv s' \<and> p \<noteq> 0 \<and> (\<forall>m. (p, m) \<notin> live s) \<and>
        live s' = insert (p, 1) (live s) \<and> avail s = Suc (avail s')"
    and malloc_full: "inv s \<Longrightarrow> sz \<noteq> 0 \<Longrightarrow> unat sz \<le> 4096 \<Longrightarrow> avail s = 0 \<Longrightarrow>
      malloc sz s = Some (0, s)"
    and free_live: "inv s \<Longrightarrow> (p, n) \<in> live s \<Longrightarrow>
      \<exists>s'. free p s = Some s' \<and> inv s' \<and> live s' = live s - {(p, n)} \<and> avail s' = avail s + n"
    and live_aligned: "inv s \<Longrightarrow> (p, n) \<in> live s \<Longrightarrow> p mod 4096 = 0 \<and> p \<noteq> 0 \<and> 0 < n"
    and live_apart: "inv s \<Longrightarrow> (p, n) \<in> live s \<Longrightarrow> (q, m) \<in> live s \<Longrightarrow> (p, n) \<noteq> (q, m) \<Longrightarrow>
      unat p + 4096 * n \<le> unat q \<or> unat q + 4096 * m \<le> unat p"
begin

text \<open>A request of at most one block never fails in an undefined way.\<close>

lemma malloc_total:
  assumes "inv s" and "sz \<noteq> 0" and "unat sz \<le> 4096"
  shows "\<exists>p s'. malloc sz s = Some (p, s') \<and> inv s' \<and> (p = 0 \<longleftrightarrow> avail s = 0)"
  using malloc_avail [OF assms] malloc_full [OF assms] assms(1) by (cases "avail s") auto

lemma malloc_then_free:
  assumes "inv s" and "sz \<noteq> 0" and "unat sz \<le> 4096" and "malloc sz s = Some (p, s')" and "p \<noteq> 0"
  shows "\<exists>s''. free p s' = Some s'' \<and> inv s'' \<and> live s'' = live s \<and> avail s'' = avail s"
proof -
  have "0 < avail s" using malloc_full [OF assms(1-3)] assms(4,5) by (cases "avail s") auto
  from malloc_avail [OF assms(1-3) this] assms(4) have
    s': "inv s'" "\<forall>m. (p, m) \<notin> live s" "live s' = insert (p, 1) (live s)" "avail s = Suc (avail s')"
    by auto
  with free_live [of s' p 1] show ?thesis by auto
qed

text \<open>Two live allocations at one address are the same allocation.\<close>

lemma live_unique:
  assumes "inv s" and "(p, n) \<in> live s" and "(p, m) \<in> live s"
  shows "n = m"
  using live_apart [OF assms] live_aligned [OF assms(1,2)] live_aligned [OF assms(1,3)] by auto

end

lemma a_alloc_one: "a_alloc (Suc 0) segs = None \<longleftrightarrow> count_list segs Free = 0"
  by (induction segs) auto

lemma blocks_for_small: "sz \<noteq> 0 \<Longrightarrow> unat sz \<le> 4096 \<Longrightarrow> blocks_for sz = 1"
  unfolding blocks_for_def by (intro div_nat_eqI) (auto simp: unat_gt_0 [symmetric] simp del: unat_gt_0)

lemma count_Free_last: "count_list segs Free = 0 \<Longrightarrow> segs = [] \<or> last segs \<noteq> Free"
  by (metis count_list_0_iff last_in_set)

interpretation kh: block_allocator "\<lambda>sz h. heap_malloc h sz" "\<lambda>p h. heap_free h p"
  heap_live heap_avail heap_inv
proof unfold_locales
  fix s :: heap and sz :: u32
  assume s: "heap_inv s" and sz: "sz \<noteq> 0" "unat sz \<le> 4096" and av: "0 < heap_avail s"
  have n: "blocks_for sz = 1" using sz by (rule blocks_for_small)
  from av obtain b segs' where "a_alloc (Suc 0) (heap_segs s) = Some (b, segs')"
    using a_alloc_one [of "heap_segs s"] by (auto simp: heap_avail_def)
  with heap_malloc_live [OF s, of sz b segs'] n sz
  show "\<exists>p s'. heap_malloc s sz = Some (p, s') \<and> heap_inv s' \<and> p \<noteq> 0 \<and>
      (\<forall>m. (p, m) \<notin> heap_live s) \<and> heap_live s' = insert (p, 1) (heap_live s) \<and>
      heap_avail s = Suc (heap_avail s')" by auto
next
  fix s :: heap and sz :: u32
  assume s: "heap_inv s" and sz: "sz \<noteq> 0" "unat sz \<le> 4096" and av: "heap_avail s = 0"
  have n: "blocks_for sz = 1" using sz by (rule blocks_for_small)
  from av have "a_alloc (Suc 0) (heap_segs s) = None" by (simp add: a_alloc_one heap_avail_def)
  with heap_malloc_miss [OF s, of sz] n sz count_Free_last [of "heap_segs s"] av
  show "heap_malloc s sz = Some (0, s)" by (simp add: heap_avail_def)
qed (auto dest: heap_free_live heap_live_geometry heap_live_apart)

section \<open>The heap as a state machine\<close>

text \<open>Any sequence of allocations, and of releases of live allocations.\<close>

inductive heap_step :: "heap \<Rightarrow> heap \<Rightarrow> bool" where
  malloc_step: "heap_malloc h sz = Some (p, h') \<Longrightarrow> heap_step h h'"
| free_step: "(p, n) \<in> heap_live h \<Longrightarrow> heap_free h p = Some h' \<Longrightarrow> heap_step h h'"

inductive heap_reachable :: "heap \<Rightarrow> heap \<Rightarrow> bool" for h0 where
  reach_start: "heap_reachable h0 h0"
| reach_step: "heap_reachable h0 h \<Longrightarrow> heap_step h h' \<Longrightarrow> heap_reachable h0 h'"

lemma heap_malloc_no_blocks:
  assumes "sz = 0 \<or> 4294963200 < unat sz"
  shows "heap_malloc h sz = heap_malloc_blocks h 0"
proof -
  have "heap_align_value_to_upper sz = 0"
    using assms align_upper_wraps [of sz] by (cases "sz = 0") (auto simp: heap_align_value_to_upper_def [of 0])
  then show ?thesis by (simp add: heap_malloc_def)
qed

lemma heap_step_inv: "heap_step h h' \<Longrightarrow> heap_inv h \<Longrightarrow> heap_inv h'"
proof (induction rule: heap_step.induct)
  case (malloc_step h sz p h')
  show ?case
  proof (cases "sz = 0 \<or> 4294963200 < unat sz")
    case True
    with malloc_step show ?thesis
      using heap_malloc_blocks_zero heap_malloc_no_blocks by metis
  next
    case False
    then have sz: "0 < blocks_for sz" "unat sz \<le> 4294963200" by (auto simp: blocks_for_pos)
    show ?thesis
    proof (cases "a_alloc (blocks_for sz) (heap_segs h)")
      case None
      with heap_malloc_miss [OF malloc_step(2) sz] malloc_step show ?thesis by (auto split: if_splits)
    next
      case (Some r)
      then obtain b segs' where "a_alloc (blocks_for sz) (heap_segs h) = Some (b, segs')"
        by (cases r) auto
      with heap_malloc_hit [OF malloc_step(2) sz] malloc_step show ?thesis by fastforce
    qed
  qed
next
  case (free_step p n h h')
  with heap_free_live [of h p n] show ?case by auto
qed

lemma heap_reachable_inv: "heap_reachable h0 h \<Longrightarrow> heap_inv h0 \<Longrightarrow> heap_inv h"
  by (induction rule: heap_reachable.induct) (auto dest: heap_step_inv)

section \<open>Properties\<close>

text \<open>Sample heaps, on which the properties are applied.\<close>

definition sample_heap :: "seg list \<Rightarrow> heap" where
  "sample_heap segs =
     \<lparr>hp_table = \<lparr>ht_entries = render segs, ht_total = of_nat (blocks segs)\<rparr>,
      hp_saddr = PEACHOS_HEAP_ADDRESS\<rparr>"

lemma sample_heap_rep:
  "Used 0 \<notin> set segs \<Longrightarrow> blocks segs \<le> 100000 \<Longrightarrow> heap_rep (sample_heap segs) segs"
  by (simp add: heap_rep_def sample_heap_def unat_of_nat_u32)

lemma sample_heap_inv:
  "Used 0 \<notin> set segs \<Longrightarrow> blocks segs \<le> 100000 \<Longrightarrow>
   heap_inv (sample_heap segs) \<and> heap_segs (sample_heap segs) = segs"
  using sample_heap_rep heap_rep_segs by (auto simp: heap_inv_def)

lemma a_free_split:
  "Used 0 \<notin> set (pre @ Used n # post) \<Longrightarrow>
   a_free (blocks pre) (pre @ Used n # post) = pre @ replicate n Free @ post"
proof (induction pre)
  case (Cons s pre)
  then have "0 < seg_len s" by (cases s) auto
  with Cons show ?case by simp
qed simp

text \<open>
  C4. \<^verbatim>\<open>heap_malloc\<close> implements first-fit allocation on the abstract heap: it returns the
  address of the lowest run of free blocks that is long enough and turns exactly that run into
  an allocation; where no run is long enough it returns null and changes nothing, except when
  the pool ends in free blocks, where it writes past the end of its table.
\<close>

theorem heap_malloc_refines:
  assumes "heap_inv h" and "sz \<noteq> 0" and "unat sz \<le> 4294963200"
  shows "map_option (\<lambda>(p, h'). (p, heap_segs h')) (heap_malloc h sz) =
    (case a_alloc (blocks_for sz) (heap_segs h) of
       Some (b, segs') \<Rightarrow> Some (block_addr h b, segs')
     | None \<Rightarrow> if heap_segs h = [] \<or> last (heap_segs h) \<noteq> Free then Some (0, heap_segs h)
               else None)"
  using heap_malloc_hit [OF assms(1) _ assms(3)] heap_malloc_miss [OF assms(1) _ assms(3)] assms(2)
  by (fastforce simp: blocks_for_pos split: option.split)

lemma heap_malloc_refines_witness:
  "map_option (\<lambda>(p, h'). (p, heap_segs h')) (heap_malloc (sample_heap [Free, Used 2, Free, Free]) 5000) =
    Some (0x01003000, [Free, Used 2, Used 2])"
proof -
  let ?h = "sample_heap [Free, Used 2, Free, Free]"
  have inv: "heap_inv ?h" "heap_segs ?h = [Free, Used 2, Free, Free]"
    using sample_heap_inv [of "[Free, Used 2, Free, Free]"] by simp_all
  have "a_alloc 2 [Free, Used 2, Free, Free] = Some (3, [Free, Used 2, Used 2])" by code_simp
  then show ?thesis
    using heap_malloc_refines [OF inv(1), of 5000] inv(2)
    by (simp add: blocks_for_def block_addr_def sample_heap_def del: a_alloc.simps)
qed

text \<open>
  C5. \<^verbatim>\<open>heap_free\<close> of a live allocation implements the abstract release: exactly its blocks
  become free again, and every other allocation stays as it is.
\<close>

theorem heap_free_refines:
  assumes "heap_inv h" and "(b, n) \<in> set (extents 0 (heap_segs h))"
  shows "\<exists>h'. heap_free h (block_addr h b) = Some h' \<and> heap_inv h' \<and>
    heap_segs h' = a_free b (heap_segs h) \<and>
    heap_live h' = heap_live h - {(block_addr h b, n)}"
proof -
  have rep: "heap_rep h (heap_segs h)" using assms(1) by (simp add: heap_inv_rep)
  from assms(2) obtain pre post where s: "heap_segs h = pre @ Used n # post" "b = blocks pre"
    by (auto simp: extents_split)
  have "Used 0 \<notin> set (pre @ Used n # post)" using rep s by (simp add: heap_rep_def)
  then have "a_free b (heap_segs h) = pre @ replicate n Free @ post"
    unfolding s by (rule a_free_split)
  moreover have "(block_addr h b, n) \<in> heap_live h"
    using assms(2) by (auto simp: heap_live_def)
  ultimately show ?thesis
    using heap_free_rep [OF rep s(1)] heap_free_live [OF assms(1)] s(2) heap_rep_segs by fastforce
qed

lemma heap_free_refines_witness:
  "\<exists>h'. heap_free (sample_heap [Free, Used 2, Free]) 0x01001000 = Some h' \<and>
    heap_segs h' = [Free, Free, Free, Free]"
proof -
  have fr: "a_free 1 [Free, Used 2, Free] = [Free, Free, Free, Free]" by code_simp
  have "block_addr (sample_heap [Free, Used 2, Free]) 1 = 0x01001000"
    by (simp add: block_addr_def sample_heap_def)
  then show ?thesis
    using heap_free_refines [of "sample_heap [Free, Used 2, Free]" 1 2] fr
      sample_heap_inv [of "[Free, Used 2, Free]"] by auto
qed

text \<open>
  C6. Releasing an allocation right after it was made restores the heap exactly, byte for byte.
\<close>

theorem heap_malloc_free_roundtrip:
  assumes "heap_inv h" and "sz \<noteq> 0" and "unat sz \<le> 4294963200"
    and "heap_malloc h sz = Some (p, h')" and "p \<noteq> 0"
  shows "heap_free h' p = Some h"
proof -
  have sz: "0 < blocks_for sz" using assms(2) by (simp add: blocks_for_pos)
  obtain b segs' where alloc: "a_alloc (blocks_for sz) (heap_segs h) = Some (b, segs')"
    using heap_malloc_miss [OF assms(1) sz assms(3)] assms(4,5)
    by (cases "a_alloc (blocks_for sz) (heap_segs h)") (auto split: if_splits)
  have wf: "Used 0 \<notin> set (heap_segs h)"
    using assms(1) by (simp add: heap_inv_rep heap_rep_def)
  from a_alloc_Some [OF alloc sz wf] obtain pre post where s:
    "heap_segs h = pre @ replicate (blocks_for sz) Free @ post"
    "segs' = pre @ Used (blocks_for sz) # post" "b = blocks pre" by blast
  from heap_malloc_hit [OF assms(1) sz assms(3) alloc] assms(4) have h':
    "p = block_addr h b" "heap_inv h'" "heap_segs h' = segs'" "hp_saddr h' = hp_saddr h" by auto
  then have rep': "heap_rep h' (heap_segs h')" by (simp add: heap_inv_rep)
  from heap_free_rep [OF rep' h'(3) [unfolded s(2)]] obtain h'' where
    h'': "heap_free h' p = Some h''" "heap_rep h'' (heap_segs h)"
    using h'(1) s by (auto simp: block_addr_saddr [OF h'(4)])
  have "\<exists>es. h'' = with_entries h es"
    using heap_malloc_frame [OF assms(4)] heap_free_frame [OF h''(1)] by auto
  then have "h'' = h"
    using heap_inv_eqI [OF assms(1)] h''(2) heap_rep_segs by (auto simp: heap_inv_def)
  with h''(1) show ?thesis by simp
qed

lemma heap_malloc_free_roundtrip_witness:
  "\<exists>h'. heap_malloc (sample_heap [Used 1, Free, Free]) 8192 = Some (0x01001000, h') \<and>
    heap_free h' 0x01001000 = Some (sample_heap [Used 1, Free, Free])"
proof -
  let ?h = "sample_heap [Used 1, Free, Free]"
  have inv: "heap_inv ?h" "heap_segs ?h = [Used 1, Free, Free]"
    using sample_heap_inv [of "[Used 1, Free, Free]"] by simp_all
  have al: "a_alloc 2 [Used 1, Free, Free] = Some (1, [Used 1, Used 2])" by code_simp
  obtain h' where h': "heap_malloc ?h 8192 = Some (0x01001000, h')"
    using heap_malloc_hit [OF inv(1), of 8192] inv(2) al
    by (auto simp: blocks_for_def block_addr_def sample_heap_def simp del: a_alloc.simps)
  then have "heap_free h' 0x01001000 = Some ?h"
    by (intro heap_malloc_free_roundtrip [OF inv(1) _ _ h']) simp_all
  with h' show ?thesis by blast
qed

text \<open>
  C7. However the kernel interleaves allocations of any size with releases of live
  allocations, two live allocations never share a byte, and each is page-aligned, non-null and
  lies inside the pool.
\<close>

theorem heap_reachable_apart:
  assumes "heap_inv h0" and "heap_reachable h0 h" and "(p, n) \<in> heap_live h"
  shows "p \<noteq> 0 \<and> p mod 4096 = 0 \<and> 0 < n \<and> unat (hp_saddr h) \<le> unat p \<and>
    unat p + 4096 * n \<le> unat (hp_saddr h) + 4096 * unat (ht_total (hp_table h)) \<and>
    (\<forall>(q, m) \<in> heap_live h - {(p, n)}.
       unat p + 4096 * n \<le> unat q \<or> unat q + 4096 * m \<le> unat p)"
proof -
  have inv: "heap_inv h" using heap_reachable_inv [OF assms(2,1)] .
  with assms(3) kh.live_apart [OF inv assms(3)] heap_live_geometry [OF inv assms(3)]
  show ?thesis by auto
qed

lemma heap_reachable_apart_witness:
  "\<exists>h. heap_reachable (sample_heap [Free, Free]) h \<and> (0x01000000, 1) \<in> heap_live h \<and>
    (0x01000000 :: ptr) mod 4096 = 0 \<and> unat (hp_saddr h) \<le> unat (0x01000000 :: ptr)"
proof -
  let ?h0 = "sample_heap [Free, Free]"
  have inv: "heap_inv ?h0" "heap_segs ?h0 = [Free, Free]"
    using sample_heap_inv [of "[Free, Free]"] by simp_all
  have al: "a_alloc 1 [Free, Free] = Some (0, [Used 1, Free])" by code_simp
  obtain h where h: "heap_malloc ?h0 12 = Some (0x01000000, h)" "(0x01000000, 1) \<in> heap_live h"
    using heap_malloc_live [OF inv(1), of 12] inv(2) al
    by (auto simp: blocks_for_def block_addr_def sample_heap_def simp del: a_alloc.simps)
  then have r: "heap_reachable ?h0 h"
    using heap_reachable.intros heap_step.malloc_step by metis
  from heap_reachable_apart [OF inv(1) r h(2)] r h(2) show ?thesis by auto
qed

text \<open>
  C8. A request of at most one page is always defined: it returns null exactly when no block is
  free, and otherwise a fresh block.
\<close>

theorem heap_malloc_page_total:
  assumes "heap_inv h" and "sz \<noteq> 0" and "unat sz \<le> 4096"
  shows "\<exists>p h'. heap_malloc h sz = Some (p, h') \<and> heap_inv h' \<and> (p = 0 \<longleftrightarrow> heap_avail h = 0)"
  using assms by (rule kh.malloc_total)

lemma heap_malloc_page_total_witness:
  "\<exists>p h'. heap_malloc (sample_heap [Used 3]) 108 = Some (p, h') \<and>
    (p = 0 \<longleftrightarrow> heap_avail (sample_heap [Used 3]) = 0)"
  using heap_malloc_page_total [of "sample_heap [Used 3]" 108] sample_heap_inv [of "[Used 3]"]
  by auto

text \<open>
  C9. A request of 0 bytes, and one above 0xFFFFF000 bytes whose rounding wraps around to 0,
  reserves no block, yet returns a non-null address whenever the last block of the pool is free.
\<close>

theorem heap_malloc_reserves_nothing:
  assumes "heap_inv h" and "heap_segs h = pre @ [Free]" and "sz = 0 \<or> 4294963200 < unat sz"
  shows "\<exists>p. heap_malloc h sz = Some (p, h) \<and> p \<noteq> 0"
proof -
  have rep: "heap_rep h (heap_segs h)" using assms(1) by (simp add: heap_inv_rep)
  then have es: "ht_entries (hp_table h) = render pre @ [0]" "Used 0 \<notin> set (pre @ [Free])"
    and len: "length (ht_entries (hp_table h)) = blocks (heap_segs h)"
    using assms(2) by (simp_all add: heap_rep_def)
  let ?t = "trailing (ht_entries (hp_table h))"
  have t: "?t \<noteq> 0" using es by (simp add: trailing_def)
  let ?b = "length (ht_entries (hp_table h)) - ?t"
  have start: "heap_get_start_block h 0 = Some (int ?b)"
    using heap_get_start_block_eq [OF heap_rep_total [OF rep], of 0] t
    by (simp add: scan_result_def Let_def)
  then have "heap_malloc_blocks h 0 = Some (block_addr h ?b, h)"
    by (simp add: heap_malloc_blocks_def heap_mark_blocks_taken_def heap_block_to_address_eq)
  moreover have "block_addr h ?b \<noteq> 0"
    using len by (intro block_addr_nonzero [OF rep]) simp
  ultimately show ?thesis using heap_malloc_no_blocks [OF assms(3)] by simp
qed

lemma heap_malloc_reserves_nothing_witness:
  "\<exists>p. heap_malloc (sample_heap [Used 1, Free]) 0xFFFFF001 = Some (p, sample_heap [Used 1, Free]) \<and>
    p \<noteq> 0"
  by (rule heap_malloc_reserves_nothing [where pre = "[Used 1]"])
    (use sample_heap_inv [of "[Used 1, Free]"] in \<open>simp_all\<close>)

end
