(* ===== verification/Objects.thy ===== *)
theory Objects
  imports Prelude
begin

text \<open>
  The C objects that live in kernel heap memory. A pointer is the address of the first byte of
  an object and the store maps it to the object's contents; a struct is a record with the
  fields of the C declaration. \<open>ORaw\<close> is memory of which some bytes are not initialised, \<open>OBytes\<close> a
  character or byte buffer, \<open>OWords\<close> an array of 32-bit words (a page directory or a page
  table).

  The two objects that are globals and not heap memory are named and not addressed: a
  \<^verbatim>\<open>struct disk*\<close> is null or \<^verbatim>\<open>&disk\<close> of \<^verbatim>\<open>disk.c\<close>, and a \<^verbatim>\<open>struct filesystem*\<close> is null or
  \<^verbatim>\<open>&fat16_fs\<close> of \<^verbatim>\<open>fat16.c\<close>, the only filesystem the kernel has.
\<close>

datatype disk_ref = NullDisk | TheDisk

datatype fs_ref = NullFs | Fat16Fs

section \<open>Paging, paths and streams\<close>

record paging_4gb_chunk =
  directory_entry :: ptr

record path_root =
  drive_no :: int
  first_part :: ptr

record path_part =
  part :: ptr
  next_part :: ptr

record disk_stream =
  ds_pos :: int
  ds_disk :: disk_ref

section \<open>Files\<close>

record file_descriptor =
  fd_index :: int
  fd_filesystem :: fs_ref
  fd_private :: ptr
  fd_disk :: disk_ref

record file_stat =
  st_flags :: u32
  st_filesize :: u32

record fat_directory =
  fdir_item :: ptr
  fdir_total :: int
  sector_pos :: int
  ending_sector_pos :: int

text \<open>The anonymous union of \<^verbatim>\<open>struct fat_item\<close> is one pointer, read by \<^verbatim>\<open>type\<close>.\<close>

record fat_item =
  fi_ptr :: ptr
  fi_type :: u32

record fat_file_descriptor =
  ffd_item :: ptr
  ffd_pos :: u32

text \<open>The packed \<^verbatim>\<open>struct fat_h\<close> is its 62 bytes, as they are read from the disk.\<close>

record fat_private =
  fp_header :: "u8 list"
  root_directory :: fat_directory
  cluster_read_stream :: ptr
  fat_read_stream :: ptr
  directory_stream :: ptr

section \<open>Tasks and processes\<close>

record registers =
  r_edi :: u32
  r_esi :: u32
  r_ebp :: u32
  r_ebx :: u32
  r_edx :: u32
  r_ecx :: u32
  r_eax :: u32
  r_ip :: u32
  r_cs :: u32
  r_flags :: u32
  r_esp :: u32
  r_ss :: u32

record task =
  page_directory :: ptr
  task_registers :: registers
  task_process :: ptr
  task_nxt :: ptr
  task_prv :: ptr

text \<open>
  Of \<^verbatim>\<open>struct process\<close> the fields that the code uses: the allocation table, the keyboard
  buffer and the arguments are only zeroed.
\<close>

record process =
  pr_id :: u16
  pr_filename :: "u8 list"
  pr_task :: ptr
  pr_filetype :: u8
  pr_ptr :: ptr
  pr_stack :: ptr
  pr_size :: u32

text \<open>Of \<^verbatim>\<open>struct elf_file\<close> the fields that the code uses.\<close>

record elf_file =
  elf_mem :: ptr
  virtual_base_address :: ptr
  virtual_end_address :: ptr
  physical_base_address :: ptr
  physical_end_address :: ptr

section \<open>The contents of a heap object\<close>

datatype obj =
    ORaw "u8 option list"
  | OBytes "u8 list"
  | OWords "u32 list"
  | OChunk paging_4gb_chunk
  | OPathRoot path_root
  | OPathPart path_part
  | OStream disk_stream
  | OFileDesc file_descriptor
  | OFatPrivate fat_private
  | OFatDir fat_directory
  | OFatItem fat_item
  | OFatFd fat_file_descriptor
  | OTask task
  | OProcess process
  | OElfFile elf_file

text \<open>\<open>n\<close> bytes as the allocator hands them out.\<close>

abbreviation OUndef :: "nat \<Rightarrow> obj" where
  "OUndef n \<equiv> ORaw (replicate n None)"

text \<open>An object as plain memory, and plain memory as a buffer once every byte of it is written.\<close>

fun as_memory :: "obj \<Rightarrow> u8 option list option" where
  "as_memory (ORaw m) = Some m"
| "as_memory (OBytes bs) = Some (map Some bs)"
| "as_memory _ = None"

definition of_memory :: "u8 option list \<Rightarrow> obj" where
  "of_memory m = (if None \<in> set m then ORaw m else OBytes (map the m))"

lemma of_memory_written [simp]: "of_memory (replicate n (Some x)) = OBytes (replicate n x)"
  by (simp add: of_memory_def)

text \<open>
  \<open>zeroed z n\<close>: n zero bytes are the object \<open>z\<close>, which fits into them and has only zero fields. The
  structs of which the model leaves out fields are given with their size in C.
\<close>

fun zeroed :: "obj \<Rightarrow> nat \<Rightarrow> bool" where
  "zeroed (ORaw m) n \<longleftrightarrow> False"
| "zeroed (OBytes bs) n \<longleftrightarrow> length bs \<le> n \<and> (\<forall>x \<in> set bs. x = 0)"
| "zeroed (OWords ws) n \<longleftrightarrow> 4 * length ws \<le> n \<and> (\<forall>x \<in> set ws. x = 0)"
| "zeroed (OChunk r) n \<longleftrightarrow> 4 \<le> n \<and> r = \<lparr>directory_entry = 0\<rparr>"
| "zeroed (OPathRoot r) n \<longleftrightarrow> 8 \<le> n \<and> r = \<lparr>drive_no = 0, first_part = 0\<rparr>"
| "zeroed (OPathPart r) n \<longleftrightarrow> 8 \<le> n \<and> r = \<lparr>part = 0, next_part = 0\<rparr>"
| "zeroed (OStream r) n \<longleftrightarrow> 8 \<le> n \<and> r = \<lparr>ds_pos = 0, ds_disk = NullDisk\<rparr>"
| "zeroed (OFileDesc r) n \<longleftrightarrow> 16 \<le> n \<and> r = \<lparr>fd_index = 0, fd_filesystem = NullFs, fd_private = 0, fd_disk = NullDisk\<rparr>"
| "zeroed (OFatPrivate r) n \<longleftrightarrow> 92 \<le> n \<and> r = \<lparr>fp_header = replicate 62 0,
     root_directory = \<lparr>fdir_item = 0, fdir_total = 0, sector_pos = 0, ending_sector_pos = 0\<rparr>,
     cluster_read_stream = 0, fat_read_stream = 0, directory_stream = 0\<rparr>"
| "zeroed (OFatDir r) n \<longleftrightarrow> 16 \<le> n \<and> r = \<lparr>fdir_item = 0, fdir_total = 0, sector_pos = 0, ending_sector_pos = 0\<rparr>"
| "zeroed (OFatItem r) n \<longleftrightarrow> 8 \<le> n \<and> r = \<lparr>fi_ptr = 0, fi_type = 0\<rparr>"
| "zeroed (OFatFd r) n \<longleftrightarrow> 8 \<le> n \<and> r = \<lparr>ffd_item = 0, ffd_pos = 0\<rparr>"
| "zeroed (OTask r) n \<longleftrightarrow> 64 \<le> n \<and> r = \<lparr>page_directory = 0,
     task_registers = \<lparr>r_edi = 0, r_esi = 0, r_ebp = 0, r_ebx = 0, r_edx = 0, r_ecx = 0, r_eax = 0,
       r_ip = 0, r_cs = 0, r_flags = 0, r_esp = 0, r_ss = 0\<rparr>,
     task_process = 0, task_nxt = 0, task_prv = 0\<rparr>"
| "zeroed (OProcess r) n \<longleftrightarrow> False"
| "zeroed (OElfFile r) n \<longleftrightarrow> 132 \<le> n \<and> r = \<lparr>elf_mem = 0, virtual_base_address = 0, virtual_end_address = 0,
     physical_base_address = 0, physical_end_address = 0\<rparr>"

text \<open>The contents of an object of the kind the C code reads through the pointer.\<close>

fun as_bytes :: "obj \<Rightarrow> u8 list option" where
  "as_bytes (OBytes bs) = Some bs"
| "as_bytes _ = None"

fun as_words :: "obj \<Rightarrow> u32 list option" where
  "as_words (OWords ws) = Some ws"
| "as_words _ = None"

fun as_chunk :: "obj \<Rightarrow> paging_4gb_chunk option" where
  "as_chunk (OChunk c) = Some c"
| "as_chunk _ = None"

fun as_path_root :: "obj \<Rightarrow> path_root option" where
  "as_path_root (OPathRoot r) = Some r"
| "as_path_root _ = None"

fun as_path_part :: "obj \<Rightarrow> path_part option" where
  "as_path_part (OPathPart r) = Some r"
| "as_path_part _ = None"

fun as_stream :: "obj \<Rightarrow> disk_stream option" where
  "as_stream (OStream r) = Some r"
| "as_stream _ = None"

fun as_file_desc :: "obj \<Rightarrow> file_descriptor option" where
  "as_file_desc (OFileDesc r) = Some r"
| "as_file_desc _ = None"

fun as_fat_private :: "obj \<Rightarrow> fat_private option" where
  "as_fat_private (OFatPrivate r) = Some r"
| "as_fat_private _ = None"

fun as_fat_dir :: "obj \<Rightarrow> fat_directory option" where
  "as_fat_dir (OFatDir r) = Some r"
| "as_fat_dir _ = None"

fun as_fat_item :: "obj \<Rightarrow> fat_item option" where
  "as_fat_item (OFatItem r) = Some r"
| "as_fat_item _ = None"

fun as_fat_fd :: "obj \<Rightarrow> fat_file_descriptor option" where
  "as_fat_fd (OFatFd r) = Some r"
| "as_fat_fd _ = None"

fun as_task :: "obj \<Rightarrow> task option" where
  "as_task (OTask r) = Some r"
| "as_task _ = None"

fun as_process :: "obj \<Rightarrow> process option" where
  "as_process (OProcess r) = Some r"
| "as_process _ = None"

fun as_elf_file :: "obj \<Rightarrow> elf_file option" where
  "as_elf_file (OElfFile r) = Some r"
| "as_elf_file _ = None"

end
