(* ===== verification/KHeap.thy ===== *)
theory KHeap
  imports Heap_Allocator Objects
begin

text \<open>
  The kernel heap of \<^verbatim>\<open>src/src/memory/heap/kheap.c\<close>: the global \<open>kernel_heap\<close> and the
  objects allocated in it. Accesses through a null, freed or foreign pointer are \<open>None\<close>.
\<close>

section \<open>State and operations\<close>

record kmem =
  kernel_heap :: heap
  objs :: "ptr \<Rightarrow> obj option"

text \<open>
  \<open>raw\<close> is whatever the memory at \<^verbatim>\<open>PEACHOS_HEAP_TABLE_ADDRESS\<close> holds; the result is the
  code returned by \<open>heap_create\<close>, on which \<^verbatim>\<open>kheap_init\<close> prints its message if it is
  negative.
\<close>

definition kheap_init :: "u8 list \<Rightarrow> 'a kmem_scheme \<Rightarrow> (int \<times> 'a kmem_scheme) option" where
  "kheap_init raw s =
     (let total_table_entries = PEACHOS_HEAP_SIZE_BYTES div PEACHOS_HEAP_BLOCK_SIZE;
          kernel_heap_table = \<lparr>ht_entries = raw, ht_total = total_table_entries\<rparr>;
          e = PEACHOS_HEAP_ADDRESS + PEACHOS_HEAP_SIZE_BYTES
      in do {
        (res, h) \<leftarrow> heap_create (kernel_heap s) PEACHOS_HEAP_ADDRESS e kernel_heap_table;
        Some (res, s\<lparr>kernel_heap := h\<rparr>) })"

definition kmalloc :: "u32 \<Rightarrow> 'a kmem_scheme \<Rightarrow> (ptr \<times> 'a kmem_scheme) option" where
  "kmalloc sz s =
     do { (p, h) \<leftarrow> heap_malloc (kernel_heap s) sz;
          if p = 0 then Some (0, s\<lparr>kernel_heap := h\<rparr>)
          else Some (p, s\<lparr>kernel_heap := h, objs := (objs s)(p \<mapsto> OUndef (unat sz))\<rparr>) }"

text \<open>Reading and writing the object behind a pointer.\<close>

definition deref :: "(obj \<Rightarrow> 'b option) \<Rightarrow> ptr \<Rightarrow> 'a kmem_scheme \<Rightarrow> 'b option" where
  "deref view p s = do { x \<leftarrow> objs s p; view x }"

definition store :: "ptr \<Rightarrow> obj \<Rightarrow> 'a kmem_scheme \<Rightarrow> 'a kmem_scheme option" where
  "store p x s = (if objs s p = None then None else Some (s\<lparr>objs := (objs s)(p \<mapsto> x)\<rparr>))"

definition kzalloc :: "u32 \<Rightarrow> 'a kmem_scheme \<Rightarrow> (ptr \<times> 'a kmem_scheme) option" where
  "kzalloc sz s =
     do { (p, s) \<leftarrow> kmalloc sz s;
          if p = 0 then Some (0, s)
          else do {
            m \<leftarrow> deref as_memory p s;
            m \<leftarrow> memset_raw m 0x00 sz;
            s \<leftarrow> store p (of_memory m) s;
            Some (p, s) } }"

text \<open>
  \<^verbatim>\<open>(struct t*) kzalloc(sizeof(struct t))\<close>: the block is from now on seen as the struct \<open>z\<close>. That is
  defined only if the block holds zero bytes and \<open>z\<close> is what they are as that struct.
\<close>

definition kzalloc_as :: "u32 \<Rightarrow> obj \<Rightarrow> 'a kmem_scheme \<Rightarrow> (ptr \<times> 'a kmem_scheme) option" where
  "kzalloc_as sz z s =
     do { (p, s) \<leftarrow> kzalloc sz s;
          if p = 0 then Some (0, s)
          else do {
            b \<leftarrow> deref as_bytes p s;
            if zeroed (OBytes b) (unat sz) \<and> zeroed z (length b)
            then do { s \<leftarrow> store p z s; Some (p, s) }
            else None } }"

definition kfree :: "ptr \<Rightarrow> 'a kmem_scheme \<Rightarrow> 'a kmem_scheme option" where
  "kfree p s =
     do { h \<leftarrow> heap_free (kernel_heap s) p;
          Some (s\<lparr>kernel_heap := h, objs := (objs s)(p := None)\<rparr>) }"

section \<open>Invariant\<close>

definition kmem_inv :: "'a kmem_scheme \<Rightarrow> bool" where
  "kmem_inv s \<longleftrightarrow> heap_inv (kernel_heap s) \<and>
     (\<forall>p. objs s p \<noteq> None \<longleftrightarrow> (\<exists>n. (p, n) \<in> heap_live (kernel_heap s)))"

abbreviation (input) klive :: "'a kmem_scheme \<Rightarrow> (ptr \<times> nat) set" where
  "klive s \<equiv> heap_live (kernel_heap s)"

abbreviation (input) kavail :: "'a kmem_scheme \<Rightarrow> nat" where
  "kavail s \<equiv> heap_avail (kernel_heap s)"

lemma kmem_inv_null: "kmem_inv s \<Longrightarrow> objs s 0 = None"
  using heap_live_geometry(2) by (fastforce simp: kmem_inv_def)

section \<open>The object store as an allocator\<close>

text \<open>An allocator whose allocations carry contents.\<close>

locale object_allocator = block_allocator malloc free live avail inv
  for malloc :: "u32 \<Rightarrow> 's \<Rightarrow> (ptr \<times> 's) option" and free :: "ptr \<Rightarrow> 's \<Rightarrow> 's option"
    and live :: "'s \<Rightarrow> (ptr \<times> nat) set" and avail :: "'s \<Rightarrow> nat" and inv :: "'s \<Rightarrow> bool" +
  fixes lookup :: "'s \<Rightarrow> ptr \<Rightarrow> 'o option" and content :: "u32 \<Rightarrow> 'o"
  assumes lookup_malloc: "malloc sz s = Some (p, s') \<Longrightarrow> p \<noteq> 0 \<Longrightarrow>
      lookup s' = (lookup s)(p \<mapsto> content sz)"
    and lookup_free: "free p s = Some s' \<Longrightarrow> lookup s' = (lookup s)(p := None)"
    and lookup_live: "inv s \<Longrightarrow> lookup s p \<noteq> None \<longleftrightarrow> (\<exists>n. (p, n) \<in> live s)"
begin

text \<open>A new object is none of the objects that exist, and leaves them as they are.\<close>

lemma malloc_fresh:
  assumes "inv s" and "sz \<noteq> 0" and "unat sz \<le> 4096" and "0 < avail s"
  shows "\<exists>p s'. malloc sz s = Some (p, s') \<and> inv s' \<and> p \<noteq> 0 \<and> p mod 4096 = 0 \<and>
    lookup s p = None \<and> lookup s' = (lookup s)(p \<mapsto> content sz) \<and>
    (p, 1) \<in> live s' \<and> live s' = insert (p, 1) (live s) \<and> avail s = Suc (avail s')"
proof -
  from malloc_avail [OF assms] obtain p s' where
    *: "malloc sz s = Some (p, s')" "inv s'" "p \<noteq> 0" "\<forall>m. (p, m) \<notin> live s"
      "live s' = insert (p, 1) (live s)" "avail s = Suc (avail s')" by blast
  then have "p mod 4096 = 0" using live_aligned [of s' p 1] by simp
  moreover have "lookup s p = None" using lookup_live [OF assms(1), of p] *(4) by auto
  ultimately show ?thesis using * lookup_malloc [OF *(1,3)] by auto
qed

text \<open>Creating an object and releasing it leaves every other object as it was.\<close>

lemma malloc_free_lookup:
  assumes "inv s" and "sz \<noteq> 0" and "unat sz \<le> 4096" and "malloc sz s = Some (p, s')" and "p \<noteq> 0"
  shows "\<exists>s''. free p s' = Some s'' \<and> inv s'' \<and> lookup s'' = lookup s"
proof -
  have "0 < avail s" using malloc_full [OF assms(1-3)] assms(4,5) by (cases "avail s") auto
  from malloc_fresh [OF assms(1-3) this] assms(4) have "lookup s p = None"
    "lookup s' = (lookup s)(p \<mapsto> content sz)" by auto
  moreover obtain s'' where "free p s' = Some s''" "inv s''"
    using malloc_then_free [OF assms] by blast
  ultimately show ?thesis using lookup_free [of p s' s''] by (auto simp: fun_upd_idem)
qed

end

text \<open>The three allocation functions differ in the contents of the new object only.\<close>

definition alloc_with :: "(u32 \<Rightarrow> obj) \<Rightarrow> u32 \<Rightarrow> 'a kmem_scheme \<Rightarrow> (ptr \<times> 'a kmem_scheme) option" where
  "alloc_with c sz s =
     do { (p, h) \<leftarrow> heap_malloc (kernel_heap s) sz;
          Some (p, if p = 0 then s\<lparr>kernel_heap := h\<rparr>
                   else s\<lparr>kernel_heap := h, objs := (objs s)(p \<mapsto> c sz)\<rparr>) }"

text \<open>An allocation with the contents \<open>z\<close>.\<close>

definition alloc_as :: "u32 \<Rightarrow> obj \<Rightarrow> 'a kmem_scheme \<Rightarrow> (ptr \<times> 'a kmem_scheme) option" where
  "alloc_as sz z = alloc_with (\<lambda>_. z) sz"

lemma kmalloc_eq: "kmalloc = alloc_with (\<lambda>sz. OUndef (unat sz))"
  by (auto simp: kmalloc_def alloc_with_def fun_eq_iff split: Option.bind_split)

lemma kzalloc_eq: "kzalloc = alloc_with (\<lambda>sz. OBytes (replicate (unat sz) 0))"
  by (auto simp: kzalloc_def kmalloc_def alloc_with_def deref_def store_def fun_eq_iff memset_raw_ok split: Option.bind_split)

lemma alloc_as_eq: "alloc_as sz z s = alloc_with (\<lambda>_. z) sz s"
  by (simp add: alloc_as_def)

lemma kzalloc_as_eq [simp]: "zeroed z (unat sz) \<Longrightarrow> kzalloc_as sz z s = alloc_as sz z s"
  by (auto simp: kzalloc_as_def kzalloc_eq alloc_as_def alloc_with_def deref_def store_def split: Option.bind_split)

lemma alloc_with_Some_iff:
  "alloc_with c sz s = Some (p, s') \<longleftrightarrow>
   (\<exists>h. heap_malloc (kernel_heap s) sz = Some (p, h) \<and>
     s' = (if p = 0 then s\<lparr>kernel_heap := h\<rparr>
           else s\<lparr>kernel_heap := h, objs := (objs s)(p \<mapsto> c sz)\<rparr>))"
  by (auto simp: alloc_with_def split: Option.bind_splits)

lemma kfree_Some_iff:
  "kfree p s = Some s' \<longleftrightarrow>
   (\<exists>h. heap_free (kernel_heap s) p = Some h \<and>
     s' = s\<lparr>kernel_heap := h, objs := (objs s)(p := None)\<rparr>)"
  by (auto simp: kfree_def split: Option.bind_splits)

lemma alloc_with_allocator:
  "block_allocator (alloc_with c) kfree klive kavail
     (kmem_inv :: 'a kmem_scheme \<Rightarrow> bool)"
proof unfold_locales
  fix s :: "'a kmem_scheme" and sz :: u32
  assume s: "kmem_inv s" and sz: "sz \<noteq> 0" "unat sz \<le> 4096" and av: "0 < kavail s"
  then have "heap_inv (kernel_heap s)" by (simp add: kmem_inv_def)
  from kh.malloc_avail [OF this sz av] obtain p h where
    *: "heap_malloc (kernel_heap s) sz = Some (p, h)" "heap_inv h" "p \<noteq> 0"
      "\<forall>m. (p, m) \<notin> klive s" "heap_live h = insert (p, 1) (klive s)"
      "kavail s = Suc (heap_avail h)" by blast
  have "kmem_inv (s\<lparr>kernel_heap := h, objs := (objs s)(p \<mapsto> c sz)\<rparr>)"
    using s * by (auto simp: kmem_inv_def)
  with * show "\<exists>p s'. alloc_with c sz s = Some (p, s') \<and> kmem_inv s' \<and> p \<noteq> 0 \<and>
      (\<forall>m. (p, m) \<notin> klive s) \<and> klive s' = insert (p, 1) (klive s) \<and> kavail s = Suc (kavail s')"
    by (simp add: alloc_with_def)
next
  fix s :: "'a kmem_scheme" and sz :: u32
  assume s: "kmem_inv s" and sz: "sz \<noteq> 0" "unat sz \<le> 4096" and av: "kavail s = 0"
  then have "heap_malloc (kernel_heap s) sz = Some (0, kernel_heap s)"
    by (intro kh.malloc_full) (auto simp: kmem_inv_def)
  then show "alloc_with c sz s = Some (0, s)" by (simp add: alloc_with_def)
next
  fix s :: "'a kmem_scheme" and p n
  assume s: "kmem_inv s" and live: "(p, n) \<in> klive s"
  then have inv: "heap_inv (kernel_heap s)" by (simp add: kmem_inv_def)
  from kh.free_live [OF inv live] obtain h where
    *: "heap_free (kernel_heap s) p = Some h" "heap_inv h" "heap_live h = klive s - {(p, n)}"
      "heap_avail h = kavail s + n" by blast
  have "\<And>m. (p, m) \<in> klive s \<Longrightarrow> m = n" using kh.live_unique [OF inv live] by auto
  then have "kmem_inv (s\<lparr>kernel_heap := h, objs := (objs s)(p := None)\<rparr>)"
    using s * by (auto simp: kmem_inv_def)
  with * show "\<exists>s'. kfree p s = Some s' \<and> kmem_inv s' \<and> klive s' = klive s - {(p, n)} \<and>
      kavail s' = kavail s + n"
    by (simp add: kfree_def)
next
  fix s :: "'a kmem_scheme" and p n
  assume "kmem_inv s" and "(p, n) \<in> klive s"
  then show "p mod 4096 = 0 \<and> p \<noteq> 0 \<and> 0 < n"
    using kh.live_aligned [of "kernel_heap s" p n] by (simp add: kmem_inv_def)
next
  fix s :: "'a kmem_scheme" and p n q m
  assume "kmem_inv s" and "(p, n) \<in> klive s" and "(q, m) \<in> klive s" and "(p, n) \<noteq> (q, m)"
  then show "unat p + 4096 * n \<le> unat q \<or> unat q + 4096 * m \<le> unat p"
    using kh.live_apart [of "kernel_heap s" p n q m] by (simp add: kmem_inv_def)
qed

lemma alloc_with_object_allocator:
  "object_allocator (alloc_with c) kfree klive kavail
     (kmem_inv :: 'a kmem_scheme \<Rightarrow> bool) objs c"
proof (intro object_allocator.intro object_allocator_axioms.intro alloc_with_allocator)
  fix s s' :: "'a kmem_scheme" and p and sz :: u32
  assume "alloc_with c sz s = Some (p, s')" and "p \<noteq> 0"
  then show "objs s' = (objs s)(p \<mapsto> c sz)" by (auto simp: alloc_with_Some_iff)
next
  fix s s' :: "'a kmem_scheme" and p
  assume "kfree p s = Some s'"
  then show "objs s' = (objs s)(p := None)" by (auto simp: kfree_Some_iff)
next
  fix s :: "'a kmem_scheme" and p
  assume "kmem_inv s"
  then show "objs s p \<noteq> None \<longleftrightarrow> (\<exists>n. (p, n) \<in> klive s)" by (simp add: kmem_inv_def)
qed

interpretation km: object_allocator kmalloc kfree klive kavail kmem_inv objs "\<lambda>sz. OUndef (unat sz)"
  unfolding kmalloc_eq by (rule alloc_with_object_allocator)

interpretation kz: object_allocator kzalloc kfree klive kavail kmem_inv objs
  "\<lambda>sz. OBytes (replicate (unat sz) 0)"
  unfolding kzalloc_eq by (rule alloc_with_object_allocator)

interpretation ka: object_allocator "\<lambda>sz. alloc_as sz z" kfree klive kavail kmem_inv objs "\<lambda>_. z"
  for z
  using alloc_with_object_allocator [of "\<lambda>_. z"] by (simp add: alloc_as_def)

lemma alloc_as_more: "alloc_as sz z s = Some (p, s') \<Longrightarrow> kmem.more s' = kmem.more s"
  by (auto simp: alloc_as_eq alloc_with_Some_iff)

lemma alloc_as_fresh:
  assumes "kmem_inv s" and "0 < kavail s" and "sz \<noteq> 0" and "unat sz \<le> 4096"
  obtains p s' where "alloc_as sz z s = Some (p, s')" "kmem_inv s'" "p \<noteq> 0" "p mod 4096 = 0"
    "objs s p = None" "objs s' = (objs s)(p \<mapsto> z)" "klive s' = insert (p, 1) (klive s)"
    "kavail s = Suc (kavail s')" "kmem.more s' = kmem.more s"
  using ka.malloc_fresh [OF assms(1,3,4,2), of z]
  by (elim exE conjE) (rule that; (assumption | erule alloc_as_more))

lemma kfree_live:
  assumes "kmem_inv s" and "(p, n) \<in> klive s"
  obtains s' where "kfree p s = Some s'" "kmem_inv s'" "objs s' = (objs s)(p := None)"
    "klive s' = klive s - {(p, n)}" "kavail s' = kavail s + n" "kmem.more s' = kmem.more s"
proof -
  from km.free_live [OF assms] obtain s' where
    s': "kfree p s = Some s'" "kmem_inv s'" "klive s' = klive s - {(p, n)}" "kavail s' = kavail s + n"
    by blast
  have "objs s' = (objs s)(p := None)" "kmem.more s' = kmem.more s"
    using s'(1) by (auto simp: kfree_Some_iff)
  then show thesis by (intro that [OF s'(1,2) _ s'(3,4)])
qed

lemma kmem_inv_update:
  "kmem_inv s \<Longrightarrow> objs s p \<noteq> None \<Longrightarrow> kmem_inv (s\<lparr>objs := (objs s)(p \<mapsto> x)\<rparr>)"
  by (auto simp: kmem_inv_def)

lemma kzalloc_bytes: "kzalloc sz s = alloc_as sz (OBytes (replicate (unat sz) 0)) s"
  by (simp add: alloc_as_eq) (simp add: kzalloc_eq alloc_with_def)

text \<open>The state with another object at \<open>p\<close>.\<close>

definition setobj :: "ptr \<Rightarrow> obj \<Rightarrow> 'a kmem_scheme \<Rightarrow> 'a kmem_scheme" where
  "setobj p x s = s\<lparr>objs := (objs s)(p \<mapsto> x)\<rparr>"

lemma setobj_simps [simp]:
  "objs (setobj p x s) = (objs s)(p \<mapsto> x)"
  "kernel_heap (setobj p x s) = kernel_heap s"
  "kmem.more (setobj p x s) = kmem.more s"
  "setobj p y (setobj p x s) = setobj p y s"
  by (simp_all add: setobj_def)

lemma setobj_same: "objs s p = Some x \<Longrightarrow> setobj p x s = s"
  by (simp add: setobj_def fun_upd_idem)

lemma kmem_inv_setobj: "kmem_inv s \<Longrightarrow> objs s p \<noteq> None \<Longrightarrow> kmem_inv (setobj p x s)"
  using kmem_inv_update [of s p x] by (simp add: setobj_def)

lemma store_eq: "objs s p = Some y \<Longrightarrow> store p x s = Some (setobj p x s)"
  by (simp add: store_def setobj_def)

section \<open>Allocation histories\<close>

text \<open>
  \<open>grown s P s'\<close>: the heap of \<open>s'\<close> is that of \<open>s\<close> with the new one-block objects \<open>P\<close>, whatever
  was allocated and released in between. What the objects hold is stated separately.
\<close>

definition grown :: "'a kmem_scheme \<Rightarrow> ptr set \<Rightarrow> 'a kmem_scheme \<Rightarrow> bool" where
  "grown s P s' \<longleftrightarrow> kmem_inv s \<and> kmem_inv s' \<and> kmem.more s' = kmem.more s \<and> finite P \<and>
     (\<forall>t \<in> P. objs s t = None) \<and> klive s' = klive s \<union> (\<lambda>t. (t, 1)) ` P \<and>
     kavail s = kavail s' + card P"

lemma grown_refl: "kmem_inv s \<Longrightarrow> grown s {} s"
  by (simp add: grown_def)

lemma grownD:
  assumes "grown s P s'"
  shows "kmem_inv s" "kmem_inv s'" "kmem.more s' = kmem.more s" "finite P"
    "klive s' = klive s \<union> (\<lambda>t. (t, 1)) ` P" "kavail s = kavail s' + card P"
  using assms by (simp_all add: grown_def)

lemma kmem_inv_live: "kmem_inv s \<Longrightarrow> objs s p \<noteq> None \<longleftrightarrow> (\<exists>n. (p, n) \<in> klive s)"
  by (simp add: kmem_inv_def)

lemma grown_fresh:
  assumes "grown s P s'" and "t \<in> P"
  shows "objs s t = None \<and> objs s' t \<noteq> None \<and> t \<noteq> 0"
proof -
  have "objs s t = None" "(t, 1) \<in> klive s'" using assms by (auto simp: grown_def)
  moreover from this(2) have "objs s' t \<noteq> None" using kmem_inv_live [OF grownD(2) [OF assms(1)]] by blast
  moreover from this have "t \<noteq> 0" using kmem_inv_null [OF grownD(2) [OF assms(1)]] by auto
  ultimately show ?thesis by simp
qed

lemma grown_old:
  assumes "grown s P s'" and "objs s t \<noteq> None"
  shows "objs s' t \<noteq> None \<and> t \<notin> P"
proof -
  obtain n where "(t, n) \<in> klive s" using assms(2) kmem_inv_live [OF grownD(1) [OF assms(1)]] by blast
  then have "(t, n) \<in> klive s'" using grownD(5) [OF assms(1)] by blast
  then have "objs s' t \<noteq> None" using kmem_inv_live [OF grownD(2) [OF assms(1)]] by blast
  moreover have "t \<notin> P" using assms by (auto simp: grown_def)
  ultimately show ?thesis by simp
qed

lemma grown_trans:
  assumes "grown s P s1" and "grown s1 Q s2"
  shows "grown s (P \<union> Q) s2" and "P \<inter> Q = {}"
proof -
  show disj: "P \<inter> Q = {}"
    using grown_fresh [OF assms(1)] grown_fresh [OF assms(2)] by blast
  have "objs s t = None" if "t \<in> Q" for t
    using grown_fresh [OF assms(2) that] grown_old [OF assms(1), of t] by (cases "objs s t") auto
  then show "grown s (P \<union> Q) s2"
    using assms disj by (auto simp: grown_def card_Un_disjoint)
qed

lemma grown_alloc:
  assumes "kmem_inv s" and "0 < kavail s" and "sz \<noteq> 0" and "unat sz \<le> 4096"
  obtains p s' where "alloc_as sz z s = Some (p, s')" "p \<noteq> 0" "grown s {p} s'"
    "objs s p = None" "objs s' = (objs s)(p \<mapsto> z)"
proof (rule alloc_as_fresh [OF assms, of z])
  fix p s' assume "alloc_as sz z s = Some (p, s')" "kmem_inv s'" "p \<noteq> 0" "p mod 4096 = 0"
    "objs s p = None" "objs s' = (objs s)(p \<mapsto> z)" "klive s' = insert (p, 1) (klive s)"
    "kavail s = Suc (kavail s')" "kmem.more s' = kmem.more s"
  then show thesis using that [of p s'] assms(1) by (simp add: grown_def)
qed

lemma grown_update: "grown s P s' \<Longrightarrow> objs s' p \<noteq> None \<Longrightarrow> grown s P (setobj p x s')"
  using kmem_inv_update [of s' p x] by (simp add: grown_def setobj_def)

lemma grown_release:
  assumes "grown s P s'" and "p \<in> P"
  obtains s'' where "kfree p s' = Some s''" "grown s (P - {p}) s''" "objs s'' = (objs s')(p := None)"
proof -
  have live: "(p, 1) \<in> klive s'" using assms by (auto simp: grown_def)
  have "objs s p = None" using assms by (simp add: grown_def)
  then have old: "(p, 1) \<notin> klive s" using kmem_inv_live [OF grownD(1) [OF assms(1)], of p] by auto
  show thesis
  proof (rule kfree_live [OF grownD(2) [OF assms(1)] live])
    fix s'' assume f: "kfree p s' = Some s''" "kmem_inv s''" "objs s'' = (objs s')(p := None)"
      "klive s'' = klive s' - {(p, 1)}" "kavail s'' = kavail s' + 1" "kmem.more s'' = kmem.more s'"
    have "card P = card (P - {p}) + 1"
      using assms(2) grownD(4) [OF assms(1)] by (metis Suc_eq_plus1 card_Suc_Diff1)
    moreover have "klive s'' = klive s \<union> (\<lambda>t. (t, 1)) ` (P - {p})"
      unfolding f(4) grownD(5) [OF assms(1)] using old by blast
    ultimately have "grown s (P - {p}) s''"
      using assms f(2,5,6) unfolding grown_def by simp
    then show thesis by (rule that [OF f(1) _ f(3)])
  qed
qed

section \<open>Start-up\<close>

lemma heap_create_ok:
  assumes "p mod 4096 = 0" and "e mod 4096 = 0" and "ht_total table = (e - p) div 4096"
    and "length (ht_entries table) = unat (ht_total table)"
  shows "heap_create heap p e table =
    Some (0, \<lparr>hp_table = table\<lparr>ht_entries := replicate (unat (ht_total table)) 0\<rparr>, hp_saddr = p\<rparr>)"
  using assms
  by (simp add: heap_create_def heap_validate_alignment_def heap_validate_table_def Let_def memset_ok)

lemma heap_rep_all_free:
  assumes "blocks_total = unat tot" and "saddr mod 4096 = 0" and "saddr \<noteq> 0"
    and "unat saddr + 4096 * blocks_total < 2147483648"
  shows "heap_rep \<lparr>hp_table = \<lparr>ht_entries = replicate blocks_total 0, ht_total = tot\<rparr>,
      hp_saddr = saddr\<rparr> (replicate blocks_total Free)"
  using assms by (simp add: heap_rep_def)

text \<open>A boot state with \<open>n\<close> free blocks and nothing allocated.\<close>

definition sample_kmem :: "nat \<Rightarrow> unit kmem_scheme" where
  "sample_kmem n = \<lparr>kernel_heap = sample_heap (replicate n Free), objs = \<lambda>_. None\<rparr>"

lemma sample_kmem_inv: "n \<le> 100000 \<Longrightarrow> kmem_inv (sample_kmem n) \<and> kavail (sample_kmem n) = n"
proof -
  assume "n \<le> 100000"
  then have "heap_inv (sample_heap (replicate n Free))"
    "heap_segs (sample_heap (replicate n Free)) = replicate n Free"
    using sample_heap_inv [of "replicate n Free"] by auto
  then show ?thesis
    by (simp add: sample_kmem_def kmem_inv_def heap_live_def heap_avail_def)
qed

lemma kheap_init_eq:
  assumes "length raw = 25600"
  shows "kheap_init raw s = Some (0, s\<lparr>kernel_heap :=
    \<lparr>hp_table = \<lparr>ht_entries = replicate 25600 0, ht_total = 25600\<rparr>, hp_saddr = 0x01000000\<rparr>\<rparr>)"
proof -
  have "heap_create (kernel_heap s) 0x01000000 (0x01000000 + 104857600)
      \<lparr>ht_entries = raw, ht_total = 25600\<rparr> =
      Some (0, \<lparr>hp_table = \<lparr>ht_entries = replicate 25600 0, ht_total = 25600\<rparr>, hp_saddr = 0x01000000\<rparr>)"
    using assms by (subst heap_create_ok) simp_all
  then show ?thesis by (simp add: kheap_init_def Let_def)
qed

section \<open>Properties\<close>

text \<open>
  C10. Whatever the table memory holds at boot, \<^verbatim>\<open>kheap_init\<close> succeeds and leaves a well-formed
  heap of 25600 free blocks from 0x01000000 with no live allocation.
\<close>

theorem kheap_init_ok:
  assumes "length raw = 25600"
  shows "\<exists>s'. kheap_init raw s = Some (0, s') \<and> heap_inv (kernel_heap s') \<and>
    heap_segs (kernel_heap s') = replicate 25600 Free \<and> hp_saddr (kernel_heap s') = 0x01000000 \<and>
    heap_live (kernel_heap s') = {} \<and> objs s' = objs s"
proof -
  let ?h = "\<lparr>hp_table = \<lparr>ht_entries = replicate 25600 0, ht_total = 25600\<rparr>, hp_saddr = 0x01000000\<rparr>"
  have "kheap_init raw s = Some (0, s\<lparr>kernel_heap := ?h\<rparr>)" by (rule kheap_init_eq [OF assms])
  moreover have rep: "heap_rep ?h (replicate 25600 Free)" by (rule heap_rep_all_free) simp_all
  moreover have "heap_live ?h = {}"
    using heap_rep_segs [OF rep] by (simp add: heap_live_def)
  ultimately show ?thesis
    using heap_rep_segs [OF rep] by (auto simp: heap_inv_def)
qed

lemma kheap_init_ok_witness:
  "\<exists>s'. kheap_init (replicate 25600 0xAA) \<lparr>kernel_heap = sample_heap [], objs = \<lambda>_. None\<rparr> =
      Some (0, s') \<and> heap_inv (kernel_heap s')"
  using kheap_init_ok [of "replicate 25600 0xAA" "\<lparr>kernel_heap = sample_heap [], objs = \<lambda>_. None\<rparr>"]
  by simp blast

text \<open>
  C11. \<^verbatim>\<open>kzalloc\<close> of at most a page returns, while a block is free, a fresh page-aligned pointer
  to zeroed bytes; every object that existed keeps its contents.
\<close>

theorem kzalloc_fresh_zeroed:
  assumes "kmem_inv s" and "sz \<noteq> 0" and "unat sz \<le> 4096" and "0 < heap_avail (kernel_heap s)"
  shows "\<exists>p s'. kzalloc sz s = Some (p, s') \<and> kmem_inv s' \<and> p \<noteq> 0 \<and> p mod 4096 = 0 \<and>
    objs s p = None \<and> objs s' = (objs s)(p \<mapsto> OBytes (replicate (unat sz) 0))"
  using kz.malloc_fresh [OF assms] by (elim exE conjE) (intro exI conjI; assumption)

lemma kzalloc_fresh_zeroed_witness:
  "\<exists>p s'. kzalloc 108 \<lparr>kernel_heap = sample_heap [Free], objs = \<lambda>_. None\<rparr> = Some (p, s') \<and>
    objs s' p = Some (OBytes (replicate 108 0))"
proof -
  let ?s = "\<lparr>kernel_heap = sample_heap [Free], objs = \<lambda>_. None\<rparr>"
  have inv: "heap_inv (sample_heap [Free])" "heap_segs (sample_heap [Free]) = [Free]"
    using sample_heap_inv [of "[Free]"] by simp_all
  then have "kmem_inv ?s" "0 < heap_avail (kernel_heap ?s)"
    by (simp_all add: kmem_inv_def heap_live_def heap_avail_def)
  then show ?thesis using kzalloc_fresh_zeroed [of ?s 108] by (auto)
qed

end
