(* ===== verification/Paging.thy ===== *)
theory Paging
  imports KHeap
begin

text \<open>
  The page directories of \<^verbatim>\<open>src/src/memory/paging/paging.c\<close> and the two routines of
  \<^verbatim>\<open>paging.asm\<close>. A directory and its tables are word arrays in the kernel heap; every access
  goes through the object store, so a table that was freed or never allocated is \<open>None\<close>. The
  signed \<^verbatim>\<open>offset\<close> of \<^verbatim>\<open>paging_new_4gb\<close> passes \<^verbatim>\<open>INT_MAX\<close> halfway through; it is
  modelled with the wrap-around that the target gives it.
\<close>

section \<open>State\<close>

record pagemem = kmem +
  current_directory :: ptr
  cr3 :: ptr
  cr0 :: u32

section \<open>Operations\<close>

text \<open>\<^verbatim>\<open>table_words\<close> is the zeroed page seen as 1024 words.\<close>

abbreviation (input) table_words :: obj where
  "table_words \<equiv> OWords (replicate PAGING_TOTAL_ENTRIES_PER_TABLE 0)"

definition paging_new_4gb_table :: "u8 \<Rightarrow> u32 \<Rightarrow> u32 list \<Rightarrow> u32 list option" where
  "paging_new_4gb_table flags offset =
     for_range 0 PAGING_TOTAL_ENTRIES_PER_TABLE
       (\<lambda>b entry. do {
          x \<leftarrow> Some ((offset + (of_nat b * PAGING_PAGE_SIZE)) OR ucast flags);
          aset entry b x })"

definition paging_new_4gb_entry ::
  "u8 \<Rightarrow> ptr \<Rightarrow> nat \<Rightarrow> u32 \<times> 'a kmem_scheme \<Rightarrow> (u32 \<times> 'a kmem_scheme) option" where
  "paging_new_4gb_entry flags directory i = (\<lambda>(offset, s). do {
     (entry, s) \<leftarrow> kzalloc_as 4096 table_words s;
     t \<leftarrow> deref as_words entry s;
     t \<leftarrow> paging_new_4gb_table flags offset t;
     s \<leftarrow> store entry (OWords t) s;
     d \<leftarrow> deref as_words directory s;
     d \<leftarrow> aset d i (entry OR ucast flags OR ucast PAGING_IS_WRITEABLE);
     s \<leftarrow> store directory (OWords d) s;
     Some (offset + of_nat PAGING_TOTAL_ENTRIES_PER_TABLE * PAGING_PAGE_SIZE, s) })"

definition paging_new_4gb :: "u8 \<Rightarrow> 'a kmem_scheme \<Rightarrow> (ptr \<times> 'a kmem_scheme) option" where
  "paging_new_4gb flags s = do {
     (directory, s) \<leftarrow> kzalloc_as 4096 table_words s;
     (offset, s) \<leftarrow> for_range 0 PAGING_TOTAL_ENTRIES_PER_TABLE
                     (paging_new_4gb_entry flags directory) (0, s);
     (chunk_4gb, s) \<leftarrow> kzalloc_as 4 (OChunk \<lparr>directory_entry = 0\<rparr>) s;
     c \<leftarrow> deref as_chunk chunk_4gb s;
     s \<leftarrow> store chunk_4gb (OChunk (c\<lparr>directory_entry := directory\<rparr>)) s;
     Some (chunk_4gb, s) }"

definition paging_load_directory :: "ptr \<Rightarrow> 'a pagemem_scheme \<Rightarrow> 'a pagemem_scheme" where
  "paging_load_directory directory s = s\<lparr>cr3 := directory\<rparr>"

definition enable_paging :: "'a pagemem_scheme \<Rightarrow> 'a pagemem_scheme" where
  "enable_paging s = s\<lparr>cr0 := cr0 s OR 0x80000000\<rparr>"

definition paging_switch :: "ptr \<Rightarrow> 'a pagemem_scheme \<Rightarrow> 'a pagemem_scheme option" where
  "paging_switch directory s = do {
     c \<leftarrow> deref as_chunk directory s;
     s \<leftarrow> Some (paging_load_directory (directory_entry c) s);
     Some (s\<lparr>current_directory := directory_entry c\<rparr>) }"

definition paging_free_4gb :: "ptr \<Rightarrow> 'a kmem_scheme \<Rightarrow> 'a kmem_scheme option" where
  "paging_free_4gb chunk s = do {
     s \<leftarrow> for_range 0 1024 (\<lambda>i s. do {
            c \<leftarrow> deref as_chunk chunk s;
            d \<leftarrow> deref as_words (directory_entry c) s;
            entry \<leftarrow> aget d i;
            kfree (entry AND 0xfffff000) s }) s;
     c \<leftarrow> deref as_chunk chunk s;
     s \<leftarrow> kfree (directory_entry c) s;
     kfree chunk s }"

definition paging_4gb_chunk_get_directory :: "ptr \<Rightarrow> 'a kmem_scheme \<Rightarrow> ptr option" where
  "paging_4gb_chunk_get_directory chunk s = map_option directory_entry (deref as_chunk chunk s)"

definition paging_is_aligned :: "ptr \<Rightarrow> bool" where
  "paging_is_aligned addr \<longleftrightarrow> addr mod PAGING_PAGE_SIZE = 0"

text \<open>The result code and, when it is 0, the values written to the two out parameters.\<close>

definition paging_get_indexes :: "ptr \<Rightarrow> u32 \<times> u32 \<Rightarrow> int \<times> u32 \<times> u32" where
  "paging_get_indexes virtual_address out =
     (if \<not> paging_is_aligned virtual_address then (- EINVAGR, out)
      else (0,
        virtual_address div (of_nat PAGING_TOTAL_ENTRIES_PER_TABLE * PAGING_PAGE_SIZE),
        virtual_address mod (of_nat PAGING_TOTAL_ENTRIES_PER_TABLE * PAGING_PAGE_SIZE) div
          PAGING_PAGE_SIZE))"

definition paging_align_address :: "ptr \<Rightarrow> ptr" where
  "paging_align_address ptr =
     (if ptr mod PAGING_PAGE_SIZE \<noteq> 0 then ptr + PAGING_PAGE_SIZE - ptr mod PAGING_PAGE_SIZE else ptr)"

definition paging_align_to_lower_page :: "ptr \<Rightarrow> ptr" where
  "paging_align_to_lower_page addr = addr - addr mod PAGING_PAGE_SIZE"

definition paging_set :: "ptr \<Rightarrow> ptr \<Rightarrow> u32 \<Rightarrow> 'a kmem_scheme \<Rightarrow> (int \<times> 'a kmem_scheme) option" where
  "paging_set directory virt val s =
     (if \<not> paging_is_aligned virt then Some (- EINVAGR, s)
      else let (res, directory_index, table_index) = paging_get_indexes virt (0, 0) in
        if res < 0 then Some (res, s)
        else do {
          d \<leftarrow> deref as_words directory s;
          entry \<leftarrow> aget d (unat directory_index);
          let table = entry AND 0xfffff000;
          t \<leftarrow> deref as_words table s;
          t \<leftarrow> aset t (unat table_index) val;
          s \<leftarrow> store table (OWords t) s;
          Some (0, s) })"

definition paging_get :: "ptr \<Rightarrow> ptr \<Rightarrow> 'a kmem_scheme \<Rightarrow> u32 option" where
  "paging_get directory virt s =
     (let (_, directory_index, table_index) = paging_get_indexes virt (0, 0) in do {
        d \<leftarrow> deref as_words directory s;
        entry \<leftarrow> aget d (unat directory_index);
        t \<leftarrow> deref as_words (entry AND 0xfffff000) s;
        aget t (unat table_index) })"

definition paging_map ::
  "ptr \<Rightarrow> ptr \<Rightarrow> ptr \<Rightarrow> int \<Rightarrow> 'a kmem_scheme \<Rightarrow> (int \<times> 'a kmem_scheme) option" where
  "paging_map directory virt phys flags s =
     (if virt mod PAGING_PAGE_SIZE \<noteq> 0 \<or> phys mod PAGING_PAGE_SIZE \<noteq> 0 then Some (- EINVAGR, s)
      else do {
        c \<leftarrow> deref as_chunk directory s;
        paging_set (directory_entry c) virt (phys OR u32_of_int flags) s })"

text \<open>The loop of \<^verbatim>\<open>paging_map_range\<close> with \<^verbatim>\<open>count - i\<close> iterations to go.\<close>

fun paging_map_range_loop ::
  "nat \<Rightarrow> int \<Rightarrow> ptr \<Rightarrow> ptr \<Rightarrow> ptr \<Rightarrow> int \<Rightarrow> 'a kmem_scheme \<Rightarrow> (int \<times> 'a kmem_scheme) option" where
  "paging_map_range_loop 0 res directory virt phys flags s = Some (res, s)"
| "paging_map_range_loop (Suc n) res directory virt phys flags s = do {
     (res, s) \<leftarrow> paging_map directory virt phys flags s;
     if res < 0 then Some (res, s)
     else paging_map_range_loop n res directory (virt + PAGING_PAGE_SIZE) (phys + PAGING_PAGE_SIZE) flags s }"

definition paging_map_range ::
  "ptr \<Rightarrow> ptr \<Rightarrow> ptr \<Rightarrow> int \<Rightarrow> int \<Rightarrow> 'a kmem_scheme \<Rightarrow> (int \<times> 'a kmem_scheme) option" where
  "paging_map_range directory virt phys count flags s =
     paging_map_range_loop (nat count) 0 directory virt phys flags s"

definition paging_map_to ::
  "ptr \<Rightarrow> ptr \<Rightarrow> ptr \<Rightarrow> ptr \<Rightarrow> int \<Rightarrow> 'a kmem_scheme \<Rightarrow> (int \<times> 'a kmem_scheme) option" where
  "paging_map_to directory virt phys phys_end flags s =
     (if virt mod PAGING_PAGE_SIZE \<noteq> 0 then Some (- EINVAGR, s)
      else if phys mod PAGING_PAGE_SIZE \<noteq> 0 then Some (- EINVAGR, s)
      else if phys_end mod PAGING_PAGE_SIZE \<noteq> 0 then Some (- EINVAGR, s)
      else if phys_end < phys then Some (- EINVAGR, s)
      else let total_bytes = phys_end - phys;
               total_pages = int_of_u32 (total_bytes div PAGING_PAGE_SIZE)
           in paging_map_range directory virt phys total_pages flags s)"

definition paging_get_physical_address :: "ptr \<Rightarrow> ptr \<Rightarrow> 'a kmem_scheme \<Rightarrow> ptr option" where
  "paging_get_physical_address directory virt s =
     (let virt_addr_new = paging_align_to_lower_page virt;
          difference = virt - virt_addr_new
      in do { e \<leftarrow> paging_get directory virt_addr_new s;
              Some ((e AND 0xfffff000) + difference) })"

section \<open>Page frames and indexes\<close>

text \<open>The table a directory entry points to, and the two indexes of an address.\<close>

definition table_of :: "u32 \<Rightarrow> ptr" where
  "table_of e = e AND 0xfffff000"

definition dir_index :: "ptr \<Rightarrow> nat" where
  "dir_index v = unat v div 4194304"

definition table_index :: "ptr \<Rightarrow> nat" where
  "table_index v = unat v mod 4194304 div 4096"

lemma frame_mask: "(0xfffff000 :: u32) = NOT (mask 12)"
  by (simp add: mask_eq_exp_minus_1)

lemma table_of_eq: "table_of e = e - e mod 4096"
proof -
  have "(e AND NOT (mask 12)) AND (e AND mask 12) = 0"
    by (simp add: bit_eq_iff bit_simps)
  then have "(e AND NOT (mask 12)) + (e AND mask 12) = (e AND NOT (mask 12)) OR (e AND mask 12)"
    by (rule disjunctive_add_eq_or)
  also have "\<dots> = e" by (simp add: bit_eq_iff bit_simps) auto
  finally have "e = (e AND NOT (mask 12)) + (e AND mask 12)" by simp
  moreover have "e AND mask 12 = e mod 4096"
    using take_bit_eq_mask [of 12 e] take_bit_eq_mod [of 12 e] by simp
  ultimately show ?thesis by (metis add_diff_cancel_right' frame_mask table_of_def)
qed

lemma table_of_or:
  assumes "p mod 4096 = 0" and "take_bit 12 f = f"
  shows "table_of (p OR f) = p"
proof -
  have f: "f AND NOT (mask 12) = 0"
  proof -
    have "f AND NOT (mask 12) = take_bit 12 f AND NOT (mask 12)" using assms(2) by simp
    also have "\<dots> = 0" by (simp add: take_bit_eq_mask and.assoc)
    finally show ?thesis .
  qed
  have "p AND NOT (mask 12) = p"
    using table_of_eq [of p] assms(1) by (simp add: table_of_def frame_mask)
  with f show ?thesis
    by (simp add: table_of_def frame_mask bit.conj_disj_distrib2)
qed

lemma flags_small: "take_bit 12 (ucast (flags :: u8) :: u32) = ucast flags"
  by (rule bit_word_eqI) (auto simp: bit_simps dest: bit_imp_le_length)

lemma flags_small': "take_bit 12 (ucast (flags :: u8) OR ucast (2 :: u8) :: u32) = ucast flags OR ucast (2 :: u8)"
  by (simp only: take_bit_or flags_small)

lemma dir_index_less: "dir_index v < 1024"
  using unat_u32_bound [of v] by (simp add: dir_index_def less_mult_imp_div_less)

lemma table_index_less: "table_index v < 1024"
  by (simp add: table_index_def less_mult_imp_div_less)

lemma aligned_split:
  assumes "v mod 4096 = 0"
  shows "unat v = dir_index v * 4194304 + table_index v * 4096"
proof -
  have "unat v mod 4096 = 0" using assms by (simp add: mod_page_zero_iff)
  then have "unat v mod 4194304 mod 4096 = 0" using mod_mod_cancel [of 4096 4194304 "unat v"] by simp
  then have "unat v mod 4194304 = unat v mod 4194304 div 4096 * 4096"
    using div_mult_mod_eq [of "unat v mod 4194304" 4096] by simp
  then show ?thesis
    using div_mult_mod_eq [of "unat v" 4194304] by (simp add: dir_index_def table_index_def)
qed

lemma index_inject:
  assumes "v mod 4096 = 0" and "w mod 4096 = 0" and "dir_index v = dir_index w"
    and "table_index v = table_index w"
  shows "v = w"
proof -
  have "unat v = unat w" using assms aligned_split by simp
  then show ?thesis by (simp add: word_unat_eq_iff)
qed

lemma page_offset_aligned:
  assumes "v mod 4096 = 0"
  shows "(v + of_nat k * 4096 :: u32) mod 4096 = 0"
proof -
  have "(2 ^ 12 :: u32) dvd v" using assms by (intro mod_0_imp_dvd) simp
  moreover have "(2 ^ 12 :: u32) dvd of_nat k * 4096" by simp
  ultimately have "(2 ^ 12 :: u32) dvd v + of_nat k * 4096" by (rule dvd_add)
  then show ?thesis using exp_dvd_iff_exp_udvd [of 12 "v + of_nat k * 4096"] by (simp add: udvd_iff_dvd mod_page_zero_iff)
qed

lemma get_indexes_aligned:
  assumes "v mod 4096 = 0"
  shows "paging_get_indexes v out = (0, of_nat (dir_index v), of_nat (table_index v))"
  using assms
  by (simp add: paging_get_indexes_def paging_is_aligned_def dir_index_def table_index_def
      word_unat_eq_iff unat_div unat_mod unat_of_nat_u32 less_trans [OF dir_index_less [unfolded dir_index_def]]
      less_trans [OF table_index_less [unfolded table_index_def]])

section \<open>Well-formed directories\<close>

text \<open>
  \<open>paging_dir ds directory s\<close>: the 1024 entries \<open>ds\<close> of the directory point to 1024 different
  tables of 1024 entries each, none of them the directory itself.
\<close>

definition paging_dir :: "u32 list \<Rightarrow> ptr \<Rightarrow> 'a kmem_scheme \<Rightarrow> bool" where
  "paging_dir ds directory s \<longleftrightarrow>
     objs s directory = Some (OWords ds) \<and> length ds = 1024 \<and> distinct (map table_of ds) \<and>
     directory \<notin> table_of ` set ds \<and>
     (\<forall>e \<in> set ds. \<exists>ws. objs s (table_of e) = Some (OWords ws) \<and> length ws = 1024)"

text \<open>What a change to the tables leaves alone.\<close>

definition paging_rest :: "u32 list \<Rightarrow> 'a kmem_scheme \<Rightarrow> 'a kmem_scheme" where
  "paging_rest ds s = s\<lparr>objs := objs s |` (- (table_of ` set ds))\<rparr>"

lemma paging_rest_objs:
  assumes "paging_rest ds s' = paging_rest ds s" and "p \<notin> table_of ` set ds"
  shows "objs s' p = objs s p"
proof -
  have "objs (paging_rest ds s') p = objs (paging_rest ds s) p" using assms(1) by simp
  with assms(2) show ?thesis by (simp add: paging_rest_def)
qed

lemma paging_rest_kernel_heap:
  "paging_rest ds s' = paging_rest ds s \<Longrightarrow> kernel_heap s' = kernel_heap s"
  by (metis kmem.select_convs(1) kmem.surjective kmem.update_convs(2) paging_rest_def)

lemma paging_dirD:
  assumes "paging_dir ds directory s"
  obtains ws where "objs s (table_of (ds ! dir_index v)) = Some (OWords ws)" "length ws = 1024"
    "dir_index v < length ds" "ds ! dir_index v \<in> set ds"
proof -
  have *: "dir_index v < length ds" "ds ! dir_index v \<in> set ds"
    using assms dir_index_less [of v] by (auto simp: paging_dir_def)
  then obtain ws where "objs s (table_of (ds ! dir_index v)) = Some (OWords ws)" "length ws = 1024"
    using assms unfolding paging_dir_def by blast
  with * that show ?thesis by blast
qed

lemma unat_dir_index [simp]: "unat (of_nat (dir_index v) :: u32) = dir_index v"
  by (rule unat_of_nat_u32) (rule less_trans [OF dir_index_less], simp)

lemma unat_table_index [simp]: "unat (of_nat (table_index v) :: u32) = table_index v"
  by (rule unat_of_nat_u32) (rule less_trans [OF table_index_less], simp)

lemma paging_get_eq:
  assumes "paging_dir ds directory s" and "v mod 4096 = 0"
    and "objs s (table_of (ds ! dir_index v)) = Some (OWords ws)"
  shows "paging_get directory v s = aget ws (table_index v)"
  using assms dir_index_less [of v]
  by (simp add: paging_get_def get_indexes_aligned paging_dir_def deref_def table_of_def)

lemma paging_set_eq:
  assumes "paging_dir ds directory s" and "v mod 4096 = 0"
    and "objs s (table_of (ds ! dir_index v)) = Some (OWords ws)"
  shows "paging_set directory v x s =
    Some (0, s\<lparr>objs := (objs s)(table_of (ds ! dir_index v) \<mapsto> OWords (ws[table_index v := x]))\<rparr>)"
proof -
  have "length ws = 1024" by (rule paging_dirD [OF assms(1), of v]) (use assms(3) in simp)
  with assms dir_index_less [of v] table_index_less [of v] show ?thesis
    by (simp add: paging_set_def get_indexes_aligned paging_is_aligned_def paging_dir_def deref_def
        store_def table_of_def Let_def)
qed

section \<open>Page stores\<close>

text \<open>
  What a client of the page tables relies on: setting the entry of an aligned address succeeds,
  can be read back, and changes the entry of no other page and nothing outside the tables.
\<close>

locale page_store =
  fixes put :: "ptr \<Rightarrow> 'e \<Rightarrow> 's \<Rightarrow> (int \<times> 's) option" and get :: "ptr \<Rightarrow> 's \<Rightarrow> u32 option"
    and enc :: "'e \<Rightarrow> u32" and valid :: "'e \<Rightarrow> bool" and ok :: "'s \<Rightarrow> bool" and rest :: "'s \<Rightarrow> 'r"
  assumes put_aligned: "ok s \<Longrightarrow> v mod 4096 = 0 \<Longrightarrow> valid e \<Longrightarrow>
      \<exists>s'. put v e s = Some (0, s') \<and> ok s' \<and> rest s' = rest s \<and>
        (\<forall>w. w mod 4096 = 0 \<longrightarrow> get w s' = (if w = v then Some (enc e) else get w s))"
    and put_unaligned: "v mod 4096 \<noteq> 0 \<or> \<not> valid e \<Longrightarrow> put v e s = Some (- EINVAGR, s)"
    and get_total: "ok s \<Longrightarrow> v mod 4096 = 0 \<Longrightarrow> get v s \<noteq> None"
begin

lemma put_code: "ok s \<Longrightarrow> \<exists>r s'. put v e s = Some (r, s') \<and> (r = 0 \<or> r = - EINVAGR) \<and> ok s'"
  using put_aligned [of s v e] put_unaligned [of v e s] by (cases "v mod 4096 = 0 \<and> valid e") auto

text \<open>Filling \<open>n\<close> consecutive pages, at most the whole address space.\<close>

lemma put_range:
  assumes "ok s" and "v mod 4096 = 0" and "n \<le> 1048576"
    and "\<And>i. i < n \<Longrightarrow> valid (e i)"
  shows "\<exists>s'. for_range 0 n (\<lambda>i s. do { (r, s) \<leftarrow> put (v + of_nat i * 4096) (e i) s;
        if r < 0 then None else Some s }) s = Some s' \<and> ok s' \<and> rest s' = rest s \<and>
      (\<forall>w. w mod 4096 = 0 \<longrightarrow> get w s' =
        (if \<exists>i<n. w = v + of_nat i * 4096 then Some (enc (e (unat (w - v) div 4096))) else get w s))"
proof -
  let ?body = "\<lambda>i s. do { (r, s) \<leftarrow> put (v + of_nat i * 4096) (e i) s;
        if r < 0 then None else Some s }"
  let ?P = "\<lambda>k t. ok t \<and> rest t = rest s \<and> (\<forall>w. w mod 4096 = 0 \<longrightarrow> get w t =
        (if \<exists>i<k. w = v + of_nat i * 4096 then Some (enc (e (unat (w - v) div 4096))) else get w s))"
  have off: "unat (v + of_nat k * 4096 - v) div 4096 = k" if "k < n" for k
  proof -
    have "(of_nat k * 4096 :: u32) = of_nat (k * 4096)" by simp
    moreover have "unat (of_nat (k * 4096) :: u32) = k * 4096"
      using that assms(3) by (intro unat_of_nat_u32) simp
    ultimately show ?thesis by (simp del: of_nat_mult)
  qed
  have al: "(v + of_nat k * 4096) mod 4096 = 0" for k
    by (simp add: page_offset_aligned assms(2))
  have "\<exists>s'. for_range 0 n ?body s = Some s' \<and> ?P (0 + n) s'"
  proof (rule for_range_rule [where P = ?P])
    fix k t assume k: "0 \<le> k" "k < 0 + n" and P: "?P k t"
    then have "k < n" by simp
    from put_aligned [of t "v + of_nat k * 4096" "e k"] P al [of k] assms(4) [OF this]
    obtain t' where t': "put (v + of_nat k * 4096) (e k) t = Some (0, t')" "ok t'" "rest t' = rest t"
      and g: "\<And>w. w mod 4096 = 0 \<Longrightarrow> get w t' = (if w = v + of_nat k * 4096 then Some (enc (e k)) else get w t)"
      by blast
    have "?P (Suc k) t'"
      using P t' g off [OF \<open>k < n\<close>] by (auto simp: less_Suc_eq)
    with t'(1) show "\<exists>t'. ?body k t = Some t' \<and> ?P (Suc k) t'" by auto
  qed (use assms(1) in simp)
  then show ?thesis by simp
qed

end

lemma paging_put_page_store:
  "page_store (\<lambda>v e. paging_set directory v e) (\<lambda>v. paging_get directory v) (\<lambda>e. e) (\<lambda>_. True)
     (paging_dir ds directory) (paging_rest ds)"
proof unfold_locales
  fix s :: "'a kmem_scheme" and v :: ptr and e :: u32
  assume ok: "paging_dir ds directory s" and v: "v mod 4096 = 0"
  obtain ws where ws: "objs s (table_of (ds ! dir_index v)) = Some (OWords ws)" "length ws = 1024"
    and di: "dir_index v < length ds" "ds ! dir_index v \<in> set ds"
    by (rule paging_dirD [OF ok])
  let ?t = "table_of (ds ! dir_index v)"
  let ?s = "s\<lparr>objs := (objs s)(?t \<mapsto> OWords (ws[table_index v := e]))\<rparr>"
  have "directory \<noteq> ?t" using ok di by (auto simp: paging_dir_def)
  then have ok': "paging_dir ds directory ?s"
    using ok ws by (auto simp: paging_dir_def)
  have same: "table_of (ds ! dir_index w) = ?t \<longleftrightarrow> dir_index w = dir_index v" for w
    using ok di dir_index_less [of w] nth_eq_iff_index_eq [of "map table_of ds" "dir_index w" "dir_index v"]
    by (auto simp: paging_dir_def)
  have "paging_get directory w ?s = (if w = v then Some e else paging_get directory w s)"
    if w: "w mod 4096 = 0" for w
  proof (cases "dir_index w = dir_index v")
    case True
    then have "paging_get directory w ?s = aget (ws[table_index v := e]) (table_index w)"
      by (intro paging_get_eq [OF ok' w]) simp
    moreover have "paging_get directory w s = aget ws (table_index w)"
      using ws True by (intro paging_get_eq [OF ok w]) simp
    moreover have "w = v \<longleftrightarrow> table_index w = table_index v"
      using index_inject [OF w v True] by auto
    ultimately show ?thesis
      using ws table_index_less [of w] by (auto simp: nth_list_update)
  next
    case False
    obtain us where us: "objs s (table_of (ds ! dir_index w)) = Some (OWords us)"
      by (rule paging_dirD [OF ok])
    then have "paging_get directory w ?s = aget us (table_index w)"
      using False same by (intro paging_get_eq [OF ok' w]) simp
    with False paging_get_eq [OF ok w us] show ?thesis by auto
  qed
  moreover have "paging_rest ds ?s = paging_rest ds s"
    using di by (auto simp: paging_rest_def restrict_map_def fun_eq_iff)
  ultimately show "\<exists>s'. paging_set directory v e s = Some (0, s') \<and> paging_dir ds directory s' \<and>
      paging_rest ds s' = paging_rest ds s \<and> (\<forall>w. w mod 4096 = 0 \<longrightarrow>
        paging_get directory w s' = (if w = v then Some e else paging_get directory w s))"
    using ok' paging_set_eq [OF ok v ws(1)] by auto
next
  fix s :: "'a kmem_scheme" and v :: ptr and e :: u32
  assume "v mod 4096 \<noteq> 0 \<or> \<not> True"
  then show "paging_set directory v e s = Some (- EINVAGR, s)"
    by (simp add: paging_set_def paging_is_aligned_def)
next
  fix s :: "'a kmem_scheme" and v :: ptr
  assume ok: "paging_dir ds directory s" and v: "v mod 4096 = 0"
  obtain ws where "objs s (table_of (ds ! dir_index v)) = Some (OWords ws)" "length ws = 1024"
    by (rule paging_dirD [OF ok])
  with paging_get_eq [OF ok v] table_index_less [of v] show "paging_get directory v s \<noteq> None" by auto
qed

interpretation ps: page_store "\<lambda>v e. paging_set directory v e" "\<lambda>v. paging_get directory v" "\<lambda>e. e"
  "\<lambda>_. True" "paging_dir ds directory" "paging_rest ds" for directory ds
  by (rule paging_put_page_store)

text \<open>A chunk: the object that holds the address of a well-formed directory.\<close>

definition paging_chunk :: "u32 list \<Rightarrow> ptr \<Rightarrow> ptr \<Rightarrow> 'a kmem_scheme \<Rightarrow> bool" where
  "paging_chunk ds directory chunk s \<longleftrightarrow>
     objs s chunk = Some (OChunk \<lparr>directory_entry = directory\<rparr>) \<and> paging_dir ds directory s"

lemma paging_chunk_not_table:
  "paging_chunk ds directory chunk s \<Longrightarrow> chunk \<notin> table_of ` set ds"
  by (auto simp: paging_chunk_def paging_dir_def)

text \<open>\<^verbatim>\<open>paging_map\<close> is a page store of pairs of a frame and its flags.\<close>

interpretation pm: page_store "\<lambda>v (phys, flags). paging_map chunk v phys flags"
  "\<lambda>v. paging_get directory v" "\<lambda>(phys, flags). phys OR word_of_int flags"
  "\<lambda>(phys, flags). phys mod 4096 = 0" "paging_chunk ds directory chunk" "paging_rest ds"
  for chunk directory ds
proof unfold_locales
  fix s :: "'a kmem_scheme" and v :: ptr and e :: "ptr \<times> int"
  obtain phys flags where e: "e = (phys, flags)" by force
  assume c: "paging_chunk ds directory chunk s" and v: "v mod 4096 = 0"
    and "case e of (phys, flags) \<Rightarrow> phys mod 4096 = 0"
  then have ok: "paging_dir ds directory s" and p: "phys mod 4096 = 0"
    by (simp_all add: paging_chunk_def e)
  from ps.put_aligned [OF ok v, of "phys OR word_of_int flags"] obtain s' where
    *: "paging_set directory v (phys OR word_of_int flags) s = Some (0, s')" "paging_dir ds directory s'"
      "paging_rest ds s' = paging_rest ds s"
      "\<forall>w. w mod 4096 = 0 \<longrightarrow> paging_get directory w s' =
        (if w = v then Some (phys OR word_of_int flags) else paging_get directory w s)" by blast
  then have "paging_chunk ds directory chunk s'"
    using c paging_rest_objs [OF *(3) paging_chunk_not_table [OF c]] by (simp add: paging_chunk_def)
  with * c v p show "\<exists>s'. (case e of (phys, flags) \<Rightarrow> paging_map chunk v phys flags) s = Some (0, s') \<and>
      paging_chunk ds directory chunk s' \<and> paging_rest ds s' = paging_rest ds s \<and>
      (\<forall>w. w mod 4096 = 0 \<longrightarrow> paging_get directory w s' =
        (if w = v then Some (case e of (phys, flags) \<Rightarrow> phys OR word_of_int flags)
         else paging_get directory w s))"
    by (simp add: e paging_map_def paging_chunk_def deref_def)
next
  fix s :: "'a kmem_scheme" and v :: ptr and e :: "ptr \<times> int"
  assume "v mod 4096 \<noteq> 0 \<or> \<not> (case e of (phys, flags) \<Rightarrow> phys mod 4096 = 0)"
  then show "(case e of (phys, flags) \<Rightarrow> paging_map chunk v phys flags) s = Some (- EINVAGR, s)"
    by (auto simp: paging_map_def split: prod.splits)
next
  fix s :: "'a kmem_scheme" and v :: ptr
  assume "paging_chunk ds directory chunk s" and "v mod 4096 = 0"
  then show "paging_get directory v s \<noteq> None"
    using ps.get_total [of ds directory s v] by (simp add: paging_chunk_def)
qed

section \<open>Mapping ranges\<close>

lemma paging_map_code: "paging_map chunk v p flags t = Some (r, t') \<Longrightarrow> r \<le> 0"
  by (auto simp: paging_map_def paging_set_def paging_get_indexes_def Let_def
      split: Option.bind_splits if_splits)

lemma map_range_loop_eq:
  assumes "for_range i n (\<lambda>i s. do { (r, s) \<leftarrow> paging_map chunk (v + of_nat i * 4096) (p + of_nat i * 4096) flags s;
      if r < 0 then None else Some s }) s = Some s'"
  shows "paging_map_range_loop n res chunk (v + of_nat i * 4096) (p + of_nat i * 4096) flags s =
    Some (if n = 0 then res else 0, s')"
  using assms
proof (induction n arbitrary: i s res)
  case 0
  then show ?case by simp
next
  case (Suc n)
  then obtain r s1 where r: "paging_map chunk (v + of_nat i * 4096) (p + of_nat i * 4096) flags s = Some (r, s1)"
    "\<not> r < 0" and rest: "for_range (Suc i) n (\<lambda>i s. do { (r, s) \<leftarrow> paging_map chunk (v + of_nat i * 4096) (p + of_nat i * 4096) flags s;
      if r < 0 then None else Some s }) s1 = Some s'"
    by (auto split: Option.bind_splits if_splits)
  have "r = 0" using r paging_map_code [OF r(1)] by simp
  with r Suc.IH [OF rest, of 0] show ?case by (simp add: algebra_simps)
qed

lemma map_range_ok:
  assumes "paging_chunk ds directory chunk s" and "v mod 4096 = 0" and "p mod 4096 = 0"
    and "count \<le> 1048576"
  shows "\<exists>s'. paging_map_range chunk v p count flags s = Some (0, s') \<and>
    paging_chunk ds directory chunk s' \<and> paging_rest ds s' = paging_rest ds s \<and>
    (\<forall>w. w mod 4096 = 0 \<longrightarrow> paging_get directory w s' =
      (if \<exists>i<nat count. w = v + of_nat i * 4096
       then Some ((p + of_nat (unat (w - v) div 4096) * 4096) OR word_of_int flags)
       else paging_get directory w s))"
proof -
  let ?n = "nat count"
  from assms(4) have n: "?n \<le> 1048576" by simp
  from pm.put_range [OF assms(1,2) n, of "\<lambda>i. (p + of_nat i * 4096, flags)"]
  obtain s' where s': "for_range 0 ?n (\<lambda>i s. do { (r, s) \<leftarrow> paging_map chunk (v + of_nat i * 4096) (p + of_nat i * 4096) flags s;
        if r < 0 then None else Some s }) s = Some s'"
    "paging_chunk ds directory chunk s'" "paging_rest ds s' = paging_rest ds s"
    "\<forall>w. w mod 4096 = 0 \<longrightarrow> paging_get directory w s' =
      (if \<exists>i<?n. w = v + of_nat i * 4096
       then Some ((p + of_nat (unat (w - v) div 4096) * 4096) OR word_of_int flags)
       else paging_get directory w s)"
    using page_offset_aligned [OF assms(3)] by auto
  from map_range_loop_eq [OF s'(1), of 0] have
    "paging_map_range chunk v p count flags s = Some (0, s')"
    by (simp add: paging_map_range_def)
  with s' show ?thesis by blast
qed

text \<open>The number of pages between two aligned addresses.\<close>

lemma pages_between:
  assumes "(p :: u32) \<le> e"
  shows "sint ((e - p) div 4096) = int ((unat e - unat p) div 4096)"
    and "(unat e - unat p) div 4096 \<le> 1048576"
proof -
  have u: "unat (e - p) = unat e - unat p" using assms by (simp add: unat_sub word_le_nat_alt)
  have b: "unat ((e - p) div 4096) = (unat e - unat p) div 4096" by (simp add: unat_div u)
  have "unat e - unat p < 4294967296" using unat_u32_bound [of e] by linarith
  then have c: "(unat e - unat p) div 4096 < 1048576" by (simp add: less_mult_imp_div_less)
  then show "(unat e - unat p) div 4096 \<le> 1048576" by simp
  from b c show "sint ((e - p) div 4096) = int ((unat e - unat p) div 4096)"
    by (subst sint_u32_small) simp_all
qed

section \<open>Building and releasing a directory\<close>

lemma kzalloc_as_table [simp]: "kzalloc_as 4096 table_words s = alloc_as 4096 table_words s"
  by simp

definition ident_table :: "u8 \<Rightarrow> nat \<Rightarrow> u32 list" where
  "ident_table flags i =
     map (\<lambda>b. (of_nat i * 4194304 + of_nat b * 4096) OR ucast flags) [0..<1024]"

definition dir_entry :: "u8 \<Rightarrow> ptr \<Rightarrow> u32" where
  "dir_entry flags t = t OR ucast flags OR ucast PAGING_IS_WRITEABLE"

lemma table_of_dir_entry: "t mod 4096 = 0 \<Longrightarrow> table_of (dir_entry flags t) = t"
  using table_of_or [OF _ flags_small'] by (simp add: dir_entry_def or.assoc)

text \<open>The objects of the tables \<open>ts\<close>, each mapping its 4 MB to themselves.\<close>

definition table_objs :: "u8 \<Rightarrow> ptr list \<Rightarrow> ptr \<Rightarrow> obj option" where
  "table_objs flags ts = map_of (zip ts (map (\<lambda>i. OWords (ident_table flags i)) [0..<length ts]))"

lemma table_objs_Nil [simp]: "table_objs flags [] = Map.empty"
  by (simp add: table_objs_def)

lemma table_objs_None: "table_objs flags ts t = None \<longleftrightarrow> t \<notin> set ts"
  by (simp add: table_objs_def map_of_zip_is_None)

lemma table_objs_snoc:
  assumes "t \<notin> set ts"
  shows "table_objs flags (ts @ [t]) = (table_objs flags ts)(t \<mapsto> OWords (ident_table flags (length ts)))"
proof -
  have "table_objs flags (ts @ [t]) =
      [t \<mapsto> OWords (ident_table flags (length ts))] ++ table_objs flags ts"
    by (simp add: table_objs_def)
  with assms table_objs_None [of flags ts t] show ?thesis
    by (auto simp: fun_eq_iff map_add_def split: option.splits)
qed

lemma table_objs_nth:
  "distinct ts \<Longrightarrow> i < length ts \<Longrightarrow>
     table_objs flags ts (ts ! i) = Some (OWords (ident_table flags i))"
  by (simp add: table_objs_def map_of_zip_nth)

lemma new_4gb_table_eq:
  "length t = 1024 \<Longrightarrow> paging_new_4gb_table flags offset t =
     Some (map (\<lambda>b. (offset + of_nat b * 4096) OR ucast flags) [0..<1024])"
  unfolding paging_new_4gb_table_def
  by (subst for_range_fill [where g = "\<lambda>b. (offset + of_nat b * 4096) OR ucast flags"]) simp_all

text \<open>After \<open>k\<close> rounds: the tables \<open>ts\<close> made so far, everything else as in \<open>s\<close>.\<close>

definition new_tables ::
  "u8 \<Rightarrow> 'a kmem_scheme \<Rightarrow> ptr \<Rightarrow> ptr list \<Rightarrow> 'a kmem_scheme \<Rightarrow> bool" where
  "new_tables flags s directory ts s' \<longleftrightarrow>
     kmem_inv s' \<and> distinct ts \<and> directory \<notin> set ts \<and> directory \<noteq> 0 \<and> length ts \<le> 1024 \<and>
     (\<forall>t \<in> insert directory (set ts). t mod 4096 = 0 \<and> objs s t = None) \<and>
     objs s' = (objs s ++ table_objs flags ts)
       (directory \<mapsto> OWords (map (dir_entry flags) ts @ replicate (1024 - length ts) 0)) \<and>
     klive s' = klive s \<union> (\<lambda>t. (t, 1)) ` insert directory (set ts) \<and>
     kavail s = kavail s' + length ts + 1 \<and> kmem.more s' = kmem.more s"

lemma new_tables_start:
  assumes "kmem_inv s" and "0 < kavail s"
  shows "\<exists>directory s'. alloc_as 4096 table_words s = Some (directory, s') \<and>
    new_tables flags s directory [] s'"
proof -
  obtain p s' where "alloc_as 4096 table_words s = Some (p, s')" "kmem_inv s'" "p \<noteq> 0"
    "p mod 4096 = 0" "objs s p = None" "objs s' = (objs s)(p \<mapsto> table_words)"
    "klive s' = insert (p, 1) (klive s)" "kavail s = Suc (kavail s')" "kmem.more s' = kmem.more s"
    by (rule alloc_as_fresh [OF assms, of 4096 table_words]) simp_all
  then show ?thesis by (simp add: new_tables_def)
qed

lemma new_tables_step:
  assumes nt: "new_tables flags s directory ts s1" and len: "length ts < 1024"
    and av: "0 < kavail s1"
  shows "\<exists>t s2. paging_new_4gb_entry flags directory (length ts) (of_nat (length ts) * 4194304, s1) =
      Some (of_nat (Suc (length ts)) * 4194304, s2) \<and> new_tables flags s directory (ts @ [t]) s2"
proof -
  let ?ds = "map (dir_entry flags) ts @ replicate (1024 - length ts) 0"
  let ?tab = "OWords (ident_table flags (length ts))"
  have inv: "kmem_inv s1" and dir1: "objs s1 directory = Some (OWords ?ds)"
    using nt by (simp_all add: new_tables_def)
  obtain t s' where
    t: "alloc_as 4096 table_words s1 = Some (t, s')" "kmem_inv s'" "t \<noteq> 0" "t mod 4096 = 0"
      "objs s1 t = None" "objs s' = (objs s1)(t \<mapsto> table_words)" "klive s' = insert (t, 1) (klive s1)"
      "kavail s1 = Suc (kavail s')" "kmem.more s' = kmem.more s1"
    by (rule alloc_as_fresh [OF inv av, of 4096 table_words]) simp_all
  have old: "t \<noteq> directory" "t \<notin> set ts" "objs s t = None"
    using nt t(5) by (auto simp: new_tables_def table_objs_None split: if_splits)
  have ds': "?ds[length ts := dir_entry flags t] =
      map (dir_entry flags) (ts @ [t]) @ replicate (1024 - Suc (length ts)) 0"
    using len by (simp add: list_update_append Suc_diff_Suc [symmetric])
  let ?s2 = "s'\<lparr>objs := (objs s')(t \<mapsto> ?tab,
      directory \<mapsto> OWords (?ds[length ts := dir_entry flags t]))\<rparr>"
  have step: "paging_new_4gb_entry flags directory (length ts) (of_nat (length ts) * 4194304, s1) =
      Some (of_nat (Suc (length ts)) * 4194304, ?s2)"
    using t(1,6) dir1 old(1) len
    by (simp add: paging_new_4gb_entry_def deref_def store_def new_4gb_table_eq algebra_simps
        ident_table_def dir_entry_def del: list_update_append)
  have "kmem_inv (s'\<lparr>objs := (objs s')(t \<mapsto> ?tab)\<rparr>)"
    using t by (intro kmem_inv_update) simp_all
  then have "kmem_inv ((s'\<lparr>objs := (objs s')(t \<mapsto> ?tab)\<rparr>)\<lparr>objs :=
      (objs (s'\<lparr>objs := (objs s')(t \<mapsto> ?tab)\<rparr>))(directory \<mapsto> OWords (?ds[length ts := dir_entry flags t]))\<rparr>)"
    by (intro kmem_inv_update) (use t dir1 in simp_all)
  then have inv2: "kmem_inv ?s2" by simp
  have objs2: "objs ?s2 = (objs s ++ table_objs flags (ts @ [t]))
      (directory \<mapsto> OWords (map (dir_entry flags) (ts @ [t]) @ replicate (1024 - length (ts @ [t])) 0))"
    using nt t(6) old ds' by (auto simp: new_tables_def table_objs_snoc fun_eq_iff map_add_def)
  have "new_tables flags s directory (ts @ [t]) ?s2"
    unfolding new_tables_def objs2 using nt t inv2 old len
    by (auto simp: new_tables_def)
  with step show ?thesis by blast
qed

lemma new_tables_loop:
  assumes "new_tables flags s directory [] s1" and "1024 \<le> kavail s1"
  shows "\<exists>ts s2. for_range 0 1024 (paging_new_4gb_entry flags directory) (0, s1) = Some (0, s2) \<and>
    length ts = 1024 \<and> new_tables flags s directory ts s2"
proof -
  let ?P = "\<lambda>k (offset, t). \<exists>ts. length ts = k \<and> offset = of_nat k * 4194304 \<and>
    new_tables flags s directory ts t"
  have av: "kavail s = Suc (kavail s1)" using assms(1) by (simp add: new_tables_def)
  have "\<exists>s'. for_range 0 1024 (paging_new_4gb_entry flags directory) (0, s1) = Some s' \<and> ?P (0 + 1024) s'"
  proof (rule for_range_rule [where P = ?P])
    show "?P 0 (0, s1)" using assms by simp
  next
    fix k :: nat and x :: "u32 \<times> 'a kmem_scheme" assume k: "k < 0 + 1024" and P: "?P k x"
    obtain offset t where x: "x = (offset, t)" by force
    from P obtain ts where ts: "length ts = k" "offset = of_nat k * 4194304"
      "new_tables flags s directory ts t" by (auto simp: x)
    have "0 < kavail t" using ts(1,3) k assms(2) av by (auto simp: new_tables_def)
    from new_tables_step [OF ts(3) _ this] ts(1,2) k obtain t' s2 where
      "paging_new_4gb_entry flags directory k x = Some (of_nat (Suc k) * 4194304, s2)"
      "new_tables flags s directory (ts @ [t']) s2" by (auto simp: x)
    moreover have "length (ts @ [t']) = Suc k" using ts(1) by simp
    ultimately show "\<exists>x'. paging_new_4gb_entry flags directory k x = Some x' \<and> ?P (Suc k) x'"
      by blast
  qed
  then show ?thesis by auto
qed

text \<open>What \<^verbatim>\<open>paging_new_4gb\<close> leaves when 1026 blocks are free.\<close>

lemma new_4gb_ok:
  assumes "kmem_inv s" and "1026 \<le> kavail s"
  obtains chunk directory ts s' where "paging_new_4gb flags s = Some (chunk, s')" "kmem_inv s'"
    "length ts = 1024" "distinct (chunk # directory # ts)"
    "\<forall>t \<in> {chunk, directory} \<union> set ts. t \<noteq> 0 \<and> t mod 4096 = 0 \<and> objs s t = None"
    "objs s' = (objs s ++ table_objs flags ts)(directory \<mapsto> OWords (map (dir_entry flags) ts),
       chunk \<mapsto> OChunk \<lparr>directory_entry = directory\<rparr>)"
    "klive s' = klive s \<union> (\<lambda>t. (t, 1)) ` ({chunk, directory} \<union> set ts)"
    "kavail s = kavail s' + 1026" "kmem.more s' = kmem.more s"
proof -
  obtain directory s1 where d: "alloc_as 4096 table_words s = Some (directory, s1)"
    "new_tables flags s directory [] s1"
    using new_tables_start [OF assms(1)] assms(2) by fastforce
  then have "1024 \<le> kavail s1" using assms(2) by (simp add: new_tables_def)
  then obtain ts s2 where l: "for_range 0 1024 (paging_new_4gb_entry flags directory) (0, s1) = Some (0, s2)"
    "length ts = 1024" and nt: "new_tables flags s directory ts s2"
    using new_tables_loop [OF d(2)] by blast
  then have inv: "kmem_inv s2" and av: "0 < kavail s2" using assms(2) by (simp_all add: new_tables_def)
  obtain chunk s3 where c: "alloc_as 4 (OChunk \<lparr>directory_entry = 0\<rparr>) s2 = Some (chunk, s3)"
    "kmem_inv s3" "chunk \<noteq> 0" "chunk mod 4096 = 0" "objs s2 chunk = None"
    "objs s3 = (objs s2)(chunk \<mapsto> OChunk \<lparr>directory_entry = 0\<rparr>)" "klive s3 = insert (chunk, 1) (klive s2)"
    "kavail s2 = Suc (kavail s3)" "kmem.more s3 = kmem.more s2"
    by (rule alloc_as_fresh [OF inv av, of 4 "OChunk \<lparr>directory_entry = 0\<rparr>"]) simp_all
  have old: "chunk \<noteq> directory" "chunk \<notin> set ts" "objs s chunk = None"
    using nt c(5) by (auto simp: new_tables_def table_objs_None split: if_splits)
  let ?s = "s3\<lparr>objs := (objs s3)(chunk \<mapsto> OChunk \<lparr>directory_entry = directory\<rparr>)\<rparr>"
  have "0 \<notin> set ts"
  proof
    assume "0 \<in> set ts"
    then have "objs s2 0 \<noteq> None" using nt by (auto simp: new_tables_def table_objs_None)
    with kmem_inv_null [OF inv] show False by simp
  qed
  show thesis
  proof (rule that)
    show "paging_new_4gb flags s = Some (chunk, ?s)"
      using d(1) l(1) c(1,6) by (simp add: paging_new_4gb_def deref_def store_def)
    show "kmem_inv ?s" using c(2,6) by (intro kmem_inv_update) simp_all
    show "length ts = 1024" by (rule l(2))
    show "distinct (chunk # directory # ts)" using nt old by (auto simp: new_tables_def)
    show "\<forall>t \<in> {chunk, directory} \<union> set ts. t \<noteq> 0 \<and> t mod 4096 = 0 \<and> objs s t = None"
      using nt old c(3,4) \<open>0 \<notin> set ts\<close> by (auto simp: new_tables_def)
    show "objs ?s = (objs s ++ table_objs flags ts)(directory \<mapsto> OWords (map (dir_entry flags) ts),
       chunk \<mapsto> OChunk \<lparr>directory_entry = directory\<rparr>)"
      using nt c(6) l(2) by (simp add: new_tables_def)
    show "klive ?s = klive s \<union> (\<lambda>t. (t, 1)) ` ({chunk, directory} \<union> set ts)"
      using nt c(7) by (auto simp: new_tables_def)
    show "kavail s = kavail ?s + 1026" using nt c(8) l(2) by (simp add: new_tables_def)
    show "kmem.more ?s = kmem.more s" using nt c(9) by (simp add: new_tables_def)
  qed
qed

lemma new_4gb_chunk:
  assumes "length ts = 1024" and "distinct (chunk # directory # ts)"
    and "\<forall>t \<in> set ts. t mod 4096 = 0"
    and "objs s' = (m ++ table_objs flags ts)(directory \<mapsto> OWords (map (dir_entry flags) ts),
       chunk \<mapsto> OChunk \<lparr>directory_entry = directory\<rparr>)"
  shows "paging_chunk (map (dir_entry flags) ts) directory chunk s'"
    and "v mod 4096 = 0 \<Longrightarrow> paging_get directory v s' = Some (v OR ucast flags)"
proof -
  have tof: "map table_of (map (dir_entry flags) ts) = ts"
    using assms(3) by (simp add: table_of_dir_entry map_idI)
  then have set: "table_of ` set (map (dir_entry flags) ts) = set ts"
    by (metis list.set_map)
  have tab: "objs s' (ts ! i) = Some (OWords (ident_table flags i))" if "i < 1024" for i
  proof -
    have "ts ! i \<in> set ts" using that assms(1) by simp
    then have "ts ! i \<noteq> directory" "ts ! i \<noteq> chunk" using assms(2) by auto
    then show ?thesis using that assms table_objs_nth [of ts i flags] by simp
  qed
  have "\<exists>ws. objs s' (table_of e) = Some (OWords ws) \<and> length ws = 1024"
    if "e \<in> set (map (dir_entry flags) ts)" for e
  proof -
    from that set have "table_of e \<in> set ts" by blast
    then obtain i where "i < 1024" "table_of e = ts ! i" using assms(1) by (metis in_set_conv_nth)
    with tab show ?thesis by (simp add: ident_table_def)
  qed
  moreover have "distinct (map table_of (map (dir_entry flags) ts))"
    using tof assms(2) by simp
  moreover have "directory \<notin> table_of ` set (map (dir_entry flags) ts)"
    using set assms(2) by simp
  moreover have "objs s' directory = Some (OWords (map (dir_entry flags) ts))"
    using assms(2,4) by auto
  ultimately have ok: "paging_dir (map (dir_entry flags) ts) directory s'"
    using assms(1) unfolding paging_dir_def by simp
  with assms show "paging_chunk (map (dir_entry flags) ts) directory chunk s'"
    by (simp add: paging_chunk_def)
  assume v: "v mod 4096 = 0"
  let ?i = "dir_index v" and ?b = "table_index v"
  have ib: "?i < 1024" "?b < 1024" by (rule dir_index_less, rule table_index_less)
  have "table_of (map (dir_entry flags) ts ! ?i) = ts ! ?i"
    using ib assms(1,3) by (simp add: table_of_dir_entry)
  then have "paging_get directory v s' = aget (ident_table flags ?i) ?b"
    using paging_get_eq [OF ok v] tab [OF ib(1)] by simp
  also have "\<dots> = Some ((of_nat ?i * 4194304 + of_nat ?b * 4096) OR ucast flags)"
    using ib by (simp add: ident_table_def)
  also have "(of_nat ?i * 4194304 + of_nat ?b * 4096 :: u32) = of_nat (unat v)"
    using aligned_split [OF v] by simp
  finally show "paging_get directory v s' = Some (v OR ucast flags)" by simp
qed

text \<open>The heap blocks of a chunk: itself, its directory and the tables.\<close>

definition chunk_blocks :: "u32 list \<Rightarrow> ptr \<Rightarrow> ptr \<Rightarrow> ptr set" where
  "chunk_blocks ds directory chunk = {chunk, directory} \<union> table_of ` set ds"

text \<open>The loop of \<^verbatim>\<open>paging_free_4gb\<close> releases the tables.\<close>

lemma free_tables_ok:
  assumes inv: "kmem_inv s" and ch: "paging_chunk ds directory chunk s"
    and own: "(\<lambda>t. (t, 1)) ` chunk_blocks ds directory chunk \<subseteq> klive s"
  obtains s' where "for_range 0 1024 (\<lambda>i s. do { c \<leftarrow> deref as_chunk chunk s; d \<leftarrow> deref as_words (directory_entry c) s;
      entry \<leftarrow> aget d i; kfree (entry AND 0xfffff000) s }) s = Some s'" "kmem_inv s'"
    "objs s' = objs s |` (- table_of ` set ds)" "klive s' = klive s - (\<lambda>t. (t, 1)) ` table_of ` set ds"
    "kavail s' = kavail s + 1024" "kmem.more s' = kmem.more s"
proof -
  from ch have dir: "objs s chunk = Some (OChunk \<lparr>directory_entry = directory\<rparr>)"
    "objs s directory = Some (OWords ds)" "length ds = 1024" "distinct (map table_of ds)"
    "directory \<notin> table_of ` set ds"
    by (simp_all add: paging_chunk_def paging_dir_def)
  have nc: "chunk \<notin> table_of ` set ds" by (rule paging_chunk_not_table [OF ch])
  let ?body = "\<lambda>i s. do { c \<leftarrow> deref as_chunk chunk s; d \<leftarrow> deref as_words (directory_entry c) s;
      entry \<leftarrow> aget d i; kfree (entry AND 0xfffff000) s }"
  let ?T = "\<lambda>k. table_of ` set (take k ds)"
  let ?P = "\<lambda>k t. kmem_inv t \<and> objs t = objs s |` (- ?T k) \<and> klive t = klive s - (\<lambda>t. (t, 1)) ` ?T k \<and>
      kavail t = kavail s + k \<and> kmem.more t = kmem.more s"
  have sub: "?T k \<subseteq> table_of ` set ds" for k using set_take_subset [of k ds] by blast
  have "\<exists>s'. for_range 0 1024 ?body s = Some s' \<and> ?P (0 + 1024) s'"
  proof (rule for_range_rule [where P = ?P])
    fix k t assume k: "k < 0 + 1024" and P: "?P k t"
    let ?t = "table_of (ds ! k)"
    have Tk: "?T (Suc k) = insert ?t (?T k)" using k dir(3) by (simp add: take_Suc_conv_app_nth)
    have "?t \<notin> ?T k"
    proof
      assume "?t \<in> ?T k"
      then obtain j where "j < k" "table_of (ds ! j) = ?t" using k dir(3) by (auto simp: in_set_conv_nth)
      with dir(4) k dir(3) nth_eq_iff_index_eq [of "map table_of ds" j k] show False by simp
    qed
    moreover have "(?t, 1) \<in> klive s" using own k dir(3) by (auto simp: chunk_blocks_def)
    ultimately have live: "(?t, 1) \<in> klive t" using P by auto
    have inv': "kmem_inv t" using P by simp
    obtain t' where t': "kfree ?t t = Some t'" "kmem_inv t'" "objs t' = (objs t)(?t := None)"
      "klive t' = klive t - {(?t, 1)}" "kavail t' = kavail t + 1" "kmem.more t' = kmem.more t"
      by (rule kfree_live [OF inv' live])
    have "objs t chunk = objs s chunk" "objs t directory = objs s directory"
      using P sub [of k] nc dir(5) by (auto simp: restrict_map_def)
    then have "?body k t = Some t'" using dir k t'(1) by (simp add: deref_def table_of_def)
    moreover have "objs t' = objs s |` (- ?T (Suc k))"
      using t'(3) P unfolding Tk by (auto simp: restrict_map_def fun_eq_iff)
    moreover have "klive t' = klive s - (\<lambda>t. (t, 1)) ` ?T (Suc k)"
      using t'(4) P unfolding Tk by auto
    ultimately show "\<exists>t'. ?body k t = Some t' \<and> ?P (Suc k) t'"
      using t' P by auto
  qed (use inv in \<open>simp add: restrict_map_def\<close>)
  then obtain s1 where "for_range 0 1024 ?body s = Some s1" "?P (0 + 1024) s1" by blast
  then show thesis using dir(3) by (intro that [of s1]) simp_all
qed

lemma free_4gb_ok:
  assumes inv: "kmem_inv s" and ch: "paging_chunk ds directory chunk s"
    and own: "(\<lambda>t. (t, 1)) ` chunk_blocks ds directory chunk \<subseteq> klive s"
  obtains s' where "paging_free_4gb chunk s = Some s'" "kmem_inv s'"
    "objs s' = objs s |` (- chunk_blocks ds directory chunk)"
    "klive s' = klive s - (\<lambda>t. (t, 1)) ` chunk_blocks ds directory chunk"
    "kavail s' = kavail s + 1026" "kmem.more s' = kmem.more s"
proof -
  from ch have dir: "objs s chunk = Some (OChunk \<lparr>directory_entry = directory\<rparr>)"
    "objs s directory = Some (OWords ds)" "directory \<notin> table_of ` set ds"
    by (simp_all add: paging_chunk_def paging_dir_def)
  have nc: "chunk \<notin> table_of ` set ds" by (rule paging_chunk_not_table [OF ch])
  have cd: "chunk \<noteq> directory" using dir by auto
  obtain s1 where s1: "for_range 0 1024 (\<lambda>i s. do { c \<leftarrow> deref as_chunk chunk s; d \<leftarrow> deref as_words (directory_entry c) s;
      entry \<leftarrow> aget d i; kfree (entry AND 0xfffff000) s }) s = Some s1" "kmem_inv s1"
    "objs s1 = objs s |` (- table_of ` set ds)" "klive s1 = klive s - (\<lambda>t. (t, 1)) ` table_of ` set ds"
    "kavail s1 = kavail s + 1024" "kmem.more s1 = kmem.more s"
    by (rule free_tables_ok [OF assms])
  have "(directory, 1) \<in> klive s1" using s1(4) own dir(3) by (auto simp: chunk_blocks_def)
  then obtain s2 where s2: "kfree directory s1 = Some s2" "kmem_inv s2"
    "objs s2 = (objs s1)(directory := None)" "klive s2 = klive s1 - {(directory, 1)}"
    "kavail s2 = kavail s1 + 1" "kmem.more s2 = kmem.more s1"
    by (rule kfree_live [OF s1(2)])
  have "(chunk, 1) \<in> klive s2" using s1(4) s2(4) own nc cd by (auto simp: chunk_blocks_def)
  then obtain s3 where s3: "kfree chunk s2 = Some s3" "kmem_inv s3"
    "objs s3 = (objs s2)(chunk := None)" "klive s3 = klive s2 - {(chunk, 1)}"
    "kavail s3 = kavail s2 + 1" "kmem.more s3 = kmem.more s2"
    by (rule kfree_live [OF s2(2)])
  show thesis
  proof (rule that)
    have "objs s1 chunk = Some (OChunk \<lparr>directory_entry = directory\<rparr>)"
      using s1(3) nc dir(1) by simp
    then show "paging_free_4gb chunk s = Some s3"
      using s1(1) s2(1) s3(1) by (simp add: paging_free_4gb_def deref_def)
    show "objs s3 = objs s |` (- chunk_blocks ds directory chunk)"
      using s1(3) s2(3) s3(3) by (auto simp: chunk_blocks_def restrict_map_def fun_eq_iff)
    show "klive s3 = klive s - (\<lambda>t. (t, 1)) ` chunk_blocks ds directory chunk"
      using s1(4) s2(4) s3(4) by (auto simp: chunk_blocks_def)
    show "kavail s3 = kavail s + 1026" using s1(5) s2(5) s3(5) by simp
    show "kmem.more s3 = kmem.more s" using s1(6) s2(6) s3(6) by simp
    show "kmem_inv s3" by (rule s3(2))
  qed
qed

lemma new_4gb_needs_memory:
  assumes "kmem_inv s" and "paging_new_4gb flags s = Some x"
  shows "1026 \<le> kavail s"
proof (rule ccontr)
  assume "\<not> 1026 \<le> kavail s"
  then have few: "kavail s < 1026" by simp
  have full: "alloc_as sz z t = Some (0, t)"
    if "kmem_inv t" "kavail t = 0" "sz \<noteq> 0" "unat sz \<le> 4096" for sz z and t :: "'a kmem_scheme"
    using ka.malloc_full [OF that(1,3,4,2)] by simp
  have stuck: "paging_new_4gb_entry flags directory k (offset, t) = None"
    if "kmem_inv t" "kavail t = 0" for directory k offset and t :: "'a kmem_scheme"
    using full [OF that] kmem_inv_null [OF that(1)] by (simp add: paging_new_4gb_entry_def deref_def)
  have "0 < kavail s"
  proof (rule ccontr)
    assume 0: "\<not> 0 < kavail s"
    then have "alloc_as 4096 table_words s = Some (0, s)" using full assms(1) by simp
    moreover have "for_range 0 (Suc 1023) (paging_new_4gb_entry flags 0) (0, s) = None"
      using 0 stuck [OF assms(1)] by (subst for_range.simps(2)) simp
    ultimately show False using assms(2) by (simp add: paging_new_4gb_def)
  qed
  then obtain directory s1 where d: "alloc_as 4096 table_words s = Some (directory, s1)"
    "new_tables flags s directory [] s1"
    using new_tables_start [OF assms(1)] by blast
  with assms(2) obtain y where loop:
    "for_range 0 1024 (paging_new_4gb_entry flags directory) (0, s1) = Some y"
    by (auto simp: paging_new_4gb_def split: Option.bind_splits)
  let ?P = "\<lambda>k (offset, t). \<exists>ts. length ts = k \<and> offset = of_nat k * 4194304 \<and>
    new_tables flags s directory ts t"
  have "?P (0 + 1024) y"
  proof (rule for_range_inv [OF loop, where P = ?P])
    show "?P 0 (0, s1)" using d(2) by simp
  next
    fix k :: nat and x x' :: "u32 \<times> 'a kmem_scheme"
    assume k: "k < 0 + 1024" and P: "?P k x"
      and b: "paging_new_4gb_entry flags directory k x = Some x'"
    obtain offset t where x: "x = (offset, t)" by force
    from P obtain ts where ts: "length ts = k" "offset = of_nat k * 4194304"
      "new_tables flags s directory ts t" by (auto simp: x)
    have "kmem_inv t" using ts(3) by (simp add: new_tables_def)
    then have "0 < kavail t" using b stuck [of t directory k offset] by (auto simp: x)
    from new_tables_step [OF ts(3) _ this] ts(1,2) k b obtain t' where
      "new_tables flags s directory (ts @ [t']) (snd x')" "fst x' = of_nat (Suc k) * 4194304"
      by (auto simp: x)
    moreover have "length (ts @ [t']) = Suc k" for t' using ts(1) by simp
    ultimately show "?P (Suc k) x'" by (metis (mono_tags, lifting) case_prod_unfold)
  qed
  then obtain ts s2 where y: "y = (0, s2)" "length ts = 1024" "new_tables flags s directory ts s2"
    by auto
  then have inv: "kmem_inv s2" and "kavail s2 = 0" using few by (auto simp: new_tables_def)
  then have "alloc_as 4 (OChunk \<lparr>directory_entry = 0\<rparr>) s2 = Some (0, s2)" using full by simp
  with assms(2) d(1) loop y(1) kmem_inv_null [OF inv] show False
    by (simp add: paging_new_4gb_def deref_def)
qed

lemma new_4gb_made:
  assumes "kmem_inv s" and "paging_new_4gb flags s = Some (chunk, s')"
  obtains directory ts where "kmem_inv s'"
    "length ts = 1024" "distinct (chunk # directory # ts)"
    "\<forall>t \<in> {chunk, directory} \<union> set ts. t \<noteq> 0 \<and> t mod 4096 = 0 \<and> objs s t = None"
    "objs s' = (objs s ++ table_objs flags ts)(directory \<mapsto> OWords (map (dir_entry flags) ts),
       chunk \<mapsto> OChunk \<lparr>directory_entry = directory\<rparr>)"
    "klive s' = klive s \<union> (\<lambda>t. (t, 1)) ` ({chunk, directory} \<union> set ts)"
    "kavail s = kavail s' + 1026" "kmem.more s' = kmem.more s"
proof -
  obtain chunk0 directory ts s0 where new: "paging_new_4gb flags s = Some (chunk0, s0)"
    and *: "kmem_inv s0" "length ts = 1024" "distinct (chunk0 # directory # ts)"
    "\<forall>t \<in> {chunk0, directory} \<union> set ts. t \<noteq> 0 \<and> t mod 4096 = 0 \<and> objs s t = None"
    "objs s0 = (objs s ++ table_objs flags ts)(directory \<mapsto> OWords (map (dir_entry flags) ts),
       chunk0 \<mapsto> OChunk \<lparr>directory_entry = directory\<rparr>)"
    "klive s0 = klive s \<union> (\<lambda>t. (t, 1)) ` ({chunk0, directory} \<union> set ts)"
    "kavail s = kavail s0 + 1026" "kmem.more s0 = kmem.more s"
    by (rule new_4gb_ok [OF assms(1) new_4gb_needs_memory [OF assms]])
  have eq: "chunk0 = chunk" "s0 = s'" using new assms(2) by simp_all
  show thesis by (rule that [OF * [unfolded eq]])
qed

section \<open>Address arithmetic\<close>

lemma lower_page_eq: "paging_align_to_lower_page = table_of"
  by (simp add: fun_eq_iff paging_align_to_lower_page_def table_of_eq)

lemma table_of_aligned: "table_of e mod 4096 = 0"
proof -
  have "take_bit 12 (table_of e) = 0"
    by (simp add: table_of_def frame_mask bit_eq_iff bit_simps)
  then show ?thesis by (simp add: take_bit_eq_mod)
qed

lemma page_plus_offset:
  assumes "v mod 4096 = 0" and "r < 4096"
  shows "table_of (v + of_nat r) = v"
proof -
  have f: "take_bit 12 (of_nat r :: u32) = of_nat r"
    using assms(2) by (simp add: take_bit_eq_mod word_unat_eq_iff unat_mod unat_of_nat_u32)
  have v: "v = v AND NOT (mask 12)"
    using table_of_eq [of v] assms(1) by (simp add: table_of_def frame_mask)
  have "v AND of_nat r = (v AND NOT (mask 12)) AND (of_nat r AND mask 12)"
    using v f by (metis take_bit_eq_mask)
  also have "\<dots> = 0" by (simp add: bit_eq_iff bit_simps)
  finally have "v + of_nat r = v OR of_nat r" by (rule disjunctive_add_eq_or)
  then show ?thesis using table_of_or [OF assms(1) f] by simp
qed

lemma page_sub_aligned: "v mod 4096 = 0 \<Longrightarrow> w mod 4096 = 0 \<Longrightarrow> (w - v :: u32) mod 4096 = 0"
proof -
  assume "v mod 4096 = 0" and "w mod 4096 = 0"
  then have "(2 ^ 12 :: u32) dvd v" "(2 ^ 12 :: u32) dvd w" by (intro mod_0_imp_dvd; simp)+
  then have "(2 ^ 12 :: u32) dvd w - v" by (intro dvd_diff)
  then show ?thesis using exp_dvd_iff_exp_udvd [of 12 "w - v"] by (simp add: udvd_iff_dvd mod_page_zero_iff)
qed

lemma page_diff: "k < 1048576 \<Longrightarrow> unat ((v :: u32) + of_nat k * 4096 - v) div 4096 = k"
proof -
  assume k: "k < 1048576"
  have "(of_nat k * 4096 :: u32) = of_nat (k * 4096)" by simp
  moreover have "unat (of_nat (k * 4096) :: u32) = k * 4096"
    using k by (intro unat_of_nat_u32) simp
  ultimately show ?thesis by (simp del: of_nat_mult)
qed

lemma mod_diff_eq_0: "a mod 4096 = 0 \<Longrightarrow> b mod 4096 = 0 \<Longrightarrow> (b - a) mod (4096 :: nat) = 0"
  by (simp add: mod_eq_0_iff_dvd dvd_diff_nat)

text \<open>The pages from \<open>v\<close> on, counted by their distance.\<close>

lemma page_range_iff:
  assumes "(v :: u32) mod 4096 = 0" and "w mod 4096 = 0" and "m mod 4096 = 0"
  shows "(\<exists>i < m div 4096. w = v + of_nat i * 4096) \<longleftrightarrow> unat (w - v) < m"
    and "of_nat (unat (w - v) div 4096) * 4096 = w - v"
proof -
  have al: "unat (w - v) mod 4096 = 0"
    using table_of_aligned [of "w - v"] page_sub_aligned [OF assms(1,2)] by (simp add: mod_page_zero_iff)
  have "unat (w - v) = unat (w - v) div 4096 * 4096"
    using al div_mult_mod_eq [of "unat (w - v)" 4096] by linarith
  then have d: "w - v = of_nat (unat (w - v) div 4096) * 4096"
    by (metis of_nat_mult of_nat_numeral of_nat_unat ucast_id)
  then show "of_nat (unat (w - v) div 4096) * 4096 = w - v" by simp
  have b: "unat (w - v) div 4096 < 1048576"
    using unat_u32_bound [of "w - v"] by (simp add: less_mult_imp_div_less)
  show "(\<exists>i < m div 4096. w = v + of_nat i * 4096) \<longleftrightarrow> unat (w - v) < m"
  proof
    assume "\<exists>i < m div 4096. w = v + of_nat i * 4096"
    then obtain i where i: "i < m div 4096" "w - v = of_nat (i * 4096)" by auto
    have "unat (w - v) \<le> i * 4096" unfolding i(2) by (simp add: unat_of_nat del: of_nat_mult)
    then show "unat (w - v) < m" using i(1) by linarith
  next
    assume "unat (w - v) < m"
    moreover have "m = m div 4096 * 4096" using assms(3) div_mult_mod_eq [of m 4096] by linarith
    moreover have "unat (w - v) = unat (w - v) div 4096 * 4096"
      using al div_mult_mod_eq [of "unat (w - v)" 4096] by linarith
    ultimately have "unat (w - v) div 4096 < m div 4096" by linarith
    moreover have "w = v + of_nat (unat (w - v) div 4096) * 4096" using d by (simp add: algebra_simps)
    ultimately show "\<exists>i < m div 4096. w = v + of_nat i * 4096" by blast
  qed
qed

lemma low_flags:
  assumes "0 \<le> flags" and "flags < 4096"
  shows "take_bit 12 (word_of_int flags :: u32) = word_of_int flags"
proof -
  have "take_bit 12 flags = flags" using assms by (simp add: take_bit_int_eq_self)
  then have "word_of_int (take_bit 12 flags) = (word_of_int flags :: u32)" by simp
  then show ?thesis by (simp add: bit_eq_iff bit_simps)
qed

lemma map_to_ok:
  assumes ch: "paging_chunk ds directory chunk s"
    and al: "virt mod 4096 = 0" "phys mod 4096 = 0" "phys_end mod 4096 = 0" and le: "phys \<le> phys_end"
  shows "\<exists>s'. paging_map_to chunk virt phys phys_end flags s = Some (0, s') \<and>
      paging_chunk ds directory chunk s' \<and> paging_rest ds s' = paging_rest ds s \<and>
      (\<forall>w. w mod 4096 = 0 \<longrightarrow> paging_get directory w s' =
        (if unat (w - virt) < unat phys_end - unat phys
         then Some ((phys + (w - virt)) OR word_of_int flags) else paging_get directory w s))"
proof -
  let ?n = "(unat phys_end - unat phys) div 4096"
  from map_range_ok [OF ch al(1,2), of "int ?n" flags] pages_between [OF le] obtain s' where
    s': "paging_map_range chunk virt phys (int ?n) flags s = Some (0, s')"
    "paging_chunk ds directory chunk s'" "paging_rest ds s' = paging_rest ds s"
    and get: "\<And>w. w mod 4096 = 0 \<Longrightarrow> paging_get directory w s' =
      (if \<exists>i<?n. w = virt + of_nat i * 4096
       then Some ((phys + of_nat (unat (w - virt) div 4096) * 4096) OR word_of_int flags)
       else paging_get directory w s)" by auto
  have total: "(unat phys_end - unat phys) mod 4096 = 0"
    using al(2,3) le by (simp add: mod_page_zero_iff word_le_nat_alt mod_diff_eq_0)
  have "paging_get directory w s' = (if unat (w - virt) < unat phys_end - unat phys
      then Some ((phys + (w - virt)) OR word_of_int flags) else paging_get directory w s)"
    if w: "w mod 4096 = 0" for w
    using get [OF w] page_range_iff [OF al(1) w total] by simp
  moreover have "paging_map_to chunk virt phys phys_end flags s =
      paging_map_range chunk virt phys (int ?n) flags s"
    using al le pages_between(1) [OF le] by (simp add: paging_map_to_def leD Let_def)
  ultimately show ?thesis using s' by auto
qed

lemma lower_page_unat: "unat (paging_align_to_lower_page a) = unat a div 4096 * 4096"
proof -
  have "a mod 4096 \<le> a" by (simp add: word_le_nat_alt unat_mod)
  then have "unat (a - a mod 4096) = unat a - unat a mod 4096" by (simp add: unat_sub unat_mod del: minus_mod_eq_mult_div)
  then show ?thesis by (simp only: paging_align_to_lower_page_def minus_mod_eq_div_mult)
qed

lemma align_address_unat:
  "unat (paging_align_address a) =
     (if unat a \<le> 0xfffff000 then (unat a + 4095) div 4096 * 4096 else 0)"
proof -
  obtain q r where a: "unat a = 4096 * q + r" and r: "r < 4096" using page_split by blast
  then have m: "unat (a mod 4096) = r" by (simp add: unat_mod)
  have le: "a mod 4096 \<le> a" by (simp add: word_le_nat_alt unat_mod)
  have q: "q < 1048576" using unat_u32_bound [of a] a by linarith
  show ?thesis
  proof (cases "r = 0")
    case True
    then have "a mod 4096 = 0" using m by (simp add: word_unat_eq_iff)
    with True a q show ?thesis by (simp add: paging_align_address_def)
  next
    case False
    then have nz: "a mod 4096 \<noteq> 0" using m by (auto simp: word_unat_eq_iff)
    have "unat (a - a mod 4096) = 4096 * q" using unat_sub [OF le] a m by simp
    then have "unat (a - a mod 4096 + 4096) = (4096 * q + 4096) mod 4294967296"
      by (simp add: unat_word_ariths)
    moreover have "a + 4096 - a mod 4096 = a - a mod 4096 + 4096" by simp
    ultimately have u: "unat (paging_align_address a) = (4096 * q + 4096) mod 4294967296"
      using nz by (simp only: paging_align_address_def if_True not_False_eq_True)
    have d: "(unat a + 4095) div 4096 = Suc q" using a r False by (intro div_nat_eqI) auto
    show ?thesis
    proof (cases "unat a \<le> 0xfffff000")
      case True
      then have "4096 * q + 4096 < 4294967296" using a False by linarith
      with True u d show ?thesis by simp
    next
      case big: False
      then have "q = 1048575" using a r q by linarith
      with big u show ?thesis by simp
    qed
  qed
qed

end
