(* ===== verification/Paging_Props.thy ===== *)
theory Paging_Props
  imports Paging
begin

text \<open>
  The properties of the page directories of \<^verbatim>\<open>src/src/memory/paging/paging.c\<close>, each over the
  lemmas and interpretations of \<open>Paging\<close>.
\<close>

section \<open>Properties\<close>

text \<open>
  C12. \<^verbatim>\<open>paging_new_4gb\<close> returns exactly when 1026 blocks are free (otherwise it writes through
  the null pointer \<^verbatim>\<open>kzalloc\<close> gave it); the new directory then maps every page of the 4 GB to
  itself with the given flags, and no object that existed changes.
\<close>

theorem paging_new_4gb_identity:
  assumes "kmem_inv s"
  shows "if 1026 \<le> kavail s
    then \<exists>chunk ds directory s'. paging_new_4gb flags s = Some (chunk, s') \<and> kmem_inv s' \<and>
      paging_chunk ds directory chunk s' \<and>
      (\<forall>v. paging_get directory (paging_align_to_lower_page v) s' =
        Some (paging_align_to_lower_page v OR ucast flags)) \<and>
      (\<forall>p. objs s p \<noteq> None \<longrightarrow> objs s' p = objs s p)
    else paging_new_4gb flags s = None"
proof (cases "1026 \<le> kavail s")
  case True
  obtain chunk directory ts s' where
    new: "paging_new_4gb flags s = Some (chunk, s')" "kmem_inv s'"
      "length ts = 1024" "distinct (chunk # directory # ts)"
    and fresh: "\<forall>t \<in> {chunk, directory} \<union> set ts. t \<noteq> 0 \<and> t mod 4096 = 0 \<and> objs s t = None"
    and objs: "objs s' = (objs s ++ table_objs flags ts)(directory \<mapsto> OWords (map (dir_entry flags) ts),
       chunk \<mapsto> OChunk \<lparr>directory_entry = directory\<rparr>)"
    by (rule new_4gb_ok [OF assms True])
  have al: "\<forall>t \<in> set ts. t mod 4096 = 0" using fresh by blast
  note ch = new_4gb_chunk [OF new(3,4) al objs]
  have "paging_align_to_lower_page v mod 4096 = 0" for v
    using table_of_aligned by (simp add: lower_page_eq)
  moreover have "objs s' p = objs s p" if "objs s p \<noteq> None" for p
  proof -
    have "p \<noteq> chunk" "p \<noteq> directory" "p \<notin> set ts" using that fresh by auto
    moreover from this(3) have "table_objs flags ts p = None" by (simp add: table_objs_None)
    ultimately show ?thesis by (simp add: objs map_add_def)
  qed
  ultimately have "paging_chunk (map (dir_entry flags) ts) directory chunk s' \<and>
      (\<forall>v. paging_get directory (paging_align_to_lower_page v) s' =
        Some (paging_align_to_lower_page v OR ucast flags)) \<and>
      (\<forall>p. objs s p \<noteq> None \<longrightarrow> objs s' p = objs s p)"
    using ch by blast
  with new(1,2) show ?thesis using True by (simp only: if_True) blast
next
  case False
  then have "paging_new_4gb flags s = None"
    using new_4gb_needs_memory [OF assms] by (cases "paging_new_4gb flags s") auto
  with False show ?thesis by simp
qed

lemma sample_chunk:
  obtains chunk ds directory s where "paging_chunk ds directory chunk (s :: unit kmem_scheme)"
    "paging_dir ds directory s" "kmem_inv s"
    "\<And>v. paging_get directory (paging_align_to_lower_page v) s =
        Some (paging_align_to_lower_page v OR ucast (PAGING_IS_PRESENT OR PAGING_IS_WRITEABLE))"
proof -
  have s: "kmem_inv (sample_kmem 1026)" "1026 \<le> kavail (sample_kmem 1026)"
    using sample_kmem_inv [of 1026] by auto
  obtain chunk directory ts s' where
    new: "paging_new_4gb 3 (sample_kmem 1026) = Some (chunk, s')" "kmem_inv s'"
      "length ts = 1024" "distinct (chunk # directory # ts)"
    and fresh: "\<forall>t \<in> {chunk, directory} \<union> set ts. t \<noteq> 0 \<and> t mod 4096 = 0 \<and> objs (sample_kmem 1026) t = None"
    and objs: "objs s' = (objs (sample_kmem 1026) ++ table_objs 3 ts)(directory \<mapsto> OWords (map (dir_entry 3) ts),
       chunk \<mapsto> OChunk \<lparr>directory_entry = directory\<rparr>)"
    by (rule new_4gb_ok [OF s])
  have al: "\<forall>t \<in> set ts. t mod 4096 = 0" using fresh by blast
  note ch = new_4gb_chunk [OF new(3,4) al objs]
  then show thesis
    by (intro that [OF ch(1) _ new(2)])
      (simp_all add: paging_chunk_def lower_page_eq table_of_aligned)
qed

lemma paging_new_4gb_identity_witness:
  "\<exists>chunk s'. paging_new_4gb (PAGING_IS_PRESENT OR PAGING_IS_WRITEABLE) (sample_kmem 1026) = Some (chunk, s')"
  using paging_new_4gb_identity [of "sample_kmem 1026" "PAGING_IS_PRESENT OR PAGING_IS_WRITEABLE"]
    sample_kmem_inv [of 1026] by auto

text \<open>
  C13. \<^verbatim>\<open>paging_free_4gb\<close> undoes \<^verbatim>\<open>paging_new_4gb\<close>: every block goes back to the heap and no
  other object is touched.
\<close>

theorem paging_new_free_roundtrip:
  assumes "kmem_inv s" and "paging_new_4gb flags s = Some (chunk, s')"
  shows "\<exists>s''. paging_free_4gb chunk s' = Some s'' \<and> kmem_inv s'' \<and> objs s'' = objs s \<and>
    klive s'' = klive s \<and> kavail s'' = kavail s"
proof -
  obtain directory ts where
    new: "kmem_inv s'" "length ts = 1024" "distinct (chunk # directory # ts)"
    and fresh: "\<forall>t \<in> {chunk, directory} \<union> set ts. t \<noteq> 0 \<and> t mod 4096 = 0 \<and> objs s t = None"
    and objs: "objs s' = (objs s ++ table_objs flags ts)(directory \<mapsto> OWords (map (dir_entry flags) ts),
       chunk \<mapsto> OChunk \<lparr>directory_entry = directory\<rparr>)"
    and live: "klive s' = klive s \<union> (\<lambda>t. (t, 1)) ` ({chunk, directory} \<union> set ts)"
    and avail: "kavail s = kavail s' + 1026"
    by (rule new_4gb_made [OF assms])
  have al: "\<forall>t \<in> set ts. t mod 4096 = 0" using fresh by blast
  note ch = new_4gb_chunk [OF new(2,3) al objs]
  have blocks: "chunk_blocks (map (dir_entry flags) ts) directory chunk = {chunk, directory} \<union> set ts"
  proof -
    have "table_of ` set (map (dir_entry flags) ts) = set ts"
      using al by (simp add: image_image table_of_dir_entry)
    then show ?thesis by (simp only: chunk_blocks_def)
  qed
  obtain s'' where s'': "paging_free_4gb chunk s' = Some s''" "kmem_inv s''"
    "objs s'' = objs s' |` (- ({chunk, directory} \<union> set ts))"
    "klive s'' = klive s' - (\<lambda>t. (t, 1)) ` ({chunk, directory} \<union> set ts)"
    "kavail s'' = kavail s' + 1026"
    by (rule free_4gb_ok [OF new(1) ch(1), unfolded blocks]) (use live in auto)
  have "objs s'' = objs s"
  proof
    fix p show "objs s'' p = objs s p"
      using fresh objs s''(3) table_objs_None [of flags ts p]
      by (auto simp: restrict_map_def map_add_def)
  qed
  moreover have "(t, n) \<notin> klive s" if "t \<in> {chunk, directory} \<union> set ts" for t n
    using that fresh assms(1) unfolding kmem_inv_def by blast
  then have "klive s'' = klive s" using s''(4) live by auto
  ultimately show ?thesis using s'' avail by simp
qed

lemma paging_new_free_roundtrip_witness:
  "\<exists>chunk s' s''. paging_new_4gb 7 (sample_kmem 1026) = Some (chunk, s') \<and>
     paging_free_4gb chunk s' = Some s'' \<and> kavail s'' = 1026"
proof -
  have s: "kmem_inv (sample_kmem 1026)" "kavail (sample_kmem 1026) = 1026"
    using sample_kmem_inv [of 1026] by auto
  obtain chunk s' where new: "paging_new_4gb 7 (sample_kmem 1026) = Some (chunk, s')"
    by (rule new_4gb_ok [OF s(1), of 7]) (simp_all add: s(2))
  from paging_new_free_roundtrip [OF s(1) this] new s(2) show ?thesis by metis
qed

text \<open>
  In a well-formed directory \<^verbatim>\<open>paging_set\<close> on an aligned address returns 0, \<^verbatim>\<open>paging_get\<close>
  then reads the value back, every other page keeps its entry and nothing but the tables
  changes; on an unaligned address it returns \<^verbatim>\<open>-EINVARG\<close> and changes nothing.
\<close>

theorem paging_set_get:
  assumes "paging_dir ds directory s"
  shows "\<exists>s'. paging_set directory virt val s =
      Some (if paging_is_aligned virt then (0, s') else (- EINVAGR, s)) \<and>
    paging_dir ds directory s' \<and> paging_rest ds s' = paging_rest ds s \<and>
    (paging_is_aligned virt \<longrightarrow> (\<forall>w. paging_is_aligned w \<longrightarrow>
      paging_get directory w s' = (if w = virt then Some val else paging_get directory w s)))"
proof (cases "paging_is_aligned virt")
  case True
  then show ?thesis
    using ps.put_aligned [OF assms, of virt val] by (auto simp: paging_is_aligned_def)
next
  case False
  then show ?thesis
    using ps.put_unaligned [where v = virt and e = val and directory = directory and s = s] assms
    by (auto simp: paging_is_aligned_def)
qed

lemma paging_set_get_witness:
  "\<exists>(s :: unit kmem_scheme) directory s'. paging_set directory 0x400000 0x1000007 s = Some (0, s') \<and>
     paging_get directory 0x400000 s' = Some 0x1000007"
proof -
  obtain chunk ds directory and s :: "unit kmem_scheme" where s: "paging_dir ds directory s"
    by (rule sample_chunk)
  have al: "paging_is_aligned 0x400000" by (simp add: paging_is_aligned_def)
  from paging_set_get [OF s, of "0x400000" "0x1000007"] al obtain s' where
    "paging_set directory 0x400000 0x1000007 s = Some (0, s')"
    "paging_get directory 0x400000 s' = Some 0x1000007" by auto
  then show ?thesis by blast
qed

text \<open>
  C14. \<^verbatim>\<open>paging_map_to\<close> on aligned addresses with \<^verbatim>\<open>phys \<le> phys_end\<close> maps every page of the
  range to its frame with the flags, leaves every page outside the range and everything outside
  the tables as it was, and returns 0; otherwise it returns \<^verbatim>\<open>-EINVARG\<close> and changes nothing.
\<close>

theorem paging_map_to_maps:
  assumes "paging_chunk ds directory chunk s"
  shows "if paging_is_aligned virt \<and> paging_is_aligned phys \<and> paging_is_aligned phys_end \<and> phys \<le> phys_end
    then \<exists>s'. paging_map_to chunk virt phys phys_end flags s = Some (0, s') \<and>
      paging_chunk ds directory chunk s' \<and> paging_rest ds s' = paging_rest ds s \<and>
      (\<forall>w. paging_is_aligned w \<longrightarrow> paging_get directory w s' =
        (if unat (w - virt) < unat phys_end - unat phys
         then Some ((phys + (w - virt)) OR word_of_int flags) else paging_get directory w s))
    else paging_map_to chunk virt phys phys_end flags s = Some (- EINVAGR, s)"
proof (cases "paging_is_aligned virt \<and> paging_is_aligned phys \<and> paging_is_aligned phys_end \<and> phys \<le> phys_end")
  case True
  then show ?thesis
    using map_to_ok [OF assms, of virt phys phys_end flags] by (simp add: paging_is_aligned_def)
next
  case False
  then show ?thesis by (auto simp: paging_map_to_def paging_is_aligned_def not_less)
qed

lemma paging_map_to_maps_witness:
  "\<exists>(s :: unit kmem_scheme) chunk directory s'. 
     paging_map_to chunk 0x400000 0x1005000 0x1007000 7 s = Some (0, s') \<and>
     paging_get directory 0x401000 s' = Some 0x1006007"
proof -
  obtain chunk ds directory and s :: "unit kmem_scheme" where s: "paging_chunk ds directory chunk s"
    by (rule sample_chunk)
  have al: "paging_is_aligned 0x400000" "paging_is_aligned 0x1005000" "paging_is_aligned 0x1007000"
    "paging_is_aligned 0x401000"
    by (simp_all add: paging_is_aligned_def)
  from paging_map_to_maps [OF s, of "0x400000" "0x1005000" "0x1007000" 7] al obtain s' where
    "paging_map_to chunk 0x400000 0x1005000 0x1007000 7 s = Some (0, s')"
    "\<forall>w. paging_is_aligned w \<longrightarrow> paging_get directory w s' =
        (if unat (w - 0x400000) < 8192
         then Some ((0x1005000 + (w - 0x400000)) OR 7) else paging_get directory w s)"
    by auto
  with al(4) show ?thesis by (intro exI [of _ s] exI [of _ chunk] exI [of _ directory] exI [of _ s']) simp
qed

text \<open>
  C15. Translation follows the mapping: after \<^verbatim>\<open>paging_map_to\<close> with flags below the frame bits,
  \<^verbatim>\<open>paging_get_physical_address\<close> sends the byte at offset \<open>off\<close> of the virtual range to the byte
  at offset \<open>off\<close> of the physical range.
\<close>

theorem paging_map_to_translates:
  assumes "paging_chunk ds directory chunk s"
    and "paging_is_aligned virt" "paging_is_aligned phys" "paging_is_aligned phys_end" "phys \<le> phys_end"
    and "0 \<le> flags" "flags < 4096"
    and "paging_map_to chunk virt phys phys_end flags s = Some (res, s')"
    and "off < unat phys_end - unat phys"
  shows "paging_get_physical_address directory (virt + of_nat off) s' = Some (phys + of_nat off)"
proof -
  let ?k = "off div 4096" and ?r = "off mod 4096"
  let ?w = "virt + of_nat ?k * 4096"
  have al: "virt mod 4096 = 0" "phys mod 4096 = 0" using assms(2,3) by (simp_all add: paging_is_aligned_def)
  have w: "?w mod 4096 = 0" "(phys + of_nat ?k * 4096) mod 4096 = 0"
    by (simp_all add: page_offset_aligned al)
  have off: "of_nat off = of_nat ?k * 4096 + (of_nat ?r :: u32)"
    by (metis div_mult_mod_eq of_nat_add of_nat_mult of_nat_numeral)
  have small: "off < 4294967296" using assms(9) unat_u32_bound [of phys_end] by linarith
  have k: "unat (?w - virt) = ?k * 4096"
  proof -
    have "(of_nat ?k * 4096 :: u32) = of_nat (?k * 4096)" by simp
    moreover have "unat (of_nat (?k * 4096) :: u32) = ?k * 4096"
      using small by (intro unat_of_nat_u32) linarith
    ultimately show ?thesis by (simp del: of_nat_mult)
  qed
  have low: "paging_align_to_lower_page (virt + of_nat off) = ?w"
    using page_plus_offset [OF w(1), of ?r] off by (simp add: lower_page_eq add.assoc)
  have fl: "take_bit 12 (word_of_int flags :: u32) = word_of_int flags"
    by (rule low_flags [OF assms(6,7)])
  have "paging_get directory ?w s' = Some ((phys + (?w - virt)) OR word_of_int flags)"
    using map_to_ok [OF assms(1) al _ assms(5), of flags] assms(4,8,9) w(1) k
    by (auto simp: paging_is_aligned_def)
  then have "paging_get directory ?w s' = Some ((phys + of_nat ?k * 4096) OR word_of_int flags)"
    by simp
  with low table_of_or [OF w(2) fl] off show ?thesis
    by (simp add: paging_get_physical_address_def table_of_def algebra_simps)
qed

lemma paging_map_to_translates_witness:
  "\<exists>(s :: unit kmem_scheme) chunk directory s'.
     paging_map_to chunk 0x400000 0x1005000 0x1007000 7 s = Some (0, s') \<and>
     paging_get_physical_address directory 0x401234 s' = Some 0x1006234"
proof -
  obtain chunk ds directory and s :: "unit kmem_scheme" where s: "paging_chunk ds directory chunk s"
    by (rule sample_chunk)
  have al: "paging_is_aligned 0x400000" "paging_is_aligned 0x1005000" "paging_is_aligned 0x1007000"
    by (simp_all add: paging_is_aligned_def)
  have "\<exists>s'. paging_map_to chunk 0x400000 0x1005000 0x1007000 7 s = Some (0, s')"
    using map_to_ok [OF s, of "0x400000" "0x1005000" "0x1007000" 7] by auto
  then obtain s' where m: "paging_map_to chunk 0x400000 0x1005000 0x1007000 7 s = Some (0, s')" ..
  from paging_map_to_translates [OF s al _ _ _ m, of "0x1234"]
  have "paging_get_physical_address directory 0x401234 s' = Some 0x1006234" by simp
  with m show ?thesis by blast
qed

text \<open>
  \<^verbatim>\<open>paging_align_address\<close> rounds up to a page and \<^verbatim>\<open>paging_align_to_lower_page\<close> down;
  only above 0xfffff000 does rounding up wrap to 0. The indexes of an aligned address are below
  1024 and give the address back.
\<close>

theorem paging_alignment:
  "unat (paging_align_to_lower_page a) = unat a div 4096 * 4096 \<and>
   unat (paging_align_address a) =
     (if unat a \<le> 0xfffff000 then (unat a + 4095) div 4096 * 4096 else 0) \<and>
   (case paging_get_indexes (paging_align_to_lower_page a) (0, 0) of (res, d, t) \<Rightarrow>
     res = 0 \<and> d < 1024 \<and> t < 1024 \<and> d * 4194304 + t * 4096 = paging_align_to_lower_page a)"
proof -
  let ?v = "paging_align_to_lower_page a"
  have v: "?v mod 4096 = 0" by (simp add: lower_page_eq table_of_aligned)
  have "paging_get_indexes ?v (0, 0) = (0, of_nat (dir_index ?v), of_nat (table_index ?v))"
    by (rule get_indexes_aligned [OF v])
  moreover have "of_nat (dir_index ?v) * 4194304 + of_nat (table_index ?v) * 4096 = ?v"
    using arg_cong [OF aligned_split [OF v], of "of_nat :: nat \<Rightarrow> u32"] by simp
  moreover have "(of_nat (dir_index ?v) :: u32) < 1024" "(of_nat (table_index ?v) :: u32) < 1024"
    using dir_index_less [of ?v] table_index_less [of ?v] by (simp_all add: word_less_nat_alt)
  ultimately show ?thesis using lower_page_unat [of a] align_address_unat [of a] by simp
qed

end
