(* ===== verification/Terminal.thy ===== *)
theory Terminal
  imports Strings_OS
begin

text \<open>
  The text terminal of \<^verbatim>\<open>src/src/kernel.c\<close>. \<open>vga\<close> is the memory-mapped text buffer at
  0xB8000, one 16-bit cell per character; a write outside it, or before
  \<^verbatim>\<open>terminal_initialize\<close> has set \<^verbatim>\<open>video_mem\<close>, is \<open>None\<close>. \<^verbatim>\<open>panic\<close> never returns.
\<close>

section \<open>State and operations\<close>

abbreviation (input) VGA_WIDTH :: nat where "VGA_WIDTH \<equiv> 80"
abbreviation (input) VGA_HEIGHT :: nat where "VGA_HEIGHT \<equiv> 20"

record terminal =
  vga :: "u16 list"
  video_mem :: ptr
  terminal_row :: u16
  terminal_col :: u16

definition terminal_make_char :: "u8 \<Rightarrow> u8 \<Rightarrow> u16" where
  "terminal_make_char c colour = word_of_int (push_bit 8 (int_of_char colour) OR int_of_char c)"

definition terminal_putchar :: "int \<Rightarrow> int \<Rightarrow> u8 \<Rightarrow> u8 \<Rightarrow> terminal \<Rightarrow> terminal option" where
  "terminal_putchar x y c colour t =
     (if video_mem t = 0xB8000 then do {
        v \<leftarrow> aset_i (vga t) (y * int VGA_WIDTH + x) (terminal_make_char c colour);
        Some (t\<lparr>vga := v\<rparr>) }
      else None)"

definition terminal_writechar :: "u8 \<Rightarrow> u8 \<Rightarrow> terminal \<Rightarrow> terminal option" where
  "terminal_writechar c colour t =
     (if c = 10 then Some (t\<lparr>terminal_row := terminal_row t + 1, terminal_col := 0\<rparr>)
      else do {
        t \<leftarrow> terminal_putchar (uint (terminal_col t)) (uint (terminal_row t)) c colour t;
        t \<leftarrow> Some (t\<lparr>terminal_col := terminal_col t + 1\<rparr>);
        Some (if uint (terminal_col t) \<ge> int VGA_WIDTH
              then t\<lparr>terminal_col := 0, terminal_row := terminal_row t + 1\<rparr> else t) })"

definition terminal_initialize :: "terminal \<Rightarrow> terminal option" where
  "terminal_initialize t =
     for_range 0 VGA_HEIGHT
       (\<lambda>y. for_range 0 VGA_WIDTH (\<lambda>x. terminal_putchar (int x) (int y) 32 0))
       (t\<lparr>video_mem := 0xB8000, terminal_row := 0, terminal_col := 0\<rparr>)"

definition print :: "u8 list \<Rightarrow> terminal \<Rightarrow> terminal option" where
  "print str t =
     do { len \<leftarrow> strlen str;
          for_range 0 (unat (u32_of_int len))
            (\<lambda>i t. do { c \<leftarrow> aget str i; terminal_writechar c 15 t }) t }"

text \<open>\<^verbatim>\<open>while(1) {}\<close> after the message: the call has no result.\<close>

definition panic :: "u8 list \<Rightarrow> terminal \<Rightarrow> 'r option" where
  "panic msg t = do { t \<leftarrow> print msg t; None }"

section \<open>Characters\<close>

lemma make_char_ascii:
  assumes "unat c < 128" and "unat colour < 128"
  shows "terminal_make_char c colour = of_nat (unat colour * 256 + unat c)"
proof -
  have s: "sint w = int (unat w)" if "unat w < 128" for w :: u8
  proof -
    have "uint w = int (unat w)" by simp
    then have "uint w < 128" using that by linarith
    then have "signed_take_bit 7 (uint w) = uint w"
      by (intro signed_take_bit_int_eq_self) (simp_all add: order_trans [OF _ uint_ge_0])
    then show ?thesis by (simp add: sint_uint)
  qed
  have "push_bit 8 (int (unat colour)) AND int (unat c) = 0"
  proof (rule bit_eqI)
    fix n
    have "\<not> bit (unat c) n" if "8 \<le> n"
    proof -
      have "unat c < 2 ^ n" using that assms(1) power_increasing [of 8 n "2::nat"] by simp
      then show ?thesis by (simp add: bit_iff_odd)
    qed
    then show "bit (push_bit 8 (int (unat colour)) AND int (unat c)) n = bit (0::int) n"
      by (auto simp: bit_simps)
  qed
  then have "push_bit 8 (int (unat colour)) OR int (unat c) = push_bit 8 (int (unat colour)) + int (unat c)"
    by (simp add: disjunctive_add_eq_or)
  then show ?thesis
    using assms s by (simp add: terminal_make_char_def push_bit_eq_mult)
qed

lemma high_bit_u8: "\<not> unat (c :: u8) < 128 \<Longrightarrow> bit c 7"
proof -
  assume "\<not> unat c < 128"
  then have "unat c div 2 ^ 7 = 1" using unat_u8_bound [of c] by (intro div_nat_eqI) simp_all
  then have "bit (unat c) 7" by (simp add: bit_iff_odd)
  then show "bit c 7" by (simp add: bit_unsigned_iff)
qed

section \<open>A screen position\<close>

text \<open>
  What writing does, seen as one position in the buffer: a character goes to the position and
  advances it, a newline moves it to the start of the next row.
\<close>

type_synonym screen = "u16 list \<times> nat"

fun screen_put :: "u8 \<Rightarrow> screen \<Rightarrow> screen" where
  "screen_put c (cells, pos) =
     (if c = 10 then (cells, (pos div 80 + 1) * 80)
      else (cells[pos := terminal_make_char c 15], pos + 1))"

definition screen_of :: "terminal \<Rightarrow> screen" where
  "screen_of t = (vga t, unat (terminal_row t) * 80 + unat (terminal_col t))"

definition terminal_inv :: "terminal \<Rightarrow> bool" where
  "terminal_inv t \<longleftrightarrow> video_mem t = 0xB8000 \<and> unat (terminal_col t) < 80 \<and>
     length (vga t) \<le> 16384"

text \<open>\<open>fits cs p n\<close>: writing \<open>cs\<close> from position \<open>p\<close> never leaves the first \<open>n\<close> cells.\<close>

fun fits :: "u8 list \<Rightarrow> nat \<Rightarrow> nat \<Rightarrow> bool" where
  "fits [] p n = True"
| "fits (c # cs) p n =
     (if c = 10 then p div 80 < 65535 \<and> fits cs ((p div 80 + 1) * 80) n else p < n \<and> fits cs (p + 1) n)"

lemma unat_u16_bound: "unat (w :: u16) < 65536"
  using unsigned_less [of w, where 'a = nat] by simp

lemma uint_nat_eq: "uint w = int (unat w)"
  by simp

lemma unat_inc: "unat (w :: u16) < 65535 \<Longrightarrow> unat (w + 1) = unat w + 1"
  by (simp add: unat_word_ariths)

lemma writechar_refines:
  assumes "terminal_inv t" and "fits [c] (snd (screen_of t)) (length (vga t))"
  shows "\<exists>t'. terminal_writechar c 15 t = Some t' \<and> terminal_inv t' \<and>
    screen_of t' = screen_put c (screen_of t)"
proof (cases "c = 10")
  case True
  with assms show ?thesis
    by (auto simp: terminal_writechar_def screen_of_def terminal_inv_def unat_inc)
next
  case False
  let ?r = "unat (terminal_row t)" and ?k = "unat (terminal_col t)"
  have pos: "?r * 80 + ?k < length (vga t)" and k: "?k < 80" and len: "length (vga t) \<le> 16384"
    and vm: "video_mem t = 0xB8000"
    using assms False by (simp_all add: screen_of_def terminal_inv_def)
  have r: "?r < 65535" using pos len by linarith
  have idx: "uint (terminal_row t) * 80 + uint (terminal_col t) = int (?r * 80 + ?k)" by simp
  have k1: "unat (terminal_col t + 1) = ?k + 1" using k by (intro unat_inc) simp
  have ge: "uint (terminal_col t + 1) \<ge> 80 \<longleftrightarrow> ?k = 79"
  proof -
    have "uint (terminal_col t + 1) = int (?k + 1)" using k1 by (metis uint_nat_eq)
    with k show ?thesis by linarith
  qed
  let ?v = "(vga t)[?r * 80 + ?k := terminal_make_char c 15]"
  let ?t = "t\<lparr>vga := ?v, terminal_col := terminal_col t + 1\<rparr>"
  have "terminal_putchar (uint (terminal_col t)) (uint (terminal_row t)) c 15 t = Some (t\<lparr>vga := ?v\<rparr>)"
  proof -
    have "aset_i (vga t) (uint (terminal_row t) * 80 + uint (terminal_col t)) (terminal_make_char c 15) = Some ?v"
      unfolding idx aset_i_int using pos by simp
    then show ?thesis using vm by (simp add: terminal_putchar_def)
  qed
  then have w: "terminal_writechar c 15 t = Some (if ?k = 79
      then ?t\<lparr>terminal_col := 0, terminal_row := terminal_row t + 1\<rparr> else ?t)"
    using False ge by (simp add: terminal_writechar_def)
  show ?thesis
  proof (cases "?k = 79")
    case True
    with w False unat_inc [OF r] len vm show ?thesis
      by (simp add: screen_of_def terminal_inv_def)
  next
    case other: False
    with w False k k1 len vm show ?thesis
      by (simp add: screen_of_def terminal_inv_def)
  qed
qed

lemma print_loop_refines:
  assumes "terminal_inv t" and "fits cs (snd (screen_of t)) (length (vga t))"
    and "\<And>j. j < length cs \<Longrightarrow> aget str (i + j) = Some (cs ! j)"
  shows "\<exists>t'. for_range i (length cs) (\<lambda>i t. do { c \<leftarrow> aget str i; terminal_writechar c 15 t }) t = Some t' \<and>
    terminal_inv t' \<and> screen_of t' = fold screen_put cs (screen_of t)"
  using assms
proof (induction cs arbitrary: i t)
  case Nil
  then show ?case by simp
next
  case (Cons c cs)
  have "fits [c] (snd (screen_of t)) (length (vga t))" using Cons.prems(2) by (simp split: if_splits)
  from writechar_refines [OF Cons.prems(1) this] obtain t1 where
    t1: "terminal_writechar c 15 t = Some t1" "terminal_inv t1" "screen_of t1 = screen_put c (screen_of t)"
    by blast
  have len: "length (vga t1) = length (vga t)" and pos: "snd (screen_of t1) = snd (screen_put c (screen_of t))"
    using t1(3) by (auto simp: screen_of_def split: if_splits)
  then have "fits cs (snd (screen_of t1)) (length (vga t1))"
    using Cons.prems(2) by (cases "screen_of t") (simp split: if_splits)
  moreover have "\<And>j. j < length cs \<Longrightarrow> aget str (Suc i + j) = Some (cs ! j)"
    using Cons.prems(3) [of "Suc j" for j] by simp
  ultimately obtain t' where
    "for_range (Suc i) (length cs) (\<lambda>i t. do { c \<leftarrow> aget str i; terminal_writechar c 15 t }) t1 = Some t'"
    "terminal_inv t'" "screen_of t' = fold screen_put cs (screen_of t1)"
    using Cons.IH [OF t1(2)] by blast
  moreover have "aget str i = Some c" using Cons.prems(3) [of 0] by simp
  ultimately show ?case using t1 by simp
qed

lemma cstr_aget: "0 \<in> set s \<Longrightarrow> j < length (cstr s) \<Longrightarrow> aget s j = Some (cstr s ! j)"
  using nth_cstr [of j s] length_cstr_less [of s] by simp

lemma print_ok:
  assumes "terminal_inv t" and "0 \<in> set str" and "length str < 4294967296"
    and "fits (cstr str) (snd (screen_of t)) (length (vga t))"
  shows "\<exists>t'. print str t = Some t' \<and> terminal_inv t' \<and>
    screen_of t' = fold screen_put (cstr str) (screen_of t)"
proof -
  have "length (cstr str) < 4294967296" using assms(3) length_cstr_le [of str] by linarith
  then have n: "unat (word_of_int (int (length (cstr str))) :: u32) = length (cstr str)"
    by (simp add: unat_of_nat_u32)
  have "print str t = for_range 0 (length (cstr str)) (\<lambda>i t. do { c \<leftarrow> aget str i; terminal_writechar c 15 t }) t"
    using assms(2) n by (simp add: print_def strlen_eq)
  with print_loop_refines [OF assms(1,4), of str 0] cstr_aget [OF assms(2)] show ?thesis by simp
qed

section \<open>Start-up\<close>

lemma clear_row:
  assumes "video_mem t = 0xB8000" and "y < 20" and "1600 \<le> length (vga t)"
  shows "for_range 0 80 (\<lambda>x. terminal_putchar (int x) (int y) 32 0) t =
    Some (t\<lparr>vga := take (y * 80) (vga t) @ replicate 80 0x20 @ drop (Suc y * 80) (vga t)\<rparr>)"
proof -
  let ?P = "\<lambda>k t'. t' = t\<lparr>vga := take (y * 80) (vga t) @ replicate k 0x20 @ drop (y * 80 + k) (vga t)\<rparr>"
  have "\<exists>t'. for_range 0 80 (\<lambda>x. terminal_putchar (int x) (int y) 32 0) t = Some t' \<and> ?P (0 + 80) t'"
  proof (rule for_range_rule [where P = ?P])
    show "?P 0 t" by simp
  next
    fix k t' assume k: "k < 0 + (80::nat)" and P: "?P k t'"
    let ?l = "take (y * 80) (vga t) @ replicate k (0x20 :: u16)"
    have len: "length ?l = y * 80 + k" using assms by simp
    have cut: "drop (y * 80 + k) (vga t) = vga t ! (y * 80 + k) # drop (Suc (y * 80 + k)) (vga t)"
      using assms k by (intro Cons_nth_drop_Suc [symmetric]) simp
    have mk: "terminal_make_char 32 0 = 0x20" by (simp add: terminal_make_char_def)
    have "aset (vga t') (y * 80 + k) 0x20 = Some (?l @ 0x20 # drop (Suc (y * 80 + k)) (vga t))"
    proof -
      have "vga t' = ?l @ vga t ! (y * 80 + k) # drop (Suc (y * 80 + k)) (vga t)"
        using P cut by simp
      with aset_append_middle [of ?l _ _ "0x20", unfolded len] show ?thesis by simp
    qed
    moreover have "int y * 80 + int k = int (y * 80 + k)" by simp
    ultimately have "aset_i (vga t') (int y * 80 + int k) 0x20 =
        Some (?l @ 0x20 # drop (Suc (y * 80 + k)) (vga t))"
      by (simp only: aset_i_int)
    moreover have "?l @ 0x20 # drop (Suc (y * 80 + k)) (vga t) =
        take (y * 80) (vga t) @ replicate (Suc k) 0x20 @ drop (y * 80 + Suc k) (vga t)"
      by (simp add: replicate_append_same)
    ultimately show "\<exists>t''. terminal_putchar (int k) (int y) 32 0 t' = Some t'' \<and> ?P (Suc k) t''"
      using P assms(1) by (simp add: terminal_putchar_def mk)
  qed
  then show ?thesis by (simp add: add.commute)
qed

lemma terminal_initialize_eq:
  assumes "1600 \<le> length (vga t)"
  shows "terminal_initialize t = Some (t\<lparr>video_mem := 0xB8000, terminal_row := 0, terminal_col := 0,
    vga := replicate 1600 0x20 @ drop 1600 (vga t)\<rparr>)"
proof -
  let ?t = "t\<lparr>video_mem := 0xB8000, terminal_row := 0, terminal_col := 0\<rparr>"
  let ?P = "\<lambda>y t'. t' = ?t\<lparr>vga := replicate (y * 80) 0x20 @ drop (y * 80) (vga t)\<rparr>"
  have "\<exists>t'. for_range 0 20 (\<lambda>y. for_range 0 80 (\<lambda>x. terminal_putchar (int x) (int y) 32 0)) ?t = Some t' \<and>
      ?P (0 + 20) t'"
  proof (rule for_range_rule [where P = ?P])
    show "?P 0 ?t" by simp
  next
    fix y t' assume y: "y < 0 + (20::nat)" and P: "?P y t'"
    have "for_range 0 80 (\<lambda>x. terminal_putchar (int x) (int y) 32 0) t' =
        Some (t'\<lparr>vga := take (y * 80) (vga t') @ replicate 80 0x20 @ drop (Suc y * 80) (vga t')\<rparr>)"
      using y P assms by (intro clear_row) simp_all
    moreover have "take (y * 80) (vga t') @ replicate 80 0x20 @ drop (Suc y * 80) (vga t') =
        replicate (Suc y * 80) 0x20 @ drop (Suc y * 80) (vga t)"
      using P by (simp add: replicate_add [symmetric] add.commute append.assoc [symmetric] del: append.assoc)
    ultimately show "\<exists>t''. for_range 0 80 (\<lambda>x. terminal_putchar (int x) (int y) 32 0) t' = Some t'' \<and> ?P (Suc y) t''"
      using P by simp
  qed
  then show ?thesis by (simp add: terminal_initialize_def)
qed

section \<open>Properties\<close>

text \<open>
  C16. \<^verbatim>\<open>terminal_initialize\<close> blanks the 20 rows it knows and nothing else, and puts the cursor
  at the origin; \<^verbatim>\<open>print\<close> then refines writing the string character by character at a screen
  position, as long as it stays inside the text buffer. There is no scrolling.
\<close>

theorem print_refines:
  assumes "terminal_inv t" and "0 \<in> set str" and "length str < 4294967296"
    and "fits (cstr str) (snd (screen_of t)) (length (vga t))"
  shows "\<exists>t'. print str t = Some t' \<and> terminal_inv t' \<and>
    screen_of t' = fold screen_put (cstr str) (screen_of t)"
  by (rule print_ok [OF assms])

definition sample_terminal :: terminal where
  "sample_terminal = \<lparr>vga = replicate 2000 0xff, video_mem = 0, terminal_row = 3, terminal_col = 4\<rparr>"

lemma print_refines_witness:
  "\<exists>t t'. terminal_initialize sample_terminal = Some t \<and> print [72, 105, 10, 33, 0] t = Some t' \<and>
     screen_of t' = ((replicate 1600 0x20 @ replicate 400 0xff)
       [0 := 0x0F48, 1 := 0x0F69, 80 := 0x0F21], 81)"
proof -
  let ?t = "sample_terminal\<lparr>video_mem := 0xB8000, terminal_row := 0, terminal_col := 0,
    vga := replicate 1600 0x20 @ replicate 400 0xff\<rparr>"
  have init: "terminal_initialize sample_terminal = Some ?t"
    by (subst terminal_initialize_eq) (simp_all add: sample_terminal_def)
  have "terminal_inv ?t" by (simp add: terminal_inv_def)
  moreover have "cstr [72, 105, 10, 33, 0] = [72, 105, 10, 33]" by (simp add: cstr_def)
  moreover have "fits [72, 105, 10, 33] (snd (screen_of ?t)) (length (vga ?t))"
    by (simp add: screen_of_def)
  ultimately obtain t' where "print [72, 105, 10, 33, 0] ?t = Some t'"
    "screen_of t' = fold screen_put [72, 105, 10, 33] (screen_of ?t)"
    using print_refines [of ?t "[72, 105, 10, 33, 0]"] by auto
  moreover have "fold screen_put [72, 105, 10, 33] (screen_of ?t) =
      ((replicate 1600 0x20 @ replicate 400 0xff)[0 := 0x0F48, 1 := 0x0F69, 80 := 0x0F21], 81)"
    by (simp add: screen_of_def make_char_ascii)
  ultimately show ?thesis using init by auto
qed

text \<open>
  A cell holds the colour in its high byte and the character in its low byte for the ASCII
  characters. A \<^verbatim>\<open>char\<close> from 0x80 on is negative, and its sign extension sets the whole
  colour byte: the cell is 0xff00 plus the character whatever the colour.
\<close>

theorem terminal_make_char_cell:
  assumes "unat colour < 128"
  shows "terminal_make_char c colour =
    (if unat c < 128 then of_nat (unat colour * 256 + unat c) else 0xff00 OR ucast c)"
proof (cases "unat c < 128")
  case True
  then show ?thesis using make_char_ascii [OF _ assms] by simp
next
  case False
  have "bit c 7" using False by (simp add: high_bit_u8)
  have "bit (terminal_make_char c colour) n \<longleftrightarrow> bit (0xff00 OR ucast c :: u16) n" if "n < 16" for n
  proof (cases "n < 8")
    case True
    then have "n \<in> {0, 1, 2, 3, 4, 5, 6, 7}" by auto
    then show ?thesis
      by (auto simp: terminal_make_char_def bit_simps)
  next
    case ge: False
    then have "n \<in> {8, 9, 10, 11, 12, 13, 14, 15}" using that by auto
    then show ?thesis using \<open>bit c 7\<close>
      by (auto simp: terminal_make_char_def bit_simps)
  qed
  then have "terminal_make_char c colour = 0xff00 OR ucast c" by (intro bit_word_eqI) simp
  with False show ?thesis by simp
qed

lemma terminal_make_char_cell_witness: "terminal_make_char 0xC4 15 = 0xffC4"
  using terminal_make_char_cell [of 15 "0xC4"] by simp

end
