(* ===== verification/Gdt.thy ===== *)
theory Gdt
  imports Prelude
begin

text \<open>
  The segment descriptors of \<^verbatim>\<open>src/src/gdt/gdt.c\<close> and the table of \<^verbatim>\<open>src/src/kernel.c\<close>. The
  packed \<^verbatim>\<open>struct gdt\<close> is its eight bytes, as the code itself treats it; \<^verbatim>\<open>panic\<close> has no
  result.
\<close>

section \<open>Operations\<close>

record gdt_structured =
  gs_base :: u32
  gs_limit :: u32
  gs_type :: u8

type_synonym gdt = "u8 list"

definition encodeGdtEntry :: "gdt \<Rightarrow> gdt_structured \<Rightarrow> gdt option" where
  "encodeGdtEntry target source =
     (if gs_limit source > 65536 \<and> gs_limit source AND 0xFFF \<noteq> 0xFFF then None
      else do {
        target \<leftarrow> aset target 6 0x40;
        (source, target) \<leftarrow>
          (if gs_limit source > 65536 then do {
             target \<leftarrow> aset target 6 0xC0;
             Some (source\<lparr>gs_limit := drop_bit 12 (gs_limit source)\<rparr>, target) }
           else Some (source, target));
        target \<leftarrow> aset target 0 (ucast (gs_limit source AND 0xFF));
        target \<leftarrow> aset target 1 (ucast (drop_bit 8 (gs_limit source) AND 0xFF));
        t6 \<leftarrow> aget target 6;
        target \<leftarrow> aset target 6 (t6 OR ucast (drop_bit 16 (gs_limit source) AND 0x0F));
        target \<leftarrow> aset target 2 (ucast (gs_base source AND 0xFF));
        target \<leftarrow> aset target 3 (ucast (drop_bit 8 (gs_base source) AND 0xFF));
        target \<leftarrow> aset target 4 (ucast (drop_bit 16 (gs_base source) AND 0xFF));
        target \<leftarrow> aset target 7 (ucast (drop_bit 24 (gs_base source) AND 0xFF));
        aset target 5 (gs_type source) })"

definition gdt_structured_to_gdt ::
  "gdt list \<Rightarrow> gdt_structured list \<Rightarrow> int \<Rightarrow> gdt list option" where
  "gdt_structured_to_gdt gdt structured_gdt total_entires =
     for_range 0 (nat total_entires)
       (\<lambda>i gdt. do {
          e \<leftarrow> aget gdt i; s \<leftarrow> aget structured_gdt i;
          e \<leftarrow> encodeGdtEntry e s;
          aset gdt i e }) gdt"

text \<open>The table of \<^verbatim>\<open>kernel.c\<close>; \<open>tss\<close> is the address of the task state segment, of 108 bytes.\<close>

definition gdt_structured_table :: "ptr \<Rightarrow> gdt_structured list" where
  "gdt_structured_table tss =
     [\<lparr>gs_base = 0, gs_limit = 0, gs_type = 0\<rparr>,
      \<lparr>gs_base = 0, gs_limit = 0xffffffff, gs_type = 0x9a\<rparr>,
      \<lparr>gs_base = 0, gs_limit = 0xffffffff, gs_type = 0x92\<rparr>,
      \<lparr>gs_base = 0, gs_limit = 0xffffffff, gs_type = 0xf8\<rparr>,
      \<lparr>gs_base = 0, gs_limit = 0xffffffff, gs_type = 0xf2\<rparr>,
      \<lparr>gs_base = tss, gs_limit = 108, gs_type = 0xE9\<rparr>]"

section \<open>What the processor reads\<close>

text \<open>
  The segment a descriptor describes: base and limit put together from their parts, the limit
  counted in 4096-byte units when the granularity bit is set.
\<close>

definition desc_base :: "gdt \<Rightarrow> u32" where
  "desc_base d = ucast (d ! 2) OR push_bit 8 (ucast (d ! 3)) OR push_bit 16 (ucast (d ! 4)) OR
     push_bit 24 (ucast (d ! 7))"

definition desc_raw_limit :: "gdt \<Rightarrow> u32" where
  "desc_raw_limit d = ucast (d ! 0) OR push_bit 8 (ucast (d ! 1)) OR push_bit 16 (ucast (d ! 6) AND 0x0F)"

definition desc_limit :: "gdt \<Rightarrow> u32" where
  "desc_limit d = (if bit (d ! 6) 7 then push_bit 12 (desc_raw_limit d) OR 0xFFF else desc_raw_limit d)"

definition decode_desc :: "gdt \<Rightarrow> gdt_structured" where
  "decode_desc d = \<lparr>gs_base = desc_base d, gs_limit = desc_limit d, gs_type = d ! 5\<rparr>"

section \<open>Lemmas\<close>

lemma byte_of_bit:
  "n < 32 \<Longrightarrow> n < 8 \<or> (\<exists>k<8. n = 8 + k) \<or> (\<exists>k<8. n = 16 + k) \<or> (\<exists>k<8. n = 24 + (k :: nat))"
  by presburger

lemma bytes_join:
  "ucast (ucast (w AND 0xFF) :: u8) OR push_bit 8 (ucast (ucast (drop_bit 8 w AND 0xFF) :: u8)) OR
   push_bit 16 (ucast (ucast (drop_bit 16 w AND 0xFF) :: u8)) OR
   push_bit 24 (ucast (ucast (drop_bit 24 w AND 0xFF) :: u8)) = (w :: u32)"
proof (rule bit_word_eqI)
  fix n assume "n < LENGTH(32)"
  then have n: "n < 32" by simp
  have m: "(0xFF :: u32) = mask 8" by (simp add: mask_eq_exp_minus_1)
  show "bit (ucast (ucast (w AND 0xFF) :: u8) OR push_bit 8 (ucast (ucast (drop_bit 8 w AND 0xFF) :: u8)) OR
   push_bit 16 (ucast (ucast (drop_bit 16 w AND 0xFF) :: u8)) OR
   push_bit 24 (ucast (ucast (drop_bit 24 w AND 0xFF) :: u8)) :: u32) n = bit w n"
    unfolding m using byte_of_bit [OF n] by (elim disjE exE conjE) (auto simp: bit_simps)
qed

lemma limit_join:
  assumes "drop_bit 20 w = 0"
  shows "ucast (ucast (w AND 0xFF) :: u8) OR push_bit 8 (ucast (ucast (drop_bit 8 w AND 0xFF) :: u8)) OR
   push_bit 16 (ucast (b OR ucast (drop_bit 16 w AND 0x0F) :: u8) AND 0x0F) =
   (w :: u32) OR push_bit 16 (ucast (b AND 0x0F))"
proof (rule bit_word_eqI)
  fix n assume "n < LENGTH(32)"
  then have n: "n < 32" by simp
  have m: "(0xFF :: u32) = mask 8" "(0x0F :: u32) = mask 4" "(0x0F :: u8) = mask 4"
    by (simp_all add: mask_eq_exp_minus_1)
  have hi: "n < 20" if "bit w n" for n
  proof (rule ccontr)
    assume "\<not> n < 20"
    moreover have "\<not> bit (drop_bit 20 w) (n - 20)" using assms by simp
    ultimately show False using that by (simp add: bit_simps)
  qed
  show "bit (ucast (ucast (w AND 0xFF) :: u8) OR push_bit 8 (ucast (ucast (drop_bit 8 w AND 0xFF) :: u8)) OR
   push_bit 16 (ucast (b OR ucast (drop_bit 16 w AND 0x0F) :: u8) AND 0x0F) :: u32) n =
   bit (w OR push_bit 16 (ucast (b AND 0x0F))) n"
    unfolding m using byte_of_bit [OF n] by (elim disjE exE conjE) (auto simp: bit_simps dest: hi)
qed

lemma nibble_bit7:
  "\<not> bit (0x40 OR ucast (x AND 0x0F :: u32) :: u8) 7" "bit (0xC0 OR ucast (x AND 0x0F :: u32) :: u8) 7"
proof -
  have m: "(0x0F :: u32) = mask 4" by (simp add: mask_eq_exp_minus_1)
  show "\<not> bit (0x40 OR ucast (x AND 0x0F :: u32) :: u8) 7"
    "bit (0xC0 OR ucast (x AND 0x0F :: u32) :: u8) 7"
    unfolding m by (auto simp: bit_simps)
qed

lemma page_limit:
  assumes "l AND 0xFFF = (0xFFF :: u32)"
  shows "push_bit 12 (drop_bit 12 l) OR 0xFFF = l"
proof (rule bit_word_eqI)
  fix n assume "n < LENGTH(32)"
  have m: "(0xFFF :: u32) = mask 12" by (simp add: mask_eq_exp_minus_1)
  have "bit l n" if "n < 12"
  proof -
    have "bit (l AND 0xFFF) n" unfolding assms unfolding m using that by (simp add: bit_simps)
    then show ?thesis by (simp add: bit_simps)
  qed
  then show "bit (push_bit 12 (drop_bit 12 l) OR 0xFFF) n = bit l n"
    unfolding m using \<open>n < LENGTH(32)\<close> by (auto simp: bit_simps)
qed

lemma small_limit: "(l :: u32) \<le> 65536 \<Longrightarrow> drop_bit 20 l = 0"
  by (simp add: drop_bit_eq_div word_unat_eq_iff unat_div word_le_nat_alt)

lemma encode_ok:
  assumes "\<not> (gs_limit source > 65536 \<and> gs_limit source AND 0xFFF \<noteq> 0xFFF)" and "length target = 8"
  shows "\<exists>d. encodeGdtEntry target source = Some d \<and> length d = 8 \<and> decode_desc d = source"
proof (cases "gs_limit source > 65536")
  case True
  then have l: "gs_limit source AND 0xFFF = 0xFFF" using assms(1) by simp
  have "drop_bit 20 (drop_bit 12 (gs_limit source)) = 0" by simp
  from limit_join [OF this, of "0xC0"] nibble_bit7 page_limit [OF l] bytes_join [of "gs_base source"] True l assms(2)
  show ?thesis
    by (simp add: encodeGdtEntry_def decode_desc_def desc_base_def desc_limit_def desc_raw_limit_def)
next
  case False
  then have l: "drop_bit 20 (gs_limit source) = 0" by (simp add: small_limit)
  from limit_join [OF this, of "0x40"] nibble_bit7 bytes_join [of "gs_base source"] False assms(2)
  show ?thesis
    by (simp add: encodeGdtEntry_def decode_desc_def desc_base_def desc_limit_def desc_raw_limit_def)
qed

section \<open>Properties\<close>

text \<open>
  C17. \<^verbatim>\<open>encodeGdtEntry\<close> panics exactly on a limit above 65536 that is not a whole number of
  pages less one; on every other entry the eight bytes it writes describe the same base, limit
  and type to the processor.
\<close>

theorem encodeGdtEntry_roundtrip:
  assumes "length target = 8"
  shows "if gs_limit source > 65536 \<and> gs_limit source AND 0xFFF \<noteq> 0xFFF
    then encodeGdtEntry target source = None
    else \<exists>d. encodeGdtEntry target source = Some d \<and> length d = 8 \<and> decode_desc d = source"
  using encode_ok [OF _ assms, of source] by (simp add: encodeGdtEntry_def)

lemma encodeGdtEntry_roundtrip_witness:
  "\<exists>d. encodeGdtEntry (replicate 8 0) \<lparr>gs_base = 0x12345678, gs_limit = 0xffffffff, gs_type = 0x9a\<rparr> = Some d \<and>
    desc_base d = 0x12345678"
  using encodeGdtEntry_roundtrip [of "replicate 8 0"
      "\<lparr>gs_base = 0x12345678, gs_limit = 0xffffffff, gs_type = 0x9a\<rparr>"]
  by (auto simp: decode_desc_def)

lemma structured_to_gdt_ok:
  assumes "length gdt = length ss" and "\<forall>d \<in> set gdt. length d = 8"
    and "\<forall>s \<in> set ss. \<not> (gs_limit s > 65536 \<and> gs_limit s AND 0xFFF \<noteq> 0xFFF)"
  shows "\<exists>g. gdt_structured_to_gdt gdt ss (int (length ss)) = Some g \<and> length g = length ss \<and>
    map decode_desc g = ss"
proof -
  let ?body = "\<lambda>i gdt. do { e \<leftarrow> aget gdt i; s \<leftarrow> aget ss i; e \<leftarrow> encodeGdtEntry e s; aset gdt i e }"
  let ?P = "\<lambda>k g. length g = length ss \<and> (\<forall>d \<in> set g. length d = 8) \<and>
    map decode_desc (take k g) = take k ss"
  have "\<exists>g. for_range 0 (length ss) ?body gdt = Some g \<and> ?P (0 + length ss) g"
  proof (rule for_range_rule [where P = ?P])
    show "?P 0 gdt" using assms by simp
  next
    fix k g assume k: "k < 0 + length ss" and P: "?P k g"
    have "length (g ! k) = 8" "\<not> (gs_limit (ss ! k) > 65536 \<and> gs_limit (ss ! k) AND 0xFFF \<noteq> 0xFFF)"
      using P k assms(3) nth_mem [of k ss] by auto
    then obtain d where d: "encodeGdtEntry (g ! k) (ss ! k) = Some d" "length d = 8" "decode_desc d = ss ! k"
      using encode_ok [of "ss ! k" "g ! k"] by blast
    have "?P (Suc k) (g[k := d])"
      using P k d by (auto simp: take_Suc_conv_app_nth dest!: set_update_subset_insert [THEN subsetD])
    moreover have "?body k g = Some (g[k := d])" using P k d(1) by simp
    ultimately show "\<exists>g'. ?body k g = Some g' \<and> ?P (Suc k) g'" by blast
  qed
  then show ?thesis by (auto simp: gdt_structured_to_gdt_def)
qed

text \<open>
  The kernel's own table encodes without a panic wherever the task state segment lies, and
  the processor reads exactly the six segments written in the table.
\<close>

theorem kernel_gdt_encodes:
  "\<exists>g. gdt_structured_to_gdt (replicate 6 (replicate 8 0)) (gdt_structured_table tss) 6 = Some g \<and>
     map decode_desc g = gdt_structured_table tss"
proof -
  have "length (gdt_structured_table tss) = 6" by (simp add: gdt_structured_table_def)
  moreover have "\<forall>s \<in> set (gdt_structured_table tss).
      \<not> (gs_limit s > 65536 \<and> gs_limit s AND 0xFFF \<noteq> 0xFFF)"
    by (simp add: gdt_structured_table_def)
  ultimately show ?thesis
    using structured_to_gdt_ok [of "replicate 6 (replicate 8 0)" "gdt_structured_table tss"] by auto
qed

end
