(* ===== verification/Disk.thy ===== *)
theory Disk
  imports Paging
begin

text \<open>
  The disk driver of \<^verbatim>\<open>src/src/disk/disk.c\<close>. The ATA controller behind the I/O ports is a
  parameter \<open>hw\<close>: how a write to a port changes its state and what a read from a port returns.
  What the driver relies on is stated as \<open>ata_ok\<close>. The polling loop is a partial function: a
  controller that never raises DRQ gives \<open>None\<close>.
\<close>

section \<open>State and ports\<close>

record disk_struct =
  dk_type :: u32
  dk_sector_size :: int
  dk_id :: int
  dk_filesystem :: fs_ref
  dk_fs_private :: ptr

record 'd ata =
  hw_outb :: "u16 \<Rightarrow> u8 \<Rightarrow> 'd \<Rightarrow> 'd"
  hw_insb :: "u16 \<Rightarrow> 'd \<Rightarrow> u8 \<times> 'd"
  hw_insw :: "u16 \<Rightarrow> 'd \<Rightarrow> u16 \<times> 'd"

record 'd diskmem = pagemem +
  disk :: disk_struct
  dev :: 'd

abbreviation (input) PEACHOS_SECTOR_SIZE :: nat where "PEACHOS_SECTOR_SIZE \<equiv> 512"
abbreviation (input) PEACHOS_DISK_TYPE_REAL :: u32 where "PEACHOS_DISK_TYPE_REAL \<equiv> 0"

section \<open>Operations\<close>

text \<open>\<^verbatim>\<open>char c = insb(0x1F7); while(!(c & 0x08)) c = insb(0x1F7);\<close>\<close>

partial_function (option) disk_wait :: "'d ata \<Rightarrow> 'd \<Rightarrow> 'd option" where
  "disk_wait hw d =
     (case hw_insb hw 0x1F7 d of (c, d') \<Rightarrow> if c AND 0x08 \<noteq> 0 then Some d' else disk_wait hw d')"

text \<open>The six register writes.\<close>

definition disk_issue :: "'d ata \<Rightarrow> int \<Rightarrow> int \<Rightarrow> 'd \<Rightarrow> 'd" where
  "disk_issue hw lba count d =
     (let d = hw_outb hw 0x1F6 (word_of_int (drop_bit 24 lba OR 0xE0)) d;
          d = hw_outb hw 0x1F2 (word_of_int count) d;
          d = hw_outb hw 0x1F3 (word_of_int (lba AND 0xff)) d;
          d = hw_outb hw 0x1F4 (word_of_int (drop_bit 8 lba)) d;
          d = hw_outb hw 0x1F5 (word_of_int (drop_bit 16 lba)) d
      in hw_outb hw 0x1F7 0x20 d)"

text \<open>\<^verbatim>\<open>*ptr = insw(0x1F0); ptr++;\<close> with \<open>k\<close> the number of words stored so far.\<close>

definition disk_read_word :: "'d ata \<Rightarrow> nat \<Rightarrow> u8 list \<times> 'd \<Rightarrow> (u8 list \<times> 'd) option" where
  "disk_read_word hw k = (\<lambda>(buf, d).
     case hw_insw hw 0x1F0 d of (w, d) \<Rightarrow> do {
       buf \<leftarrow> aset buf (2 * k) (ucast w);
       buf \<leftarrow> aset buf (2 * k + 1) (ucast (drop_bit 8 w));
       Some (buf, d) })"

definition disk_read_sector ::
  "'d ata \<Rightarrow> int \<Rightarrow> int \<Rightarrow> u8 list \<Rightarrow> 'd \<Rightarrow> (int \<times> u8 list \<times> 'd) option" where
  "disk_read_sector hw lba count buf d = do {
     (buf, d) \<leftarrow> for_range 0 (nat count) (\<lambda>b (buf, d). do {
         d \<leftarrow> disk_wait hw d;
         for_range (b * 256) 256 (disk_read_word hw) (buf, d) }) (buf, disk_issue hw lba count d);
     Some (0, buf, d) }"

definition disk_get :: "int \<Rightarrow> disk_ref" where
  "disk_get index = (if index \<noteq> 0 then NullDisk else TheDisk)"

definition disk_read_block ::
  "'d ata \<Rightarrow> disk_ref \<Rightarrow> u32 \<Rightarrow> int \<Rightarrow> u8 list \<Rightarrow> ('d, 'a) diskmem_scheme \<Rightarrow>
   (int \<times> u8 list \<times> ('d, 'a) diskmem_scheme) option" where
  "disk_read_block hw idisk lba count buf s =
     (if idisk \<noteq> TheDisk then Some (- EIO, buf, s)
      else do {
        (res, buf, d) \<leftarrow> disk_read_sector hw (int_of_u32 lba) count buf (dev s);
        Some (res, buf, s\<lparr>dev := d\<rparr>) })"

section \<open>What the controller promises\<close>

text \<open>Polling the status register reaches a state with DRQ set.\<close>

inductive drq_after :: "'d ata \<Rightarrow> 'd \<Rightarrow> 'd \<Rightarrow> bool" for hw where
  now: "hw_insb hw 0x1F7 d = (c, d') \<Longrightarrow> c AND 0x08 \<noteq> 0 \<Longrightarrow> drq_after hw d d'"
| later: "hw_insb hw 0x1F7 d = (c, d1) \<Longrightarrow> c AND 0x08 = 0 \<Longrightarrow> drq_after hw d1 d' \<Longrightarrow> drq_after hw d d'"

lemma disk_wait_drq: "drq_after hw d d' \<Longrightarrow> disk_wait hw d = Some d'"
proof (induction rule: drq_after.induct)
  case (now d c d')
  then show ?case by (subst disk_wait.simps) simp
next
  case (later d c d1 d')
  then show ?case by (subst disk_wait.simps) simp
qed

text \<open>Reading the data register \<open>length ws\<close> times gives \<open>ws\<close>.\<close>

inductive data_words :: "'d ata \<Rightarrow> 'd \<Rightarrow> u16 list \<Rightarrow> 'd \<Rightarrow> bool" for hw where
  none: "data_words hw d [] d"
| word: "hw_insw hw 0x1F0 d = (w, d1) \<Longrightarrow> data_words hw d1 ws d' \<Longrightarrow> data_words hw d (w # ws) d'"

inductive_cases data_words_ConsE: "data_words hw d (w # ws) d'"
inductive_cases data_words_NilE: "data_words hw d [] d'"

text \<open>The bytes of a sector as little-endian words.\<close>

fun words_of :: "u8 list \<Rightarrow> u16 list" where
  "words_of (a # b # bs) = (ucast a OR push_bit 8 (ucast b)) # words_of bs"
| "words_of _ = []"

text \<open>
  The READ SECTORS protocol of the ATA standard, for a controller whose disk holds the sectors
  \<open>img\<close>: \<open>idle d\<close> holds between commands, \<open>xfer d lba n\<close> while \<open>n\<close> sectors from \<open>lba\<close> on are
  still to be transferred. Writing the registers in LBA mode and then command 0x20 starts a
  transfer of the sector addressed by the low nibble of 0x1F6 and the three registers 0x1F5 to
  0x1F3; then DRQ comes up after finitely many polls and 256 reads of the data register give
  the next sector.
\<close>

definition ata_ok ::
  "'d ata \<Rightarrow> (nat \<Rightarrow> u8 list) \<Rightarrow> ('d \<Rightarrow> bool) \<Rightarrow> ('d \<Rightarrow> nat \<Rightarrow> nat \<Rightarrow> bool) \<Rightarrow> bool" where
  "ata_ok hw img idle xfer \<longleftrightarrow>
     (\<forall>lba. length (img lba) = 512) \<and>
     (\<forall>d e n a b c. idle d \<longrightarrow> n \<noteq> 0 \<longrightarrow> e AND 0xF0 = 0xE0 \<longrightarrow>
        xfer (hw_outb hw 0x1F7 0x20 (hw_outb hw 0x1F5 c (hw_outb hw 0x1F4 b
               (hw_outb hw 0x1F3 a (hw_outb hw 0x1F2 n (hw_outb hw 0x1F6 e d))))))
          (unat a + 256 * unat b + 65536 * unat c + 16777216 * (unat e mod 16)) (unat n)) \<and>
     (\<forall>d lba n. xfer d lba (Suc n) \<longrightarrow>
        (\<exists>d1 d2. drq_after hw d d1 \<and> data_words hw d1 (words_of (img lba)) d2 \<and> xfer d2 (lba + 1) n)) \<and>
     (\<forall>d lba. xfer d lba 0 \<longrightarrow> idle d)"

lemma ata_ok_length: "ata_ok hw img idle xfer \<Longrightarrow> length (img lba) = 512"
  by (simp add: ata_ok_def)

lemma ata_ok_idle: "ata_ok hw img idle xfer \<Longrightarrow> xfer d lba 0 \<Longrightarrow> idle d"
  unfolding ata_ok_def by blast

lemma ata_ok_next:
  assumes "ata_ok hw img idle xfer" and "xfer d lba (Suc n)"
  obtains d1 d2 where "drq_after hw d d1" "data_words hw d1 (words_of (img lba)) d2" "xfer d2 (lba + 1) n"
  using assms unfolding ata_ok_def by blast

lemma ata_ok_start:
  assumes "ata_ok hw img idle xfer" and "idle d" and "n \<noteq> 0" and "e AND 0xF0 = 0xE0"
  shows "xfer (hw_outb hw 0x1F7 0x20 (hw_outb hw 0x1F5 c (hw_outb hw 0x1F4 b
      (hw_outb hw 0x1F3 a (hw_outb hw 0x1F2 n (hw_outb hw 0x1F6 e d))))))
    (unat a + 256 * unat b + 65536 * unat c + 16777216 * (unat e mod 16)) (unat n)"
  using assms unfolding ata_ok_def by blast

section \<open>Sector addresses and words\<close>

lemma unat_byte: "0 \<le> i \<Longrightarrow> unat (word_of_int i :: u8) = nat (i mod 256)"
  by (simp add: unsigned_of_int take_bit_eq_mod flip: nat_take_bit_eq)

lemma drive_byte:
  assumes "0 \<le> lba" and "lba < 268435456"
  shows "(word_of_int (drop_bit 24 lba OR 0xE0) :: u8) AND 0xF0 = 0xE0"
    and "unat (word_of_int (drop_bit 24 lba OR 0xE0) :: u8) mod 16 = nat (lba div 16777216)"
proof -
  have k: "drop_bit 24 lba = lba div 16777216" by (simp add: drop_bit_eq_div)
  have nibble: "m = 0 \<or> m = 1 \<or> m = 2 \<or> m = 3 \<or> m = 4 \<or> m = 5 \<or> m = 6 \<or> m = 7 \<or> m = 8 \<or> m = 9 \<or>
      m = 10 \<or> m = 11 \<or> m = 12 \<or> m = 13 \<or> m = 14 \<or> m = 15" if "0 \<le> m" "m < 16" for m :: int
    using that by arith
  have "0 \<le> lba div 16777216" "lba div 16777216 < 16" using assms by auto
  note nibble [OF this]
  then show "(word_of_int (drop_bit 24 lba OR 0xE0) :: u8) AND 0xF0 = 0xE0"
    "unat (word_of_int (drop_bit 24 lba OR 0xE0) :: u8) mod 16 = nat (lba div 16777216)"
    unfolding k by (elim disjE; simp)+
qed

lemma four_bytes:
  "n mod 256 + 256 * (n div 256 mod 256) + 65536 * (n div 65536 mod 256) + 16777216 * (n div 16777216) = (n :: nat)"
proof -
  have d: "n div 65536 = n div 256 div 256" "n div 16777216 = n div 256 div 256 div 256"
    by (simp_all add: div_mult2_eq [symmetric])
  define a x where "a = n mod 256" and "x = n div 256"
  define b y where "b = x mod 256" and "y = x div 256"
  define c z where "c = y mod 256" and "z = y div 256"
  have "256 * x + a = n" by (simp add: a_def x_def)
  moreover have "256 * y + b = x" by (simp add: b_def y_def)
  moreover have "256 * z + c = y" by (simp add: c_def z_def)
  ultimately have "a + 256 * b + 65536 * c + 16777216 * z = n" by linarith
  then show ?thesis by (simp only: d a_def b_def c_def x_def y_def z_def)
qed

lemma lba_bytes:
  assumes "0 \<le> lba" and "lba < 268435456"
  shows "unat (word_of_int (lba AND 0xff) :: u8) + 256 * unat (word_of_int (drop_bit 8 lba) :: u8) +
    65536 * unat (word_of_int (drop_bit 16 lba) :: u8) +
    16777216 * (unat (word_of_int (drop_bit 24 lba OR 0xE0) :: u8) mod 16) = nat lba"
proof -
  have m: "lba AND 0xff = lba mod 256"
    using take_bit_eq_mask [of 8 lba] by (simp add: mask_eq_exp_minus_1 take_bit_eq_mod)
  have "unat (word_of_int (lba AND 0xff) :: u8) = nat lba mod 256"
    using unat_byte [of "lba mod 256"] assms(1) by (simp add: m nat_mod_distrib)
  moreover have "unat (word_of_int (drop_bit 8 lba) :: u8) = nat lba div 256 mod 256"
    using unat_byte [of "lba div 256"] assms(1)
    by (simp add: drop_bit_eq_div nat_mod_distrib nat_div_distrib pos_imp_zdiv_nonneg_iff)
  moreover have "unat (word_of_int (drop_bit 16 lba) :: u8) = nat lba div 65536 mod 256"
    using unat_byte [of "lba div 65536"] assms(1)
    by (simp add: drop_bit_eq_div nat_mod_distrib nat_div_distrib pos_imp_zdiv_nonneg_iff)
  moreover have "unat (word_of_int (drop_bit 24 lba OR 0xE0) :: u8) mod 16 = nat lba div 16777216"
    using drive_byte(2) [OF assms] assms(1) by (simp add: nat_div_distrib)
  ultimately show ?thesis using four_bytes [of "nat lba"] by (simp only:)
qed

definition bytes_of :: "u16 list \<Rightarrow> u8 list" where
  "bytes_of ws = concat (map (\<lambda>w. [ucast w, ucast (drop_bit 8 w)]) ws)"

lemma bytes_of_simps [simp]:
  "bytes_of [] = []" "bytes_of (w # ws) = ucast w # ucast (drop_bit 8 w) # bytes_of ws"
  by (simp_all add: bytes_of_def)

lemma length_bytes_of [simp]: "length (bytes_of ws) = 2 * length ws"
  by (induction ws) simp_all

lemma word_bytes:
  "ucast (ucast (a :: u8) OR push_bit 8 (ucast (b :: u8)) :: u16) = a"
  "ucast (drop_bit 8 (ucast (a :: u8) :: u16) OR drop_bit 8 (push_bit 8 (ucast (b :: u8)))) = b"
  by (rule bit_word_eqI; simp add: bit_simps; auto dest: bit_imp_le_length)+

lemma bytes_of_words_of: "even (length bs) \<Longrightarrow> bytes_of (words_of bs) = bs"
  by (induction bs rule: words_of.induct) (simp_all add: word_bytes)

lemma length_words_of: "length (words_of bs) = length bs div 2"
  by (induction bs rule: words_of.induct) simp_all

section \<open>Reading sectors\<close>

lemma read_words:
  assumes "data_words hw d ws d'" and "2 * k + 2 * length ws \<le> length buf"
  shows "for_range k (length ws) (disk_read_word hw) (buf, d) =
    Some (take (2 * k) buf @ bytes_of ws @ drop (2 * k + 2 * length ws) buf, d')"
  using assms
proof (induction ws arbitrary: k buf d)
  case Nil
  then show ?case by (auto elim: data_words_NilE)
next
  case (Cons w ws)
  from Cons.prems(1) obtain d1 where d1: "hw_insw hw 0x1F0 d = (w, d1)" "data_words hw d1 ws d'"
    by (auto elim: data_words_ConsE)
  let ?b = "buf[2 * k := ucast w, Suc (2 * k) := ucast (drop_bit 8 w)]"
  have "disk_read_word hw k (buf, d) = Some (?b, d1)"
    using d1(1) Cons.prems(2) by (simp add: disk_read_word_def)
  moreover have "for_range (Suc k) (length ws) (disk_read_word hw) (?b, d1) =
      Some (take (2 * Suc k) ?b @ bytes_of ws @ drop (2 * Suc k + 2 * length ws) ?b, d')"
    using Cons.prems(2) by (intro Cons.IH [OF d1(2)]) simp
  moreover have "take (2 * Suc k) ?b = take (2 * k) buf @ [ucast w, ucast (drop_bit 8 w)]"
    using Cons.prems(2) by (simp add: take_Suc_conv_app_nth)
  ultimately show ?case by simp
qed

lemma read_sector_loop:
  assumes hw: "ata_ok hw img idle xfer" and "xfer d lba n" and "512 * (b + n) \<le> length buf"
  shows "\<exists>d'. for_range b n (\<lambda>b (buf, d). do { d \<leftarrow> disk_wait hw d;
      for_range (b * 256) 256 (disk_read_word hw) (buf, d) }) (buf, d) =
    Some (take (512 * b) buf @ concat (map img [lba..<lba + n]) @ drop (512 * (b + n)) buf, d') \<and> idle d'"
  using assms(2,3)
proof (induction n arbitrary: b buf d lba)
  case 0
  then show ?case using ata_ok_idle [OF hw] by simp
next
  case (Suc n)
  obtain d1 d2 where d: "drq_after hw d d1" "data_words hw d1 (words_of (img lba)) d2" "xfer d2 (lba + 1) n"
    by (rule ata_ok_next [OF hw Suc.prems(1)])
  have len: "length (img lba) = 512" by (rule ata_ok_length [OF hw])
  let ?b = "take (512 * b) buf @ img lba @ drop (512 * Suc b) buf"
  have "for_range (b * 256) (length (words_of (img lba))) (disk_read_word hw) (buf, d1) = Some (?b, d2)"
    using read_words [OF d(2), of "b * 256" buf] Suc.prems(2) len
    by (simp add: length_words_of bytes_of_words_of algebra_simps)
  then have step: "for_range (b * 256) 256 (disk_read_word hw) (buf, d1) = Some (?b, d2)"
    by (simp add: length_words_of len)
  have "512 * (Suc b + n) \<le> length ?b" using Suc.prems(2) len by simp
  from Suc.IH [OF d(3) this] obtain d' where
    "for_range (Suc b) n (\<lambda>b (buf, d). do { d \<leftarrow> disk_wait hw d;
        for_range (b * 256) 256 (disk_read_word hw) (buf, d) }) (?b, d2) =
      Some (take (512 * Suc b) ?b @ concat (map img [lba + 1..<lba + 1 + n]) @ drop (512 * (Suc b + n)) ?b, d')"
    "idle d'" by blast
  moreover have "take (512 * Suc b) ?b = take (512 * b) buf @ img lba"
    using Suc.prems(2) len by simp
  moreover have "drop (512 * (Suc b + n)) ?b = drop (512 * (b + Suc n)) buf"
    using Suc.prems(2) len by (simp add: algebra_simps)
  moreover have "[lba..<lba + Suc n] = lba # [lba + 1..<lba + 1 + n]"
    by (simp add: upt_conv_Cons)
  ultimately show ?case
    using step disk_wait_drq [OF d(1)] by auto
qed

lemma read_sector_ok:
  assumes hw: "ata_ok hw img idle xfer" and "idle d" and "0 \<le> lba" and "lba < 268435456"
    and "0 < count" and "count < 256" and "512 * nat count \<le> length buf"
  shows "\<exists>d'. disk_read_sector hw lba count buf d =
    Some (0, concat (map img [nat lba..<nat lba + nat count]) @ drop (512 * nat count) buf, d') \<and> idle d'"
proof -
  have n: "(word_of_int count :: u8) \<noteq> 0" "unat (word_of_int count :: u8) = nat count"
    using assms(5,6) unat_byte [of count] by (auto simp: unat_eq_zero [symmetric])
  have "xfer (disk_issue hw lba count d) (nat lba) (nat count)"
    using ata_ok_start [OF hw assms(2) n(1) drive_byte(1) [OF assms(3,4)],
        of "word_of_int (drop_bit 16 lba)" "word_of_int (drop_bit 8 lba)" "word_of_int (lba AND 0xff)"]
      lba_bytes [OF assms(3,4)] n(2)
    by (simp add: disk_issue_def Let_def)
  from read_sector_loop [OF hw this, of 0 buf] assms(7) show ?thesis
    by (auto simp: disk_read_sector_def)
qed

section \<open>A controller\<close>

text \<open>
  A controller that answers at once: the registers written last and the words still to be
  read. It shows that what \<open>ata_ok\<close> asks can hold.
\<close>

record sample_dev =
  sd_regs :: "u16 \<Rightarrow> u8"
  sd_queue :: "u16 list"

definition sample_lba :: "(u16 \<Rightarrow> u8) \<Rightarrow> nat" where
  "sample_lba r = unat (r 0x1F3) + 256 * unat (r 0x1F4) + 65536 * unat (r 0x1F5) +
     16777216 * (unat (r 0x1F6) mod 16)"

definition sample_words :: "(nat \<Rightarrow> u8 list) \<Rightarrow> nat \<Rightarrow> nat \<Rightarrow> u16 list" where
  "sample_words img lba n = concat (map (\<lambda>l. words_of (img l)) [lba..<lba + n])"

definition sample_ata :: "(nat \<Rightarrow> u8 list) \<Rightarrow> sample_dev ata" where
  "sample_ata img = \<lparr>
     hw_outb = \<lambda>port v d. (if port = 0x1F7 \<and> v = 0x20
        then d\<lparr>sd_queue := sample_words img (sample_lba (sd_regs d)) (unat (sd_regs d 0x1F2))\<rparr>
        else d\<lparr>sd_regs := (sd_regs d)(port := v)\<rparr>),
     hw_insb = \<lambda>port d. (if sd_queue d = [] then 0 else 0x08, d),
     hw_insw = \<lambda>port d. (hd (sd_queue d), d\<lparr>sd_queue := tl (sd_queue d)\<rparr>)\<rparr>"

lemma sample_data_words:
  "sd_queue d = ws @ rest \<Longrightarrow> data_words (sample_ata img) d ws (d\<lparr>sd_queue := rest\<rparr>)"
proof (induction ws arbitrary: d)
  case Nil
  then have "d\<lparr>sd_queue := rest\<rparr> = d" by simp
  then show ?case using data_words.none [of "sample_ata img" d] by simp
next
  case (Cons w ws)
  have "data_words (sample_ata img) (d\<lparr>sd_queue := ws @ rest\<rparr>) ws (d\<lparr>sd_queue := ws @ rest\<rparr>\<lparr>sd_queue := rest\<rparr>)"
    by (rule Cons.IH) simp
  then show ?case
    using Cons.prems by (intro data_words.word) (simp_all add: sample_ata_def)
qed

lemma sample_ata_ok:
  assumes "\<And>lba. length (img lba) = 512"
  shows "ata_ok (sample_ata img) img (\<lambda>_. True) (\<lambda>d lba n. sd_queue d = sample_words img lba n)"
proof -
  have step: "\<exists>d1 d2. drq_after (sample_ata img) d d1 \<and>
      data_words (sample_ata img) d1 (words_of (img lba)) d2 \<and> sd_queue d2 = sample_words img (lba + 1) n"
    if q: "sd_queue d = sample_words img lba (Suc n)" for d lba n
  proof -
    have split: "sd_queue d = words_of (img lba) @ sample_words img (lba + 1) n"
    proof -
      have "[lba..<lba + Suc n] = lba # [lba + 1..<lba + 1 + n]" by (simp add: upt_conv_Cons)
      with q show ?thesis by (simp only: sample_words_def list.map concat.simps)
    qed
    moreover have "words_of (img lba) \<noteq> []" using length_words_of [of "img lba"] assms [of lba] by auto
    ultimately have "drq_after (sample_ata img) d d"
      by (intro drq_after.now [where c = "0x08"]) (simp_all add: sample_ata_def)
    with sample_data_words [OF split] show ?thesis
      by (intro exI [of _ d] exI [of _ "d\<lparr>sd_queue := sample_words img (lba + 1) n\<rparr>"]) simp
  qed
  show ?thesis
    unfolding ata_ok_def
  proof (intro conjI allI impI)
    fix d :: sample_dev and e n a b c :: u8
    show "sd_queue (hw_outb (sample_ata img) 0x1F7 0x20 (hw_outb (sample_ata img) 0x1F5 c
        (hw_outb (sample_ata img) 0x1F4 b (hw_outb (sample_ata img) 0x1F3 a
          (hw_outb (sample_ata img) 0x1F2 n (hw_outb (sample_ata img) 0x1F6 e d)))))) =
      sample_words img (unat a + 256 * unat b + 65536 * unat c + 16777216 * (unat e mod 16)) (unat n)"
      by (simp add: sample_ata_def sample_lba_def)
  qed (use assms step in auto)
qed

definition sample_img :: "nat \<Rightarrow> u8 list" where
  "sample_img lba = replicate 512 (of_nat lba)"

lemma sample_img_ok: "ata_ok (sample_ata sample_img) sample_img (\<lambda>_. True)
    (\<lambda>d lba n. sd_queue d = sample_words sample_img lba n)"
  by (rule sample_ata_ok) (simp add: sample_img_def)

definition sample_device :: sample_dev where
  "sample_device = \<lparr>sd_regs = \<lambda>_. 0, sd_queue = []\<rparr>"

section \<open>Properties\<close>

text \<open>
  C18. On a controller that follows the READ SECTORS protocol, \<^verbatim>\<open>disk_read_sector\<close> returns 0
  with the requested sectors, in order, at the start of the buffer and the rest of the buffer as
  it was; the controller is idle again.
\<close>

theorem disk_read_sector_reads:
  assumes "ata_ok hw img idle xfer" and "idle d" and "0 \<le> lba" and "lba < 268435456"
    and "0 < count" and "count < 256" and "512 * nat count \<le> length buf"
  shows "\<exists>d'. disk_read_sector hw lba count buf d =
    Some (0, concat (map img [nat lba..<nat lba + nat count]) @ drop (512 * nat count) buf, d') \<and> idle d'"
  by (rule read_sector_ok [OF assms])

lemma disk_read_sector_reads_witness:
  "\<exists>d'. disk_read_sector (sample_ata sample_img) 3 2 (replicate 1030 0xAA) sample_device =
    Some (0, replicate 512 3 @ replicate 512 4 @ replicate 6 0xAA, d')"
proof -
  have "[3..<5] = [3, 4 :: nat]" by (simp add: upt_rec)
  then show ?thesis
    using disk_read_sector_reads [OF sample_img_ok TrueI, of 3 2 "replicate 1030 0xAA" sample_device]
    by (simp add: sample_img_def)
qed

end
