(* ===== verification/Streamer.thy ===== *)
theory Streamer
  imports Disk
begin

text \<open>
  The disk streams of \<^verbatim>\<open>src/src/disk/streamer.c\<close>. \<open>out\<close> is the part of the caller's buffer from
  the out pointer on; the operation returns it with the bytes that were written. The stack
  buffer of one sector is a list of 512 bytes, and reading past its end is \<open>None\<close>.
\<close>

section \<open>Operations\<close>

definition diskstreamer_new :: "int \<Rightarrow> 'a kmem_scheme \<Rightarrow> (ptr \<times> 'a kmem_scheme) option" where
  "diskstreamer_new disk_id s =
     (let d = disk_get disk_id in
      if d = NullDisk then Some (0, s)
      else do {
        (streamer, s) \<leftarrow> kzalloc_as 8 (OStream \<lparr>ds_pos = 0, ds_disk = NullDisk\<rparr>) s;
        st \<leftarrow> deref as_stream streamer s;
        s \<leftarrow> store streamer (OStream (st\<lparr>ds_pos := 0, ds_disk := d\<rparr>)) s;
        Some (streamer, s) })"

definition diskstreamer_seek :: "ptr \<Rightarrow> int \<Rightarrow> 'a kmem_scheme \<Rightarrow> (int \<times> 'a kmem_scheme) option" where
  "diskstreamer_seek stream pos s = do {
     st \<leftarrow> deref as_stream stream s;
     s \<leftarrow> store stream (OStream (st\<lparr>ds_pos := pos\<rparr>)) s;
     Some (0, s) }"

function diskstreamer_read ::
  "'d ata \<Rightarrow> ptr \<Rightarrow> u8 list \<Rightarrow> int \<Rightarrow> ('d, 'a) diskmem_scheme \<Rightarrow>
   (int \<times> u8 list \<times> ('d, 'a) diskmem_scheme) option" where
  "diskstreamer_read hw stream out tot s = do {
     st \<leftarrow> deref as_stream stream s;
     let sector = ds_pos st sdiv int PEACHOS_SECTOR_SIZE;
     let offset = ds_pos st smod int PEACHOS_SECTOR_SIZE;
     (res, buf, s) \<leftarrow> disk_read_block hw (ds_disk st) (u32_of_int sector) 1
                       (replicate PEACHOS_SECTOR_SIZE 0) s;
     if res < 0 then Some (res, out, s)
     else do {
       let total_to_read = (if tot > int PEACHOS_SECTOR_SIZE then int PEACHOS_SECTOR_SIZE else tot);
       out \<leftarrow> for_range 0 (nat total_to_read)
                (\<lambda>i out. do { x \<leftarrow> aget_i buf (offset + int i); aset out i x }) out;
       st \<leftarrow> deref as_stream stream s;
       s \<leftarrow> store stream (OStream (st\<lparr>ds_pos := ds_pos st + total_to_read\<rparr>)) s;
       if tot > int PEACHOS_SECTOR_SIZE then do {
         (res, out', s) \<leftarrow> diskstreamer_read hw stream (drop PEACHOS_SECTOR_SIZE out)
                            (tot - int PEACHOS_SECTOR_SIZE) s;
         Some (res, take PEACHOS_SECTOR_SIZE out @ out', s) }
       else Some (res, out, s) } }"
  by pat_completeness auto
termination by (relation "measure (\<lambda>(hw, stream, out, tot, s). nat tot)") auto

declare diskstreamer_read.simps [simp del]

definition diskstreamer_close :: "ptr \<Rightarrow> 'a kmem_scheme \<Rightarrow> 'a kmem_scheme option" where
  "diskstreamer_close stream s = kfree stream s"

section \<open>The bytes of a disk\<close>

definition img_byte :: "(nat \<Rightarrow> u8 list) \<Rightarrow> nat \<Rightarrow> u8" where
  "img_byte img i = img (i div 512) ! (i mod 512)"

definition img_bytes :: "(nat \<Rightarrow> u8 list) \<Rightarrow> nat \<Rightarrow> nat \<Rightarrow> u8 list" where
  "img_bytes img pos n = map (img_byte img) [pos..<pos + n]"

lemma length_img_bytes [simp]: "length (img_bytes img pos n) = n"
  by (simp add: img_bytes_def)

lemma img_bytes_0 [simp]: "img_bytes img pos 0 = []"
  by (simp add: img_bytes_def)

lemma img_bytes_add: "img_bytes img pos (n + m) = img_bytes img pos n @ img_bytes img (pos + n) m"
  using upt_add_eq_append [of pos "pos + n" m] by (simp add: img_bytes_def add.assoc)

lemma nth_img_bytes [simp]: "i < n \<Longrightarrow> img_bytes img pos n ! i = img_byte img (pos + i)"
  by (simp add: img_bytes_def)

lemma img_bytes_in_sector:
  assumes "length (img (pos div 512)) = 512" and "pos mod 512 + n \<le> 512"
  shows "img_bytes img pos n = map (\<lambda>i. img (pos div 512) ! (pos mod 512 + i)) [0..<n]"
proof (rule nth_equalityI)
  fix i assume "i < length (img_bytes img pos n)"
  then have i: "i < n" by simp
  have "pos + i = 512 * (pos div 512) + (pos mod 512 + i)" by simp
  moreover have "pos mod 512 + i < 512" using i assms(2) by simp
  ultimately have "(pos + i) div 512 = pos div 512" "(pos + i) mod 512 = pos mod 512 + i"
    by (metis div_mult_self4 div_less add.right_neutral zero_neq_numeral)
      (metis mod_mult_self4 mod_less \<open>pos + i = 512 * (pos div 512) + (pos mod 512 + i)\<close> \<open>pos mod 512 + i < 512\<close>)
  with i show "img_bytes img pos n ! i = map (\<lambda>i. img (pos div 512) ! (pos mod 512 + i)) [0..<n] ! i"
    by (simp add: img_byte_def)
qed simp

section \<open>Reading\<close>

text \<open>The state after the stream has moved to \<open>pos\<close> and the controller to \<open>d\<close>.\<close>

definition stream_moved ::
  "('d, 'a) diskmem_scheme \<Rightarrow> ptr \<Rightarrow> nat \<Rightarrow> 'd \<Rightarrow> ('d, 'a) diskmem_scheme" where
  "stream_moved s stream pos d =
     s\<lparr>dev := d, objs := (objs s)(stream \<mapsto> OStream \<lparr>ds_pos = int pos, ds_disk = TheDisk\<rparr>)\<rparr>"

lemma stream_moved_simps [simp]:
  "dev (stream_moved s stream pos d) = d"
  "kernel_heap (stream_moved s stream pos d) = kernel_heap s"
  "disk (stream_moved s stream pos d) = disk s"
  "objs (stream_moved s stream pos d) = (objs s)(stream \<mapsto> OStream \<lparr>ds_pos = int pos, ds_disk = TheDisk\<rparr>)"
  "stream_moved (stream_moved s stream pos d) stream pos' d' = stream_moved s stream pos' d'"
  by (simp_all add: stream_moved_def)

lemma sdiv_nat: "int a sdiv int b = int (a div b)"
  by (cases "a = 0"; cases "b = 0") (simp_all add: signed_divide_int_def zdiv_int)

lemma smod_nat: "int a smod int b = int (a mod b)"
  by (cases "a = 0"; cases "b = 0") (simp_all add: signed_modulo_int_def zmod_int)

lemma read_block_one:
  assumes hw: "ata_ok hw img idle xfer" and "idle (dev s)" and "lba < 4194304"
  shows "\<exists>d'. disk_read_block hw TheDisk (u32_of_int (int lba)) 1 (replicate 512 0) s =
    Some (0, img lba, s\<lparr>dev := d'\<rparr>) \<and> idle d'"
proof -
  have "sint (of_nat lba :: u32) = int lba"
    using assms(3) by (subst sint_u32_small) (simp_all add: unat_of_nat_u32)
  with read_sector_ok [OF hw assms(2), of "int lba" 1 "replicate 512 0"] assms(3)
  show ?thesis by (auto simp: disk_read_block_def)
qed

lemma copy_sector:
  assumes "length sec = 512" and "n \<le> length out" and "n \<le> 512"
  shows "for_range 0 n (\<lambda>i out. do { x \<leftarrow> aget_i sec (int off + int i); aset out i x }) out =
    (if off + n \<le> 512 \<or> n = 0 then Some (map (\<lambda>i. sec ! (off + i)) [0..<n] @ drop n out) else None)"
proof (cases "off + n \<le> 512 \<or> n = 0")
  case True
  have *: "aget_i sec (int off + int i) = aget sec (off + i)" for i
    using aget_i_int [of sec "off + i"] by simp
  show ?thesis
    using True assms unfolding *
    by (subst for_range_fill [where g = "\<lambda>i. sec ! (off + i)"]) auto
next
  case False
  then have n: "0 < n" "512 < off + n" by auto
  have "for_range 0 n (\<lambda>i out. do { x \<leftarrow> aget_i sec (int off + int i); aset out i x }) out = None"
  proof (rule for_range_None [of _ "n - 1"])
    show "\<And>out. do { x \<leftarrow> aget_i sec (int off + int (n - 1)); aset out (n - 1) x } = None"
    proof -
      have "int off + int (n - 1) = int (off + (n - 1))" by simp
      then have "aget_i sec (int off + int (n - 1)) = None"
        using n assms(1) by (simp only: aget_i_int) simp
      then show "\<And>out. do { x \<leftarrow> aget_i sec (int off + int (n - 1)); aset out (n - 1) x } = None" by simp
    qed
  qed (use n in auto)
  with False show ?thesis by simp
qed

lemma stream_step:
  assumes hw: "ata_ok hw img idle xfer" and "idle (dev s)"
    and st: "objs s stream = Some (OStream \<lparr>ds_pos = int pos, ds_disk = TheDisk\<rparr>)"
    and "pos < 2147483648" and "n \<le> length out" and m: "m = min n 512"
  shows "\<exists>d'. idle d' \<and> diskstreamer_read hw stream out (int n) s =
    (if pos mod 512 + m \<le> 512
     then let s' = stream_moved s stream (pos + m) d' in
       if n > 512 then do {
         (res, out', s) \<leftarrow> diskstreamer_read hw stream (drop 512 out) (int (n - 512)) s';
         Some (res, img_bytes img pos 512 @ out', s) }
       else Some (0, img_bytes img pos n @ drop n out, s')
     else None)"
proof -
  have "pos div 512 < 4194304" using assms(4) by (simp add: less_mult_imp_div_less)
  from read_block_one [OF hw assms(2) this] obtain d' where
    rd: "disk_read_block hw TheDisk (u32_of_int (int (pos div 512))) 1 (replicate 512 0) s =
      Some (0, img (pos div 512), s\<lparr>dev := d'\<rparr>)" and idle: "idle d'" by blast
  have len: "length (img (pos div 512)) = 512" by (rule ata_ok_length [OF hw])
  have m': "nat (if int n > int 512 then int 512 else int n) = m" using m by auto
  have mi: "(if int n > int 512 then int 512 else int n) = int m" using m by auto
  have mle: "m \<le> 512" "m \<le> length out" using m assms(5) by auto
  note copy = copy_sector [OF len mle(2,1), of "pos mod 512"]
  have zero: "m = 0 \<Longrightarrow> pos mod 512 + m \<le> 512" by simp
  have body: "diskstreamer_read hw stream out (int n) s =
     do { out \<leftarrow> for_range 0 m (\<lambda>i out. do { x \<leftarrow> aget_i (img (pos div 512)) (int (pos mod 512) + int i); aset out i x }) out;
          let s' = stream_moved s stream (pos + m) d';
          if n > 512 then do {
            (res, out', s) \<leftarrow> diskstreamer_read hw stream (drop 512 out) (int n - 512) s';
            Some (res, take 512 out @ out', s) }
          else Some (0, out, s') }"
    unfolding diskstreamer_read.simps [of hw stream out "int n" s] mi
    using st rd
    by (cases "512 < n") (simp_all add: stream_moved_def deref_def store_def Let_def sdiv_nat [of _ 512, simplified]
        smod_nat [of _ 512, simplified])
  show ?thesis
  proof (cases "pos mod 512 + m \<le> 512")
    case True
    then have "img_bytes img pos m = map (\<lambda>i. img (pos div 512) ! (pos mod 512 + i)) [0..<m]"
      using img_bytes_in_sector [of img pos m] len by simp
    with True copy body idle m show ?thesis
      by (intro exI [of _ d']) (auto simp: Let_def of_nat_diff)
  next
    case False
    with copy body idle zero show ?thesis by (intro exI [of _ d']) auto
  qed
qed

text \<open>A read that starts on a sector boundary, or stays inside one sector.\<close>

lemma stream_read_ok:
  assumes hw: "ata_ok hw img idle xfer" and "idle (dev s)"
    and "objs s stream = Some (OStream \<lparr>ds_pos = int pos, ds_disk = TheDisk\<rparr>)"
    and "pos + n \<le> 2147483647" and "n \<le> length out"
    and "pos mod 512 = 0 \<or> pos mod 512 + n \<le> 512"
  shows "\<exists>d'. idle d' \<and> diskstreamer_read hw stream out (int n) s =
    Some (0, img_bytes img pos n @ drop n out,
      stream_moved s stream (pos + n) d')"
  using assms(2-6)
proof (induction n arbitrary: pos out s rule: less_induct)
  case (less n)
  let ?m = "min n 512"
  have fit: "pos mod 512 + ?m \<le> 512" using less.prems(5) by auto
  have "pos < 2147483648" using less.prems(3) by simp
  from stream_step [OF hw less.prems(1,2) this less.prems(4) refl] fit obtain d1 where
    d1: "idle d1" and r: "diskstreamer_read hw stream out (int n) s =
      (let s' = stream_moved s stream (pos + ?m) d1 in
       if n > 512 then do {
         (res, out', s) \<leftarrow> diskstreamer_read hw stream (drop 512 out) (int (n - 512)) s';
         Some (res, img_bytes img pos 512 @ out', s) }
       else Some (0, img_bytes img pos n @ drop n out, s'))"
    by auto
  show ?case
  proof (cases "n > 512")
    case True
    let ?s = "stream_moved s stream (pos + 512) d1"
    have al: "(pos + 512) mod 512 = 0 \<or> (pos + 512) mod 512 + (n - 512) \<le> 512"
      using less.prems(5) True by auto
    have pre: "n - 512 < n" "idle (dev ?s)"
      "objs ?s stream = Some (OStream \<lparr>ds_pos = int (pos + 512), ds_disk = TheDisk\<rparr>)"
      "pos + 512 + (n - 512) \<le> 2147483647" "n - 512 \<le> length (drop 512 out)"
      using True less.prems d1 by simp_all
    from less.IH [OF pre al] obtain d2 where
      "idle d2" "diskstreamer_read hw stream (drop 512 out) (int (n - 512)) ?s =
        Some (0, img_bytes img (pos + 512) (n - 512) @ drop (n - 512) (drop 512 out),
          stream_moved ?s stream (pos + 512 + (n - 512)) d2)"
      by blast
    moreover have "img_bytes img pos n = img_bytes img pos 512 @ img_bytes img (pos + 512) (n - 512)"
      using True img_bytes_add [of img pos 512 "n - 512"] by simp
    ultimately show ?thesis
      using True r by (intro exI [of _ d2]) (simp add: min_def)
  next
    case False
    with r d1 show ?thesis by (intro exI [of _ d1]) (simp add: min_def)
  qed
qed

lemma stream_read_overrun:
  assumes hw: "ata_ok hw img idle xfer" and "idle (dev s)"
    and "objs s stream = Some (OStream \<lparr>ds_pos = int pos, ds_disk = TheDisk\<rparr>)"
    and "pos + n \<le> 2147483647" and "n \<le> length out"
    and "\<not> (pos mod 512 = 0 \<or> pos mod 512 + n \<le> 512)"
  shows "diskstreamer_read hw stream out (int n) s = None"
proof -
  have "\<not> pos mod 512 + min n 512 \<le> 512" using assms(6) by auto
  moreover have "pos < 2147483648" using assms(4) by simp
  ultimately show ?thesis using stream_step [OF hw assms(2,3) _ assms(5) refl] by auto
qed

section \<open>Properties\<close>

text \<open>
  C19. Reading \<open>n\<close> bytes at position \<open>pos\<close> delivers exactly those bytes of the disk and
  advances the stream by \<open>n\<close> when the read starts on a sector boundary or stays inside one
  sector. Any other read runs past the 512-byte stack buffer \<^verbatim>\<open>buf\<close>: the index
  \<^verbatim>\<open>offset + i\<close> is never reduced by the bytes already taken from the sector.
\<close>

theorem diskstreamer_read_exact:
  assumes "ata_ok hw img idle xfer" and "idle (dev s)"
    and "objs s stream = Some (OStream \<lparr>ds_pos = int pos, ds_disk = TheDisk\<rparr>)"
    and "pos + n \<le> 2147483647" and "n \<le> length out"
  shows "if pos mod 512 = 0 \<or> pos mod 512 + n \<le> 512
    then \<exists>d'. idle d' \<and> diskstreamer_read hw stream out (int n) s =
      Some (0, img_bytes img pos n @ drop n out,
        stream_moved s stream (pos + n) d')
    else diskstreamer_read hw stream out (int n) s = None"
  using stream_read_ok [OF assms] stream_read_overrun [OF assms] by simp

definition sample_diskmem :: "int \<Rightarrow> (sample_dev, unit) diskmem_scheme" where
  "sample_diskmem p = \<lparr>kernel_heap = sample_heap [Used 1], objs = [0x1000000 \<mapsto> OStream \<lparr>ds_pos = p, ds_disk = TheDisk\<rparr>],
     current_directory = 0, cr3 = 0, cr0 = 0,
     disk = \<lparr>dk_type = 0, dk_sector_size = 512, dk_id = 0, dk_filesystem = NullFs, dk_fs_private = 0\<rparr>,
     dev = sample_device\<rparr>"

lemma diskstreamer_read_exact_witness:
  "(\<exists>s'. diskstreamer_read (sample_ata sample_img) 0x1000000 (replicate 3 0) 3 (sample_diskmem 1536) =
      Some (0, [3, 3, 3], s')) \<and>
   diskstreamer_read (sample_ata sample_img) 0x1000000 (replicate 3 0) 3 (sample_diskmem 510) = None"
proof
  have "img_bytes sample_img 1536 3 = [3, 3, 3]"
    by (simp add: img_bytes_def img_byte_def sample_img_def upt_rec)
  then show "\<exists>s'. diskstreamer_read (sample_ata sample_img) 0x1000000 (replicate 3 0) 3 (sample_diskmem 1536) =
      Some (0, [3, 3, 3], s')"
    using diskstreamer_read_exact [OF sample_img_ok TrueI, of "sample_diskmem 1536" "0x1000000" 1536 3 "replicate 3 0"]
    by (auto simp: sample_diskmem_def)
  show "diskstreamer_read (sample_ata sample_img) 0x1000000 (replicate 3 0) 3 (sample_diskmem 510) = None"
    using diskstreamer_read_exact [OF sample_img_ok TrueI, of "sample_diskmem 510" "0x1000000" 510 3 "replicate 3 0"]
    by (simp add: sample_diskmem_def)
qed

end
