(* ===== verification/Path_Parser.thy ===== *)
theory Path_Parser
  imports KHeap Strings_OS
begin

text \<open>
  The path parser of \<^verbatim>\<open>src/src/fs/pparser.c\<close>. A \<^verbatim>\<open>const char*\<close> that is moved along a string is
  the list of the bytes that are left; the parts and the root are objects of the kernel heap.
  The loops over the parts are partial functions: a list with a cycle would not end.
\<close>

section \<open>Operations\<close>

abbreviation (input) PEACHOS_MAXPATH :: int where "PEACHOS_MAXPATH \<equiv> 108"

definition pathparser_path_valid_format :: "u8 list \<Rightarrow> bool option" where
  "pathparser_path_valid_format filename = do {
     len \<leftarrow> strnlen filename PEACHOS_MAXPATH;
     if \<not> len \<ge> 3 then Some False
     else do {
       c \<leftarrow> aget filename 0;
       if \<not> isdigit c then Some False
       else do {
         r \<leftarrow> memcmp (drop 1 filename) [58, 47, 0] 2;
         Some (r = 0) } } }"

definition pathparser_get_drive_by_path :: "u8 list \<Rightarrow> (int \<times> u8 list) option" where
  "pathparser_get_drive_by_path path = do {
     ok \<leftarrow> pathparser_path_valid_format path;
     if \<not> ok then Some (- EBADPATH, path)
     else do {
       c \<leftarrow> aget path 0;
       Some (tonumericdigit c, drop 3 path) } }"

definition pathparser_create_root :: "int \<Rightarrow> 'a kmem_scheme \<Rightarrow> (ptr \<times> 'a kmem_scheme) option" where
  "pathparser_create_root drive_number s = do {
     (path_r, s) \<leftarrow> kzalloc_as 8 (OPathRoot \<lparr>drive_no = 0, first_part = 0\<rparr>) s;
     r \<leftarrow> deref as_path_root path_r s;
     s \<leftarrow> store path_r (OPathRoot (r\<lparr>drive_no := drive_number, first_part := 0\<rparr>)) s;
     Some (path_r, s) }"

fun path_part_loop ::
  "ptr \<Rightarrow> nat \<Rightarrow> u8 list \<Rightarrow> 'a kmem_scheme \<Rightarrow> (nat \<times> u8 list \<times> 'a kmem_scheme) option" where
  "path_part_loop result_path_part i [] s = None"
| "path_part_loop result_path_part i (c # path) s =
     (if c \<noteq> 47 \<and> c \<noteq> 0 then do {
        b \<leftarrow> deref as_bytes result_path_part s;
        b \<leftarrow> aset b i c;
        s \<leftarrow> store result_path_part (OBytes b) s;
        path_part_loop result_path_part (Suc i) path s }
      else Some (i, c # path, s))"

definition pathparser_get_path_part ::
  "u8 list \<Rightarrow> 'a kmem_scheme \<Rightarrow> (ptr \<times> u8 list \<times> 'a kmem_scheme) option" where
  "pathparser_get_path_part path s = do {
     (result_path_part, s) \<leftarrow> kzalloc (u32_of_int PEACHOS_MAXPATH) s;
     (i, path, s) \<leftarrow> path_part_loop result_path_part 0 path s;
     c \<leftarrow> aget path 0;
     path \<leftarrow> Some (if c = 47 then drop 1 path else path);
     if i = 0 then do {
       s \<leftarrow> kfree result_path_part s;
       Some (0, path, s) }
     else Some (result_path_part, path, s) }"

definition pathparser_parse_path_part ::
  "ptr \<Rightarrow> u8 list \<Rightarrow> 'a kmem_scheme \<Rightarrow> (ptr \<times> u8 list \<times> 'a kmem_scheme) option" where
  "pathparser_parse_path_part last_part path s = do {
     (path_part_str, path, s) \<leftarrow> pathparser_get_path_part path s;
     if path_part_str = 0 then Some (0, path, s)
     else do {
       (p, s) \<leftarrow> kzalloc_as 8 (OPathPart \<lparr>part = 0, next_part = 0\<rparr>) s;
       r \<leftarrow> deref as_path_part p s;
       s \<leftarrow> store p (OPathPart (r\<lparr>part := path_part_str, next_part := 0\<rparr>)) s;
       if last_part \<noteq> 0 then do {
         l \<leftarrow> deref as_path_part last_part s;
         s \<leftarrow> store last_part (OPathPart (l\<lparr>next_part := p\<rparr>)) s;
         Some (p, path, s) }
       else Some (p, path, s) } }"

partial_function (option) pathparser_free_loop :: "ptr \<Rightarrow> 'a kmem_scheme \<Rightarrow> 'a kmem_scheme option" where
  "pathparser_free_loop p s =
     (if p = 0 then Some s
      else do {
        r \<leftarrow> deref as_path_part p s;
        s \<leftarrow> kfree (part r) s;
        s \<leftarrow> kfree p s;
        pathparser_free_loop (next_part r) s })"

definition pathparser_free :: "ptr \<Rightarrow> 'a kmem_scheme \<Rightarrow> 'a kmem_scheme option" where
  "pathparser_free root s = do {
     r \<leftarrow> deref as_path_root root s;
     s \<leftarrow> pathparser_free_loop (first_part r) s;
     kfree root s }"

text \<open>\<^verbatim>\<open>while (part) part = pathparser_parse_path_part(part, &tmp_path);\<close>\<close>

partial_function (option) pathparser_parse_loop ::
  "ptr \<Rightarrow> u8 list \<Rightarrow> 'a kmem_scheme \<Rightarrow> 'a kmem_scheme option" where
  "pathparser_parse_loop p tmp_path s =
     (if p = 0 then Some s
      else do {
        (p, tmp_path, s) \<leftarrow> pathparser_parse_path_part p tmp_path s;
        pathparser_parse_loop p tmp_path s })"

definition pathparser_parse :: "u8 list \<Rightarrow> 'a kmem_scheme \<Rightarrow> (ptr \<times> 'a kmem_scheme) option" where
  "pathparser_parse path s = do {
     len \<leftarrow> strlen path;
     if len > PEACHOS_MAXPATH then Some (0, s)
     else do {
       (res, tmp_path) \<leftarrow> pathparser_get_drive_by_path path;
       if res < 0 then Some (0, s)
       else do {
         (path_root, s) \<leftarrow> pathparser_create_root res s;
         if path_root = 0 then Some (path_root, s)
         else do {
           (first_path, tmp_path, s) \<leftarrow> pathparser_parse_path_part 0 tmp_path s;
           if first_path = 0 then Some (path_root, s)
           else do {
             r \<leftarrow> deref as_path_root path_root s;
             s \<leftarrow> store path_root (OPathRoot (r\<lparr>first_part := first_path\<rparr>)) s;
             (p, tmp_path, s) \<leftarrow> pathparser_parse_path_part first_path tmp_path s;
             s \<leftarrow> pathparser_parse_loop p tmp_path s;
             Some (path_root, s) } } } } }"

section \<open>The parts of a path\<close>

text \<open>What the parser makes of the text after the drive: the components between slashes, up to
  the first empty one.\<close>

definition in_part :: "u8 \<Rightarrow> bool" where
  "in_part c \<longleftrightarrow> c \<noteq> 47 \<and> c \<noteq> 0"

definition skip_sep :: "u8 list \<Rightarrow> u8 list" where
  "skip_sep r = (if r \<noteq> [] \<and> hd r = 47 then tl r else r)"

function parts_of :: "u8 list \<Rightarrow> u8 list list" where
  "parts_of p = (if takeWhile in_part p = [] then []
     else takeWhile in_part p # parts_of (skip_sep (dropWhile in_part p)))"
  by pat_completeness auto
termination
proof (relation "measure length")
  fix p :: "u8 list" assume "takeWhile in_part p \<noteq> []"
  then have "length (dropWhile in_part p) < length p"
    using length_append [of "takeWhile in_part p" "dropWhile in_part p"] by simp
  moreover have "length (skip_sep r) \<le> length r" for r by (simp add: skip_sep_def)
  ultimately have "length (skip_sep (dropWhile in_part p)) < length p" by (rule le_less_trans [rotated])
  then show "(skip_sep (dropWhile in_part p), p) \<in> measure length" by simp
qed simp

declare parts_of.simps [simp del]

lemma skip_sep_zero: "0 \<in> set p \<Longrightarrow> 0 \<in> set (skip_sep (dropWhile in_part p))"
proof -
  assume z: "0 \<in> set p"
  have "\<not> in_part 0" by (simp add: in_part_def)
  with z have "0 \<in> set (dropWhile in_part p)"
    by (metis UnE set_append set_takeWhileD takeWhile_dropWhile_id)
  then show ?thesis by (cases "dropWhile in_part p") (auto simp: skip_sep_def)
qed

lemma dropWhile_zero: "0 \<in> set p \<Longrightarrow> dropWhile in_part p \<noteq> []"
  using set_takeWhileD [of 0 in_part] by (auto simp: in_part_def dropWhile_eq_Nil_conv)

lemma cstr_skip_sep: "length (cstr (skip_sep (dropWhile in_part p))) \<le> length (cstr p)"
proof (induction p)
  case (Cons c p)
  then show ?case
    by (cases "c = 0"; cases "c = 47") (auto simp: in_part_def skip_sep_def)
qed (simp add: skip_sep_def)

lemma takeWhile_cstr: "length (takeWhile in_part p) \<le> length (cstr p)"
  by (induction p) (auto simp: cstr_def in_part_def)

section \<open>Reading one part\<close>

lemma path_part_loop_eq:
  assumes "objs s q = Some (OBytes b)" and "0 \<in> set path" and "c = takeWhile in_part path"
    and "i + length c \<le> length b"
  shows "path_part_loop q i path s = Some (i + length c, dropWhile in_part path,
    setobj q (OBytes (take i b @ c @ drop (i + length c) b)) s)"
  using assms
proof (induction path arbitrary: i b s c)
  case Nil
  then show ?case by simp
next
  case (Cons x path)
  show ?case
  proof (cases "in_part x")
    case True
    then have x: "x \<noteq> 47" "x \<noteq> 0" by (auto simp: in_part_def)
    let ?c = "takeWhile in_part path" and ?b = "b[i := x]"
    let ?s = "setobj q (OBytes ?b) s"
    have i: "i < length b" "c = x # ?c" using Cons.prems(3,4) True by auto
    have "path_part_loop q (Suc i) path ?s = Some (Suc i + length ?c, dropWhile in_part path,
        setobj q (OBytes (take (Suc i) ?b @ ?c @ drop (Suc i + length ?c) ?b)) ?s)"
      using Cons.prems x i by (intro Cons.IH) auto
    with Cons.prems(1) x i True show ?thesis
      by (simp add: deref_def store_eq take_Suc_conv_app_nth)
  next
    case False
    then have "\<not> (x \<noteq> 47 \<and> x \<noteq> 0)" by (auto simp: in_part_def)
    with False Cons.prems show ?thesis by (auto simp: setobj_same)
  qed
qed

definition part_buffer :: "u8 list \<Rightarrow> obj" where
  "part_buffer c = OBytes (c @ replicate (108 - length c) 0)"

lemma get_path_part_ok:
  assumes inv: "kmem_inv s" and av: "0 < kavail s" and z: "0 \<in> set path"
    and c: "c = takeWhile in_part path" and len: "length c \<le> 108"
  shows "if c = []
    then \<exists>s'. pathparser_get_path_part path s = Some (0, skip_sep (dropWhile in_part path), s') \<and>
      grown s {} s' \<and> objs s' = objs s
    else \<exists>q s'. pathparser_get_path_part path s = Some (q, skip_sep (dropWhile in_part path), s') \<and>
      q \<noteq> 0 \<and> grown s {q} s' \<and> objs s q = None \<and> objs s' = (objs s)(q \<mapsto> part_buffer c)"
proof -
  obtain q s1 where k: "alloc_as 108 (OBytes (replicate 108 0)) s = Some (q, s1)" "q \<noteq> 0" "grown s {q} s1"
    "objs s q = None" "objs s1 = (objs s)(q \<mapsto> OBytes (replicate 108 0))"
    by (rule grown_alloc [OF inv av, of 108 "OBytes (replicate 108 0)"]) simp_all
  let ?s2 = "setobj q (part_buffer c) s1"
  have g2: "grown s {q} ?s2" using k(3,5) by (intro grown_update) simp_all
  have o2: "objs ?s2 = (objs s)(q \<mapsto> part_buffer c)" using k(5) by simp
  have loop: "path_part_loop q 0 path s1 = Some (length c, dropWhile in_part path, ?s2)"
    using path_part_loop_eq [of s1 q "replicate 108 0" path c 0] k(5) z c len
    by (simp add: part_buffer_def)
  obtain x r where r: "dropWhile in_part path = x # r" using dropWhile_zero [OF z] by (cases "dropWhile in_part path") auto
  have g: "pathparser_get_path_part path s = (if length c = 0
      then do { s \<leftarrow> kfree q ?s2; Some (0, skip_sep (dropWhile in_part path), s) }
      else Some (q, skip_sep (dropWhile in_part path), ?s2))"
    using k(1) loop r by (simp add: pathparser_get_path_part_def kzalloc_bytes skip_sep_def)
  show ?thesis
  proof (cases "c = []")
    case True
    obtain s3 where s3: "kfree q ?s2 = Some s3" "grown s ({q} - {q}) s3" "objs s3 = (objs ?s2)(q := None)"
      by (rule grown_release [OF g2 singletonI])
    have "objs s3 = objs s" using s3(3) k(4,5) by (simp add: fun_upd_idem)
    with True g s3 show ?thesis by simp
  next
    case False
    with g g2 o2 k(2,4) show ?thesis by auto
  qed
qed

section \<open>The list of parts\<close>

text \<open>
  A node of the list: the address of its \<^verbatim>\<open>struct path_part\<close>, the address of its string and
  the string. \<open>chain_objs\<close> is the objects of a list of nodes.
\<close>

type_synonym node = "ptr \<times> ptr \<times> u8 list"

fun head_of :: "node list \<Rightarrow> ptr" where
  "head_of [] = 0"
| "head_of ((n, q, c) # ns) = n"

fun chain_objs :: "node list \<Rightarrow> ptr \<Rightarrow> obj option" where
  "chain_objs [] = Map.empty"
| "chain_objs ((n, q, c) # ns) =
     (chain_objs ns)(n \<mapsto> OPathPart \<lparr>part = q, next_part = head_of ns\<rparr>, q \<mapsto> part_buffer c)"

fun chain_ptrs :: "node list \<Rightarrow> ptr list" where
  "chain_ptrs [] = []"
| "chain_ptrs ((n, q, c) # ns) = n # q # chain_ptrs ns"

lemma chain_objs_None: "chain_objs ns p = None \<longleftrightarrow> p \<notin> set (chain_ptrs ns)"
  by (induction ns rule: chain_objs.induct) auto

lemma parse_path_part_ok:
  assumes inv: "kmem_inv s" and av: "2 \<le> kavail s" and z: "0 \<in> set path"
    and c: "c = takeWhile in_part path" "c \<noteq> []" and len: "length c \<le> 108"
    and l: "l \<noteq> 0 \<Longrightarrow> objs s l = Some (OPathPart \<lparr>part = lq, next_part = 0\<rparr>)"
  shows "\<exists>n q s'. pathparser_parse_path_part l path s = Some (n, skip_sep (dropWhile in_part path), s') \<and>
    n \<noteq> 0 \<and> n \<noteq> q \<and> grown s {n, q} s' \<and>
    objs s' = (if l = 0 then objs s else (objs s)(l \<mapsto> OPathPart \<lparr>part = lq, next_part = n\<rparr>))
      (n \<mapsto> OPathPart \<lparr>part = q, next_part = 0\<rparr>, q \<mapsto> part_buffer c)"
proof -
  have "0 < kavail s" using av by simp
  from get_path_part_ok [OF inv this z c(1) len] c(2) obtain q s1 where
    q: "pathparser_get_path_part path s = Some (q, skip_sep (dropWhile in_part path), s1)"
      "q \<noteq> 0" "grown s {q} s1" "objs s q = None" "objs s1 = (objs s)(q \<mapsto> part_buffer c)" by auto
  have inv1: "kmem_inv s1" and av1: "0 < kavail s1" using grownD(2,6) [OF q(3)] av by auto
  obtain n s2 where n: "alloc_as 8 (OPathPart \<lparr>part = 0, next_part = 0\<rparr>) s1 = Some (n, s2)" "n \<noteq> 0"
    "grown s1 {n} s2" "objs s1 n = None" "objs s2 = (objs s1)(n \<mapsto> OPathPart \<lparr>part = 0, next_part = 0\<rparr>)"
    by (rule grown_alloc [OF inv1 av1, of 8 "OPathPart \<lparr>part = 0, next_part = 0\<rparr>"]) simp_all
  have nq: "n \<noteq> q" using n(4) q(5) by auto
  let ?x = "OPathPart \<lparr>part = q, next_part = 0\<rparr>"
  let ?s3 = "setobj n ?x s2"
  have g3: "grown s {n, q} ?s3"
    using grown_trans(1) [OF q(3) n(3)] n(5) by (intro grown_update) (simp_all add: insert_commute)
  have o3: "objs ?s3 = (objs s)(n \<mapsto> ?x, q \<mapsto> part_buffer c)"
    using n(5) q(5) nq by (simp add: fun_upd_twist)
  show ?thesis
  proof (cases "l = 0")
    case True
    with q n g3 o3 nq show ?thesis
      by (intro exI [of _ n] exI [of _ q] exI [of _ ?s3])
        (simp add: pathparser_parse_path_part_def deref_def store_eq)
  next
    case False
    let ?y = "OPathPart \<lparr>part = lq, next_part = n\<rparr>"
    have ol: "objs s l = Some (OPathPart \<lparr>part = lq, next_part = 0\<rparr>)" using l False by simp
    have "l \<noteq> q" using ol q(4) by auto
    moreover from this have "l \<noteq> n" using ol n(4) q(5) by auto
    ultimately have ne: "l \<noteq> q" "l \<noteq> n" by simp_all
    then have "objs ?s3 l = Some (OPathPart \<lparr>part = lq, next_part = 0\<rparr>)" using ol o3 by simp
    then have "pathparser_parse_path_part l path s =
        Some (n, skip_sep (dropWhile in_part path), setobj l ?y ?s3)"
      using False q n ne ol nq by (simp add: pathparser_parse_path_part_def deref_def store_eq)
    moreover have "grown s {n, q} (setobj l ?y ?s3)"
      using \<open>objs ?s3 l = _\<close> by (intro grown_update [OF g3]) simp
    moreover have "objs (setobj l ?y ?s3) = (objs s)(l \<mapsto> ?y, n \<mapsto> ?x, q \<mapsto> part_buffer c)"
      by (simp only: setobj_simps(1) [of l ?y ?s3] o3) (use ne nq in \<open>auto simp: fun_eq_iff\<close>)
    ultimately show ?thesis using False n(2) nq by auto
  qed
qed

text \<open>The loop from a last part \<open>l\<close> on appends a node for every part that is left.\<close>

lemma parse_loop_ok:
  assumes "kmem_inv s" and "2 * length (parts_of path) < kavail s" and "0 \<in> set path" and "length (cstr path) \<le> 108"
    and "l \<noteq> 0" and "objs s l = Some (OPathPart \<lparr>part = lq, next_part = 0\<rparr>)"
  shows "\<exists>ns s'. pathparser_parse_loop l path s = Some s' \<and> map (\<lambda>(n, q, c). c) ns = parts_of path \<and>
    distinct (chain_ptrs ns) \<and> grown s (set (chain_ptrs ns)) s' \<and>
    objs s' = (objs s ++ chain_objs ns)(l \<mapsto> OPathPart \<lparr>part = lq, next_part = head_of ns\<rparr>)"
  using assms
proof (induction path arbitrary: s l lq rule: parts_of.induct)
  case (1 path)
  let ?c = "takeWhile in_part path" and ?r = "skip_sep (dropWhile in_part path)"
  have len: "length ?c \<le> 108" using 1(5) takeWhile_cstr [of path] by linarith
  show ?case
  proof (cases "?c = []")
    case True
    from get_path_part_ok [OF 1(2) _ 1(4) refl len] 1(3) True obtain s1 where
      s1: "pathparser_get_path_part path s = Some (0, ?r, s1)" "grown s {} s1" "objs s1 = objs s" by auto
    then have "pathparser_parse_path_part l path s = Some (0, ?r, s1)"
      by (simp add: pathparser_parse_path_part_def)
    then have "pathparser_parse_loop l path s = Some s1"
      using 1(6) by (simp add: pathparser_parse_loop.simps [of l] pathparser_parse_loop.simps [of 0])
    moreover have "parts_of path = []" using True by (simp add: parts_of.simps [of path])
    ultimately show ?thesis
      using s1 1(7) by (intro exI [of _ "[]"] exI [of _ s1]) (simp add: fun_upd_idem)
  next
    case False
    have ps: "parts_of path = ?c # parts_of ?r" using False by (simp add: parts_of.simps [of path])
    have av: "2 \<le> kavail s" using 1(3) ps by simp
    from parse_path_part_ok [OF 1(2) av 1(4) refl False len, of l lq] 1(6,7) obtain n q s1 where
      p: "pathparser_parse_path_part l path s = Some (n, ?r, s1)" "n \<noteq> 0" "n \<noteq> q" "grown s {n, q} s1"
      and o1: "objs s1 = (objs s)(l \<mapsto> OPathPart \<lparr>part = lq, next_part = n\<rparr>,
        n \<mapsto> OPathPart \<lparr>part = q, next_part = 0\<rparr>, q \<mapsto> part_buffer ?c)" by auto
    have "kmem_inv s1" "2 * length (parts_of ?r) < kavail s1"
      using grownD(2,6) [OF p(4)] 1(3) ps p(3) by auto
    moreover have "0 \<in> set ?r" "length (cstr ?r) \<le> 108"
      using skip_sep_zero [OF 1(4)] cstr_skip_sep [of path] 1(5) by auto
    moreover have "objs s1 n = Some (OPathPart \<lparr>part = q, next_part = 0\<rparr>)" using o1 p(3) by simp
    ultimately obtain ns s2 where s2: "pathparser_parse_loop n ?r s1 = Some s2"
      "map (\<lambda>(n, q, c). c) ns = parts_of ?r" "distinct (chain_ptrs ns)" "grown s1 (set (chain_ptrs ns)) s2"
      "objs s2 = (objs s1 ++ chain_objs ns)(n \<mapsto> OPathPart \<lparr>part = q, next_part = head_of ns\<rparr>)"
      using 1(1) [OF False] p(2) by blast
    have g: "grown s (set (chain_ptrs ((n, q, ?c) # ns))) s2"
      using grown_trans(1) [OF p(4) s2(4)] by (simp add: insert_commute)
    have disj: "n \<notin> set (chain_ptrs ns)" "q \<notin> set (chain_ptrs ns)"
      using grown_trans(2) [OF p(4) s2(4)] by auto
    have lfresh: "l \<notin> {n, q} \<union> set (chain_ptrs ns)"
      using grown_old [OF g, of l] 1(7) by auto
    have "pathparser_parse_loop l path s = Some s2"
      using 1(6) p(1) s2(1) by (simp add: pathparser_parse_loop.simps [of l])
    moreover have "objs s2 = (objs s ++ chain_objs ((n, q, ?c) # ns))
        (l \<mapsto> OPathPart \<lparr>part = lq, next_part = head_of ((n, q, ?c) # ns)\<rparr>)"
    proof -
      have "chain_objs ns n = None" "chain_objs ns q = None" "chain_objs ns l = None"
        using disj lfresh by (simp_all add: chain_objs_None)
      then show ?thesis
        unfolding s2(5) o1 using lfresh p(3) by (auto simp: fun_eq_iff map_add_def split: option.split)
    qed
    moreover have "map (\<lambda>(n, q, c). c) ((n, q, ?c) # ns) = parts_of path" using s2(2) ps by simp
    moreover have "distinct (chain_ptrs ((n, q, ?c) # ns))" using s2(3) disj p(3) by simp
    ultimately show ?thesis using g by blast
  qed
qed

section \<open>Parsing and releasing\<close>

text \<open>The format the parser accepts: a digit, a colon and a slash.\<close>

definition path_ok :: "u8 list \<Rightarrow> bool" where
  "path_ok path \<longleftrightarrow> 3 \<le> length (cstr path) \<and> length (cstr path) \<le> 108 \<and> isdigit (path ! 0) \<and>
     path ! 1 = 58 \<and> path ! 2 = 47"

lemma valid_format_eq:
  assumes "0 \<in> set path" and "length (cstr path) \<le> 108"
  shows "pathparser_path_valid_format path = Some (path_ok path)"
proof -
  have l: "length (cstr path) < length path" using length_cstr_less [OF assms(1)] .
  have sn: "strnlen path 108 = Some (int (length (cstr path)))"
  proof (cases "length path \<ge> 108")
    case True
    then show ?thesis using assms(2) by (simp add: strnlen_eq min_def)
  next
    case False
    then show ?thesis using assms by (simp add: strnlen_eq min_def)
  qed
  show ?thesis
  proof (cases "3 \<le> length (cstr path)")
    case True
    then obtain a b c r where p: "path = a # b # c # r"
    proof -
      have "Suc (Suc (Suc 0)) \<le> length path" using True l by linarith
      then show ?thesis using that by (auto simp: Suc_le_length_iff)
    qed
    have "memcmp (drop 1 path) [58, 47, 0] 2 = Some 0 \<longleftrightarrow> b = 58 \<and> c = 47"
      using memcmp_zero_iff [of 2 "drop 1 path" "[58, 47, 0]"] by (simp add: p numeral_2_eq_2)
    moreover obtain m where "memcmp (drop 1 path) [58, 47, 0] 2 = Some m"
      using memcmp_loop_total [of 2 "drop 1 path" "[58, 47, 0]"] by (auto simp: p memcmp_def)
    ultimately show ?thesis
      using True sn assms(2) by (auto simp: pathparser_path_valid_format_def path_ok_def p)
  next
    case False
    then show ?thesis using sn by (simp add: pathparser_path_valid_format_def path_ok_def)
  qed
qed

definition drive_of :: "u8 list \<Rightarrow> int" where
  "drive_of path = tonumericdigit (path ! 0)"

lemma path_ok_drive:
  assumes "path_ok path"
  shows "0 \<le> drive_of path" and "drive_of path \<le> 9"
  using assms by (auto simp: path_ok_def drive_of_def tonumericdigit_def isdigit_def)

lemma drive_by_path_eq:
  assumes "0 \<in> set path" and "length (cstr path) \<le> 108"
  shows "pathparser_get_drive_by_path path =
    Some (if path_ok path then (drive_of path, drop 3 path) else (- EBADPATH, path))"
proof -
  have "path \<noteq> []" using assms(1) by auto
  then show ?thesis
    by (simp add: pathparser_get_drive_by_path_def valid_format_eq [OF assms] drive_of_def)
qed

text \<open>The objects of a parsed path.\<close>

definition path_objs :: "ptr \<Rightarrow> int \<Rightarrow> node list \<Rightarrow> ptr \<Rightarrow> obj option" where
  "path_objs root d ns =
     (chain_objs ns)(root \<mapsto> OPathRoot \<lparr>drive_no = d, first_part = head_of ns\<rparr>)"

lemma cstr_drop: "k \<le> length (cstr p) \<Longrightarrow> cstr (drop k p) = drop k (cstr p)"
proof (induction k arbitrary: p)
  case (Suc k)
  then obtain c r where "p = c # r" by (cases p) auto
  with Suc show ?case by (cases "c = 0") auto
qed simp

lemma path_ok_tail:
  assumes "0 \<in> set path" and "path_ok path"
  shows "0 \<in> set (drop 3 path)" and "length (cstr (drop 3 path)) \<le> 108"
proof -
  have n: "3 \<le> length (cstr path)" "length (cstr path) \<le> 108" using assms(2) by (simp_all add: path_ok_def)
  have "drop (length (cstr path)) path ! 0 = 0" "length (cstr path) < length path"
    using nth_length_cstr [OF assms(1)] length_cstr_less [OF assms(1)] by simp_all
  then have "0 \<in> set (drop (length (cstr path)) path)" by (metis drop_eq_Nil nth_mem length_greater_0_conv not_less)
  then show "0 \<in> set (drop 3 path)" using n(1) set_drop_subset_set_drop [of 3 "length (cstr path)" path] by blast
  have "cstr (drop 3 path) = drop 3 (cstr path)"
    using n(1) by (rule cstr_drop)
  then show "length (cstr (drop 3 path)) \<le> 108" using n(2) by simp
qed

text \<open>The root that \<^verbatim>\<open>pathparser_parse\<close> makes, and the chain of parts that it hangs below it.\<close>

lemma create_root_ok:
  assumes inv: "kmem_inv s" and av: "0 < kavail s"
  obtains root s1 where "pathparser_create_root d s = Some (root, s1)" "root \<noteq> 0" "grown s {root} s1"
    "objs s1 = (objs s)(root \<mapsto> OPathRoot \<lparr>drive_no = d, first_part = 0\<rparr>)"
proof -
  obtain root s0 where r: "alloc_as 8 (OPathRoot \<lparr>drive_no = 0, first_part = 0\<rparr>) s = Some (root, s0)"
    "root \<noteq> 0" "grown s {root} s0" "objs s root = None"
    "objs s0 = (objs s)(root \<mapsto> OPathRoot \<lparr>drive_no = 0, first_part = 0\<rparr>)"
    by (rule grown_alloc [OF inv av, of 8 "OPathRoot \<lparr>drive_no = 0, first_part = 0\<rparr>"]) simp_all
  let ?s1 = "setobj root (OPathRoot \<lparr>drive_no = d, first_part = 0\<rparr>) s0"
  have "pathparser_create_root d s = Some (root, ?s1)"
    using r by (simp add: pathparser_create_root_def deref_def store_eq)
  moreover have "grown s {root} ?s1" using r(3,5) by (intro grown_update) simp_all
  moreover have "objs ?s1 = (objs s)(root \<mapsto> OPathRoot \<lparr>drive_no = d, first_part = 0\<rparr>)" using r(5) by simp
  ultimately show thesis using r(2) that by blast
qed

lemma parse_parts_ok:
  assumes g1: "grown s {root} s1" and o1: "objs s1 = (objs s)(root \<mapsto> OPathRoot \<lparr>drive_no = d, first_part = 0\<rparr>)"
    and av: "2 * length (parts_of p) < kavail s1" and z: "0 \<in> set p" and len: "length (cstr p) \<le> 108"
    and ne: "takeWhile in_part p \<noteq> []"
  obtains n r s2 ns s4 where "pathparser_parse_path_part 0 p s1 = Some (n, r, s2)" "n \<noteq> 0"
    "objs s2 root = Some (OPathRoot \<lparr>drive_no = d, first_part = 0\<rparr>)"
    "pathparser_parse_loop n r (setobj root (OPathRoot \<lparr>drive_no = d, first_part = n\<rparr>) s2) = Some s4"
    "map (\<lambda>(n, q, c). c) ns = parts_of p" "distinct (root # chain_ptrs ns)"
    "grown s (set (root # chain_ptrs ns)) s4" "objs s4 = objs s ++ path_objs root d ns"
proof -
  let ?c = "takeWhile in_part p" and ?r = "skip_sep (dropWhile in_part p)"
  have lc: "length ?c \<le> 108" using len takeWhile_cstr [of p] by linarith
  have inv1: "kmem_inv s1" by (rule grownD(2) [OF g1])
  have ps: "parts_of p = ?c # parts_of ?r" using ne by (simp add: parts_of.simps [of p])
  have "2 \<le> kavail s1" using av ps by simp
  from parse_path_part_ok [OF inv1 this z refl ne lc, of 0 0] obtain n q s2 where
    p: "pathparser_parse_path_part 0 p s1 = Some (n, ?r, s2)" "n \<noteq> 0" "n \<noteq> q" "grown s1 {n, q} s2"
    and o2: "objs s2 = (objs s1)(n \<mapsto> OPathPart \<lparr>part = q, next_part = 0\<rparr>, q \<mapsto> part_buffer ?c)" by auto
  have nr: "n \<noteq> root" "q \<noteq> root" using grown_old [OF p(4), of root] o1 by auto
  let ?s3 = "setobj root (OPathRoot \<lparr>drive_no = d, first_part = n\<rparr>) s2"
  have o2r: "objs s2 root = Some (OPathRoot \<lparr>drive_no = d, first_part = 0\<rparr>)" using o2 o1 nr by simp
  have g3: "grown s1 {n, q} ?s3" using o2r by (intro grown_update [OF p(4)]) simp
  have o3: "objs ?s3 n = Some (OPathPart \<lparr>part = q, next_part = 0\<rparr>)" using o2 nr p(3) by simp
  have "kmem_inv ?s3" "2 * length (parts_of ?r) < kavail ?s3"
    using grownD(2,6) [OF g3] av ps p(3) by auto
  moreover have "0 \<in> set ?r" "length (cstr ?r) \<le> 108"
    using skip_sep_zero [OF z] cstr_skip_sep [of p] len by auto
  ultimately obtain ns s4 where s4: "pathparser_parse_loop n ?r ?s3 = Some s4"
    "map (\<lambda>(n, q, c). c) ns = parts_of ?r" "distinct (chain_ptrs ns)" "grown ?s3 (set (chain_ptrs ns)) s4"
    "objs s4 = (objs ?s3 ++ chain_objs ns)(n \<mapsto> OPathPart \<lparr>part = q, next_part = head_of ns\<rparr>)"
    using parse_loop_ok [OF _ _ _ _ p(2) o3] by blast
  let ?ns = "(n, q, ?c) # ns"
  note g13 = grown_trans(1) [OF g3 s4(4)]
  have g4: "grown s (set (root # chain_ptrs ?ns)) s4" using grown_trans(1) [OF g1 g13] by (simp add: insert_commute)
  have d4: "distinct (root # chain_ptrs ?ns)"
    using s4(3) p(3) nr grown_trans(2) [OF g3 s4(4)] grown_trans(2) [OF g1 g13] by auto
  have os3: "objs ?s3 = (objs s)(root \<mapsto> OPathRoot \<lparr>drive_no = d, first_part = n\<rparr>,
      n \<mapsto> OPathPart \<lparr>part = q, next_part = 0\<rparr>, q \<mapsto> part_buffer ?c)"
    by (simp only: setobj_simps(1) [of root _ s2] o2 o1) (use nr in \<open>auto simp: fun_eq_iff\<close>)
  have "chain_objs ns root = None" "chain_objs ns n = None" "chain_objs ns q = None"
    using d4 by (auto simp: chain_objs_None)
  then have "objs s4 = objs s ++ path_objs root d ?ns"
    unfolding s4(5) os3 path_objs_def using nr p(3)
    by (auto simp: fun_eq_iff map_add_def simp del: setobj_simps split: option.split)
  moreover have "map (\<lambda>(n, q, c). c) ?ns = parts_of p" using s4(2) ps by simp
  ultimately show thesis using that [OF p(1,2) o2r s4(1) _ d4 g4] by blast
qed

lemma parse_ok:
  assumes inv: "kmem_inv s" and z: "0 \<in> set path" and ok: "path_ok path"
    and av: "2 * length (parts_of (drop 3 path)) + 1 < kavail s"
  shows "\<exists>root ns s'. pathparser_parse path s = Some (root, s') \<and> root \<noteq> 0 \<and>
    map (\<lambda>(n, q, c). c) ns = parts_of (drop 3 path) \<and> distinct (root # chain_ptrs ns) \<and>
    grown s (set (root # chain_ptrs ns)) s' \<and> objs s' = objs s ++ path_objs root (drive_of path) ns"
proof -
  let ?p = "drop 3 path" and ?d = "drive_of path"
  let ?c = "takeWhile in_part ?p" and ?r = "skip_sep (dropWhile in_part ?p)"
  have len: "length (cstr path) \<le> 108" using ok by (simp add: path_ok_def)
  note tail = path_ok_tail [OF z ok]
  have drive: "pathparser_get_drive_by_path path = Some (?d, ?p)" "\<not> ?d < 0"
    using drive_by_path_eq [OF z len] ok path_ok_drive(1) [OF ok] by simp_all
  have sl: "strlen path = Some (int (length (cstr path)))" "\<not> int (length (cstr path)) > 108"
    using z len by (simp_all add: strlen_eq)
  have "0 < kavail s" using av by simp
  then obtain root s1 where r: "pathparser_create_root ?d s = Some (root, s1)" "root \<noteq> 0" "grown s {root} s1"
    "objs s1 = (objs s)(root \<mapsto> OPathRoot \<lparr>drive_no = ?d, first_part = 0\<rparr>)"
    by (rule create_root_ok [OF inv])
  have av1: "2 * length (parts_of ?p) < kavail s1" using grownD(6) [OF r(3)] av by simp
  show ?thesis
  proof (cases "?c = []")
    case True
    have lc: "length ?c \<le> 108" using True by simp
    from True have np: "parts_of ?p = []" by (simp add: parts_of.simps [of ?p])
    from get_path_part_ok [OF grownD(2) [OF r(3)] _ tail(1) refl lc] True av1 obtain s2 where
      s2: "pathparser_get_path_part ?p s1 = Some (0, ?r, s2)" "grown s1 {} s2" "objs s2 = objs s1" by auto
    have "pathparser_parse path s = Some (root, s2)"
      using sl drive r(1,2) s2(1) by (simp add: pathparser_parse_def pathparser_parse_path_part_def)
    moreover have "objs s2 = objs s ++ path_objs root ?d []" by (simp add: s2(3) r(4) path_objs_def)
    moreover have "grown s (set (root # chain_ptrs [])) s2" using grown_trans(1) [OF r(3) s2(2)] by simp
    ultimately show ?thesis using np r(2) by (intro exI [of _ root] exI [of _ "[]"] exI [of _ s2]) simp
  next
    case False
    obtain n q s2 ns s4 where p: "pathparser_parse_path_part 0 ?p s1 = Some (n, q, s2)" "n \<noteq> 0"
      "objs s2 root = Some (OPathRoot \<lparr>drive_no = ?d, first_part = 0\<rparr>)"
      "pathparser_parse_loop n q (setobj root (OPathRoot \<lparr>drive_no = ?d, first_part = n\<rparr>) s2) = Some s4"
      and ns: "map (\<lambda>(n, q, c). c) ns = parts_of ?p" "distinct (root # chain_ptrs ns)"
      "grown s (set (root # chain_ptrs ns)) s4" "objs s4 = objs s ++ path_objs root ?d ns"
      by (rule parse_parts_ok [OF r(3,4) av1 tail False])
    obtain p' t' s' where "pathparser_parse_path_part n q (setobj root (OPathRoot \<lparr>drive_no = ?d, first_part = n\<rparr>) s2) = Some (p', t', s')"
      "pathparser_parse_loop p' t' s' = Some s4"
      using p(2,4) by (auto simp: pathparser_parse_loop.simps [of n] split: Option.bind_splits)
    then have "pathparser_parse path s = Some (root, s4)"
      using sl drive r(1,2) p(1-3) by (simp add: pathparser_parse_def deref_def store_eq)
    with ns r(2) show ?thesis by blast
  qed
qed

lemma free_loop_ok:
  assumes "grown s0 P s" and "set (chain_ptrs ns) \<subseteq> P" and "distinct (chain_ptrs ns)"
    and "\<And>p. p \<in> set (chain_ptrs ns) \<Longrightarrow> objs s p = chain_objs ns p"
  shows "\<exists>s'. pathparser_free_loop (head_of ns) s = Some s' \<and> grown s0 (P - set (chain_ptrs ns)) s' \<and>
    objs s' = objs s |` (- set (chain_ptrs ns))"
  using assms
proof (induction ns arbitrary: s P rule: chain_objs.induct)
  case 1
  then show ?case by (simp add: pathparser_free_loop.simps [of 0])
next
  case (2 n q c ns)
  have nq: "n \<noteq> q" "n \<in> P" "q \<in> P" and dn: "n \<notin> set (chain_ptrs ns)" "q \<notin> set (chain_ptrs ns)"
    using 2(3,4) by auto
  have on: "objs s n = Some (OPathPart \<lparr>part = q, next_part = head_of ns\<rparr>)" using 2(5) [of n] nq by simp
  have n0: "n \<noteq> 0" using grown_fresh [OF 2(2) nq(2)] by simp
  obtain s1 where s1: "kfree q s = Some s1" "grown s0 (P - {q}) s1" "objs s1 = (objs s)(q := None)"
    by (rule grown_release [OF 2(2) nq(3)])
  have "n \<in> P - {q}" using nq by simp
  then obtain s2 where s2: "kfree n s1 = Some s2" "grown s0 (P - {q} - {n}) s2" "objs s2 = (objs s1)(n := None)"
    by (rule grown_release [OF s1(2)])
  have "set (chain_ptrs ns) \<subseteq> P - {q} - {n}" "distinct (chain_ptrs ns)" using 2(3,4) dn by auto
  moreover have "objs s2 p = chain_objs ns p" if "p \<in> set (chain_ptrs ns)" for p
  proof -
    have "p \<noteq> n" "p \<noteq> q" using that dn by auto
    then show ?thesis using 2(5) [of p] that s1(3) s2(3) by simp
  qed
  ultimately obtain s3 where s3: "pathparser_free_loop (head_of ns) s2 = Some s3"
    "grown s0 (P - {q} - {n} - set (chain_ptrs ns)) s3" "objs s3 = objs s2 |` (- set (chain_ptrs ns))"
    using 2(1) [OF s2(2)] by blast
  have "P - set (chain_ptrs ((n, q, c) # ns)) = P - {q} - {n} - set (chain_ptrs ns)" by auto
  moreover have "objs s3 = objs s |` (- set (chain_ptrs ((n, q, c) # ns)))"
    unfolding s3(3) s2(3) s1(3) by (auto simp: restrict_map_def fun_eq_iff)
  moreover have "pathparser_free_loop (head_of ((n, q, c) # ns)) s = Some s3"
    using n0 on s1(1) s2(1) s3(1) by (simp add: pathparser_free_loop.simps [of n] deref_def)
  ultimately show ?case using s3(2) by auto
qed

lemma path_free_ok:
  assumes g: "grown s0 (set (root # chain_ptrs ns)) s" and d: "distinct (root # chain_ptrs ns)"
    and o: "objs s = objs s0 ++ path_objs root dr ns"
  shows "\<exists>s'. pathparser_free root s = Some s' \<and> grown s0 {} s' \<and> objs s' = objs s0"
proof -
  have or: "objs s root = Some (OPathRoot \<lparr>drive_no = dr, first_part = head_of ns\<rparr>)"
    by (simp add: o path_objs_def)
  have oc: "objs s p = chain_objs ns p" if "p \<in> set (chain_ptrs ns)" for p
  proof -
    have "p \<noteq> root" "chain_objs ns p \<noteq> None" using that d by (auto simp: chain_objs_None)
    then show ?thesis by (auto simp: o path_objs_def map_add_def)
  qed
  obtain s1 where s1: "pathparser_free_loop (head_of ns) s = Some s1"
    "grown s0 (set (root # chain_ptrs ns) - set (chain_ptrs ns)) s1" "objs s1 = objs s |` (- set (chain_ptrs ns))"
    using free_loop_ok [OF g _ _ oc] d by auto
  have "root \<in> set (root # chain_ptrs ns) - set (chain_ptrs ns)" using d by simp
  then obtain s2 where s2: "kfree root s1 = Some s2"
    "grown s0 (set (root # chain_ptrs ns) - set (chain_ptrs ns) - {root}) s2" "objs s2 = (objs s1)(root := None)"
    by (rule grown_release [OF s1(2)])
  have "objs s2 p = objs s0 p" for p
    using grown_fresh [OF g, of p] chain_objs_None [of ns p]
    by (cases "p = root"; cases "p \<in> set (chain_ptrs ns)")
      (simp_all add: s2(3) s1(3) o path_objs_def map_add_def)
  then have "objs s2 = objs s0" ..
  moreover have "set (root # chain_ptrs ns) - set (chain_ptrs ns) - {root} = {}" by auto
  moreover have "pathparser_free root s = Some s2"
    using or s1(1) s2(1) by (simp add: pathparser_free_def deref_def)
  ultimately show ?thesis using s2(2) by (metis (no_types))
qed

lemma parse_bad:
  assumes "0 \<in> set path" and "\<not> path_ok path"
  shows "pathparser_parse path s = Some (0, s)"
proof (cases "length (cstr path) \<le> 108")
  case True
  then show ?thesis
    using drive_by_path_eq [OF assms(1) True] assms by (simp add: pathparser_parse_def strlen_eq)
next
  case False
  then show ?thesis using assms(1) by (simp add: pathparser_parse_def strlen_eq)
qed

section \<open>Properties\<close>

text \<open>
  C20. \<^verbatim>\<open>pathparser_parse\<close> on a terminated string: a text of at most 108 characters that starts
  with a digit, a colon and a slash gives a root with the digit as drive number and a linked
  list of fresh nodes that spell the components up to the first empty one; anything else gives
  null and allocates nothing.
\<close>

theorem pathparser_parse_spec:
  assumes "kmem_inv s" and "0 \<in> set path"
    and "2 * length (parts_of (drop 3 path)) + 1 < kavail s"
  shows "if path_ok path
    then \<exists>root ns s'. pathparser_parse path s = Some (root, s') \<and> root \<noteq> 0 \<and>
      map (\<lambda>(n, q, c). c) ns = parts_of (drop 3 path) \<and> distinct (root # chain_ptrs ns) \<and>
      objs s' = objs s ++ path_objs root (drive_of path) ns \<and>
      (\<forall>p \<in> set (root # chain_ptrs ns). objs s p = None)
    else pathparser_parse path s = Some (0, s)"
proof (cases "path_ok path")
  case True
  from parse_ok [OF assms(1,2) True assms(3)] obtain root ns s' where
    *: "pathparser_parse path s = Some (root, s')" "root \<noteq> 0"
      "map (\<lambda>(n, q, c). c) ns = parts_of (drop 3 path)" "distinct (root # chain_ptrs ns)"
      "grown s (set (root # chain_ptrs ns)) s'" "objs s' = objs s ++ path_objs root (drive_of path) ns"
    by blast
  moreover have "\<forall>p \<in> set (root # chain_ptrs ns). objs s p = None"
    using grown_fresh [OF *(5)] by blast
  ultimately show ?thesis using True by auto
next
  case False
  then show ?thesis using parse_bad [OF assms(2) False] by simp
qed

text \<open>The path \<open>0:/bin/sh\<close>.\<close>

definition sample_path :: "u8 list" where
  "sample_path = [48, 58, 47, 98, 105, 110, 47, 115, 104, 0]"

lemma sample_path_parts: "parts_of (drop 3 sample_path) = [[98, 105, 110], [115, 104]]"
  by code_simp

lemma sample_path_ok: "path_ok sample_path" "0 \<in> set sample_path" "drive_of sample_path = 0"
  by (simp_all add: sample_path_def path_ok_def isdigit_def drive_of_def tonumericdigit_def cstr_def)

lemma pathparser_parse_spec_witness:
  "\<exists>root ns s'. pathparser_parse sample_path (sample_kmem 8) = Some (root, s') \<and>
     map (\<lambda>(n, q, c). c) ns = [[98, 105, 110], [115, 104]] \<and>
     objs s' root = Some (OPathRoot \<lparr>drive_no = 0, first_part = head_of ns\<rparr>)"
proof -
  have "kmem_inv (sample_kmem 8)" "2 * length (parts_of (drop 3 sample_path)) + 1 < kavail (sample_kmem 8)"
    using sample_kmem_inv [of 8] by (auto simp: sample_path_parts)
  from pathparser_parse_spec [OF this(1) sample_path_ok(2) this(2)] sample_path_ok obtain root ns s' where
    "pathparser_parse sample_path (sample_kmem 8) = Some (root, s')"
    "map (\<lambda>(n, q, c). c) ns = parts_of (drop 3 sample_path)"
    "objs s' = objs (sample_kmem 8) ++ path_objs root 0 ns" by (simp only: if_True) blast
  then show ?thesis
    by (intro exI [of _ root] exI [of _ ns] exI [of _ s']) (simp add: path_objs_def sample_path_parts)
qed

text \<open>
  C21. \<^verbatim>\<open>pathparser_free\<close> undoes \<^verbatim>\<open>pathparser_parse\<close>: the list, its strings and the root go back
  to the heap, no object is left and no other object changes.
\<close>

theorem pathparser_parse_free_roundtrip:
  assumes "kmem_inv s" and "0 \<in> set path" and "path_ok path"
    and "2 * length (parts_of (drop 3 path)) + 1 < kavail s"
  shows "\<exists>root s' s''. pathparser_parse path s = Some (root, s') \<and> pathparser_free root s' = Some s'' \<and>
    kmem_inv s'' \<and> objs s'' = objs s \<and> klive s'' = klive s \<and> kavail s'' = kavail s"
proof -
  from parse_ok [OF assms] obtain root ns s' where
    p: "pathparser_parse path s = Some (root, s')" "distinct (root # chain_ptrs ns)"
      "grown s (set (root # chain_ptrs ns)) s'" "objs s' = objs s ++ path_objs root (drive_of path) ns"
    by blast
  from path_free_ok [OF p(3,2,4)] obtain s'' where
    "pathparser_free root s' = Some s''" "grown s {} s''" "objs s'' = objs s" by blast
  with p(1) grownD [of s "{}" s''] show ?thesis by auto
qed

lemma pathparser_parse_free_roundtrip_witness:
  "\<exists>root s' s''. pathparser_parse sample_path (sample_kmem 6) = Some (root, s') \<and>
     pathparser_free root s' = Some s'' \<and> kavail s'' = 6"
  using pathparser_parse_free_roundtrip [of "sample_kmem 6" sample_path]
    sample_path_ok sample_path_parts sample_kmem_inv [of 6] by auto

end
