(* ===== verification/Vfs.thy ===== *)
theory Vfs
  imports Path_Parser Streamer
begin

text \<open>
  The file layer of \<^verbatim>\<open>src/src/fs/file.c\<close>. A \<^verbatim>\<open>struct filesystem\<close> is a record of functions on
  the state; the operations take the table \<open>fs\<close> of the filesystems by reference, so that a call
  through a null filesystem pointer is \<open>None\<close>.
\<close>

section \<open>State\<close>

record 'd vfsmem = "'d diskmem" +
  filesystems :: "fs_ref list"
  file_descriptors :: "ptr list"

record 's filesystem =
  fs_open :: "disk_ref \<Rightarrow> ptr \<Rightarrow> u32 \<Rightarrow> 's \<Rightarrow> (ptr \<times> 's) option"
  fs_resolve_fn :: "disk_ref \<Rightarrow> 's \<Rightarrow> (int \<times> 's) option"
  fs_read :: "disk_ref \<Rightarrow> ptr \<Rightarrow> u32 \<Rightarrow> u32 \<Rightarrow> u8 list \<Rightarrow> 's \<Rightarrow> (int \<times> u8 list \<times> 's) option"
  fs_seek :: "ptr \<Rightarrow> u32 \<Rightarrow> u32 \<Rightarrow> 's \<Rightarrow> (int \<times> 's) option"
  fs_stat :: "disk_ref \<Rightarrow> ptr \<Rightarrow> file_stat \<Rightarrow> 's \<Rightarrow> (int \<times> file_stat \<times> 's) option"
  fs_close :: "ptr \<Rightarrow> 's \<Rightarrow> (int \<times> 's) option"

type_synonym 's fs_table = "fs_ref \<Rightarrow> 's filesystem"

abbreviation (input) PEACHOS_MAX_FILESYSTEMS :: nat where "PEACHOS_MAX_FILESYSTEMS \<equiv> 12"
abbreviation (input) PEACHOS_MAX_FILE_DESCRIPTORS :: nat where "PEACHOS_MAX_FILE_DESCRIPTORS \<equiv> 512"

abbreviation (input) SEEK_SET :: u32 where "SEEK_SET \<equiv> 0"
abbreviation (input) SEEK_CUR :: u32 where "SEEK_CUR \<equiv> 1"
abbreviation (input) SEEK_END :: u32 where "SEEK_END \<equiv> 2"
abbreviation (input) FILE_MODE_READ :: u32 where "FILE_MODE_READ \<equiv> 0"
abbreviation (input) FILE_MODE_WRITE :: u32 where "FILE_MODE_WRITE \<equiv> 1"
abbreviation (input) FILE_MODE_APPEND :: u32 where "FILE_MODE_APPEND \<equiv> 2"
abbreviation (input) FILE_MODE_INVALID :: u32 where "FILE_MODE_INVALID \<equiv> 3"
abbreviation (input) FILE_STAT_READ_ONLY :: u32 where "FILE_STAT_READ_ONLY \<equiv> 1"

text \<open>\<^verbatim>\<open>ISERR(value)\<close> of \<^verbatim>\<open>kernel.h\<close> on a pointer.\<close>

definition ISERR :: "ptr \<Rightarrow> bool" where
  "ISERR p \<longleftrightarrow> int_of_u32 p < 0"

text \<open>\<^verbatim>\<open>ERROR(value)\<close> of \<^verbatim>\<open>kernel.h\<close>.\<close>

definition ERROR :: "int \<Rightarrow> ptr" where
  "ERROR i = u32_of_int i"

section \<open>Filesystems\<close>

text \<open>The index of the first free slot of an array of pointers.\<close>

fun free_slot :: "'p \<Rightarrow> 'p list \<Rightarrow> nat \<Rightarrow> nat option" where
  "free_slot z [] i = None"
| "free_slot z (p # ps) i = (if p = z then Some i else free_slot z ps (Suc i))"

lemma free_slot_Some:
  "free_slot z xs k = Some i \<Longrightarrow> k \<le> i \<and> i < k + length xs \<and> xs ! (i - k) = z \<and> (\<forall>j < i - k. xs ! j \<noteq> z)"
proof (induction xs arbitrary: k)
  case (Cons x xs)
  show ?case
  proof (cases "x = z")
    case True
    with Cons.prems show ?thesis by simp
  next
    case False
    then have *: "Suc k \<le> i" "i < Suc k + length xs" "xs ! (i - Suc k) = z" "\<forall>j < i - Suc k. xs ! j \<noteq> z"
      using Cons.IH [of "Suc k"] Cons.prems by simp_all
    then have "i - k = Suc (i - Suc k)" by linarith
    with * False show ?thesis by (auto simp: less_Suc_eq_0_disj)
  qed
qed simp

definition fs_get_free_filesystem :: "('d, 'a) vfsmem_scheme \<Rightarrow> nat option" where
  "fs_get_free_filesystem s = free_slot NullFs (take PEACHOS_MAX_FILESYSTEMS (filesystems s)) 0"

definition fs_insert_filesystem :: "fs_ref \<Rightarrow> ('d, 'a) vfsmem_scheme \<Rightarrow> ('d, 'a) vfsmem_scheme option" where
  "fs_insert_filesystem filesystem s =
     (case fs_get_free_filesystem s of
        None \<Rightarrow> None
      | Some i \<Rightarrow> do { l \<leftarrow> aset (filesystems s) i filesystem; Some (s\<lparr>filesystems := l\<rparr>) })"

text \<open>\<^verbatim>\<open>fat16_init\<close> of \<^verbatim>\<open>fat16.c\<close> copies a name that nothing reads and returns \<^verbatim>\<open>&fat16_fs\<close>.\<close>

definition fat16_init :: fs_ref where
  "fat16_init = Fat16Fs"

definition fs_static_load :: "('d, 'a) vfsmem_scheme \<Rightarrow> ('d, 'a) vfsmem_scheme option" where
  "fs_static_load s = fs_insert_filesystem fat16_init s"

definition fs_load :: "('d, 'a) vfsmem_scheme \<Rightarrow> ('d, 'a) vfsmem_scheme option" where
  "fs_load s = fs_static_load (s\<lparr>filesystems := replicate PEACHOS_MAX_FILESYSTEMS NullFs\<rparr>)"

definition fs_init :: "('d, 'a) vfsmem_scheme \<Rightarrow> ('d, 'a) vfsmem_scheme option" where
  "fs_init s = fs_load (s\<lparr>file_descriptors := replicate PEACHOS_MAX_FILE_DESCRIPTORS 0\<rparr>)"

definition fs_call :: "'s fs_table \<Rightarrow> fs_ref \<Rightarrow> 's filesystem option" where
  "fs_call fs f = (if f = NullFs then None else Some (fs f))"

fun fs_resolve_loop ::
  "('d, 'a) vfsmem_scheme fs_table \<Rightarrow> disk_ref \<Rightarrow> nat \<Rightarrow> nat \<Rightarrow> ('d, 'a) vfsmem_scheme \<Rightarrow>
   (fs_ref \<times> ('d, 'a) vfsmem_scheme) option" where
  "fs_resolve_loop fs d i 0 s = Some (NullFs, s)"
| "fs_resolve_loop fs d i (Suc n) s = do {
     f \<leftarrow> aget (filesystems s) i;
     if f \<noteq> NullFs then do {
       o' \<leftarrow> fs_call fs f;
       (res, s) \<leftarrow> fs_resolve_fn o' d s;
       if res = 0 then do { f \<leftarrow> aget (filesystems s) i; Some (f, s) }
       else fs_resolve_loop fs d (Suc i) n s }
     else fs_resolve_loop fs d (Suc i) n s }"

definition fs_resolve ::
  "('d, 'a) vfsmem_scheme fs_table \<Rightarrow> disk_ref \<Rightarrow> ('d, 'a) vfsmem_scheme \<Rightarrow>
   (fs_ref \<times> ('d, 'a) vfsmem_scheme) option" where
  "fs_resolve fs d s = fs_resolve_loop fs d 0 PEACHOS_MAX_FILESYSTEMS s"

text \<open>\<^verbatim>\<open>disk_search_and_init\<close> of \<^verbatim>\<open>disk.c\<close>.\<close>

definition disk_search_and_init ::
  "('d, 'a) vfsmem_scheme fs_table \<Rightarrow> ('d, 'a) vfsmem_scheme \<Rightarrow> ('d, 'a) vfsmem_scheme option" where
  "disk_search_and_init fs s = do {
     s \<leftarrow> Some (s\<lparr>disk := \<lparr>dk_type = PEACHOS_DISK_TYPE_REAL, dk_sector_size = int PEACHOS_SECTOR_SIZE,
                       dk_id = 0, dk_filesystem = NullFs, dk_fs_private = 0\<rparr>\<rparr>);
     (f, s) \<leftarrow> fs_resolve fs TheDisk s;
     Some (s\<lparr>disk := (disk s)\<lparr>dk_filesystem := f\<rparr>\<rparr>) }"

section \<open>Descriptors\<close>

text \<open>
  The result code and the new descriptor. The fields that \<^verbatim>\<open>kmalloc\<close> leaves indeterminate are
  written by \<^verbatim>\<open>fopen\<close> before anything reads them.
\<close>

definition file_new_descriptor ::
  "('d, 'a) vfsmem_scheme \<Rightarrow> (int \<times> ptr \<times> ('d, 'a) vfsmem_scheme) option" where
  "file_new_descriptor s =
     (case free_slot 0 (take PEACHOS_MAX_FILE_DESCRIPTORS (file_descriptors s)) 0 of
        None \<Rightarrow> Some (- ENOMEM, 0, s)
      | Some i \<Rightarrow> do {
          (desc, s) \<leftarrow> kmalloc 16 s;
          s \<leftarrow> store desc (OFileDesc \<lparr>fd_index = int i + 1, fd_filesystem = NullFs, fd_private = 0,
                                   fd_disk = NullDisk\<rparr>) s;
          l \<leftarrow> aset (file_descriptors s) i desc;
          Some (0, desc, s\<lparr>file_descriptors := l\<rparr>) })"

definition file_free_descriptor :: "ptr \<Rightarrow> ('d, 'a) vfsmem_scheme \<Rightarrow> ('d, 'a) vfsmem_scheme option" where
  "file_free_descriptor desc s = do {
     d \<leftarrow> deref as_file_desc desc s;
     l \<leftarrow> aset_i (file_descriptors s) (fd_index d - 1) 0;
     kfree desc (s\<lparr>file_descriptors := l\<rparr>) }"

definition file_get_descriptor :: "int \<Rightarrow> ('d, 'a) vfsmem_scheme \<Rightarrow> ptr option" where
  "file_get_descriptor fd s =
     (if fd < 0 \<or> fd \<ge> int PEACHOS_MAX_FILE_DESCRIPTORS then Some 0
      else aget_i (file_descriptors s) (fd - 1))"

definition file_get_mode_by_string :: "u8 list \<Rightarrow> u32 option" where
  "file_get_mode_by_string str = do {
     r \<leftarrow> strncmp str [114, 0] 1;
     if r = 0 then Some FILE_MODE_READ
     else do {
       w \<leftarrow> strncmp str [119, 0] 1;
       if w = 0 then Some FILE_MODE_WRITE
       else do {
         a \<leftarrow> strncmp str [97, 0] 1;
         Some (if a = 0 then FILE_MODE_APPEND else FILE_MODE_INVALID) } } }"

section \<open>File operations\<close>

definition fstat ::
  "('d, 'a) vfsmem_scheme fs_table \<Rightarrow> int \<Rightarrow> file_stat \<Rightarrow> ('d, 'a) vfsmem_scheme \<Rightarrow>
   (int \<times> file_stat \<times> ('d, 'a) vfsmem_scheme) option" where
  "fstat fs fd stat s = do {
     desc \<leftarrow> file_get_descriptor fd s;
     if desc = 0 then Some (- EIO, stat, s)
     else do {
       d \<leftarrow> deref as_file_desc desc s;
       o' \<leftarrow> fs_call fs (fd_filesystem d);
       fs_stat o' (fd_disk d) (fd_private d) stat s } }"

text \<open>
  The part of \<^verbatim>\<open>fopen\<close> up to the label \<^verbatim>\<open>out\<close>: the result code and the locals that the code
  after the label uses (\<^verbatim>\<open>root_path\<close>, \<^verbatim>\<open>disk\<close>, \<^verbatim>\<open>descriptor_private_data\<close>, \<^verbatim>\<open>desc\<close>).
\<close>

definition fopen_body ::
  "('d, 'a) vfsmem_scheme fs_table \<Rightarrow> u8 list \<Rightarrow> u8 list \<Rightarrow> ('d, 'a) vfsmem_scheme \<Rightarrow>
   (int \<times> ptr \<times> disk_ref \<times> ptr \<times> ptr \<times> ('d, 'a) vfsmem_scheme) option" where
  "fopen_body fs filename mode_str s = do {
     (root_path, s) \<leftarrow> pathparser_parse filename s;
     if root_path = 0 then Some (- EINVAGR, 0, NullDisk, 0, 0, s)
     else do {
       root \<leftarrow> deref as_path_root root_path s;
       if first_part root = 0 then Some (- EINVAGR, root_path, NullDisk, 0, 0, s)
       else let dsk = disk_get (drive_no root) in
         if dsk = NullDisk then Some (- EIO, root_path, dsk, 0, 0, s)
         else if dk_filesystem (disk s) = NullFs then Some (- EIO, root_path, dsk, 0, 0, s)
         else do {
           mode \<leftarrow> file_get_mode_by_string mode_str;
           if mode = FILE_MODE_INVALID then Some (- EINVAGR, root_path, dsk, 0, 0, s)
           else do {
             o' \<leftarrow> fs_call fs (dk_filesystem (disk s));
             (private, s) \<leftarrow> fs_open o' dsk (first_part root) mode s;
             if ISERR private then Some (int_of_u32 private, root_path, dsk, private, 0, s)
             else do {
               (res, desc, s) \<leftarrow> file_new_descriptor s;
               if res < 0 then Some (res, root_path, dsk, private, desc, s)
               else do {
                 d \<leftarrow> deref as_file_desc desc s;
                 d \<leftarrow> Some (d\<lparr>fd_filesystem := dk_filesystem (disk s), fd_private := private, fd_disk := dsk\<rparr>);
                 s \<leftarrow> store desc (OFileDesc d) s;
                 Some (fd_index d, root_path, dsk, private, desc, s) } } } } } }"

definition fopen ::
  "('d, 'a) vfsmem_scheme fs_table \<Rightarrow> u8 list \<Rightarrow> u8 list \<Rightarrow> ('d, 'a) vfsmem_scheme \<Rightarrow>
   (int \<times> ('d, 'a) vfsmem_scheme) option" where
  "fopen fs filename mode_str s = do {
     (res, root_path, dsk, private, desc, s) \<leftarrow> fopen_body fs filename mode_str s;
     if res < 0 then do {
       s \<leftarrow> (if root_path \<noteq> 0 then pathparser_free root_path s else Some s);
       s \<leftarrow> (if dsk \<noteq> NullDisk \<and> private \<noteq> 0
            then do {
              o' \<leftarrow> fs_call fs (dk_filesystem (disk s));
              (r, s) \<leftarrow> fs_close o' private s;
              Some s }
            else Some s);
       s \<leftarrow> (if desc \<noteq> 0 then file_free_descriptor desc s else Some s);
       Some (0, s) }
     else Some (res, s) }"

definition fseek ::
  "('d, 'a) vfsmem_scheme fs_table \<Rightarrow> int \<Rightarrow> int \<Rightarrow> u32 \<Rightarrow> ('d, 'a) vfsmem_scheme \<Rightarrow>
   (int \<times> ('d, 'a) vfsmem_scheme) option" where
  "fseek fs fd offset whence s = do {
     desc \<leftarrow> file_get_descriptor fd s;
     if desc = 0 then Some (- EIO, s)
     else do {
       d \<leftarrow> deref as_file_desc desc s;
       o' \<leftarrow> fs_call fs (fd_filesystem d);
       fs_seek o' (fd_private d) (u32_of_int offset) whence s } }"

definition fclose ::
  "('d, 'a) vfsmem_scheme fs_table \<Rightarrow> int \<Rightarrow> ('d, 'a) vfsmem_scheme \<Rightarrow>
   (int \<times> ('d, 'a) vfsmem_scheme) option" where
  "fclose fs fd s = do {
     desc \<leftarrow> file_get_descriptor fd s;
     if desc = 0 then Some (- EIO, s)
     else do {
       d \<leftarrow> deref as_file_desc desc s;
       o' \<leftarrow> fs_call fs (fd_filesystem d);
       (res, s) \<leftarrow> fs_close o' (fd_private d) s;
       if res = PEACHOS_ALL_OK then do {
         s \<leftarrow> file_free_descriptor desc s;
         Some (res, s) }
       else Some (res, s) } }"

definition fread ::
  "('d, 'a) vfsmem_scheme fs_table \<Rightarrow> u8 list \<Rightarrow> u32 \<Rightarrow> u32 \<Rightarrow> int \<Rightarrow> ('d, 'a) vfsmem_scheme \<Rightarrow>
   (int \<times> u8 list \<times> ('d, 'a) vfsmem_scheme) option" where
  "fread fs ptr sz nmemb fd s =
     (if sz = 0 \<or> nmemb = 0 \<or> fd < 1 then Some (- EINVAGR, ptr, s)
      else do {
        desc \<leftarrow> file_get_descriptor fd s;
        if desc = 0 then Some (- EINVAGR, ptr, s)
        else do {
          d \<leftarrow> deref as_file_desc desc s;
          o' \<leftarrow> fs_call fs (fd_filesystem d);
          fs_read o' (fd_disk d) (fd_private d) sz nmemb ptr s } })"

end
