(* ===== verification/Fat16.thy ===== *)
theory Fat16
  imports Vfs
begin

text \<open>
  The FAT16 driver of \<^verbatim>\<open>src/src/fs/fat16/fat16.c\<close>. The packed structs that are read from the
  disk are byte lists with one accessor per field that the code reads. \<^verbatim>\<open>int\<close> arithmetic on
  sector and cluster numbers stays far below its range and is exact; conversions from unsigned
  values are written out. The loops that follow the disk's contents are partial functions.
\<close>

section \<open>On-disk structures\<close>

text \<open>\<^verbatim>\<open>struct fat_header\<close>: 36 bytes, then \<^verbatim>\<open>struct fat_header_extended\<close>: 26 bytes.\<close>

definition h_sectors_per_cluster :: "u8 list \<Rightarrow> int" where
  "h_sectors_per_cluster h = uint (h ! 13)"

definition h_reserved_sectors :: "u8 list \<Rightarrow> int" where
  "h_reserved_sectors h = uint (le16 h 14)"

definition h_fat_copies :: "u8 list \<Rightarrow> int" where
  "h_fat_copies h = uint (h ! 16)"

definition h_root_dir_entries :: "u8 list \<Rightarrow> int" where
  "h_root_dir_entries h = uint (le16 h 17)"

definition h_sectors_per_fat :: "u8 list \<Rightarrow> int" where
  "h_sectors_per_fat h = uint (le16 h 22)"

definition h_signature :: "u8 list \<Rightarrow> u8" where
  "h_signature h = h ! 38"

text \<open>\<^verbatim>\<open>struct fat_directory_item\<close>: 32 bytes. A pointer to an item is the bytes from it on.\<close>

type_synonym fat_directory_item = "u8 list"

definition it_attribute :: "fat_directory_item \<Rightarrow> u8" where
  "it_attribute item = item ! 11"

definition it_high_cluster :: "fat_directory_item \<Rightarrow> u16" where
  "it_high_cluster item = le16 item 20"

definition it_low_cluster :: "fat_directory_item \<Rightarrow> u16" where
  "it_low_cluster item = le16 item 26"

definition it_filesize :: "fat_directory_item \<Rightarrow> u32" where
  "it_filesize item = le32 item 28"

abbreviation (input) FAT_ITEM_SIZE :: nat where "FAT_ITEM_SIZE \<equiv> 32"
abbreviation (input) FAT_HEADER_SIZE :: nat where "FAT_HEADER_SIZE \<equiv> 62"
abbreviation (input) FAT_ITEM_TYPE_DIRECTORY :: u32 where "FAT_ITEM_TYPE_DIRECTORY \<equiv> 0"
abbreviation (input) FAT_ITEM_TYPE_FILE :: u32 where "FAT_ITEM_TYPE_FILE \<equiv> 1"
abbreviation (input) FAT_FILE_READ_ONLY :: u8 where "FAT_FILE_READ_ONLY \<equiv> 1"
abbreviation (input) FAT_FILE_SUBDIRECTORY :: u8 where "FAT_FILE_SUBDIRECTORY \<equiv> 0x10"
abbreviation (input) PEACHOS_FAT16_FAT_ENTRY_SIZE :: int where "PEACHOS_FAT16_FAT_ENTRY_SIZE \<equiv> 2"
abbreviation (input) PEACHOS_FAT16_BAD_SECTOR :: int where "PEACHOS_FAT16_BAD_SECTOR \<equiv> 0xFF7"

abbreviation (input) zero_directory :: fat_directory where
  "zero_directory \<equiv> \<lparr>fdir_item = 0, fdir_total = 0, sector_pos = 0, ending_sector_pos = 0\<rparr>"

abbreviation (input) zero_private :: fat_private where
  "zero_private \<equiv> \<lparr>fp_header = replicate FAT_HEADER_SIZE 0, root_directory = zero_directory,
     cluster_read_stream = 0, fat_read_stream = 0, directory_stream = 0\<rparr>"

text \<open>\<^verbatim>\<open>*disk\<close> and \<^verbatim>\<open>disk->fs_private\<close>.\<close>

definition get_disk :: "disk_ref \<Rightarrow> ('d, 'a) diskmem_scheme \<Rightarrow> disk_struct option" where
  "get_disk d s = (if d = TheDisk then Some (disk s) else None)"

definition get_private :: "disk_ref \<Rightarrow> ('d, 'a) diskmem_scheme \<Rightarrow> fat_private option" where
  "get_private d s = do { dk \<leftarrow> get_disk d s; deref as_fat_private (dk_fs_private dk) s }"

section \<open>Resolving a disk\<close>

definition fat16_init_private ::
  "ptr \<Rightarrow> disk_ref \<Rightarrow> ('d, 'a) diskmem_scheme \<Rightarrow> ('d, 'a) diskmem_scheme option" where
  "fat16_init_private private d s = do {
     s \<leftarrow> store private (OFatPrivate zero_private) s;
     dk \<leftarrow> get_disk d s;
     (st, s) \<leftarrow> diskstreamer_new (dk_id dk) s;
     p \<leftarrow> deref as_fat_private private s;
     s \<leftarrow> store private (OFatPrivate (p\<lparr>cluster_read_stream := st\<rparr>)) s;
     (st, s) \<leftarrow> diskstreamer_new (dk_id dk) s;
     p \<leftarrow> deref as_fat_private private s;
     s \<leftarrow> store private (OFatPrivate (p\<lparr>fat_read_stream := st\<rparr>)) s;
     (st, s) \<leftarrow> diskstreamer_new (dk_id dk) s;
     p \<leftarrow> deref as_fat_private private s;
     store private (OFatPrivate (p\<lparr>directory_stream := st\<rparr>)) s }"

definition fat16_sector_to_absolute :: "disk_ref \<Rightarrow> int \<Rightarrow> ('d, 'a) diskmem_scheme \<Rightarrow> int option" where
  "fat16_sector_to_absolute d sector s = do { dk \<leftarrow> get_disk d s; Some (sector * dk_sector_size dk) }"

text \<open>The \<^verbatim>\<open>while (1)\<close> loop of \<^verbatim>\<open>fat16_get_total_items_for_directory\<close> with \<open>i\<close> items counted.\<close>

partial_function (option) fat16_count_items ::
  "'d ata \<Rightarrow> ptr \<Rightarrow> int \<Rightarrow> ('d, 'a) diskmem_scheme \<Rightarrow> (int \<times> ('d, 'a) diskmem_scheme) option" where
  "fat16_count_items hw stream i s = do {
     (res, item, s) \<leftarrow> diskstreamer_read hw stream (replicate FAT_ITEM_SIZE 0) (int FAT_ITEM_SIZE) s;
     if res \<noteq> PEACHOS_ALL_OK then Some (- EIO, s)
     else if item ! 0 = 0x00 then Some (i, s)
     else if item ! 0 = 0xE5 then fat16_count_items hw stream i s
     else fat16_count_items hw stream (i + 1) s }"

definition fat16_get_total_items_for_directory ::
  "'d ata \<Rightarrow> disk_ref \<Rightarrow> u32 \<Rightarrow> ('d, 'a) diskmem_scheme \<Rightarrow> (int \<times> ('d, 'a) diskmem_scheme) option" where
  "fat16_get_total_items_for_directory hw d directory_start_sector s = do {
     p \<leftarrow> get_private d s;
     dk \<leftarrow> get_disk d s;
     let directory_start_pos = int_of_u32 (directory_start_sector * u32_of_int (dk_sector_size dk));
     (res, s) \<leftarrow> diskstreamer_seek (directory_stream p) directory_start_pos s;
     if res \<noteq> PEACHOS_ALL_OK then Some (- EIO, s)
     else fat16_count_items hw (directory_stream p) 0 s }"

text \<open>The out parameter is always \<^verbatim>\<open>&fat_private->root_directory\<close>.\<close>

definition fat16_get_root_directory ::
  "'d ata \<Rightarrow> disk_ref \<Rightarrow> ptr \<Rightarrow> ('d, 'a) diskmem_scheme \<Rightarrow> (int \<times> ('d, 'a) diskmem_scheme) option" where
  "fat16_get_root_directory hw d private s = do {
     p \<leftarrow> deref as_fat_private private s;
     dk \<leftarrow> get_disk d s;
     let h = fp_header p;
     let root_dir_sector_pos = h_fat_copies h * h_sectors_per_fat h + h_reserved_sectors h;
     let root_dir_size = h_root_dir_entries h * int FAT_ITEM_SIZE;
     let total_sectors = root_dir_size sdiv dk_sector_size dk +
           (if root_dir_size smod dk_sector_size dk \<noteq> 0 then 1 else 0);
     (total_items, s) \<leftarrow> fat16_get_total_items_for_directory hw d (u32_of_int root_dir_sector_pos) s;
     (dir, s) \<leftarrow> kzalloc (u32_of_int root_dir_size) s;
     if dir = 0 then Some (- ENOMEM, s)
     else do {
       p \<leftarrow> deref as_fat_private private s;
       pos \<leftarrow> fat16_sector_to_absolute d root_dir_sector_pos s;
       (res, s) \<leftarrow> diskstreamer_seek (directory_stream p) pos s;
       if res \<noteq> PEACHOS_ALL_OK then do { s \<leftarrow> kfree dir s; Some (- EIO, s) }
       else do {
         b \<leftarrow> deref as_bytes dir s;
         (res, b, s) \<leftarrow> diskstreamer_read hw (directory_stream p) b root_dir_size s;
         s \<leftarrow> store dir (OBytes b) s;
         if res \<noteq> PEACHOS_ALL_OK then do { s \<leftarrow> kfree dir s; Some (- EIO, s) }
         else do {
           p \<leftarrow> deref as_fat_private private s;
           s \<leftarrow> store private (OFatPrivate (p\<lparr>root_directory :=
                  \<lparr>fdir_item = dir, fdir_total = total_items, sector_pos = root_dir_sector_pos,
                   ending_sector_pos = root_dir_sector_pos + total_sectors\<rparr>\<rparr>)) s;
           Some (0, s) } } } }"

text \<open>
  \<^verbatim>\<open>fat16_resolve\<close> up to its label \<^verbatim>\<open>out\<close>, given the private data and the stream.
\<close>

definition fat16_resolve_body ::
  "'d ata \<Rightarrow> disk_ref \<Rightarrow> ptr \<Rightarrow> ptr \<Rightarrow> ('d, 'a) diskmem_scheme \<Rightarrow> (int \<times> ('d, 'a) diskmem_scheme) option" where
  "fat16_resolve_body hw d private stream s =
     (if stream = 0 then Some (- ENOMEM, s)
      else do {
        p \<leftarrow> deref as_fat_private private s;
        (res, h, s) \<leftarrow> diskstreamer_read hw stream (fp_header p) (int FAT_HEADER_SIZE) s;
        p \<leftarrow> deref as_fat_private private s;
        s \<leftarrow> store private (OFatPrivate (p\<lparr>fp_header := h\<rparr>)) s;
        if res \<noteq> PEACHOS_ALL_OK then Some (- EIO, s)
        else if h_signature h \<noteq> 0x29 then Some (- EFSNOTUS, s)
        else do {
          (res, s) \<leftarrow> fat16_get_root_directory hw d private s;
          Some (if res \<noteq> PEACHOS_ALL_OK then - EIO else 0, s) } })"

definition fat16_resolve ::
  "'d ata \<Rightarrow> disk_ref \<Rightarrow> ('d, 'a) diskmem_scheme \<Rightarrow> (int \<times> ('d, 'a) diskmem_scheme) option" where
  "fat16_resolve hw d s = do {
     (private, s) \<leftarrow> kzalloc_as 92 (OFatPrivate zero_private) s;
     s \<leftarrow> fat16_init_private private d s;
     dk \<leftarrow> get_disk d s;
     s \<leftarrow> Some (s\<lparr>disk := dk\<lparr>dk_fs_private := private, dk_filesystem := Fat16Fs\<rparr>\<rparr>);
     (stream, s) \<leftarrow> diskstreamer_new (dk_id dk) s;
     (res, s) \<leftarrow> fat16_resolve_body hw d private stream s;
     s \<leftarrow> (if stream \<noteq> 0 then diskstreamer_close stream s else Some s);
     if res < 0 then do {
       s \<leftarrow> kfree private s;
       Some (res, s\<lparr>disk := (disk s)\<lparr>dk_fs_private := 0\<rparr>\<rparr>) }
     else Some (res, s) }"

section \<open>File names\<close>

text \<open>The loop of \<^verbatim>\<open>fat16_to_proper_string\<close>: the buffer and the position of \<^verbatim>\<open>*out\<close>.\<close>

fun fat16_proper_loop :: "u8 list \<Rightarrow> nat \<Rightarrow> nat \<Rightarrow> u8 list \<Rightarrow> nat \<Rightarrow> (u8 list \<times> nat) option" where
  "fat16_proper_loop [] sz i buf pos = None"
| "fat16_proper_loop (c # inp) sz i buf pos =
     (if c \<noteq> 0x00 \<and> c \<noteq> 0x20 then do {
        buf \<leftarrow> aset buf pos c;
        if i \<ge> sz - 1 then Some (buf, pos + 1)
        else fat16_proper_loop inp sz (i + 1) buf (pos + 1) }
      else Some (buf, pos))"

definition fat16_to_proper_string :: "u8 list \<Rightarrow> nat \<Rightarrow> u8 list \<Rightarrow> nat \<Rightarrow> (u8 list \<times> nat) option" where
  "fat16_to_proper_string inp sz buf pos = do {
     (buf, pos) \<leftarrow> fat16_proper_loop inp sz 0 buf pos;
     buf \<leftarrow> aset buf pos 0;
     Some (buf, pos) }"

definition fat16_get_full_relative_filename ::
  "fat_directory_item \<Rightarrow> u8 list \<Rightarrow> int \<Rightarrow> u8 list option" where
  "fat16_get_full_relative_filename item out max_len = do {
     out \<leftarrow> memset out 0 (u32_of_int max_len);
     (out, pos) \<leftarrow> fat16_to_proper_string item 8 out 0;
     if item ! 8 \<noteq> 0x00 \<and> item ! 8 \<noteq> 0x20 then do {
       out \<leftarrow> aset out pos 46;
       (out, pos) \<leftarrow> fat16_to_proper_string (drop 8 item) 3 out (pos + 1);
       Some out }
     else Some out }"

section \<open>Clusters\<close>

definition fat16_get_first_cluster :: "fat_directory_item \<Rightarrow> u32" where
  "fat16_get_first_cluster item = push_bit 16 (ucast (it_high_cluster item)) OR ucast (it_low_cluster item)"

definition fat16_cluster_to_sector :: "fat_private \<Rightarrow> int \<Rightarrow> int" where
  "fat16_cluster_to_sector p cluster =
     ending_sector_pos (root_directory p) + (cluster - 2) * h_sectors_per_cluster (fp_header p)"

definition fat16_get_first_fat_sector :: "fat_private \<Rightarrow> u32" where
  "fat16_get_first_fat_sector p = u32_of_int (h_reserved_sectors (fp_header p))"

definition fat16_get_fat_entry ::
  "'d ata \<Rightarrow> disk_ref \<Rightarrow> int \<Rightarrow> ('d, 'a) diskmem_scheme \<Rightarrow> (int \<times> ('d, 'a) diskmem_scheme) option" where
  "fat16_get_fat_entry hw d cluster s = do {
     p \<leftarrow> get_private d s;
     dk \<leftarrow> get_disk d s;
     let stream = fat_read_stream p;
     if stream = 0 then Some (- 1, s)
     else do {
       let fat_table_position = fat16_get_first_fat_sector p * u32_of_int (dk_sector_size dk);
       (res, s) \<leftarrow> diskstreamer_seek stream
         (int_of_u32 (fat_table_position + u32_of_int (cluster * PEACHOS_FAT16_FAT_ENTRY_SIZE))) s;
       if res < 0 then Some (res, s)
       else do {
         (res, result, s) \<leftarrow> diskstreamer_read hw stream [0, 0] 2 s;
         if res < 0 then Some (res, s)
         else Some (uint (le16 result 0), s) } } }"

text \<open>The loop of \<^verbatim>\<open>fat16_get_cluster_for_offset\<close> with \<open>n\<close> clusters to go.\<close>

fun fat16_cluster_walk ::
  "'d ata \<Rightarrow> disk_ref \<Rightarrow> nat \<Rightarrow> int \<Rightarrow> ('d, 'a) diskmem_scheme \<Rightarrow> (int \<times> ('d, 'a) diskmem_scheme) option" where
  "fat16_cluster_walk hw d 0 cluster_to_use s = Some (cluster_to_use, s)"
| "fat16_cluster_walk hw d (Suc n) cluster_to_use s = do {
     (entry, s) \<leftarrow> fat16_get_fat_entry hw d cluster_to_use s;
     if entry = 0xFFF8 \<or> entry = 0xFFFF then Some (- EIO, s)
     else if entry = PEACHOS_FAT16_BAD_SECTOR then Some (- EIO, s)
     else if entry = 0xFF0 \<or> entry = 0xFF6 then Some (- EIO, s)
     else if entry = 0x00 then Some (- EIO, s)
     else fat16_cluster_walk hw d n entry s }"

text \<open>A cluster size of 0 divides by zero.\<close>

definition fat16_get_cluster_for_offset ::
  "'d ata \<Rightarrow> disk_ref \<Rightarrow> int \<Rightarrow> int \<Rightarrow> ('d, 'a) diskmem_scheme \<Rightarrow> (int \<times> ('d, 'a) diskmem_scheme) option" where
  "fat16_get_cluster_for_offset hw d starting_cluster offset s = do {
     p \<leftarrow> get_private d s;
     dk \<leftarrow> get_disk d s;
     let size_of_cluster_bytes = h_sectors_per_cluster (fp_header p) * dk_sector_size dk;
     if size_of_cluster_bytes = 0 then None
     else fat16_cluster_walk hw d (nat (offset sdiv size_of_cluster_bytes)) starting_cluster s }"

partial_function (option) fat16_read_internal_from_stream ::
  "'d ata \<Rightarrow> disk_ref \<Rightarrow> ptr \<Rightarrow> int \<Rightarrow> int \<Rightarrow> int \<Rightarrow> u8 list \<Rightarrow> ('d, 'a) diskmem_scheme \<Rightarrow>
   (int \<times> u8 list \<times> ('d, 'a) diskmem_scheme) option" where
  "fat16_read_internal_from_stream hw d stream cluster offset tot out s = do {
     p \<leftarrow> get_private d s;
     dk \<leftarrow> get_disk d s;
     let size_of_cluster_bytes = h_sectors_per_cluster (fp_header p) * dk_sector_size dk;
     (cluster_to_use, s) \<leftarrow> fat16_get_cluster_for_offset hw d cluster offset s;
     if cluster_to_use < 0 then Some (cluster_to_use, out, s)
     else do {
       let offset_from_cluster = offset smod size_of_cluster_bytes;
       let starting_sector = fat16_cluster_to_sector p cluster_to_use;
       let starting_pos = starting_sector * dk_sector_size dk + offset_from_cluster;
       let total_to_read = (if tot > size_of_cluster_bytes then size_of_cluster_bytes else tot);
       (res, s) \<leftarrow> diskstreamer_seek stream starting_pos s;
       if res \<noteq> PEACHOS_ALL_OK then Some (res, out, s)
       else do {
         (res, out, s) \<leftarrow> diskstreamer_read hw stream out total_to_read s;
         if res \<noteq> PEACHOS_ALL_OK then Some (res, out, s)
         else if tot - total_to_read > 0 then do {
           (res, out', s) \<leftarrow> fat16_read_internal_from_stream hw d stream cluster
              (offset + total_to_read) (tot - total_to_read) (drop (nat total_to_read) out) s;
           Some (res, take (nat total_to_read) out @ out', s) }
         else Some (res, out, s) } } }"

definition fat16_read_internal ::
  "'d ata \<Rightarrow> disk_ref \<Rightarrow> int \<Rightarrow> int \<Rightarrow> int \<Rightarrow> u8 list \<Rightarrow> ('d, 'a) diskmem_scheme \<Rightarrow>
   (int \<times> u8 list \<times> ('d, 'a) diskmem_scheme) option" where
  "fat16_read_internal hw d starting_cluster offset tot out s = do {
     p \<leftarrow> get_private d s;
     fat16_read_internal_from_stream hw d (cluster_read_stream p) starting_cluster offset tot out s }"

end
