(* ===== verification/Fat16_Files.thy ===== *)
theory Fat16_Files
  imports Fat16
begin

text \<open>
  The file operations of \<^verbatim>\<open>src/src/fs/fat16/fat16.c\<close>: directory items, lookup of a path, open,
  close, stat, seek and read, and the table entry \<open>fat16_fs\<close>.
\<close>

section \<open>Items\<close>

text \<open>\<open>sz\<close> is compared as unsigned; \<open>item\<close> is the bytes from the item on.\<close>

definition fat16_clone_directory_item ::
  "fat_directory_item \<Rightarrow> int \<Rightarrow> 'a kmem_scheme \<Rightarrow> (ptr \<times> 'a kmem_scheme) option" where
  "fat16_clone_directory_item item sz s =
     (if u32_of_int sz < of_nat FAT_ITEM_SIZE then Some (0, s)
      else do {
        (item_copy, s) \<leftarrow> kzalloc (u32_of_int sz) s;
        if item_copy = 0 then Some (0, s)
        else do {
          b \<leftarrow> deref as_bytes item_copy s;
          b \<leftarrow> memcpy b item sz;
          s \<leftarrow> store item_copy (OBytes b) s;
          Some (item_copy, s) } })"

definition fat16_free_directory :: "ptr \<Rightarrow> 'a kmem_scheme \<Rightarrow> 'a kmem_scheme option" where
  "fat16_free_directory directory s =
     (if directory = 0 then Some s
      else do {
        dir \<leftarrow> deref as_fat_dir directory s;
        s \<leftarrow> (if fdir_item dir \<noteq> 0 then kfree (fdir_item dir) s else Some s);
        kfree directory s })"

definition fat16_fat_item_free :: "ptr \<Rightarrow> 'a kmem_scheme \<Rightarrow> 'a kmem_scheme option" where
  "fat16_fat_item_free item s = do {
     i \<leftarrow> deref as_fat_item item s;
     s \<leftarrow> (if fi_type i = FAT_ITEM_TYPE_DIRECTORY then fat16_free_directory (fi_ptr i) s
          else if fi_type i = FAT_ITEM_TYPE_FILE then kfree (fi_ptr i) s
          else Some s);
     kfree item s }"

text \<open>
  \<^verbatim>\<open>fat16_load_fat_directory\<close> returns the directory pointer also after it has released the
  directory on an error.
\<close>

definition fat16_load_fat_directory ::
  "'d ata \<Rightarrow> disk_ref \<Rightarrow> fat_directory_item \<Rightarrow> ('d, 'a) diskmem_scheme \<Rightarrow>
   (ptr \<times> ('d, 'a) diskmem_scheme) option" where
  "fat16_load_fat_directory hw d item s =
     (if it_attribute item AND FAT_FILE_SUBDIRECTORY = 0 then Some (0, s)
      else do {
        p \<leftarrow> get_private d s;
        (directory, s) \<leftarrow> kzalloc_as 16 (OFatDir zero_directory) s;
        if directory = 0 then Some (0, s)
        else do {
          let cluster = int_of_u32 (fat16_get_first_cluster item);
          let cluster_sector = fat16_cluster_to_sector p cluster;
          (total_items, s) \<leftarrow> fat16_get_total_items_for_directory hw d (u32_of_int cluster_sector) s;
          dir \<leftarrow> deref as_fat_dir directory s;
          let directory_size = int_of_u32 (u32_of_int total_items * of_nat FAT_ITEM_SIZE);
          (items, s) \<leftarrow> kzalloc (u32_of_int directory_size) s;
          s \<leftarrow> store directory (OFatDir (dir\<lparr>fdir_total := total_items, fdir_item := items\<rparr>)) s;
          if items = 0 then do { s \<leftarrow> fat16_free_directory directory s; Some (directory, s) }
          else do {
            b \<leftarrow> deref as_bytes items s;
            (res, b, s) \<leftarrow> fat16_read_internal hw d cluster 0x00 directory_size b s;
            s \<leftarrow> store items (OBytes b) s;
            if res \<noteq> PEACHOS_ALL_OK then do { s \<leftarrow> fat16_free_directory directory s; Some (directory, s) }
            else Some (directory, s) } } })"

definition fat16_new_fat_item_for_directory_item ::
  "'d ata \<Rightarrow> disk_ref \<Rightarrow> fat_directory_item \<Rightarrow> ('d, 'a) diskmem_scheme \<Rightarrow>
   (ptr \<times> ('d, 'a) diskmem_scheme) option" where
  "fat16_new_fat_item_for_directory_item hw d item s = do {
     (f_item, s) \<leftarrow> kzalloc_as 8 (OFatItem \<lparr>fi_ptr = 0, fi_type = 0\<rparr>) s;
     if f_item = 0 then Some (0, s)
     else if it_attribute item AND FAT_FILE_SUBDIRECTORY \<noteq> 0 then do {
       (directory, s) \<leftarrow> fat16_load_fat_directory hw d item s;
       s \<leftarrow> store f_item (OFatItem \<lparr>fi_ptr = directory, fi_type = FAT_ITEM_TYPE_DIRECTORY\<rparr>) s;
       Some (f_item, s) }
     else do {
       (copy, s) \<leftarrow> fat16_clone_directory_item item (int FAT_ITEM_SIZE) s;
       s \<leftarrow> store f_item (OFatItem \<lparr>fi_ptr = copy, fi_type = FAT_ITEM_TYPE_FILE\<rparr>) s;
       Some (f_item, s) } }"

text \<open>\<^verbatim>\<open>&directory->item[i]\<close>, to be read as one item.\<close>

definition item_at :: "ptr \<Rightarrow> nat \<Rightarrow> 'a kmem_scheme \<Rightarrow> fat_directory_item option" where
  "item_at items i s = do {
     b \<leftarrow> deref as_bytes items s;
     if FAT_ITEM_SIZE * i + FAT_ITEM_SIZE \<le> length b then Some (drop (FAT_ITEM_SIZE * i) b) else None }"

text \<open>The loop does not stop at a match: a later item of the same name replaces the result.\<close>

fun fat16_find_loop ::
  "'d ata \<Rightarrow> disk_ref \<Rightarrow> fat_directory \<Rightarrow> ptr \<Rightarrow> nat \<Rightarrow> nat \<Rightarrow> ptr \<Rightarrow> ('d, 'a) diskmem_scheme \<Rightarrow>
   (ptr \<times> ('d, 'a) diskmem_scheme) option" where
  "fat16_find_loop hw d directory name i 0 f_item s = Some (f_item, s)"
| "fat16_find_loop hw d directory name i (Suc n) f_item s = do {
     item \<leftarrow> item_at (fdir_item directory) i s;
     tmp_filename \<leftarrow> fat16_get_full_relative_filename item (replicate (nat PEACHOS_MAXPATH) 0) PEACHOS_MAXPATH;
     nm \<leftarrow> deref as_bytes name s;
     r \<leftarrow> istrncmp tmp_filename nm PEACHOS_MAXPATH;
     if r = 0 then do {
       (f_item, s) \<leftarrow> fat16_new_fat_item_for_directory_item hw d item s;
       fat16_find_loop hw d directory name (Suc i) n f_item s }
     else fat16_find_loop hw d directory name (Suc i) n f_item s }"

definition fat16_find_item_in_directory ::
  "'d ata \<Rightarrow> disk_ref \<Rightarrow> fat_directory \<Rightarrow> ptr \<Rightarrow> ('d, 'a) diskmem_scheme \<Rightarrow>
   (ptr \<times> ('d, 'a) diskmem_scheme) option" where
  "fat16_find_item_in_directory hw d directory name s =
     fat16_find_loop hw d directory name 0 (nat (fdir_total directory)) 0 s"

section \<open>Paths\<close>

partial_function (option) fat16_walk_path ::
  "'d ata \<Rightarrow> disk_ref \<Rightarrow> ptr \<Rightarrow> ptr \<Rightarrow> ('d, 'a) diskmem_scheme \<Rightarrow> (ptr \<times> ('d, 'a) diskmem_scheme) option" where
  "fat16_walk_path hw d current_item nxt s =
     (if nxt = 0 then Some (current_item, s)
      else do {
        i \<leftarrow> deref as_fat_item current_item s;
        if fi_type i \<noteq> FAT_ITEM_TYPE_DIRECTORY then Some (0, s)
        else do {
          pp \<leftarrow> deref as_path_part nxt s;
          dir \<leftarrow> deref as_fat_dir (fi_ptr i) s;
          (tmp_item, s) \<leftarrow> fat16_find_item_in_directory hw d dir (part pp) s;
          s \<leftarrow> fat16_fat_item_free current_item s;
          fat16_walk_path hw d tmp_item (next_part pp) s } })"

definition fat16_get_directory_entry ::
  "'d ata \<Rightarrow> disk_ref \<Rightarrow> ptr \<Rightarrow> ('d, 'a) diskmem_scheme \<Rightarrow> (ptr \<times> ('d, 'a) diskmem_scheme) option" where
  "fat16_get_directory_entry hw d path s = do {
     p \<leftarrow> get_private d s;
     pp \<leftarrow> deref as_path_part path s;
     (root_item, s) \<leftarrow> fat16_find_item_in_directory hw d (root_directory p) (part pp) s;
     if root_item = 0 then Some (0, s)
     else fat16_walk_path hw d root_item (next_part pp) s }"

section \<open>The driver\<close>

definition fat16_open ::
  "'d ata \<Rightarrow> disk_ref \<Rightarrow> ptr \<Rightarrow> u32 \<Rightarrow> ('d, 'a) diskmem_scheme \<Rightarrow> (ptr \<times> ('d, 'a) diskmem_scheme) option" where
  "fat16_open hw d path mode s =
     (if mode \<noteq> FILE_MODE_READ then Some (ERROR (- ERDONLY), s)
      else do {
        (descriptor, s) \<leftarrow> kzalloc_as 8 (OFatFd \<lparr>ffd_item = 0, ffd_pos = 0\<rparr>) s;
        if descriptor = 0 then Some (ERROR (- ENOMEM), s)
        else do {
          (item, s) \<leftarrow> fat16_get_directory_entry hw d path s;
          f \<leftarrow> deref as_fat_fd descriptor s;
          s \<leftarrow> store descriptor (OFatFd (f\<lparr>ffd_item := item\<rparr>)) s;
          if item = 0 then do { s \<leftarrow> kfree descriptor s; Some (ERROR (- EIO), s) }
          else do {
            f \<leftarrow> deref as_fat_fd descriptor s;
            s \<leftarrow> store descriptor (OFatFd (f\<lparr>ffd_pos := 0\<rparr>)) s;
            Some (descriptor, s) } } })"

definition fat16_free_file_descriptor :: "ptr \<Rightarrow> 'a kmem_scheme \<Rightarrow> 'a kmem_scheme option" where
  "fat16_free_file_descriptor desc s = do {
     f \<leftarrow> deref as_fat_fd desc s;
     s \<leftarrow> fat16_fat_item_free (ffd_item f) s;
     kfree desc s }"

definition fat16_close :: "ptr \<Rightarrow> 'a kmem_scheme \<Rightarrow> (int \<times> 'a kmem_scheme) option" where
  "fat16_close private s = do { s \<leftarrow> fat16_free_file_descriptor private s; Some (0, s) }"

definition fat16_stat ::
  "disk_ref \<Rightarrow> ptr \<Rightarrow> file_stat \<Rightarrow> 'a kmem_scheme \<Rightarrow> (int \<times> file_stat \<times> 'a kmem_scheme) option" where
  "fat16_stat d private stat s = do {
     f \<leftarrow> deref as_fat_fd private s;
     i \<leftarrow> deref as_fat_item (ffd_item f) s;
     if fi_type i \<noteq> FAT_ITEM_TYPE_FILE then Some (- EINVAGR, stat, s)
     else do {
       ritem \<leftarrow> deref as_bytes (fi_ptr i) s;
       Some (0, stat\<lparr>st_filesize := it_filesize ritem,
                     st_flags := (if it_attribute ritem AND FAT_FILE_READ_ONLY \<noteq> 0
                                  then 0x00 OR FILE_STAT_READ_ONLY else 0x00)\<rparr>, s) } }"

definition fat16_seek :: "ptr \<Rightarrow> u32 \<Rightarrow> u32 \<Rightarrow> 'a kmem_scheme \<Rightarrow> (int \<times> 'a kmem_scheme) option" where
  "fat16_seek private offset seek_mode s = do {
     f \<leftarrow> deref as_fat_fd private s;
     i \<leftarrow> deref as_fat_item (ffd_item f) s;
     if fi_type i \<noteq> FAT_ITEM_TYPE_FILE then Some (- EINVAGR, s)
     else do {
       ritem \<leftarrow> deref as_bytes (fi_ptr i) s;
       if offset \<ge> it_filesize ritem then Some (- EIO, s)
       else if seek_mode = SEEK_SET then do {
         s \<leftarrow> store private (OFatFd (f\<lparr>ffd_pos := offset\<rparr>)) s; Some (0, s) }
       else if seek_mode = SEEK_END then Some (- EUNIMP, s)
       else if seek_mode = SEEK_CUR then do {
         s \<leftarrow> store private (OFatFd (f\<lparr>ffd_pos := ffd_pos f + offset\<rparr>)) s; Some (0, s) }
       else Some (- EINVAGR, s) } }"

text \<open>The loop of \<^verbatim>\<open>fat16_read\<close> with \<open>n\<close> members to go.\<close>

fun fat16_read_loop ::
  "'d ata \<Rightarrow> disk_ref \<Rightarrow> u32 \<Rightarrow> nat \<Rightarrow> u32 \<Rightarrow> int \<Rightarrow> int \<Rightarrow> u8 list \<Rightarrow> ('d, 'a) diskmem_scheme \<Rightarrow>
   (int \<times> int \<times> u8 list \<times> ('d, 'a) diskmem_scheme) option" where
  "fat16_read_loop hw d cluster 0 sz res offset out s = Some (res, offset, out, s)"
| "fat16_read_loop hw d cluster (Suc n) sz res offset out s = do {
     (res, out, s) \<leftarrow> fat16_read_internal hw d (int_of_u32 cluster) offset (int_of_u32 sz) out s;
     if res < 0 then Some (res, offset, out, s)
     else do {
       (res, offset, out', s) \<leftarrow> fat16_read_loop hw d cluster n sz res
          (int_of_u32 (u32_of_int offset + sz)) (drop (unat sz) out) s;
       Some (res, offset, take (unat sz) out @ out', s) } }"

definition fat16_read ::
  "'d ata \<Rightarrow> disk_ref \<Rightarrow> ptr \<Rightarrow> u32 \<Rightarrow> u32 \<Rightarrow> u8 list \<Rightarrow> ('d, 'a) diskmem_scheme \<Rightarrow>
   (int \<times> u8 list \<times> ('d, 'a) diskmem_scheme) option" where
  "fat16_read hw d descriptor sz nmemb out_ptr s = do {
     f \<leftarrow> deref as_fat_fd descriptor s;
     i \<leftarrow> deref as_fat_item (ffd_item f) s;
     item \<leftarrow> deref as_bytes (fi_ptr i) s;
     (res, offset, out_ptr, s) \<leftarrow> fat16_read_loop hw d (fat16_get_first_cluster item) (unat nmemb) sz 0
        (int_of_u32 (ffd_pos f)) out_ptr s;
     if res < 0 then Some (res, out_ptr, s)
     else do {
       f \<leftarrow> deref as_fat_fd descriptor s;
       s \<leftarrow> store descriptor (OFatFd (f\<lparr>ffd_pos := u32_of_int offset\<rparr>)) s;
       Some (int_of_u32 nmemb, out_ptr, s) } }"

text \<open>\<^verbatim>\<open>struct filesystem fat16_fs\<close> and the kernel's table of filesystems.\<close>

definition fat16_fs :: "'d ata \<Rightarrow> ('d, 'a) diskmem_scheme filesystem" where
  "fat16_fs hw = \<lparr>
     fs_open = fat16_open hw,
     fs_resolve_fn = fat16_resolve hw,
     fs_read = fat16_read hw,
     fs_seek = fat16_seek,
     fs_stat = fat16_stat,
     fs_close = fat16_close\<rparr>"

end
