(* ===== verification/Task.thy ===== *)
theory Task
  imports Vfs Paging_Props
begin

text \<open>
  The task list of \<^verbatim>\<open>src/src/task/task.c\<close>, \<^verbatim>\<open>kernel_page\<close> of \<^verbatim>\<open>src/src/kernel.c\<close> and the register
  routines of \<^verbatim>\<open>src/src/task/task.asm\<close> and \<^verbatim>\<open>src/src/kernel.asm\<close>. Leaving the kernel with
  \<^verbatim>\<open>task_return\<close> is a result: the registers the processor goes on with. \<^verbatim>\<open>panic\<close> has no result.
\<close>

section \<open>State\<close>

record 'd taskmem = "'d vfsmem" +
  current_task :: ptr
  task_tail :: ptr
  task_head :: ptr
  kernel_chunk :: ptr
  data_segments :: u32

text \<open>The frame the interrupt entry code pushes.\<close>

record interrupt_frame =
  if_edi :: u32
  if_esi :: u32
  if_ebp :: u32
  if_reserved :: u32
  if_ebx :: u32
  if_edx :: u32
  if_ecx :: u32
  if_eax :: u32
  if_ip :: u32
  if_cs :: u32
  if_flags :: u32
  if_esp :: u32
  if_ss :: u32

abbreviation (input) USER_DATA_SEGMENT :: u32 where "USER_DATA_SEGMENT \<equiv> 0x23"
abbreviation (input) USER_CODE_SEGMENT :: u32 where "USER_CODE_SEGMENT \<equiv> 0x1b"
abbreviation (input) PEACHOS_PROGRAM_VIRTUAL_ADDRESS :: u32 where "PEACHOS_PROGRAM_VIRTUAL_ADDRESS \<equiv> 0x400000"
abbreviation (input) PEACHOS_USER_PROGRAM_STACK_SIZE :: u32 where "PEACHOS_USER_PROGRAM_STACK_SIZE \<equiv> 16384"
abbreviation (input) PEACHOS_PROGRAM_VIRTUAL_STACK_ADDRESS_START :: u32 where
  "PEACHOS_PROGRAM_VIRTUAL_STACK_ADDRESS_START \<equiv> 0x3FF000"
abbreviation (input) PEACHOS_PROGRAM_VIRTUAL_STACK_ADDRESS_END :: u32 where
  "PEACHOS_PROGRAM_VIRTUAL_STACK_ADDRESS_END \<equiv> 0x3FF000 - 16384"

abbreviation (input) zero_registers :: registers where
  "zero_registers \<equiv> \<lparr>r_edi = 0, r_esi = 0, r_ebp = 0, r_ebx = 0, r_edx = 0, r_ecx = 0, r_eax = 0,
     r_ip = 0, r_cs = 0, r_flags = 0, r_esp = 0, r_ss = 0\<rparr>"

abbreviation (input) zero_task :: task where
  "zero_task \<equiv> \<lparr>page_directory = 0, task_registers = zero_registers, task_process = 0, task_nxt = 0, task_prv = 0\<rparr>"

section \<open>Processor routines\<close>

definition user_registers :: "('d, 'a) taskmem_scheme \<Rightarrow> ('d, 'a) taskmem_scheme" where
  "user_registers s = s\<lparr>data_segments := 0x23\<rparr>"

definition kernel_registers :: "('d, 'a) taskmem_scheme \<Rightarrow> ('d, 'a) taskmem_scheme" where
  "kernel_registers s = s\<lparr>data_segments := 0x10\<rparr>"

text \<open>\<^verbatim>\<open>task_return\<close>: the registers after \<^verbatim>\<open>iretd\<close>, with the interrupt flag set.\<close>

definition task_return :: "registers \<Rightarrow> ('d, 'a) taskmem_scheme \<Rightarrow> registers \<times> ('d, 'a) taskmem_scheme" where
  "task_return regs s = (regs\<lparr>r_flags := r_flags regs OR 0x200\<rparr>, s\<lparr>data_segments := r_ss regs\<rparr>)"

definition kernel_page :: "('d, 'a) taskmem_scheme \<Rightarrow> ('d, 'a) taskmem_scheme option" where
  "kernel_page s = do { s \<leftarrow> Some (kernel_registers s); paging_switch (kernel_chunk s) s }"

section \<open>Operations\<close>

definition task_current :: "('d, 'a) taskmem_scheme \<Rightarrow> ptr" where
  "task_current s = current_task s"

definition task_init :: "ptr \<Rightarrow> ptr \<Rightarrow> 'a kmem_scheme \<Rightarrow> (int \<times> 'a kmem_scheme) option" where
  "task_init tsk proc s = do {
     s \<leftarrow> store tsk (OTask zero_task) s;
     (dir, s) \<leftarrow> paging_new_4gb (PAGING_IS_PRESENT OR PAGING_ACCESS_FROM_ALL) s;
     t \<leftarrow> deref as_task tsk s;
     s \<leftarrow> store tsk (OTask (t\<lparr>page_directory := dir\<rparr>)) s;
     if dir = 0 then Some (- EIO, s)
     else do {
       t \<leftarrow> deref as_task tsk s;
       p \<leftarrow> deref as_process proc s;
       s \<leftarrow> store tsk (OTask (t\<lparr>task_registers := (task_registers t)
             \<lparr>r_ip := PEACHOS_PROGRAM_VIRTUAL_ADDRESS, r_ss := USER_DATA_SEGMENT,
              r_cs := USER_CODE_SEGMENT, r_esp := PEACHOS_PROGRAM_VIRTUAL_STACK_ADDRESS_START\<rparr>,
              task_process := proc\<rparr>)) s;
       Some (0, s) } }"

definition task_get_next :: "('d, 'a) taskmem_scheme \<Rightarrow> ptr option" where
  "task_get_next s = do {
     t \<leftarrow> deref as_task (current_task s) s;
     Some (if task_nxt t = 0 then task_head s else task_nxt t) }"

definition task_list_remove :: "ptr \<Rightarrow> ('d, 'a) taskmem_scheme \<Rightarrow> ('d, 'a) taskmem_scheme option" where
  "task_list_remove tsk s = do {
     t \<leftarrow> deref as_task tsk s;
     s \<leftarrow> (if task_prv t \<noteq> 0 then do {
            p \<leftarrow> deref as_task (task_prv t) s;
            store (task_prv t) (OTask (p\<lparr>task_nxt := task_nxt t\<rparr>)) s }
          else Some s);
     t \<leftarrow> deref as_task tsk s;
     s \<leftarrow> Some (if tsk = task_head s then s\<lparr>task_head := task_nxt t\<rparr> else s);
     s \<leftarrow> Some (if tsk = task_tail s then s\<lparr>task_tail := task_prv t\<rparr> else s);
     if tsk = current_task s then do {
       n \<leftarrow> task_get_next s;
       Some (s\<lparr>current_task := n\<rparr>) }
     else Some s }"

definition task_free :: "ptr \<Rightarrow> ('d, 'a) taskmem_scheme \<Rightarrow> (int \<times> ('d, 'a) taskmem_scheme) option" where
  "task_free tsk s = do {
     t \<leftarrow> deref as_task tsk s;
     s \<leftarrow> paging_free_4gb (page_directory t) s;
     s \<leftarrow> task_list_remove tsk s;
     s \<leftarrow> kfree tsk s;
     Some (0, s) }"

text \<open>The part of \<^verbatim>\<open>task_new\<close> before the label \<^verbatim>\<open>out\<close>: the result code.\<close>

definition task_new_body ::
  "ptr \<Rightarrow> ptr \<Rightarrow> ('d, 'a) taskmem_scheme \<Rightarrow> (int \<times> ('d, 'a) taskmem_scheme) option" where
  "task_new_body tsk proc s =
     (if tsk = 0 then Some (- ENOMEM, s)
      else do {
        (res, s) \<leftarrow> task_init tsk proc s;
        if res \<noteq> PEACHOS_ALL_OK then Some (res, s)
        else if task_head s = 0 then
          Some (res, s\<lparr>task_head := tsk, task_tail := tsk, current_task := tsk\<rparr>)
        else do {
          l \<leftarrow> deref as_task (task_tail s) s;
          s \<leftarrow> store (task_tail s) (OTask (l\<lparr>task_nxt := tsk\<rparr>)) s;
          t \<leftarrow> deref as_task tsk s;
          s \<leftarrow> store tsk (OTask (t\<lparr>task_prv := task_tail s\<rparr>)) s;
          Some (res, s\<lparr>task_tail := tsk\<rparr>) } })"

definition task_new :: "ptr \<Rightarrow> ('d, 'a) taskmem_scheme \<Rightarrow> (ptr \<times> ('d, 'a) taskmem_scheme) option" where
  "task_new proc s = do {
     (tsk, s) \<leftarrow> kzalloc_as 64 (OTask zero_task) s;
     (res, s) \<leftarrow> task_new_body tsk proc s;
     if res < 0 then do { (r, s) \<leftarrow> task_free tsk s; Some (ERROR res, s) }
     else Some (tsk, s) }"

definition task_switch :: "ptr \<Rightarrow> ('d, 'a) taskmem_scheme \<Rightarrow> (int \<times> ('d, 'a) taskmem_scheme) option" where
  "task_switch tsk s = do {
     s \<leftarrow> Some (s\<lparr>current_task := tsk\<rparr>);
     t \<leftarrow> deref as_task tsk s;
     s \<leftarrow> paging_switch (page_directory t) s;
     Some (0, s) }"

definition task_next :: "('d, 'a) taskmem_scheme \<Rightarrow> (registers \<times> ('d, 'a) taskmem_scheme) option" where
  "task_next s = do {
     next_task \<leftarrow> task_get_next s;
     if next_task = 0 then None
     else do {
       (r, s) \<leftarrow> task_switch next_task s;
       t \<leftarrow> deref as_task next_task s;
       Some (task_return (task_registers t) s) } }"

definition save_registers :: "interrupt_frame \<Rightarrow> registers \<Rightarrow> registers" where
  "save_registers frame r = r\<lparr>r_ip := if_ip frame, r_cs := if_cs frame, r_flags := if_flags frame,
     r_esp := if_esp frame, r_ss := if_ss frame, r_eax := if_eax frame, r_ebp := if_ebp frame,
     r_ebx := if_ebx frame, r_ecx := if_ecx frame, r_edi := if_edi frame, r_edx := if_edx frame,
     r_esi := if_esi frame\<rparr>"

definition task_save_state :: "ptr \<Rightarrow> interrupt_frame \<Rightarrow> 'a kmem_scheme \<Rightarrow> 'a kmem_scheme option" where
  "task_save_state tsk frame s = do {
     t \<leftarrow> deref as_task tsk s;
     store tsk (OTask (t\<lparr>task_registers := save_registers frame (task_registers t)\<rparr>)) s }"

definition task_current_save_state ::
  "interrupt_frame \<Rightarrow> ('d, 'a) taskmem_scheme \<Rightarrow> ('d, 'a) taskmem_scheme option" where
  "task_current_save_state frame s =
     (if task_current s = 0 then None else task_save_state (task_current s) frame s)"

definition task_page :: "('d, 'a) taskmem_scheme \<Rightarrow> (int \<times> ('d, 'a) taskmem_scheme) option" where
  "task_page s = do {
     s \<leftarrow> Some (user_registers s);
     (r, s) \<leftarrow> task_switch (current_task s) s;
     Some (0, s) }"

definition task_run_first_ever_task ::
  "('d, 'a) taskmem_scheme \<Rightarrow> (registers \<times> ('d, 'a) taskmem_scheme) option" where
  "task_run_first_ever_task s =
     (if current_task s = 0 then None
      else do {
        (r, s) \<leftarrow> task_switch (task_head s) s;
        t \<leftarrow> deref as_task (task_head s) s;
        Some (task_return (task_registers t) s) })"

end
