(* ===== verification/Process.thy ===== *)
theory Process
  imports Task
begin

text \<open>
  The process table of \<^verbatim>\<open>src/src/task/process.c\<close>. A \<^verbatim>\<open>struct process**\<close> argument is the value of
  the caller's variable, given and returned. \<^verbatim>\<open>process_load_elf\<close> and \<^verbatim>\<open>process_map_elf\<close> are the
  bodies that are left in the source, whose loading code is commented out, and
  \<^verbatim>\<open>process_free_process\<close> and \<^verbatim>\<open>process_free\<close> likewise.
\<close>

section \<open>State\<close>

record 'd procmem = "'d taskmem" +
  current_process :: ptr
  processes :: "ptr list"

abbreviation (input) PEACHOS_MAX_PROCESSES :: nat where "PEACHOS_MAX_PROCESSES \<equiv> 12"
abbreviation (input) PEACHOS_MAX_PATH :: nat where "PEACHOS_MAX_PATH \<equiv> 108"
abbreviation (input) PROCESS_FILETYPE_ELF :: u8 where "PROCESS_FILETYPE_ELF \<equiv> 0"
abbreviation (input) PROCESS_FILETYPE_BINARY :: u8 where "PROCESS_FILETYPE_BINARY \<equiv> 1"

text \<open>\<^verbatim>\<open>struct process\<close> has 9364 bytes, and all of them are zero after \<^verbatim>\<open>process_init\<close>.\<close>

abbreviation (input) sizeof_process :: u32 where "sizeof_process \<equiv> 9364"

definition zero_process :: process where
  "zero_process = \<lparr>pr_id = 0, pr_filename = replicate PEACHOS_MAX_PATH 0, pr_task = 0,
     pr_filetype = 0, pr_ptr = 0, pr_stack = 0, pr_size = 0\<rparr>"

section \<open>The table\<close>

definition process_init :: "ptr \<Rightarrow> 'a kmem_scheme \<Rightarrow> 'a kmem_scheme option" where
  "process_init proc s = store proc (OProcess zero_process) s"

definition process_current :: "('d, 'a) procmem_scheme \<Rightarrow> ptr" where
  "process_current s = current_process s"

definition process_get :: "int \<Rightarrow> ('d, 'a) procmem_scheme \<Rightarrow> ptr option" where
  "process_get process_id s =
     (if process_id < 0 \<or> process_id \<ge> int PEACHOS_MAX_PROCESSES then Some 0
      else aget_i (processes s) process_id)"

definition process_switch :: "ptr \<Rightarrow> ('d, 'a) procmem_scheme \<Rightarrow> int \<times> ('d, 'a) procmem_scheme" where
  "process_switch proc s = (0, s\<lparr>current_process := proc\<rparr>)"

fun process_switch_to_any_loop ::
  "nat \<Rightarrow> nat \<Rightarrow> ('d, 'a) procmem_scheme \<Rightarrow> ('d, 'a) procmem_scheme option" where
  "process_switch_to_any_loop i 0 s = Some s"
| "process_switch_to_any_loop i (Suc n) s = do {
     p \<leftarrow> aget (processes s) i;
     if p \<noteq> 0 then Some (snd (process_switch p s))
     else process_switch_to_any_loop (Suc i) n s }"

definition process_switch_to_any :: "('d, 'a) procmem_scheme \<Rightarrow> ('d, 'a) procmem_scheme option" where
  "process_switch_to_any s = process_switch_to_any_loop 0 PEACHOS_MAX_PROCESSES s"

definition process_unlink :: "ptr \<Rightarrow> ('d, 'a) procmem_scheme \<Rightarrow> ('d, 'a) procmem_scheme option" where
  "process_unlink proc s = do {
     p \<leftarrow> deref as_process proc s;
     l \<leftarrow> aset (processes s) (unat (pr_id p)) 0;
     s \<leftarrow> Some (s\<lparr>processes := l\<rparr>);
     if current_process s = proc then process_switch_to_any s else Some s }"

definition process_free_process :: "ptr \<Rightarrow> 's \<Rightarrow> int \<times> 's" where
  "process_free_process proc s = (1, s)"

definition process_terminate ::
  "ptr \<Rightarrow> ('d, 'a) procmem_scheme \<Rightarrow> (int \<times> ('d, 'a) procmem_scheme) option" where
  "process_terminate proc s = do {
     s \<leftarrow> process_unlink proc s;
     Some (process_free_process proc s) }"

definition process_free :: "ptr \<Rightarrow> ptr \<Rightarrow> 's \<Rightarrow> 's" where
  "process_free proc p s = s"

section \<open>Loading\<close>

text \<open>
  The part of \<^verbatim>\<open>process_load_binary\<close> before the label \<^verbatim>\<open>out\<close>: the result code and
  \<^verbatim>\<open>program_data_ptr\<close>. What \<^verbatim>\<open>stat\<close> holds before \<^verbatim>\<open>fstat\<close> is not read.
\<close>

definition process_load_binary_body ::
  "('d, 'a) procmem_scheme fs_table \<Rightarrow> int \<Rightarrow> ptr \<Rightarrow> ('d, 'a) procmem_scheme \<Rightarrow>
   (int \<times> ptr \<times> ('d, 'a) procmem_scheme) option" where
  "process_load_binary_body fs fd proc s =
     (if fd = 0 then Some (- EIO, 0, s)
      else do {
        (res, stat, s) \<leftarrow> fstat fs fd \<lparr>st_flags = 0, st_filesize = 0\<rparr> s;
        if res \<noteq> PEACHOS_ALL_OK then Some (res, 0, s)
        else do {
          (program_data_ptr, s) \<leftarrow> kzalloc (st_filesize stat) s;
          if program_data_ptr = 0 then Some (- ENOMEM, 0, s)
          else do {
            buf \<leftarrow> deref as_bytes program_data_ptr s;
            (r, buf, s) \<leftarrow> fread fs buf (st_filesize stat) 1 fd s;
            s \<leftarrow> store program_data_ptr (OBytes buf) s;
            if r \<noteq> 1 then Some (- EIO, program_data_ptr, s)
            else do {
              p \<leftarrow> deref as_process proc s;
              s \<leftarrow> store proc (OProcess (p\<lparr>pr_filetype := PROCESS_FILETYPE_BINARY,
                     pr_ptr := program_data_ptr, pr_size := st_filesize stat\<rparr>)) s;
              Some (res, program_data_ptr, s) } } } })"

definition process_load_binary ::
  "('d, 'a) procmem_scheme fs_table \<Rightarrow> u8 list \<Rightarrow> ptr \<Rightarrow> ('d, 'a) procmem_scheme \<Rightarrow>
   (int \<times> ('d, 'a) procmem_scheme) option" where
  "process_load_binary fs filename proc s = do {
     (fd, s) \<leftarrow> fopen fs filename [114, 0] s;
     (res, program_data_ptr, s) \<leftarrow> process_load_binary_body fs fd proc s;
     s \<leftarrow> (if res < 0 \<and> program_data_ptr \<noteq> 0 then kfree program_data_ptr s else Some s);
     (r, s) \<leftarrow> fclose fs fd s;
     Some (res, s) }"

definition process_load_elf :: "u8 list \<Rightarrow> ptr \<Rightarrow> 's \<Rightarrow> int \<times> 's" where
  "process_load_elf filename proc s = (0, s)"

definition process_load_data ::
  "('d, 'a) procmem_scheme fs_table \<Rightarrow> u8 list \<Rightarrow> ptr \<Rightarrow> ('d, 'a) procmem_scheme \<Rightarrow>
   (int \<times> ('d, 'a) procmem_scheme) option" where
  "process_load_data fs filename proc s =
     (case process_load_elf filename proc s of (res, s) \<Rightarrow>
        if res = - EINFORMAT then process_load_binary fs filename proc s else Some (res, s))"

definition process_map_binary :: "ptr \<Rightarrow> 'a kmem_scheme \<Rightarrow> (int \<times> 'a kmem_scheme) option" where
  "process_map_binary proc s = do {
     p \<leftarrow> deref as_process proc s;
     t \<leftarrow> deref as_task (pr_task p) s;
     (r, s) \<leftarrow> paging_map_to (page_directory t) PEACHOS_PROGRAM_VIRTUAL_ADDRESS (pr_ptr p)
        (paging_align_address (pr_ptr p + pr_size p))
        (uint (PAGING_IS_PRESENT OR PAGING_ACCESS_FROM_ALL OR PAGING_IS_WRITEABLE)) s;
     Some (0, s) }"

definition process_map_elf :: "ptr \<Rightarrow> 's \<Rightarrow> int \<times> 's" where
  "process_map_elf proc s = (0, s)"

definition process_map_memory :: "ptr \<Rightarrow> 'a kmem_scheme \<Rightarrow> (int \<times> 'a kmem_scheme) option" where
  "process_map_memory proc s = do {
     p \<leftarrow> deref as_process proc s;
     (res, s) \<leftarrow>
       (if pr_filetype p = PROCESS_FILETYPE_ELF then Some (process_map_elf proc s)
        else if pr_filetype p = PROCESS_FILETYPE_BINARY then process_map_binary proc s
        else None);
     if res < 0 then Some (res, s)
     else do {
       p \<leftarrow> deref as_process proc s;
       t \<leftarrow> deref as_task (pr_task p) s;
       (r, s) \<leftarrow> paging_map_to (page_directory t) PEACHOS_PROGRAM_VIRTUAL_STACK_ADDRESS_END (pr_stack p)
          (paging_align_address (pr_stack p + PEACHOS_USER_PROGRAM_STACK_SIZE))
          (uint (PAGING_IS_PRESENT OR PAGING_ACCESS_FROM_ALL OR PAGING_IS_WRITEABLE)) s;
       Some (res, s) } }"

definition process_get_free_slot :: "('d, 'a) procmem_scheme \<Rightarrow> int" where
  "process_get_free_slot s =
     (case free_slot 0 (take PEACHOS_MAX_PROCESSES (processes s)) 0 of
        Some i \<Rightarrow> int i | None \<Rightarrow> - EISTKN)"

text \<open>
  The part of \<^verbatim>\<open>process_load_for_slot\<close> after the first allocation and before the label \<^verbatim>\<open>out\<close>:
  the result code and \<^verbatim>\<open>*process\<close>.
\<close>

definition process_load_body ::
  "('d, 'a) procmem_scheme fs_table \<Rightarrow> u8 list \<Rightarrow> ptr \<Rightarrow> int \<Rightarrow> ptr \<Rightarrow> ('d, 'a) procmem_scheme \<Rightarrow>
   (int \<times> ptr \<times> ('d, 'a) procmem_scheme) option" where
  "process_load_body fs filename out process_slot proc s = do {
     s \<leftarrow> process_init proc s;
     (res, s) \<leftarrow> process_load_data fs filename proc s;
     if res < 0 then Some (res, out, s)
     else do {
       (stack, s) \<leftarrow> kzalloc PEACHOS_USER_PROGRAM_STACK_SIZE s;
       p \<leftarrow> deref as_process proc s;
       s \<leftarrow> store proc (OProcess (p\<lparr>pr_stack := stack\<rparr>)) s;
       if stack = 0 then Some (- ENOMEM, out, s)
       else do {
         p \<leftarrow> deref as_process proc s;
         name \<leftarrow> strncpy (pr_filename p) filename (int PEACHOS_MAX_PATH);
         s \<leftarrow> store proc (OProcess (p\<lparr>pr_filename := name, pr_id := word_of_int process_slot\<rparr>)) s;
         (tsk, s) \<leftarrow> task_new proc s;
         p \<leftarrow> deref as_process proc s;
         s \<leftarrow> store proc (OProcess (p\<lparr>pr_task := tsk\<rparr>)) s;
         if int_of_u32 tsk = 0 then do {
           p \<leftarrow> deref as_process proc s;
           s \<leftarrow> store proc (OProcess (p\<lparr>pr_task := 0\<rparr>)) s;
           Some (int_of_u32 tsk, out, s) }
         else do {
           (res, s) \<leftarrow> process_map_memory proc s;
           if res < 0 then Some (res, out, s)
           else do {
             l \<leftarrow> aset_i (processes s) process_slot proc;
             Some (res, proc, s\<lparr>processes := l\<rparr>) } } } } }"

text \<open>
  When the slot is taken, the code after \<^verbatim>\<open>out\<close> reads the uninitialised \<^verbatim>\<open>_process\<close>.
\<close>

definition process_load_for_slot ::
  "('d, 'a) procmem_scheme fs_table \<Rightarrow> u8 list \<Rightarrow> ptr \<Rightarrow> int \<Rightarrow> ('d, 'a) procmem_scheme \<Rightarrow>
   (int \<times> ptr \<times> ('d, 'a) procmem_scheme) option" where
  "process_load_for_slot fs filename out process_slot s = do {
     q \<leftarrow> process_get process_slot s;
     if q \<noteq> 0 then None
     else do {
       (proc, s) \<leftarrow> kzalloc sizeof_process s;
       if proc = 0 then Some (- ENOMEM, out, s)
       else do {
         (res, out, s) \<leftarrow> process_load_body fs filename out process_slot proc s;
         if res < 0 then Some (res, 0, snd (process_free_process proc s))
         else Some (res, out, s) } } }"

definition process_load ::
  "('d, 'a) procmem_scheme fs_table \<Rightarrow> u8 list \<Rightarrow> ptr \<Rightarrow> ('d, 'a) procmem_scheme \<Rightarrow>
   (int \<times> ptr \<times> ('d, 'a) procmem_scheme) option" where
  "process_load fs filename out s =
     (if process_get_free_slot s < 0 then Some (- EISTKN, out, s)
      else process_load_for_slot fs filename out (process_get_free_slot s) s)"

end
