(* ===== verification/Elf.thy ===== *)
theory Elf
  imports Vfs Task
begin

text \<open>
  The ELF loader of \<^verbatim>\<open>src/src/loader/formats/elf.c\<close> and \<^verbatim>\<open>elfloader.c\<close>. The loaded file is a byte
  object; a \<^verbatim>\<open>struct elf_header*\<close> is its address, and the pointers that the code computes from it
  are addresses into it. A struct behind such an address is a record decoded from its packed
  bytes; reading it outside the file is \<open>None\<close>.
\<close>

section \<open>Structures\<close>

abbreviation (input) EI_NIDENT :: nat where "EI_NIDENT \<equiv> 16"
abbreviation (input) EI_CLASS :: nat where "EI_CLASS \<equiv> 4"
abbreviation (input) EI_DATA :: nat where "EI_DATA \<equiv> 5"
abbreviation (input) ELFCLASSNONE :: u8 where "ELFCLASSNONE \<equiv> 0"
abbreviation (input) ELFCLASS32 :: u8 where "ELFCLASS32 \<equiv> 1"
abbreviation (input) ELFDATANONE :: u8 where "ELFDATANONE \<equiv> 0"
abbreviation (input) ELFDATA2LSB :: u8 where "ELFDATA2LSB \<equiv> 1"
abbreviation (input) ET_EXEC :: u16 where "ET_EXEC \<equiv> 2"
abbreviation (input) PT_LOAD :: u32 where "PT_LOAD \<equiv> 1"

record elf32_phdr =
  p_type :: u32
  p_offset :: u32
  p_vaddr :: u32
  p_paddr :: u32
  p_filesz :: u32
  p_memsz :: u32
  p_flags :: u32
  p_align :: u32

record elf32_shdr =
  sh_name :: u32
  sh_type :: u32
  sh_flags :: u32
  sh_addr :: u32
  sh_offset :: u32
  sh_size :: u32
  sh_link :: u32
  sh_info :: u32
  sh_addralign :: u32
  sh_entsize :: u32

record elf_header =
  e_ident :: "u8 list"
  e_type :: u16
  e_machine :: u16
  e_version :: u32
  e_entry :: u32
  e_phoff :: u32
  e_shoff :: u32
  e_flags :: u32
  e_ehsize :: u16
  e_phentsize :: u16
  e_phnum :: u16
  e_shentsize :: u16
  e_shnum :: u16
  e_shstrndx :: u16

definition decode_phdr :: "u8 list \<Rightarrow> elf32_phdr" where
  "decode_phdr b = \<lparr>p_type = le32 b 0, p_offset = le32 b 4, p_vaddr = le32 b 8, p_paddr = le32 b 12,
     p_filesz = le32 b 16, p_memsz = le32 b 20, p_flags = le32 b 24, p_align = le32 b 28\<rparr>"

definition decode_shdr :: "u8 list \<Rightarrow> elf32_shdr" where
  "decode_shdr b = \<lparr>sh_name = le32 b 0, sh_type = le32 b 4, sh_flags = le32 b 8, sh_addr = le32 b 12,
     sh_offset = le32 b 16, sh_size = le32 b 20, sh_link = le32 b 24, sh_info = le32 b 28,
     sh_addralign = le32 b 32, sh_entsize = le32 b 36\<rparr>"

definition decode_header :: "u8 list \<Rightarrow> elf_header" where
  "decode_header b = \<lparr>e_ident = take EI_NIDENT b, e_type = le16 b 16, e_machine = le16 b 18,
     e_version = le32 b 20, e_entry = le32 b 24, e_phoff = le32 b 28, e_shoff = le32 b 32,
     e_flags = le32 b 36, e_ehsize = le16 b 40, e_phentsize = le16 b 42, e_phnum = le16 b 44,
     e_shentsize = le16 b 46, e_shnum = le16 b 48, e_shstrndx = le16 b 50\<rparr>"

abbreviation (input) sizeof_phdr :: nat where "sizeof_phdr \<equiv> 32"
abbreviation (input) sizeof_shdr :: nat where "sizeof_shdr \<equiv> 40"

text \<open>The \<open>n\<close> bytes at address \<open>a\<close> of the byte object at \<open>base\<close>.\<close>

definition bytes_at :: "ptr \<Rightarrow> ptr \<Rightarrow> nat \<Rightarrow> 'a kmem_scheme \<Rightarrow> u8 list option" where
  "bytes_at base a n s = do {
     b \<leftarrow> deref as_bytes base s;
     if unat (a - base) + n \<le> length b then Some (take n (drop (unat (a - base)) b)) else None }"

text \<open>\<^verbatim>\<open>header->f\<close>, for a field \<open>f\<close> that ends at byte \<open>n\<close> of the header.\<close>

definition get_field :: "ptr \<Rightarrow> (elf_header \<Rightarrow> 'v) \<Rightarrow> nat \<Rightarrow> 'a kmem_scheme \<Rightarrow> 'v option" where
  "get_field header f n s = map_option (f \<circ> decode_header) (bytes_at header header n s)"

section \<open>Accessors\<close>

definition elf_get_entry_ptr :: "ptr \<Rightarrow> 'a kmem_scheme \<Rightarrow> ptr option" where
  "elf_get_entry_ptr header s = get_field header e_entry 28 s"

definition elf_get_entry :: "ptr \<Rightarrow> 'a kmem_scheme \<Rightarrow> u32 option" where
  "elf_get_entry header s = get_field header e_entry 28 s"

definition elf_memory :: "ptr \<Rightarrow> 'a kmem_scheme \<Rightarrow> ptr option" where
  "elf_memory file s = map_option elf_mem (deref as_elf_file file s)"

text \<open>\<^verbatim>\<open>elf_header(file)\<close>; the name is taken by the record.\<close>

definition elf_header_of :: "ptr \<Rightarrow> 'a kmem_scheme \<Rightarrow> ptr option" where
  "elf_header_of file s = map_option elf_mem (deref as_elf_file file s)"

definition elf_sheader :: "ptr \<Rightarrow> 'a kmem_scheme \<Rightarrow> ptr option" where
  "elf_sheader header s = do { off \<leftarrow> get_field header e_shoff 36 s; Some (header + off) }"

definition elf_pheader :: "ptr \<Rightarrow> 'a kmem_scheme \<Rightarrow> ptr option" where
  "elf_pheader header s = do {
     off \<leftarrow> get_field header e_phoff 32 s;
     if off = 0 then Some 0 else Some (header + off) }"

definition elf_program_header :: "ptr \<Rightarrow> int \<Rightarrow> 'a kmem_scheme \<Rightarrow> ptr option" where
  "elf_program_header header index s = do {
     p \<leftarrow> elf_pheader header s;
     Some (p + u32_of_int (index * int sizeof_phdr)) }"

definition elf_section :: "ptr \<Rightarrow> int \<Rightarrow> 'a kmem_scheme \<Rightarrow> ptr option" where
  "elf_section header index s = do {
     p \<leftarrow> elf_sheader header s;
     Some (p + u32_of_int (index * int sizeof_shdr)) }"

definition elf_phdr_phys_address :: "ptr \<Rightarrow> elf32_phdr \<Rightarrow> 'a kmem_scheme \<Rightarrow> ptr option" where
  "elf_phdr_phys_address file phdr s = do { m \<leftarrow> elf_memory file s; Some (m + p_offset phdr) }"

definition elf_str_table :: "ptr \<Rightarrow> 'a kmem_scheme \<Rightarrow> ptr option" where
  "elf_str_table header s = do {
     i \<leftarrow> get_field header e_shstrndx 52 s;
     a \<leftarrow> elf_section header (uint i) s;
     b \<leftarrow> bytes_at header a sizeof_shdr s;
     Some (header + sh_offset (decode_shdr b)) }"

definition elf_virtual_base :: "ptr \<Rightarrow> 'a kmem_scheme \<Rightarrow> ptr option" where
  "elf_virtual_base file s = map_option virtual_base_address (deref as_elf_file file s)"

definition elf_virtual_end :: "ptr \<Rightarrow> 'a kmem_scheme \<Rightarrow> ptr option" where
  "elf_virtual_end file s = map_option virtual_end_address (deref as_elf_file file s)"

definition elf_phys_base :: "ptr \<Rightarrow> 'a kmem_scheme \<Rightarrow> ptr option" where
  "elf_phys_base file s = map_option physical_base_address (deref as_elf_file file s)"

definition elf_phys_end :: "ptr \<Rightarrow> 'a kmem_scheme \<Rightarrow> ptr option" where
  "elf_phys_end file s = map_option physical_end_address (deref as_elf_file file s)"

section \<open>Validation\<close>

definition elf_signature :: "u8 list" where
  "elf_signature = [0x7f, 69, 76, 70]"

definition elf_valid_signature :: "ptr \<Rightarrow> 'a kmem_scheme \<Rightarrow> bool option" where
  "elf_valid_signature buffer s = do {
     b \<leftarrow> deref as_bytes buffer s;
     r \<leftarrow> memcmp b elf_signature (int (length elf_signature));
     Some (r = 0) }"

text \<open>\<^verbatim>\<open>header->e_ident[i]\<close>.\<close>

definition e_ident_at :: "ptr \<Rightarrow> nat \<Rightarrow> 'a kmem_scheme \<Rightarrow> u8 option" where
  "e_ident_at header i s = do { b \<leftarrow> deref as_bytes header s; aget (take EI_NIDENT b) i }"

definition elf_valid_class :: "ptr \<Rightarrow> 'a kmem_scheme \<Rightarrow> bool option" where
  "elf_valid_class header s = do {
     c \<leftarrow> e_ident_at header EI_CLASS s;
     Some (c = ELFCLASSNONE \<or> c = ELFCLASS32) }"

definition elf_valid_encoding :: "ptr \<Rightarrow> 'a kmem_scheme \<Rightarrow> bool option" where
  "elf_valid_encoding header s = do {
     c \<leftarrow> e_ident_at header EI_DATA s;
     Some (c = ELFDATANONE \<or> c = ELFDATA2LSB) }"

text \<open>\<^verbatim>\<open>&&\<close> on conditions that may be undefined: the second is evaluated only after a true first.\<close>

definition and_then :: "bool option \<Rightarrow> bool option \<Rightarrow> bool option" where
  "and_then a b = do { x \<leftarrow> a; if x then b else Some False }"

definition elf_is_executable :: "ptr \<Rightarrow> 'a kmem_scheme \<Rightarrow> bool option" where
  "elf_is_executable header s =
     and_then (map_option (\<lambda>t. t = ET_EXEC) (get_field header e_type 18 s))
       (map_option (\<lambda>e. e \<ge> PEACHOS_PROGRAM_VIRTUAL_ADDRESS) (get_field header e_entry 28 s))"

definition elf_has_program_header :: "ptr \<Rightarrow> 'a kmem_scheme \<Rightarrow> bool option" where
  "elf_has_program_header header s = map_option (\<lambda>off. off \<noteq> 0) (get_field header e_phoff 32 s)"

definition elf_validate_loaded :: "ptr \<Rightarrow> 'a kmem_scheme \<Rightarrow> int option" where
  "elf_validate_loaded header s = do {
     ok \<leftarrow> and_then (elf_valid_signature header s)
            (and_then (elf_valid_class header s)
              (and_then (elf_valid_encoding header s)
                (and_then (elf_has_program_header header s) (elf_is_executable header s))));
     Some (if ok then PEACHOS_ALL_OK else - EINFORMAT) }"

section \<open>Program headers\<close>

text \<open>The two updates of \<^verbatim>\<open>elf_process_phdr_pt_load\<close>: the base, and the end.\<close>

definition pt_load_base :: "elf32_phdr \<Rightarrow> elf_file \<Rightarrow> elf_file" where
  "pt_load_base phdr f =
     (if virtual_base_address f \<ge> p_vaddr phdr \<or> virtual_base_address f = 0
      then f\<lparr>virtual_base_address := p_vaddr phdr, physical_base_address := elf_mem f + p_offset phdr\<rparr>
      else f)"

definition pt_load_end :: "elf32_phdr \<Rightarrow> elf_file \<Rightarrow> elf_file" where
  "pt_load_end phdr f =
     (let end_virtual_address = p_vaddr phdr + p_filesz phdr in
      if virtual_end_address f \<le> end_virtual_address \<or> virtual_end_address f = 0
      then f\<lparr>virtual_end_address := end_virtual_address,
             physical_end_address := elf_mem f + p_offset phdr + p_filesz phdr\<rparr>
      else f)"

definition elf_process_phdr_pt_load ::
  "ptr \<Rightarrow> elf32_phdr \<Rightarrow> 'a kmem_scheme \<Rightarrow> (int \<times> 'a kmem_scheme) option" where
  "elf_process_phdr_pt_load file phdr s = do {
     f \<leftarrow> deref as_elf_file file s;
     s \<leftarrow> store file (OElfFile (pt_load_end phdr (pt_load_base phdr f))) s;
     Some (0, s) }"

definition elf_process_pheader ::
  "ptr \<Rightarrow> elf32_phdr \<Rightarrow> 'a kmem_scheme \<Rightarrow> (int \<times> 'a kmem_scheme) option" where
  "elf_process_pheader file phdr s =
     (if p_type phdr = PT_LOAD then elf_process_phdr_pt_load file phdr s else Some (0, s))"

text \<open>The loop of \<^verbatim>\<open>elf_process_pheaders\<close> with \<open>n\<close> headers to go.\<close>

fun elf_pheaders_loop ::
  "ptr \<Rightarrow> ptr \<Rightarrow> nat \<Rightarrow> nat \<Rightarrow> int \<Rightarrow> 'a kmem_scheme \<Rightarrow> (int \<times> 'a kmem_scheme) option" where
  "elf_pheaders_loop file header i 0 res s = Some (res, s)"
| "elf_pheaders_loop file header i (Suc n) res s = do {
     a \<leftarrow> elf_program_header header (int i) s;
     b \<leftarrow> bytes_at header a sizeof_phdr s;
     (res, s) \<leftarrow> elf_process_pheader file (decode_phdr b) s;
     if res < 0 then Some (res, s) else elf_pheaders_loop file header (Suc i) n res s }"

definition elf_process_pheaders :: "ptr \<Rightarrow> 'a kmem_scheme \<Rightarrow> (int \<times> 'a kmem_scheme) option" where
  "elf_process_pheaders file s = do {
     header \<leftarrow> elf_header_of file s;
     n \<leftarrow> get_field header e_phnum 46 s;
     elf_pheaders_loop file header 0 (unat n) 0 s }"

definition elf_process_loaded :: "ptr \<Rightarrow> 'a kmem_scheme \<Rightarrow> (int \<times> 'a kmem_scheme) option" where
  "elf_process_loaded file s = do {
     header \<leftarrow> elf_header_of file s;
     res \<leftarrow> elf_validate_loaded header s;
     if res < 0 then Some (res, s) else elf_process_pheaders file s }"

section \<open>Loading and closing\<close>

abbreviation (input) zero_elf_file :: elf_file where
  "zero_elf_file \<equiv> \<lparr>elf_mem = 0, virtual_base_address = 0, virtual_end_address = 0,
     physical_base_address = 0, physical_end_address = 0\<rparr>"

definition elf_file_free :: "ptr \<Rightarrow> 'a kmem_scheme \<Rightarrow> 'a kmem_scheme option" where
  "elf_file_free file s = do {
     f \<leftarrow> deref as_elf_file file s;
     s \<leftarrow> (if elf_mem f \<noteq> 0 then kfree (elf_mem f) s else Some s);
     kfree file s }"

text \<open>\<^verbatim>\<open>struct elf_file\<close> has 132 bytes.\<close>

definition elf_file_new :: "'a kmem_scheme \<Rightarrow> (ptr \<times> 'a kmem_scheme) option" where
  "elf_file_new s = kzalloc_as 132 (OElfFile zero_elf_file) s"

text \<open>
  The part of \<^verbatim>\<open>elf_load\<close> between \<^verbatim>\<open>fopen\<close> and the label \<^verbatim>\<open>out\<close>: the result code and \<^verbatim>\<open>*file_out\<close>. A
  failed allocation leaves a null buffer, into which nothing can be read.
\<close>

definition elf_load_body ::
  "('d, 'a) vfsmem_scheme fs_table \<Rightarrow> int \<Rightarrow> ptr \<Rightarrow> ptr \<Rightarrow> ('d, 'a) vfsmem_scheme \<Rightarrow>
   (int \<times> ptr \<times> ('d, 'a) vfsmem_scheme) option" where
  "elf_load_body fs fd file out s = do {
     (res, stat, s) \<leftarrow> fstat fs fd \<lparr>st_flags = 0, st_filesize = 0\<rparr> s;
     if res < 0 then Some (res, out, s)
     else do {
       (m, s) \<leftarrow> kzalloc (st_filesize stat) s;
       f \<leftarrow> deref as_elf_file file s;
       s \<leftarrow> store file (OElfFile (f\<lparr>elf_mem := m\<rparr>)) s;
       buf \<leftarrow> (if m = 0 then Some [] else deref as_bytes m s);
       (res, buf, s) \<leftarrow> fread fs buf (st_filesize stat) 1 fd s;
       s \<leftarrow> (if m = 0 then Some s else store m (OBytes buf) s);
       if res < 0 then Some (res, out, s)
       else do {
         (res, s) \<leftarrow> elf_process_loaded file s;
         if res < 0 then Some (res, out, s) else Some (res, file, s) } } }"

definition elf_load ::
  "('d, 'a) vfsmem_scheme fs_table \<Rightarrow> u8 list \<Rightarrow> ptr \<Rightarrow> ('d, 'a) vfsmem_scheme \<Rightarrow>
   (int \<times> ptr \<times> ('d, 'a) vfsmem_scheme) option" where
  "elf_load fs filename out s = do {
     (file, s) \<leftarrow> elf_file_new s;
     (fd, s) \<leftarrow> fopen fs filename [114, 0] s;
     (res, out, s) \<leftarrow> (if fd \<le> 0 then Some (- EIO, out, s) else elf_load_body fs fd file out s);
     s \<leftarrow> (if res < 0 then elf_file_free file s else Some s);
     (r, s) \<leftarrow> fclose fs (if fd \<le> 0 then 0 else fd) s;
     Some (res, out, s) }"

definition elf_close :: "ptr \<Rightarrow> 'a kmem_scheme \<Rightarrow> 'a kmem_scheme option" where
  "elf_close file s =
     (if file = 0 then Some s
      else do {
        f \<leftarrow> deref as_elf_file file s;
        s \<leftarrow> kfree (elf_mem f) s;
        kfree file s })"

end
