(* ===== verification/Idt.thy ===== *)
theory Idt
  imports Process Terminal
begin

text \<open>
  Interrupts: \<^verbatim>\<open>src/src/idt/idt.c\<close>. The addresses that the linker gives to code and data are the
  record \<open>image\<close>, a parameter; a callback is the name of the function it points to. The commands
  of the system call are registered by other code, so a command is a number and \<open>cmd\<close>, a
  parameter, what calling it does. A handler either returns or leaves the kernel by
  \<^verbatim>\<open>task_return\<close>, which is the outcome \<open>UserMode\<close>.
\<close>

section \<open>State\<close>

record idt_desc =
  offset_1 :: u16
  selector :: u16
  id_zero :: u8
  type_attr :: u8
  offset_2 :: u16

record idtr_desc =
  idtr_limit :: u16
  idtr_base :: u32

datatype callback = NullCallback | Idt_handle_exception | Idt_clock

record image =
  interrupt_pointer_table :: "ptr list"
  addr_idt_zero :: ptr
  addr_isr80h_wrapper :: ptr
  addr_idt_descriptors :: ptr
  addr_gdt_real :: ptr
  addr_tss :: ptr

record 'd idtmem = "'d procmem" +
  idt_descriptors :: "idt_desc list"
  idtr_descriptor :: idtr_desc
  idtr :: "idtr_desc option"
  interrupt_callbacks :: "callback list"
  isr80h_commands :: "nat list"
  screen :: terminal

datatype 's outcome = Returned 's | UserMode registers 's

text \<open>A command gets the address of the frame on the stack, so it returns the frame as it leaves it.\<close>

type_synonym 's commands = "nat \<Rightarrow> interrupt_frame \<Rightarrow> 's \<Rightarrow> (u32 \<times> interrupt_frame \<times> 's) option"

abbreviation (input) PEACHOS_TOTAL_INTERRUPTS :: nat where "PEACHOS_TOTAL_INTERRUPTS \<equiv> 512"
abbreviation (input) PEACHOS_MAX_ISR80H_COMMANDS :: nat where "PEACHOS_MAX_ISR80H_COMMANDS \<equiv> 1024"
abbreviation (input) KERNEL_CODE_SELECTOR :: u16 where "KERNEL_CODE_SELECTOR \<equiv> 0x08"
abbreviation (input) sizeof_idt_desc :: nat where "sizeof_idt_desc \<equiv> 8"

abbreviation (input) zero_idt_desc :: idt_desc where
  "zero_idt_desc \<equiv> \<lparr>offset_1 = 0, selector = 0, id_zero = 0, type_attr = 0, offset_2 = 0\<rparr>"

section \<open>Set-up\<close>

definition print_s :: "u8 list \<Rightarrow> ('d, 'a) idtmem_scheme \<Rightarrow> ('d, 'a) idtmem_scheme option" where
  "print_s str s = do { t \<leftarrow> print str (screen s); Some (s\<lparr>screen := t\<rparr>) }"

definition outb :: "'d ata \<Rightarrow> u16 \<Rightarrow> u8 \<Rightarrow> ('d, 'a) diskmem_scheme \<Rightarrow> ('d, 'a) diskmem_scheme" where
  "outb hw port val s = s\<lparr>dev := hw_outb hw port val (dev s)\<rparr>"

definition no_interrupt_handler :: "'d ata \<Rightarrow> ('d, 'a) diskmem_scheme \<Rightarrow> ('d, 'a) diskmem_scheme" where
  "no_interrupt_handler hw s = outb hw 0x20 0x20 s"

definition idt_zero :: "('d, 'a) idtmem_scheme \<Rightarrow> ('d, 'a) idtmem_scheme option" where
  "idt_zero s = print_s (map of_char ''Divide by zero error'' @ [10, 0]) s"

definition idt_set :: "int \<Rightarrow> ptr \<Rightarrow> ('d, 'a) idtmem_scheme \<Rightarrow> ('d, 'a) idtmem_scheme option" where
  "idt_set interrupt_no address s = do {
     desc \<leftarrow> aget_i (idt_descriptors s) interrupt_no;
     l \<leftarrow> aset_i (idt_descriptors s) interrupt_no
       (desc\<lparr>offset_1 := ucast (address AND 0x0000ffff), selector := KERNEL_CODE_SELECTOR,
             id_zero := 0x00, type_attr := 0xEE, offset_2 := ucast (drop_bit 16 address)\<rparr>);
     Some (s\<lparr>idt_descriptors := l\<rparr>) }"

definition idt_register_interrupt_callback ::
  "int \<Rightarrow> callback \<Rightarrow> ('d, 'a) idtmem_scheme \<Rightarrow> (int \<times> ('d, 'a) idtmem_scheme) option" where
  "idt_register_interrupt_callback interrupt interrupt_callback s =
     (if interrupt < 0 \<or> interrupt \<ge> int PEACHOS_TOTAL_INTERRUPTS then Some (- EINVAGR, s)
      else do {
        l \<leftarrow> aset_i (interrupt_callbacks s) interrupt interrupt_callback;
        Some (0, s\<lparr>interrupt_callbacks := l\<rparr>) })"

definition idt_load :: "idtr_desc \<Rightarrow> ('d, 'a) idtmem_scheme \<Rightarrow> ('d, 'a) idtmem_scheme" where
  "idt_load p s = s\<lparr>idtr := Some p\<rparr>"

definition idt_init :: "image \<Rightarrow> ('d, 'a) idtmem_scheme \<Rightarrow> ('d, 'a) idtmem_scheme option" where
  "idt_init img s = do {
     s \<leftarrow> Some (s\<lparr>idt_descriptors := replicate PEACHOS_TOTAL_INTERRUPTS zero_idt_desc\<rparr>);
     s \<leftarrow> Some (s\<lparr>idtr_descriptor :=
            \<lparr>idtr_limit = of_nat (PEACHOS_TOTAL_INTERRUPTS * sizeof_idt_desc) - 1,
             idtr_base = addr_idt_descriptors img\<rparr>\<rparr>);
     s \<leftarrow> for_range 0 PEACHOS_TOTAL_INTERRUPTS (\<lambda>i s. do {
            a \<leftarrow> aget (interrupt_pointer_table img) i;
            idt_set (int i) a s }) s;
     s \<leftarrow> idt_set 0 (addr_idt_zero img) s;
     s \<leftarrow> idt_set 0x80 (addr_isr80h_wrapper img) s;
     s \<leftarrow> for_range 0 0x20 (\<lambda>i s. do {
            (r, s) \<leftarrow> idt_register_interrupt_callback (int i) Idt_handle_exception s;
            Some s }) s;
     (r, s) \<leftarrow> idt_register_interrupt_callback 0x20 Idt_clock s;
     Some (idt_load (idtr_descriptor s) s) }"

section \<open>Handlers\<close>

text \<open>\<^verbatim>\<open>task_next\<close> leaves the kernel, so what follows a call of it is not reached.\<close>

definition idt_handle_exception :: "('d, 'a) idtmem_scheme \<Rightarrow> (registers \<times> ('d, 'a) idtmem_scheme) option" where
  "idt_handle_exception s = do {
     t \<leftarrow> deref as_task (task_current s) s;
     (r, s) \<leftarrow> process_terminate (task_process t) s;
     task_next s }"

definition idt_clock :: "'d ata \<Rightarrow> ('d, 'a) idtmem_scheme \<Rightarrow> (registers \<times> ('d, 'a) idtmem_scheme) option" where
  "idt_clock hw s = task_next (outb hw 0x20 0x20 s)"

fun run_callback ::
  "'d ata \<Rightarrow> callback \<Rightarrow> ('d, 'a) idtmem_scheme \<Rightarrow> (registers \<times> ('d, 'a) idtmem_scheme) option" where
  "run_callback hw NullCallback s = None"
| "run_callback hw Idt_handle_exception s = idt_handle_exception s"
| "run_callback hw Idt_clock s = idt_clock hw s"

definition interrupt_handler ::
  "'d ata \<Rightarrow> int \<Rightarrow> interrupt_frame \<Rightarrow> ('d, 'a) idtmem_scheme \<Rightarrow> ('d, 'a) idtmem_scheme outcome option" where
  "interrupt_handler hw interrupt frame s = do {
     s \<leftarrow> kernel_page s;
     cb \<leftarrow> aget_i (interrupt_callbacks s) interrupt;
     if cb \<noteq> NullCallback then do {
       s \<leftarrow> task_current_save_state frame s;
       (regs, s) \<leftarrow> run_callback hw cb s;
       Some (UserMode regs s) }
     else do {
       (r, s) \<leftarrow> task_page s;
       Some (Returned (outb hw 0x20 0x20 s)) } }"

section \<open>System calls\<close>

definition isr80h_register_command ::
  "int \<Rightarrow> nat \<Rightarrow> ('d, 'a) idtmem_scheme \<Rightarrow> ('d, 'a) idtmem_scheme option" where
  "isr80h_register_command command_id command s =
     (if command_id < 0 \<or> command_id \<ge> int PEACHOS_MAX_ISR80H_COMMANDS then None
      else do {
        c \<leftarrow> aget_i (isr80h_commands s) command_id;
        if c \<noteq> 0 then None
        else do {
          l \<leftarrow> aset_i (isr80h_commands s) command_id command;
          Some (s\<lparr>isr80h_commands := l\<rparr>) } })"

definition isr80h_handle_command ::
  "('d, 'a) idtmem_scheme commands \<Rightarrow> int \<Rightarrow> interrupt_frame \<Rightarrow> ('d, 'a) idtmem_scheme \<Rightarrow>
   (u32 \<times> interrupt_frame \<times> ('d, 'a) idtmem_scheme) option" where
  "isr80h_handle_command cmd command frame s =
     (if command < 0 \<or> command \<ge> int PEACHOS_MAX_ISR80H_COMMANDS then Some (0, frame, s)
      else do {
        command_func \<leftarrow> aget_i (isr80h_commands s) command;
        if command_func = 0 then Some (0, frame, s)
        else cmd command_func frame s })"

definition isr80h_handler ::
  "('d, 'a) idtmem_scheme commands \<Rightarrow> int \<Rightarrow> interrupt_frame \<Rightarrow> ('d, 'a) idtmem_scheme \<Rightarrow>
   (u32 \<times> interrupt_frame \<times> ('d, 'a) idtmem_scheme) option" where
  "isr80h_handler cmd command frame s = do {
     s \<leftarrow> kernel_page s;
     s \<leftarrow> task_current_save_state frame s;
     (res, frame, s) \<leftarrow> isr80h_handle_command cmd command frame s;
     (r, s) \<leftarrow> task_page s;
     Some (res, frame, s) }"

end
