(* ===== verification/Kernel.thy ===== *)
theory Kernel
  imports Idt Gdt Fat16_Files
begin

text \<open>
  Start-up: \<^verbatim>\<open>kernel_main\<close> of \<^verbatim>\<open>src/src/kernel.c\<close>. The result is the registers with which the first
  task enters user mode; a panic has none. The descriptor-table and task registers of the
  processor are the values last loaded.
\<close>

section \<open>State\<close>

record tss =
  tss_link :: u32
  esp0 :: u32
  ss0 :: u32
  esp1 :: u32
  ss1 :: u32
  esp2 :: u32
  ss2 :: u32
  tss_sr3 :: u32
  tss_eip :: u32
  tss_eflags :: u32
  tss_eax :: u32
  tss_ecx :: u32
  tss_edx :: u32
  tss_ebx :: u32
  tss_esp :: u32
  tss_ebp :: u32
  tss_esi :: u32
  tss_edi :: u32
  tss_es :: u32
  tss_cs :: u32
  tss_ss :: u32
  tss_ds :: u32
  tss_fs :: u32
  tss_gs :: u32
  tss_ldtr :: u32
  tss_iopb :: u32
  tss_ssp :: u32

record 'd kernelmem = "'d idtmem" +
  gdt_real :: "gdt list"
  gdtr :: "(ptr \<times> u16) option"
  the_tss :: tss
  tr :: "u16 option"

abbreviation (input) zero_tss :: tss where
  "zero_tss \<equiv> \<lparr>tss_link = 0, esp0 = 0, ss0 = 0, esp1 = 0, ss1 = 0, esp2 = 0, ss2 = 0, tss_sr3 = 0,
     tss_eip = 0, tss_eflags = 0, tss_eax = 0, tss_ecx = 0, tss_edx = 0, tss_ebx = 0, tss_esp = 0,
     tss_ebp = 0, tss_esi = 0, tss_edi = 0, tss_es = 0, tss_cs = 0, tss_ss = 0, tss_ds = 0,
     tss_fs = 0, tss_gs = 0, tss_ldtr = 0, tss_iopb = 0, tss_ssp = 0\<rparr>"

abbreviation (input) KERNEL_DATA_SELECTOR :: u32 where "KERNEL_DATA_SELECTOR \<equiv> 0x10"
abbreviation (input) PEACHOS_TOTAL_GDT_SEGMENTS :: nat where "PEACHOS_TOTAL_GDT_SEGMENTS \<equiv> 6"

section \<open>Start-up\<close>

definition gdt_load :: "ptr \<Rightarrow> int \<Rightarrow> ('d, 'a) kernelmem_scheme \<Rightarrow> ('d, 'a) kernelmem_scheme" where
  "gdt_load g sz s = s\<lparr>gdtr := Some (g, word_of_int sz)\<rparr>"

definition tss_load :: "int \<Rightarrow> ('d, 'a) kernelmem_scheme \<Rightarrow> ('d, 'a) kernelmem_scheme" where
  "tss_load tss_segment s = s\<lparr>tr := Some (word_of_int tss_segment)\<rparr>"

definition c_string :: "string \<Rightarrow> u8 list" where
  "c_string cs = map of_char cs @ [0]"

text \<open>The calls of \<^verbatim>\<open>kernel_main\<close> up to \<^verbatim>\<open>enable_paging\<close>; \<open>raw\<close> is the memory of the heap table.\<close>

definition kernel_start ::
  "'d ata \<Rightarrow> image \<Rightarrow> u8 list \<Rightarrow> ('d, 'a) kernelmem_scheme \<Rightarrow> ('d, 'a) kernelmem_scheme option" where
  "kernel_start hw img raw s = do {
     t \<leftarrow> terminal_initialize (screen s);
     s \<leftarrow> print_s (c_string (''Hello World!'' @ [CHR 10] @ ''Test'' @ [CHR 10])) (s\<lparr>screen := t\<rparr>);
     g \<leftarrow> gdt_structured_to_gdt (replicate PEACHOS_TOTAL_GDT_SEGMENTS (replicate 8 0))
            (gdt_structured_table (addr_tss img)) (int PEACHOS_TOTAL_GDT_SEGMENTS);
     s \<leftarrow> Some (gdt_load (addr_gdt_real img) (int (PEACHOS_TOTAL_GDT_SEGMENTS * 8)) (s\<lparr>gdt_real := g\<rparr>));
     (res, s) \<leftarrow> kheap_init raw s;
     s \<leftarrow> (if res < 0 then print_s (c_string (''Failed to create heap'' @ [CHR 10])) s else Some s);
     s \<leftarrow> fs_init s;
     s \<leftarrow> disk_search_and_init (\<lambda>_. fat16_fs hw) s;
     s \<leftarrow> idt_init img s;
     s \<leftarrow> Some (tss_load 0x28 (s\<lparr>the_tss := zero_tss\<lparr>esp0 := 0x600000, ss0 := KERNEL_DATA_SELECTOR\<rparr>\<rparr>));
     (chunk, s) \<leftarrow> paging_new_4gb (PAGING_IS_WRITEABLE OR PAGING_IS_PRESENT OR PAGING_ACCESS_FROM_ALL) s;
     s \<leftarrow> paging_switch chunk (s\<lparr>kernel_chunk := chunk\<rparr>);
     Some (enable_paging s) }"

definition kernel_main ::
  "'d ata \<Rightarrow> image \<Rightarrow> u8 list \<Rightarrow> ('d, 'a) kernelmem_scheme \<Rightarrow> (registers \<times> ('d, 'a) kernelmem_scheme) option" where
  "kernel_main hw img raw s = do {
     s \<leftarrow> kernel_start hw img raw s;
     (res, proc, s) \<leftarrow> process_load (\<lambda>_. fat16_fs hw) (c_string ''0:/blank.bin'') 0 s;
     if res \<noteq> PEACHOS_ALL_OK then None
     else do {
       s \<leftarrow> print_s (c_string (''process load successfull'' @ [CHR 10])) s;
       task_run_first_ever_task s } }"

end
