(* ===== verification/Heap_Room.thy ===== *)
theory Heap_Room
  imports Paging
begin

text \<open>
  Allocations of several blocks. The free blocks at the end of the pool are the room of the heap:
  first fit serves every request that fits into the room, an allocation of n blocks takes at most
  n blocks from it, and a release never makes it smaller.
\<close>

section \<open>The free blocks at the end of the pool\<close>

fun tail_free :: "seg list \<Rightarrow> nat" where
  "tail_free [] = 0"
| "tail_free (s # segs) =
     (if s = Free \<and> tail_free segs = length segs then Suc (length segs) else tail_free segs)"

lemma tail_free_le: "tail_free segs \<le> length segs"
  by (induction segs) auto

lemma tail_free_append:
  "tail_free (xs @ ys) = (if tail_free ys = length ys then tail_free xs + length ys else tail_free ys)"
  using tail_free_le [of ys] by (induction xs) auto

lemma tail_free_replicate [simp]: "tail_free (replicate n Free) = n"
  by (induction n) auto

lemma tail_free_drop: "tail_free segs \<le> tail_free (drop n segs) + n"
proof (induction segs arbitrary: n)
  case Nil
  then show ?case by simp
next
  case (Cons s segs)
  show ?case
  proof (cases n)
    case 0
    then show ?thesis by simp
  next
    case (Suc m)
    then show ?thesis using Cons.IH [of m] by auto
  qed
qed

lemma tail_free_all: "tail_free segs = length segs \<Longrightarrow> segs = replicate (length segs) Free"
proof (induction segs)
  case Nil
  then show ?case by simp
next
  case (Cons s segs)
  then show ?case using tail_free_le [of segs] by (auto split: if_splits)
qed

lemma tail_free_split: "\<exists>pre. segs = pre @ replicate (tail_free segs) Free"
proof (induction segs)
  case Nil
  then show ?case by simp
next
  case (Cons s segs)
  then obtain pre where pre: "segs = pre @ replicate (tail_free segs) Free" by blast
  show ?case
  proof (cases "s = Free \<and> tail_free segs = length segs")
    case True
    then have "s # segs = replicate (tail_free (s # segs)) Free" using tail_free_all [of segs] by simp
    then show ?thesis by (intro exI [of _ "[]"]) simp
  next
    case False
    then have "tail_free (s # segs) = tail_free segs" by auto
    with pre show ?thesis by (intro exI [of _ "s # pre"]) (simp del: tail_free.simps)
  qed
qed

lemma tail_free_count: "tail_free segs \<le> count_list segs Free"
  using tail_free_split [of segs] by (metis count_list_append count_replicate_Free le_add2)

section \<open>First fit and the room\<close>

lemma a_alloc_fits:
  assumes "0 < n" and "n \<le> tail_free segs"
  shows "\<exists>b segs'. a_alloc n segs = Some (b, segs')"
proof -
  obtain pre where "segs = pre @ replicate (tail_free segs) Free" using tail_free_split by blast
  also have "replicate (tail_free segs) Free = replicate (tail_free segs - n) Free @ replicate n Free @ []"
    using assms(2) by (simp add: replicate_add [symmetric])
  finally have "segs = (pre @ replicate (tail_free segs - n) Free) @ replicate n Free @ []" by simp
  then show ?thesis using a_alloc_Free_run [OF assms(1)] by metis
qed

lemma a_alloc_length: "a_alloc n segs = Some x \<Longrightarrow> n \<le> length segs"
proof (induction n segs arbitrary: x rule: a_alloc.induct)
  case (2 n s segs)
  show ?case
  proof (cases "take n (s # segs) = replicate n Free")
    case True
    then have "length (take n (s # segs)) = n" by simp
    then show ?thesis by (simp add: min_def split: if_splits)
  next
    case False
    with 2 show ?thesis by fastforce
  qed
qed simp

lemma a_alloc_room: "a_alloc n segs = Some (b, segs') \<Longrightarrow> tail_free segs \<le> tail_free segs' + n"
proof (induction n segs arbitrary: b segs' rule: a_alloc.induct)
  case (2 n s segs)
  show ?case
  proof (cases "take n (s # segs) = replicate n Free")
    case True
    then have "segs' = Used n # drop n (s # segs)" using "2.prems" by simp
    then show ?thesis using tail_free_drop [of "s # segs" n] by simp
  next
    case False
    then obtain b1 segs1 where a: "a_alloc n segs = Some (b1, segs1)" "segs' = s # segs1"
      using "2.prems" by auto
    note IH = "2.IH" [OF False a(1)] and len = a_alloc_length [OF a(1)]
    have "\<not> (s = Free \<and> tail_free segs = length segs)"
    proof
      assume all: "s = Free \<and> tail_free segs = length segs"
      then have "s # segs = replicate (Suc (length segs)) Free" using tail_free_all [of segs] by simp
      then have "take n (s # segs) = take n (replicate (Suc (length segs)) Free)" by (rule arg_cong)
      also have "\<dots> = replicate n Free" using len by (simp only: take_replicate min_def) simp
      finally have "take n (s # segs) = replicate n Free" .
      with False show False by simp
    qed
    with IH a(2) show ?thesis by auto
  qed
qed simp

lemma heap_free_room:
  "tail_free (pre @ Used n # post) \<le> tail_free (pre @ replicate n Free @ post)"
  using tail_free_le [of post] tail_free_le [of "Used n # post"] by (auto simp: tail_free_append)

section \<open>The room of the kernel heap\<close>

definition kroom :: "'a kmem_scheme \<Rightarrow> nat" where
  "kroom s = tail_free (heap_segs (kernel_heap s))"

lemma kroom_le_avail: "kroom s \<le> kavail s"
  by (simp add: kroom_def heap_avail_def tail_free_count)

lemma kroom_setobj [simp]: "kroom (setobj p x s) = kroom s"
  by (simp add: kroom_def)

text \<open>A request that fits into the room is served.\<close>

lemma alloc_in_room:
  assumes inv: "kmem_inv s" and sz: "sz \<noteq> 0" "unat sz \<le> 4294963200" and fits: "blocks_for sz \<le> kroom s"
  obtains p s' where "alloc_as sz z s = Some (p, s')" "kmem_inv s'" "p \<noteq> 0" "objs s p = None"
    "objs s' = (objs s)(p \<mapsto> z)" "klive s' = insert (p, blocks_for sz) (klive s)"
    "kavail s = kavail s' + blocks_for sz" "kroom s \<le> kroom s' + blocks_for sz" "kmem.more s' = kmem.more s"
proof -
  have h: "heap_inv (kernel_heap s)" using inv by (simp add: kmem_inv_def)
  have pos: "0 < blocks_for sz" using sz(1) by (simp add: blocks_for_pos)
  obtain b segs' where a: "a_alloc (blocks_for sz) (heap_segs (kernel_heap s)) = Some (b, segs')"
    using a_alloc_fits [OF pos] fits unfolding kroom_def by blast
  from heap_malloc_live [OF h pos sz(2) a] obtain p h' where
    m: "heap_malloc (kernel_heap s) sz = Some (p, h')" "p \<noteq> 0" "heap_inv h'" "heap_segs h' = segs'"
      "\<forall>m. (p, m) \<notin> klive s" "heap_live h' = insert (p, blocks_for sz) (klive s)"
      "kavail s = heap_avail h' + blocks_for sz" by blast
  let ?s = "s\<lparr>kernel_heap := h', objs := (objs s)(p \<mapsto> z)\<rparr>"
  have "objs s p = None" using m(5) kmem_inv_live [OF inv, of p] by blast
  moreover have "kmem_inv ?s" using inv m(3,6) by (auto simp: kmem_inv_def)
  moreover have "alloc_as sz z s = Some (p, ?s)" using m(1,2) by (simp add: alloc_as_eq alloc_with_def)
  moreover have "kroom s \<le> kroom ?s + blocks_for sz"
    using a_alloc_room [OF a] m(4) by (simp add: kroom_def)
  ultimately show thesis using m(2,6,7) by (intro that [of p ?s]) simp_all
qed

text \<open>Whatever an allocation or a release does, this is what it can take from the room.\<close>

definition charged :: "nat \<Rightarrow> 'a kmem_scheme \<Rightarrow> 'a kmem_scheme \<Rightarrow> bool" where
  "charged n s s' \<longleftrightarrow> (kmem_inv s \<longrightarrow> kmem_inv s' \<and> kroom s \<le> kroom s' + n)"

lemma charged_refl [simp]: "charged n s s"
  by (simp add: charged_def)

lemma charged_trans: "charged m s t \<Longrightarrow> charged n t u \<Longrightarrow> charged (m + n) s u"
  by (auto simp: charged_def)

lemma charged_store: "store p x s = Some s' \<Longrightarrow> charged 0 s s'"
  using kmem_inv_update [of s p x]
  by (auto simp: store_def charged_def kroom_def split: if_splits)

lemma charged_alloc:
  assumes "alloc_as sz z s = Some (p, s')" and "sz \<noteq> 0" and "unat sz \<le> 4294963200"
  shows "charged (blocks_for sz) s s'"
  unfolding charged_def
proof
  assume inv: "kmem_inv s"
  then have h: "heap_inv (kernel_heap s)" by (simp add: kmem_inv_def)
  have pos: "0 < blocks_for sz" using assms(2) by (simp add: blocks_for_pos)
  show "kmem_inv s' \<and> kroom s \<le> kroom s' + blocks_for sz"
  proof (cases "a_alloc (blocks_for sz) (heap_segs (kernel_heap s))")
    case None
    then have "s' = s"
      using heap_malloc_miss [OF h pos assms(3)] assms(1)
      by (auto simp: alloc_as_eq alloc_with_Some_iff split: if_splits)
    with inv show ?thesis by simp
  next
    case (Some x)
    obtain b segs' where x: "x = (b, segs')" by force
    from heap_malloc_live [OF h pos assms(3) Some [unfolded x]] obtain h' where
      m: "heap_malloc (kernel_heap s) sz = Some (p, h')" "p \<noteq> 0" "heap_inv h'" "heap_segs h' = segs'"
        "heap_live h' = insert (p, blocks_for sz) (klive s)"
      using assms(1) by (auto simp: alloc_as_eq alloc_with_Some_iff)
    then have "s' = s\<lparr>kernel_heap := h', objs := (objs s)(p \<mapsto> z)\<rparr>"
      using assms(1) by (simp add: alloc_as_eq alloc_with_def)
    then show ?thesis using inv m a_alloc_room [OF Some [unfolded x]] by (auto simp: kmem_inv_def kroom_def)
  qed
qed

lemma charged_free:
  assumes "kmem_inv s" and "objs s p \<noteq> None" and "kfree p s = Some s'"
  shows "charged 0 s s'"
proof -
  obtain n where live: "(p, n) \<in> klive s" using assms(1,2) kmem_inv_live by blast
  have rep: "heap_rep (kernel_heap s) (heap_segs (kernel_heap s))"
    using assms(1) by (simp add: kmem_inv_def heap_inv_rep)
  obtain b where b: "p = block_addr (kernel_heap s) b" "(b, n) \<in> set (extents 0 (heap_segs (kernel_heap s)))"
    using live by (auto simp: heap_live_def)
  then obtain pre post where sp: "heap_segs (kernel_heap s) = pre @ Used n # post" "b = blocks pre"
    by (auto simp: extents_split)
  from heap_free_rep [OF rep sp(1)] b(1) sp(2) obtain h' where
    h': "heap_free (kernel_heap s) p = Some h'" "heap_rep h' (pre @ replicate n Free @ post)" by blast
  then have "kernel_heap s' = h'" using assms(3) by (auto simp: kfree_Some_iff)
  then have "kroom s \<le> kroom s'"
    using heap_rep_segs [OF h'(2)] heap_free_room [of pre n post] by (simp add: kroom_def sp(1))
  moreover have "kmem_inv s'" using km.free_live [OF assms(1) live] assms(3) by auto
  ultimately show ?thesis by (simp add: charged_def)
qed

section \<open>Page directories\<close>

lemma charged_page:
  assumes "alloc_as sz z s = Some (p, s')" and "sz \<noteq> 0" and "unat sz \<le> 4096"
  shows "charged 1 s s'"
  using charged_alloc [OF assms(1,2)] assms(3) blocks_for_small [OF assms(2,3)] by simp

lemma new_4gb_entry_charged:
  assumes "paging_new_4gb_entry flags directory i x = Some y"
  shows "charged 1 (snd x) (snd y)"
proof -
  obtain offset s where x: "x = (offset, s)" by force
  obtain entry s1 t s2 d s3 where a: "alloc_as 4096 table_words s = Some (entry, s1)"
    "store entry t s1 = Some s2" "store directory d s2 = Some s3" "snd y = s3"
    using assms by (auto simp: paging_new_4gb_entry_def x split: Option.bind_splits)
  have "charged (1 + (0 + 0)) s s3"
    by (rule charged_trans [OF charged_page [OF a(1)] charged_trans [OF charged_store [OF a(2)] charged_store [OF a(3)]]])
      simp_all
  then show ?thesis by (simp add: x a(4))
qed

lemma new_4gb_charged:
  assumes "paging_new_4gb flags s = Some (chunk, s')"
  shows "charged 1026 s s'"
proof -
  obtain directory s1 x s3 c where a: "alloc_as 4096 table_words s = Some (directory, s1)"
    "for_range 0 1024 (paging_new_4gb_entry flags directory) (0, s1) = Some x"
    "alloc_as 4 (OChunk \<lparr>directory_entry = 0\<rparr>) (snd x) = Some (chunk, s3)" "store chunk c s3 = Some s'"
    using assms by (auto simp: paging_new_4gb_def split: Option.bind_splits)
  have "charged (1 + (0 + 1024)) s (snd x)"
    by (rule for_range_inv [OF a(2), where P = "\<lambda>k y. charged (1 + k) s (snd y)"])
      (use charged_page [OF a(1)] in \<open>auto dest!: new_4gb_entry_charged dest: charged_trans\<close>)
  moreover have "charged (1 + 0) (snd x) s'"
    by (rule charged_trans [OF charged_page [OF a(3)] charged_store [OF a(4)]]) simp_all
  ultimately show ?thesis using charged_trans by fastforce
qed

end
