(* ===== verification/Task_List.thy ===== *)
theory Task_List
  imports Task
begin

text \<open>
  The task list as a list. \<open>task_list ts s\<close> says that the doubly linked list of \<^verbatim>\<open>task.c\<close> holds the
  tasks \<open>ts\<close> in order, each with a page directory to switch to; \<open>task_new\<close> appends to it and
  \<open>task_get_next\<close> goes round it.
\<close>

section \<open>The list\<close>

definition link :: "ptr list \<Rightarrow> nat \<Rightarrow> ptr" where
  "link ts i = (if i < length ts then ts ! i else 0)"

definition task_node :: "ptr list \<Rightarrow> nat \<Rightarrow> 'a kmem_scheme \<Rightarrow> bool" where
  "task_node ts i s \<longleftrightarrow> (\<exists>t c. objs s (ts ! i) = Some (OTask t) \<and> task_nxt t = link ts (Suc i) \<and>
     task_prv t = (if i = 0 then 0 else link ts (i - 1)) \<and>
     objs s (page_directory t) = Some (OChunk c))"

definition task_list :: "ptr list \<Rightarrow> ('d, 'a) taskmem_scheme \<Rightarrow> bool" where
  "task_list ts s \<longleftrightarrow> distinct ts \<and> 0 \<notin> set ts \<and> (\<forall>i < length ts. task_node ts i s) \<and>
     task_head s = (if ts = [] then 0 else hd ts) \<and> task_tail s = (if ts = [] then 0 else last ts) \<and>
     (if ts = [] then current_task s = 0 else current_task s \<in> set ts)"

lemma task_node_cases:
  assumes "task_node ts i s"
  obtains t c where "objs s (ts ! i) = Some (OTask t)" "task_nxt t = link ts (Suc i)"
    "task_prv t = (if i = 0 then 0 else link ts (i - 1))" "objs s (page_directory t) = Some (OChunk c)"
  using assms by (auto simp: task_node_def)

lemma task_listD:
  assumes "task_list ts s"
  shows "distinct ts" "0 \<notin> set ts" "i < length ts \<Longrightarrow> task_node ts i s"
    "ts \<noteq> [] \<Longrightarrow> task_head s = ts ! 0" "ts \<noteq> [] \<Longrightarrow> current_task s \<in> set ts"
  using assms by (auto simp: task_list_def hd_conv_nth)

lemma task_list_current:
  assumes "task_list ts s" and "ts \<noteq> []"
  obtains i where "i < length ts" "current_task s = ts ! i"
  using task_listD(5) [OF assms] by (metis in_set_conv_nth)

text \<open>The fields of a task state are those of what extends its object store.\<close>

lemma more_task_fields:
  assumes "kmem.more s' = kmem.more s"
  shows "task_head s' = task_head s" "task_tail s' = task_tail s" "current_task s' = current_task s"
    "kernel_chunk s' = kernel_chunk s" "taskmem.more s' = taskmem.more s" "disk s' = disk s" "dev s' = dev s" "cr0 s' = cr0 s"
  using assms by (cases s; cases s'; simp)+

lemma task_list_frame:
  assumes "task_list ts s" and "kmem.more s' = kmem.more s"
    and "\<And>p t. p \<in> set ts \<Longrightarrow> objs s p = Some (OTask t) \<Longrightarrow>
      objs s' p = Some (OTask t) \<and> objs s' (page_directory t) = objs s (page_directory t)"
  shows "task_list ts s'"
proof -
  have "task_node ts i s'" if i: "i < length ts" for i
  proof -
    obtain t c where *: "objs s (ts ! i) = Some (OTask t)" "task_nxt t = link ts (Suc i)"
      "task_prv t = (if i = 0 then 0 else link ts (i - 1))" "objs s (page_directory t) = Some (OChunk c)"
      using task_listD(3) [OF assms(1) i] by (rule task_node_cases)
    then show ?thesis using assms(3) [of "ts ! i" t] i by (simp add: task_node_def)
  qed
  with assms(1) more_task_fields [OF assms(2)] show ?thesis by (simp add: task_list_def)
qed

section \<open>Going round\<close>

lemma task_get_next_ring:
  assumes "task_list ts s" and "i < length ts" and "current_task s = ts ! i"
  shows "task_get_next s = Some (ts ! (Suc i mod length ts))"
proof -
  obtain t where t: "objs s (ts ! i) = Some (OTask t)" "task_nxt t = link ts (Suc i)"
    using task_listD(3) [OF assms(1,2)] by (rule task_node_cases)
  have "task_head s = ts ! 0" using task_listD(4) [OF assms(1)] assms(2) by (cases ts) simp_all
  moreover have "link ts (Suc i) \<noteq> 0" if "Suc i < length ts"
    using task_listD(2) [OF assms(1)] nth_mem [OF that] that by (metis link_def)
  ultimately show ?thesis
    using t assms(2,3) by (cases "Suc i = length ts") (auto simp: task_get_next_def deref_def link_def)
qed

text \<open>\<^verbatim>\<open>task_switch\<close> makes a task of the list current and loads its directory.\<close>

lemma task_list_switched:
  assumes "task_list ts s" and "p \<in> set ts"
  shows "task_list ts (s\<lparr>current_task := p, current_directory := d, cr3 := e, data_segments := x\<rparr>)"
  using assms by (auto simp: task_list_def task_node_def)

lemma task_switch_ok:
  assumes "task_list ts s" and "j < length ts"
  obtains t c where "objs s (ts ! j) = Some (OTask t)" "objs s (page_directory t) = Some (OChunk c)"
    "task_switch (ts ! j) s = Some (0, s\<lparr>current_task := ts ! j,
       current_directory := directory_entry c, cr3 := directory_entry c\<rparr>)"
proof -
  obtain t c where *: "objs s (ts ! j) = Some (OTask t)" "objs s (page_directory t) = Some (OChunk c)"
    using task_listD(3) [OF assms] by (rule task_node_cases)
  then have "task_switch (ts ! j) s = Some (0, s\<lparr>current_task := ts ! j,
       current_directory := directory_entry c, cr3 := directory_entry c\<rparr>)"
    by (simp add: task_switch_def deref_def paging_switch_def paging_load_directory_def)
  with * show thesis by (rule that)
qed

text \<open>The registers that a task resumes with: the saved ones with interrupts enabled.\<close>

definition resumed :: "registers \<Rightarrow> registers" where
  "resumed r = r\<lparr>r_flags := r_flags r OR 0x200\<rparr>"

definition regs_of :: "'a kmem_scheme \<Rightarrow> ptr \<Rightarrow> registers option" where
  "regs_of s p = map_option task_registers (deref as_task p s)"

lemma task_next_ok:
  assumes "task_list ts s" and "i < length ts" and "current_task s = ts ! i"
  obtains regs s' where "task_next s = Some (resumed regs, s')" "task_list ts s'"
    "current_task s' = ts ! (Suc i mod length ts)" "objs s' = objs s" "kernel_heap s' = kernel_heap s"
    "regs_of s (ts ! (Suc i mod length ts)) = Some regs" "kernel_chunk s' = kernel_chunk s"
    "taskmem.more s' = taskmem.more s" "data_segments s' = r_ss regs"
proof -
  let ?j = "Suc i mod length ts"
  have j: "?j < length ts" using assms(2) by (intro mod_less_divisor) auto
  obtain t c where t: "objs s (ts ! ?j) = Some (OTask t)" "objs s (page_directory t) = Some (OChunk c)"
    and sw: "task_switch (ts ! ?j) s = Some (0, s\<lparr>current_task := ts ! ?j,
       current_directory := directory_entry c, cr3 := directory_entry c\<rparr>)"
    by (rule task_switch_ok [OF assms(1) j])
  let ?s = "s\<lparr>current_task := ts ! ?j, current_directory := directory_entry c, cr3 := directory_entry c\<rparr>"
  let ?s' = "?s\<lparr>data_segments := r_ss (task_registers t)\<rparr>"
  have nz: "ts ! ?j \<noteq> 0" using task_listD(2) [OF assms(1)] nth_mem [OF j] by metis
  have l: "task_list ts ?s'" by (rule task_list_switched [OF assms(1) nth_mem [OF j]])
  have "task_next s = Some (resumed (task_registers t), ?s')"
    using task_get_next_ring [OF assms] nz sw t(1)
    by (simp add: task_next_def deref_def task_return_def resumed_def)
  then show thesis
    by (rule that [where regs = "task_registers t"]) (use l t in \<open>simp_all add: regs_of_def deref_def\<close>)
qed

section \<open>Saving a task\<close>

definition frame_registers :: "interrupt_frame \<Rightarrow> registers" where
  "frame_registers f = \<lparr>r_edi = if_edi f, r_esi = if_esi f, r_ebp = if_ebp f, r_ebx = if_ebx f,
     r_edx = if_edx f, r_ecx = if_ecx f, r_eax = if_eax f, r_ip = if_ip f, r_cs = if_cs f,
     r_flags = if_flags f, r_esp = if_esp f, r_ss = if_ss f\<rparr>"

lemma save_registers_eq: "save_registers frame r = frame_registers frame"
  by (simp add: save_registers_def frame_registers_def)

lemma task_list_setobj:
  assumes "task_list ts s" and "p \<in> set ts" and "objs s p = Some (OTask t)"
    and "task_nxt t' = task_nxt t" "task_prv t' = task_prv t" "page_directory t' = page_directory t"
  shows "task_list ts (setobj p (OTask t') s)"
proof -
  have "task_node ts i (setobj p (OTask t') s)" if i: "i < length ts" for i
  proof -
    obtain u c where *: "objs s (ts ! i) = Some (OTask u)" "task_nxt u = link ts (Suc i)"
      "task_prv u = (if i = 0 then 0 else link ts (i - 1))" "objs s (page_directory u) = Some (OChunk c)"
      using task_listD(3) [OF assms(1) i] by (rule task_node_cases)
    then show ?thesis using assms(3-) by (cases "ts ! i = p") (auto simp: task_node_def)
  qed
  with assms(1) show ?thesis by (simp add: task_list_def setobj_def)
qed

lemma task_current_save_ok:
  assumes "task_list ts s" and "ts \<noteq> []"
  obtains t where "objs s (current_task s) = Some (OTask t)"
    "task_current_save_state frame s =
       Some (setobj (current_task s) (OTask (t\<lparr>task_registers := frame_registers frame\<rparr>)) s)"
    "task_list ts (setobj (current_task s) (OTask (t\<lparr>task_registers := frame_registers frame\<rparr>)) s)"
proof -
  obtain i where i: "i < length ts" "current_task s = ts ! i" by (rule task_list_current [OF assms])
  then obtain t c where t: "objs s (current_task s) = Some (OTask t)"
    using task_listD(3) [OF assms(1) i(1)] by (metis task_node_cases)
  have "current_task s \<noteq> 0" using task_listD(2,5) [OF assms(1)] assms(2) by metis
  then have "task_current_save_state frame s =
      Some (setobj (current_task s) (OTask (t\<lparr>task_registers := frame_registers frame\<rparr>)) s)"
    using t by (simp add: task_current_save_state_def task_current_def task_save_state_def deref_def
        store_eq save_registers_eq)
  moreover have "task_list ts (setobj (current_task s) (OTask (t\<lparr>task_registers := frame_registers frame\<rparr>)) s)"
    using task_listD(5) [OF assms] t by (intro task_list_setobj [OF assms(1)]) simp_all
  ultimately show thesis by (rule that [OF t])
qed

section \<open>A new task\<close>

text \<open>The task that \<^verbatim>\<open>task_init\<close> makes for the process \<open>proc\<close>.\<close>

definition fresh_task :: "ptr \<Rightarrow> ptr \<Rightarrow> task" where
  "fresh_task dir proc = \<lparr>page_directory = dir, task_registers = zero_registers
      \<lparr>r_ip := 0x400000, r_ss := 0x23, r_cs := 0x1b, r_esp := 0x3FF000\<rparr>,
     task_process = proc, task_nxt = 0, task_prv = 0\<rparr>"

text \<open>
  \<open>new_directory s dir ds directory s'\<close>: \<open>s'\<close> has, beside the objects of \<open>s\<close>, a chunk \<open>dir\<close> that
  maps every page to itself, present and accessible to user mode.
\<close>

definition new_directory ::
  "'a kmem_scheme \<Rightarrow> ptr \<Rightarrow> u32 list \<Rightarrow> ptr \<Rightarrow> 'a kmem_scheme \<Rightarrow> bool" where
  "new_directory s dir ds directory s' \<longleftrightarrow> paging_chunk ds directory dir s' \<and>
     (\<forall>b \<in> chunk_blocks ds directory dir. b \<noteq> 0 \<and> objs s b = None) \<and>
     klive s' = klive s \<union> (\<lambda>b. (b, 1)) ` chunk_blocks ds directory dir \<and>
     kavail s = kavail s' + 1026 \<and>
     (\<forall>v. v mod 4096 = 0 \<longrightarrow> paging_get directory v s' = Some (v OR 5))"

lemma paging_new_4gb_directory:
  assumes "kmem_inv s" and "1026 \<le> kavail s"
  obtains dir ds directory s' where
    "paging_new_4gb (PAGING_IS_PRESENT OR PAGING_ACCESS_FROM_ALL) s = Some (dir, s')" "kmem_inv s'"
    "kmem.more s' = kmem.more s" "new_directory s dir ds directory s'"
    "\<forall>q. objs s q \<noteq> None \<longrightarrow> objs s' q = objs s q"
proof -
  let ?fl = "PAGING_IS_PRESENT OR PAGING_ACCESS_FROM_ALL"
  obtain chunk directory ts s' where
    new: "paging_new_4gb ?fl s = Some (chunk, s')" "kmem_inv s'"
      "length ts = 1024" "distinct (chunk # directory # ts)"
    and fresh: "\<forall>t \<in> {chunk, directory} \<union> set ts. t \<noteq> 0 \<and> t mod 4096 = 0 \<and> objs s t = None"
    and ob: "objs s' = (objs s ++ table_objs ?fl ts)(directory \<mapsto> OWords (map (dir_entry ?fl) ts),
       chunk \<mapsto> OChunk \<lparr>directory_entry = directory\<rparr>)"
    and live: "klive s' = klive s \<union> (\<lambda>t. (t, 1)) ` ({chunk, directory} \<union> set ts)"
      "kavail s = kavail s' + 1026" "kmem.more s' = kmem.more s"
    by (rule new_4gb_ok [OF assms])
  have al: "\<forall>t \<in> set ts. t mod 4096 = 0" using fresh by blast
  note ch = new_4gb_chunk [OF new(3,4) al ob]
  have bl: "chunk_blocks (map (dir_entry ?fl) ts) directory chunk = {chunk, directory} \<union> set ts"
    using al by (simp add: chunk_blocks_def image_image table_of_dir_entry)
  have "new_directory s chunk (map (dir_entry ?fl) ts) directory s'"
    unfolding new_directory_def bl using ch fresh live by auto
  moreover have "objs s' q = objs s q" if "objs s q \<noteq> None" for q
  proof -
    have "q \<noteq> chunk" "q \<noteq> directory" "q \<notin> set ts" using that fresh by auto
    then show ?thesis by (simp add: ob map_add_def table_objs_None [THEN iffD2])
  qed
  ultimately show thesis by (intro that [OF new(1,2) live(3)]) simp_all
qed

text \<open>A change of another object leaves the directory alone.\<close>

lemma paging_frame:
  assumes "paging_chunk ds directory dir s"
    and "\<And>b. b \<in> chunk_blocks ds directory dir \<Longrightarrow> objs s' b = objs s b"
  shows "paging_chunk ds directory dir s'"
    and "v mod 4096 = 0 \<Longrightarrow> paging_get directory v s' = paging_get directory v s"
proof -
  have b: "objs s' dir = objs s dir" "objs s' directory = objs s directory"
    "e \<in> set ds \<Longrightarrow> objs s' (table_of e) = objs s (table_of e)" for e
    using assms(2) by (simp_all add: chunk_blocks_def)
  then show ch: "paging_chunk ds directory dir s'"
    using assms(1) by (simp add: paging_chunk_def paging_dir_def)
  assume v: "v mod 4096 = 0"
  have d: "paging_dir ds directory s" "paging_dir ds directory s'"
    using assms(1) ch by (simp_all add: paging_chunk_def)
  obtain ws where "objs s (table_of (ds ! dir_index v)) = Some (OWords ws)" "ds ! dir_index v \<in> set ds"
    by (rule paging_dirD [OF d(1)])
  then show "paging_get directory v s' = paging_get directory v s"
    using paging_get_eq [OF d(1) v] paging_get_eq [OF d(2) v] b(3) by simp
qed

lemma new_directory_setobj:
  assumes "new_directory s dir ds directory s'" and "p \<notin> chunk_blocks ds directory dir"
  shows "new_directory s dir ds directory (setobj p x s')"
proof -
  have ch: "paging_chunk ds directory dir s'" using assms(1) by (simp add: new_directory_def)
  have "objs (setobj p x s') b = objs s' b" if "b \<in> chunk_blocks ds directory dir" for b
    using that assms(2) by auto
  from paging_frame [OF ch this] assms(1) show ?thesis by (simp add: new_directory_def)
qed

lemma task_init_ok:
  assumes "kmem_inv s" and "1026 \<le> kavail s" and "objs s tsk = Some (OTask t0)"
    and "objs s proc = Some (OProcess p)"
  obtains dir ds directory s' where "task_init tsk proc s = Some (0, s')" "kmem_inv s'"
    "kmem.more s' = kmem.more s" "new_directory s dir ds directory s'"
    "objs s' tsk = Some (OTask (fresh_task dir proc))"
    "\<forall>q. q \<noteq> tsk \<longrightarrow> objs s q \<noteq> None \<longrightarrow> objs s' q = objs s q"
proof -
  let ?s0 = "setobj tsk (OTask zero_task) s"
  have inv0: "kmem_inv ?s0" using kmem_inv_update [OF assms(1)] assms(3) by (simp add: setobj_def)
  have av0: "1026 \<le> kavail ?s0" using assms(2) by simp
  obtain dir ds directory s1 where
    new: "paging_new_4gb (PAGING_IS_PRESENT OR PAGING_ACCESS_FROM_ALL) ?s0 = Some (dir, s1)"
      "kmem_inv s1" "kmem.more s1 = kmem.more ?s0" "new_directory ?s0 dir ds directory s1"
    and old: "\<forall>q. objs ?s0 q \<noteq> None \<longrightarrow> objs s1 q = objs ?s0 q"
    by (rule paging_new_4gb_directory [OF inv0 av0])
  let ?s2 = "setobj tsk (OTask (zero_task\<lparr>page_directory := dir\<rparr>)) s1"
  let ?s3 = "setobj tsk (OTask (fresh_task dir proc)) s1"
  have t1: "objs s1 tsk = Some (OTask zero_task)" using old by simp
  have nt: "proc \<noteq> tsk" using assms(3,4) by auto
  have p1: "objs s1 proc = Some (OProcess p)" using old nt assms(4) by simp
  have fr: "tsk \<notin> chunk_blocks ds directory dir" "dir \<noteq> 0"
    using new(4) by (auto simp: new_directory_def chunk_blocks_def)
  have "task_init tsk proc s = Some (0, ?s3)"
    using new(1) t1 p1 nt fr(2) assms(3)
    by (simp add: task_init_def store_eq [OF assms(3)] store_eq [OF t1] deref_def store_eq fresh_task_def)
  moreover have "kmem_inv ?s3" using kmem_inv_update [OF new(2)] t1 by (simp add: setobj_def)
  moreover have "new_directory s dir ds directory ?s3"
  proof -
    have "new_directory s dir ds directory s1"
      using new(4) by (auto simp: new_directory_def split: if_splits)
    then show ?thesis by (rule new_directory_setobj [OF _ fr(1)])
  qed
  moreover have "objs ?s3 q = objs s q" if "q \<noteq> tsk" "objs s q \<noteq> None" for q
    using that old by simp
  ultimately show thesis using that [of ?s3 dir ds directory] new(3) by simp
qed

lemma task_list_append:
  assumes "task_list ts s" and "ts \<noteq> []" and "tsk \<notin> set ts" and "tsk \<noteq> 0"
    and "objs s (last ts) = Some (OTask l)" and "objs s tsk = Some (OTask t)" and "task_nxt t = 0"
    and "objs s (page_directory t) = Some (OChunk c)"
  shows "task_list (ts @ [tsk]) ((setobj tsk (OTask (t\<lparr>task_prv := last ts\<rparr>))
      (setobj (last ts) (OTask (l\<lparr>task_nxt := tsk\<rparr>)) s))\<lparr>task_tail := tsk\<rparr>)"
proof -
  let ?s = "setobj tsk (OTask (t\<lparr>task_prv := last ts\<rparr>)) (setobj (last ts) (OTask (l\<lparr>task_nxt := tsk\<rparr>)) s)"
  have lt: "last ts \<noteq> tsk" using assms(2,3) last_in_set by metis
  have cd: "page_directory t \<noteq> tsk" "page_directory t \<noteq> last ts" using assms(5,6,8) by auto
  have node: "task_node (ts @ [tsk]) i ?s" if "i < length (ts @ [tsk])" for i
  proof (cases "i = length ts")
    case True
    then show ?thesis using assms(2,7,8) cd
      by (auto simp: task_node_def link_def last_conv_nth nth_append)
  next
    case False
    then have i: "i < length ts" using that by simp
    obtain u c' where u: "objs s (ts ! i) = Some (OTask u)" "task_nxt u = link ts (Suc i)"
      "task_prv u = (if i = 0 then 0 else link ts (i - 1))" "objs s (page_directory u) = Some (OChunk c')"
      using task_listD(3) [OF assms(1) i] by (rule task_node_cases)
    have ti: "ts ! i \<noteq> tsk" using assms(3) nth_mem [OF i] by metis
    have pd: "page_directory u \<noteq> tsk" "page_directory u \<noteq> last ts" using u(4) assms(5,6) by auto
    show ?thesis
    proof (cases "Suc i = length ts")
      case last: True
      then have "ts ! i = last ts" using assms(2) by (metis diff_Suc_1 last_conv_nth)
      moreover from this u(1) assms(5) have "u = l" by simp
      ultimately show ?thesis using u i last lt pd ti
        by (auto simp: task_node_def link_def nth_append)
    next
      case nl: False
      then have "ts ! i \<noteq> last ts"
        using i nl assms(2) task_listD(1) [OF assms(1)] by (auto simp: last_conv_nth nth_eq_iff_index_eq)
      then show ?thesis using u i nl ti pd by (auto simp: task_node_def link_def nth_append)
    qed
  qed
  have cur: "current_task s \<in> set ts" by (rule task_listD(5) [OF assms(1,2)])
  show ?thesis unfolding task_list_def
  proof (intro conjI allI impI)
    show "distinct (ts @ [tsk])" "0 \<notin> set (ts @ [tsk])"
      using assms(1,3,4) by (auto simp: task_list_def)
    show "task_node (ts @ [tsk]) i (?s\<lparr>task_tail := tsk\<rparr>)" if "i < length (ts @ [tsk])" for i
      using node [OF that] by (simp add: task_node_def)
  qed (use assms(1,2) cur in \<open>simp_all add: task_list_def setobj_def\<close>)
qed

lemma task_list_first:
  assumes "tsk \<noteq> 0" and "objs s tsk = Some (OTask t)" and "task_nxt t = 0" and "task_prv t = 0"
    and "objs s (page_directory t) = Some (OChunk c)"
  shows "task_list [tsk] (s\<lparr>task_head := tsk, task_tail := tsk, current_task := tsk\<rparr>)"
  using assms by (simp add: task_list_def task_node_def link_def)

text \<open>The first half of \<^verbatim>\<open>task_new\<close>: the task is allocated and initialised, the list as it was.\<close>

definition task_made ::
  "ptr list \<Rightarrow> ('d, 'a) taskmem_scheme \<Rightarrow> ptr \<Rightarrow> ptr \<Rightarrow> u32 list \<Rightarrow> ptr \<Rightarrow> ('d, 'a) taskmem_scheme \<Rightarrow> bool" where
  "task_made ts s tsk dir ds directory s' \<longleftrightarrow> kmem_inv s' \<and> tsk \<noteq> 0 \<and> objs s tsk = None \<and> tsk \<notin> set ts \<and>
     task_list ts s' \<and> paging_chunk ds directory dir s' \<and>
     (\<forall>b \<in> chunk_blocks ds directory dir. objs s b = None \<and> b \<noteq> tsk) \<and>
     (\<forall>v. v mod 4096 = 0 \<longrightarrow> paging_get directory v s' = Some (v OR 5)) \<and>
     (\<forall>q. objs s q \<noteq> None \<longrightarrow> objs s' q = objs s q) \<and> kavail s = kavail s' + 1027 \<and>
     klive s' = insert (tsk, 1) (klive s) \<union> (\<lambda>b. (b, 1)) ` chunk_blocks ds directory dir"

lemma task_list_not_fresh:
  "task_list ts s \<Longrightarrow> objs s tsk = None \<Longrightarrow> tsk \<notin> set ts"
  by (auto simp: in_set_conv_nth task_list_def task_node_def)

lemma task_list_kept:
  assumes list: "task_list ts s" and more: "kmem.more s' = kmem.more s"
    and old: "\<forall>q. objs s q \<noteq> None \<longrightarrow> objs s' q = objs s q"
  shows "task_list ts s'"
proof (rule task_list_frame [OF list more])
  fix q t assume q: "q \<in> set ts" "objs s q = Some (OTask t)"
  then obtain j where j: "j < length ts" "q = ts ! j" by (metis in_set_conv_nth)
  obtain c where "objs s (page_directory t) = Some (OChunk c)"
    using task_listD(3) [OF list j(1)] q(2) j(2) by (auto simp: task_node_def)
  with q(2) show "objs s' q = Some (OTask t) \<and> objs s' (page_directory t) = objs s (page_directory t)"
    using old by simp
qed

lemma task_made_ok:
  assumes list: "task_list ts s" and inv: "kmem_inv s" and av: "1027 \<le> kavail s"
    and proc: "objs s proc = Some (OProcess p)"
  obtains tsk dir ds directory s1 s2 where "alloc_as 64 (OTask zero_task) s = Some (tsk, s1)"
    "task_init tsk proc s1 = Some (0, s2)" "task_made ts s tsk dir ds directory s2"
    "objs s2 tsk = Some (OTask (fresh_task dir proc))" "kmem.more s2 = kmem.more s"
proof -
  obtain tsk s1 where a: "alloc_as 64 (OTask zero_task) s = Some (tsk, s1)" "kmem_inv s1" "tsk \<noteq> 0"
    "tsk mod 4096 = 0" "objs s tsk = None" "objs s1 = (objs s)(tsk \<mapsto> OTask zero_task)"
    "klive s1 = insert (tsk, 1) (klive s)" "kavail s = Suc (kavail s1)" "kmem.more s1 = kmem.more s"
    by (rule alloc_as_fresh [OF inv, of 64 "OTask zero_task"]) (use av in simp_all)
  have "proc \<noteq> tsk" using proc a(5) by auto
  then have p1: "objs s1 proc = Some (OProcess p)" "objs s1 tsk = Some (OTask zero_task)"
    using proc a(6) by simp_all
  have av1: "1026 \<le> kavail s1" using a(8) av by simp
  obtain dir ds directory s2 where i: "task_init tsk proc s1 = Some (0, s2)" "kmem_inv s2"
    "kmem.more s2 = kmem.more s1" "new_directory s1 dir ds directory s2"
    "objs s2 tsk = Some (OTask (fresh_task dir proc))"
    "\<forall>q. q \<noteq> tsk \<longrightarrow> objs s1 q \<noteq> None \<longrightarrow> objs s2 q = objs s1 q"
    by (rule task_init_ok [OF a(2) av1 p1(2,1)])
  have old: "\<forall>q. objs s q \<noteq> None \<longrightarrow> objs s2 q = objs s q"
    using i(6) a(5,6) by (metis fun_upd_apply)
  have more: "kmem.more s2 = kmem.more s" using a(9) i(3) by simp
  have "task_made ts s tsk dir ds directory s2"
    using i(2,4) a(3,5-8) old task_list_not_fresh [OF list a(5)] task_list_kept [OF list more old]
    by (auto simp: task_made_def new_directory_def split: if_splits)
  then show thesis using that [OF a(1) i(1) _ i(5) more] by blast
qed

text \<open>
  \<^verbatim>\<open>task_new\<close> with enough memory: the task is put at the end of the list; the first task becomes
  the current one.
\<close>

lemma task_new_ok:
  assumes list: "task_list ts s" and inv: "kmem_inv s" and av: "1027 \<le> kavail s"
    and proc: "objs s proc = Some (OProcess p)"
  obtains tsk dir ds directory s1 s' where "task_new proc s = Some (tsk, s')"
    "task_made ts s tsk dir ds directory s1" "task_list (ts @ [tsk]) s'"
    "objs s' = (if ts = [] then objs s1 else (objs s1)
       (last ts \<mapsto> OTask ((the (deref as_task (last ts) s))\<lparr>task_nxt := tsk\<rparr>),
        tsk \<mapsto> OTask ((fresh_task dir proc)\<lparr>task_prv := last ts\<rparr>)))"
    "objs s1 tsk = Some (OTask (fresh_task dir proc))"
    "current_task s' = (if ts = [] then tsk else current_task s)" "kernel_heap s' = kernel_heap s1"
    "taskmem.more s' = taskmem.more s"
    "kernel_chunk s' = kernel_chunk s \<and> disk s' = disk s \<and> dev s' = dev s \<and> cr0 s' = cr0 s" "kmem_inv s'"
proof -
  obtain tsk dir ds directory s1 s2 where a: "alloc_as 64 (OTask zero_task) s = Some (tsk, s1)"
    "task_init tsk proc s1 = Some (0, s2)" and made: "task_made ts s tsk dir ds directory s2"
    and t: "objs s2 tsk = Some (OTask (fresh_task dir proc))" and more: "kmem.more s2 = kmem.more s"
    by (rule task_made_ok [OF assms])
  note fields = more_task_fields [OF more]
  have nz: "tsk \<noteq> 0" "tsk \<notin> set ts" and list2: "task_list ts s2"
    and dir: "objs s2 dir = Some (OChunk \<lparr>directory_entry = directory\<rparr>)"
    using made by (simp_all add: task_made_def paging_chunk_def)
  show thesis
  proof (cases "ts = []")
    case True
    let ?s = "s2\<lparr>task_head := tsk, task_tail := tsk, current_task := tsk\<rparr>"
    have "task_head s2 = 0" using list2 True by (simp add: task_list_def)
    then have "task_new proc s = Some (tsk, ?s)"
      using a nz by (simp add: task_new_def task_new_body_def)
    moreover have "task_list (ts @ [tsk]) ?s"
      unfolding True append_Nil by (rule task_list_first [OF nz(1) t]) (simp_all add: fresh_task_def dir)
    ultimately show thesis using True t fields made
      by (intro that [of tsk ?s dir ds directory s2]) (simp_all add: task_made_def kmem_inv_def)
  next
    case False
    have lt: "last ts \<in> set ts" "last ts \<noteq> tsk" using False nz(2) by auto
    obtain l where l0: "objs s (last ts) = Some (OTask l)"
      using list lt(1) by (auto simp: task_list_def task_node_def in_set_conv_nth)
    then have l: "objs s2 (last ts) = Some (OTask l)" using made by (simp add: task_made_def)
    have "hd ts \<noteq> 0" using task_listD(2) [OF list2] hd_in_set [OF False] by metis
    then have tl: "task_head s2 \<noteq> 0" "task_tail s2 = last ts"
      using list2 False by (auto simp: task_list_def)
    let ?s3 = "setobj (last ts) (OTask (l\<lparr>task_nxt := tsk\<rparr>)) s2"
    let ?s4 = "setobj tsk (OTask ((fresh_task dir proc)\<lparr>task_prv := last ts\<rparr>)) ?s3"
    have t3: "objs ?s3 tsk = Some (OTask (fresh_task dir proc))" "task_tail ?s3 = last ts"
      using t lt(2) tl(2) by (simp_all add: setobj_def)
    have "task_new proc s = Some (tsk, ?s4\<lparr>task_tail := tsk\<rparr>)"
      using a nz tl t3 l by (simp add: task_new_def task_new_body_def deref_def store_eq)
    moreover have "task_list (ts @ [tsk]) (?s4\<lparr>task_tail := tsk\<rparr>)"
      by (rule task_list_append [OF list2 False nz(2,1) l t]) (simp_all add: fresh_task_def dir)
    moreover have "kmem_inv ?s4"
      using made l t3(1) by (intro kmem_inv_setobj) (simp_all add: task_made_def)
    then have "kmem_inv (?s4\<lparr>task_tail := tsk\<rparr>)" by (simp add: kmem_inv_def)
    ultimately show thesis using False l0 t fields made
      by (intro that [of tsk "?s4\<lparr>task_tail := tsk\<rparr>" dir ds directory s2])
        (simp_all add: deref_def, simp_all add: setobj_def)
  qed
qed

lemma task_new_result:
  assumes "task_list ts s" and "kmem_inv s" and "1027 \<le> kavail s" and "objs s proc = Some (OProcess p)"
  obtains tsk dir t ds directory s' where "task_new proc s = Some (tsk, s')" "task_list (ts @ [tsk]) s'"
    "objs s' tsk = Some (OTask t)" "t = (fresh_task dir proc)\<lparr>task_prv := (if ts = [] then 0 else last ts)\<rparr>"
    "paging_chunk ds directory dir s'" "\<forall>v. v mod 4096 = 0 \<longrightarrow> paging_get directory v s' = Some (v OR 5)"
    "\<forall>q \<in> set ts. regs_of s' q = regs_of s q" "current_task s' = (if ts = [] then tsk else current_task s)"
    "kmem_inv s'" "taskmem.more s' = taskmem.more s"
    "kernel_chunk s' = kernel_chunk s \<and> disk s' = disk s \<and> dev s' = dev s \<and> cr0 s' = cr0 s" "objs s tsk = None"
    "tsk \<noteq> 0" "\<forall>q. q \<notin> set ts \<longrightarrow> objs s q \<noteq> None \<longrightarrow> objs s' q = objs s q"
proof -
  obtain tsk dir ds directory s1 s' where new: "task_new proc s = Some (tsk, s')"
    and made: "task_made ts s tsk dir ds directory s1" and list: "task_list (ts @ [tsk]) s'"
    and ob: "objs s' = (if ts = [] then objs s1 else (objs s1)
       (last ts \<mapsto> OTask ((the (deref as_task (last ts) s))\<lparr>task_nxt := tsk\<rparr>),
        tsk \<mapsto> OTask ((fresh_task dir proc)\<lparr>task_prv := last ts\<rparr>)))"
    and t1: "objs s1 tsk = Some (OTask (fresh_task dir proc))"
    and cur: "current_task s' = (if ts = [] then tsk else current_task s)"
    and rest: "taskmem.more s' = taskmem.more s"
      "kernel_chunk s' = kernel_chunk s \<and> disk s' = disk s \<and> dev s' = dev s \<and> cr0 s' = cr0 s" "kmem_inv s'"
    by (rule task_new_ok [OF assms])
  define t where "t = (fresh_task dir proc)\<lparr>task_prv := (if ts = [] then 0 else last ts)\<rparr>"
  have t: "objs s' tsk = Some (OTask t)" using ob t1 by (simp add: t_def fresh_task_def)
  have task_obj: "\<exists>t. objs s q = Some (OTask t)" if "q \<in> set ts" for q
    using that assms(1) by (auto simp: task_list_def task_node_def in_set_conv_nth)
  have m: "tsk \<noteq> 0" "objs s tsk = None" "paging_chunk ds directory dir s1"
    "\<forall>b \<in> chunk_blocks ds directory dir. objs s b = None \<and> b \<noteq> tsk"
    "\<forall>q. objs s q \<noteq> None \<longrightarrow> objs s1 q = objs s q"
    "\<forall>v. v mod 4096 = 0 \<longrightarrow> paging_get directory v s1 = Some (v OR 5)"
    using made by (simp_all add: task_made_def)
  have blocks: "objs s' b = objs s1 b" if "b \<in> chunk_blocks ds directory dir" for b
  proof -
    have b: "objs s b = None" "b \<noteq> tsk" using m(4) that by simp_all
    then have "ts \<noteq> [] \<Longrightarrow> b \<noteq> last ts" using task_obj [of "last ts"] by auto
    with b(2) show ?thesis by (simp add: ob)
  qed
  have dir: "paging_chunk ds directory dir s'"
    "v mod 4096 = 0 \<Longrightarrow> paging_get directory v s' = paging_get directory v s1" for v
    by (rule paging_frame(1) [OF m(3)], erule blocks, rule paging_frame(2) [OF m(3)], erule blocks)
  have regs: "regs_of s' q = regs_of s q" if q: "q \<in> set ts" for q
  proof -
    obtain u where u: "objs s q = Some (OTask u)" using task_obj [OF q] by blast
    then have "objs s1 q = Some (OTask u)" "q \<noteq> tsk" using m(2,5) by auto
    then show ?thesis using u q by (auto simp: ob regs_of_def deref_def)
  qed
  have other: "objs s' q = objs s q" if "q \<notin> set ts" "objs s q \<noteq> None" for q
    using that m(2,5) by (auto simp: ob)
  show thesis
    by (rule that [OF new list t t_def dir(1)]) (use dir(2) m regs cur rest other in simp_all)
qed

section \<open>Releasing tasks\<close>

text \<open>Releasing a directory removes objects and changes none.\<close>

definition only_removed :: "'a kmem_scheme \<Rightarrow> 'a kmem_scheme \<Rightarrow> bool" where
  "only_removed s s' \<longleftrightarrow> (\<forall>p. objs s' p = None \<or> objs s' p = objs s p)"

lemma kfree_only_removed: "kfree p s = Some s' \<Longrightarrow> only_removed s s'"
  by (auto simp: kfree_Some_iff only_removed_def)

lemma only_removed_trans: "only_removed s t \<Longrightarrow> only_removed t u \<Longrightarrow> only_removed s u"
  by (metis only_removed_def)

lemma only_removed_refl [simp]: "only_removed s s"
  by (simp add: only_removed_def)

lemma paging_free_only_removed:
  assumes "paging_free_4gb chunk s = Some s'"
  shows "only_removed s s'"
proof -
  obtain s1 s2 and c :: paging_4gb_chunk where loop: "for_range 0 1024 (\<lambda>i s. do {
            c \<leftarrow> deref as_chunk chunk s; d \<leftarrow> deref as_words (directory_entry c) s;
            entry \<leftarrow> aget d i; kfree (entry AND 0xfffff000) s }) s = Some s1"
    and fr: "kfree (directory_entry c) s1 = Some s2" "kfree chunk s2 = Some s'"
    using assms unfolding paging_free_4gb_def Option.bind_eq_Some_conv by blast
  have "only_removed s s1"
    by (rule for_range_inv [OF loop, where P = "\<lambda>_. only_removed s"])
      (auto split: Option.bind_splits intro: only_removed_trans kfree_only_removed)
  then show ?thesis using fr by (metis kfree_only_removed only_removed_trans)
qed

lemma task_list_remove_head:
  assumes "deref as_task a s = Some t" and "task_prv t = 0" and "task_list_remove a s = Some s'"
  shows "objs s' = objs s"
  using assms by (auto simp: task_list_remove_def split: Option.bind_splits if_splits)

text \<open>
  \<^verbatim>\<open>task_list_remove\<close> does not repair the \<^verbatim>\<open>prev\<close> pointer of the next task: once the head is
  released, releasing the new head follows a pointer to the released task.
\<close>

lemma task_free_twice:
  assumes list: "task_list (a # b # ts) s" and free: "task_free a s = Some (res, s1)"
  shows "task_free b s1 = None"
proof -
  obtain ta tb where ta: "objs s a = Some (OTask ta)" "task_prv ta = 0"
    and tb: "objs s b = Some (OTask tb)" "task_prv tb = a" "a \<noteq> 0"
    using task_listD(2) [OF list] task_listD(3) [OF list, of 0] task_listD(3) [OF list, of 1]
    by (auto simp: task_node_def link_def)
  obtain u v where f: "paging_free_4gb (page_directory ta) s = Some u" "task_list_remove a u = Some v"
    "kfree a v = Some s1"
    using free ta by (auto simp: task_free_def deref_def split: Option.bind_splits)
  have u: "only_removed s u" by (rule paging_free_only_removed [OF f(1)])
  have "objs u a \<noteq> None" using f(2) by (cases "objs u a") (auto simp: task_list_remove_def deref_def)
  then have "objs u a = objs s a" using u by (metis only_removed_def)
  then have "objs v = objs u" using ta f(2) by (intro task_list_remove_head) (simp_all add: deref_def)
  then have v: "only_removed s s1" using u kfree_only_removed [OF f(3)] by (metis only_removed_def)
  have gone: "objs s1 a = None" using f(3) by (auto simp: kfree_Some_iff)
  have "task_list_remove b w = None" if w: "only_removed s1 w" for w
  proof -
    have "objs w a = None" "objs w b = None \<or> objs w b = Some (OTask tb)"
      using w v gone tb(1) by (metis only_removed_def)+
    then show ?thesis using tb by (cases "objs w b") (auto simp: task_list_remove_def deref_def)
  qed
  note stuck = this [OF paging_free_only_removed]
  show ?thesis
  proof (cases "deref as_task b s1")
    case None
    then show ?thesis by (simp add: task_free_def)
  next
    case (Some t)
    then show ?thesis using stuck
      by (cases "paging_free_4gb (page_directory t) s1") (simp_all add: task_free_def)
  qed
qed

text \<open>A head task that owns its directory can be released.\<close>

lemma task_free_head:
  assumes list: "task_list (a # b # ts) s" and inv: "kmem_inv s" and t: "objs s a = Some (OTask t)"
    and ch: "paging_chunk ds directory (page_directory t) s"
    and own: "(\<lambda>x. (x, 1)) ` chunk_blocks ds directory (page_directory t) \<subseteq> klive s" "(a, 1) \<in> klive s"
  obtains s' where "task_free a s = Some (0, s')"
proof -
  obtain u where u: "paging_free_4gb (page_directory t) s = Some u" "kmem_inv u"
    "objs u = objs s |` (- chunk_blocks ds directory (page_directory t))"
    "klive u = klive s - (\<lambda>x. (x, 1)) ` chunk_blocks ds directory (page_directory t)"
    "kmem.more u = kmem.more s"
    by (rule free_4gb_ok [OF inv ch own(1)])
  have "a \<notin> chunk_blocks ds directory (page_directory t)"
    using t ch by (auto simp: chunk_blocks_def paging_chunk_def paging_dir_def)
  then have a: "objs u a = Some (OTask t)" "(a, 1) \<in> klive u" using u(3,4) t own(2) by auto
  have prv: "task_prv t = 0" using task_listD(3) [OF list, of 0] t by (auto simp: task_node_def)
  have "\<exists>v. task_list_remove a u = Some v \<and> kernel_heap v = kernel_heap u \<and> objs v = objs u"
    using a(1) prv by (auto simp: task_list_remove_def deref_def task_get_next_def)
  then obtain v where v: "task_list_remove a u = Some v" "kernel_heap v = kernel_heap u" "objs v = objs u"
    by blast
  have vv: "kmem_inv v" "(a, 1) \<in> klive v" using u(2) a(2) v by (simp_all add: kmem_inv_def)
  obtain s' where "kfree a v = Some s'" by (rule kfree_live [OF vv])
  then have "task_free a s = Some (0, s')" using t u(1) v(1) by (simp add: task_free_def deref_def)
  then show thesis by (rule that)
qed

section \<open>Sample states\<close>

definition sample_taskmem :: "'d \<Rightarrow> nat \<Rightarrow> ('d, unit) taskmem_scheme" where
  "sample_taskmem d n = \<lparr>kernel_heap = sample_heap (replicate n Free), objs = \<lambda>_. None,
     current_directory = 0, cr3 = 0, cr0 = 0,
     disk = \<lparr>dk_type = 0, dk_sector_size = 512, dk_id = 0, dk_filesystem = NullFs, dk_fs_private = 0\<rparr>,
     dev = d, filesystems = replicate 12 NullFs, file_descriptors = replicate 512 0,
     current_task = 0, task_tail = 0, task_head = 0, kernel_chunk = 0, data_segments = 0x10\<rparr>"

lemma sample_taskmem_ok:
  "n \<le> 100000 \<Longrightarrow> kmem_inv (sample_taskmem d n)" "n \<le> 100000 \<Longrightarrow> kavail (sample_taskmem d n) = n"
  "task_list [] (sample_taskmem d n)"
  using sample_kmem_inv [of n] by (simp_all add: sample_taskmem_def sample_kmem_def kmem_inv_def task_list_def)

text \<open>A state with one process object and \<open>n\<close> blocks left, and no task.\<close>

lemma sample_process_state:
  assumes "n < 100000"
  obtains s :: "(unit, unit) taskmem_scheme" and proc p where "kmem_inv s" "kavail s = n" "task_list [] s"
    "objs s proc = Some (OProcess p)"
proof -
  define p where "p = \<lparr>pr_id = 0, pr_filename = [], pr_task = 0, pr_filetype = 0, pr_ptr = 0,
    pr_stack = 0, pr_size = 0\<rparr>"
  let ?s = "sample_taskmem () (Suc n)"
  have s: "kmem_inv ?s" "0 < kavail ?s" using sample_taskmem_ok(1,2) [of "Suc n" "()"] assms by simp_all
  obtain q s' where *: "kmem_inv s'" "objs s' = (objs ?s)(q \<mapsto> OProcess p)"
    "kavail ?s = Suc (kavail s')" "kmem.more s' = kmem.more ?s"
    by (rule alloc_as_fresh [OF s, of 64 "OProcess p"]) simp_all
  have "task_list [] s'"
    by (rule task_list_kept [OF sample_taskmem_ok(3) *(4)]) (simp add: *(2) sample_taskmem_def)
  moreover have "kavail s' = n" using *(3) sample_taskmem_ok(2) [of "Suc n" "()"] assms by simp
  ultimately show thesis using that [OF *(1), of q p] *(2) by simp
qed

section \<open>Properties\<close>

text \<open>
  C22. With 1027 free blocks \<^verbatim>\<open>task_new\<close> puts a new task at the end of the task list and leaves the
  list well formed; the task starts at 0x400000 in user mode with its stack at 0x3FF000, on an
  address space of its own that maps every page to itself; the registers of every other task and
  the current task, if there is one, stay.
\<close>

theorem task_new_appends:
  assumes "task_list ts s" and "kmem_inv s" and "1027 \<le> heap_avail (kernel_heap s)"
    and "objs s proc = Some (OProcess p)"
  shows "\<exists>tsk t ds directory s'. task_new proc s = Some (tsk, s') \<and> task_list (ts @ [tsk]) s' \<and>
    objs s' tsk = Some (OTask t) \<and> task_process t = proc \<and>
    r_ip (task_registers t) = 0x400000 \<and> r_cs (task_registers t) = 0x1b \<and>
    r_ss (task_registers t) = 0x23 \<and> r_esp (task_registers t) = 0x3FF000 \<and>
    paging_chunk ds directory (page_directory t) s' \<and>
    (\<forall>v. v mod 4096 = 0 \<longrightarrow> paging_get directory v s' = Some (v OR 5)) \<and>
    (\<forall>q \<in> set ts. regs_of s' q = regs_of s q) \<and>
    current_task s' = (if ts = [] then tsk else current_task s)"
proof -
  obtain tsk dir t ds directory s' where *: "task_new proc s = Some (tsk, s')" "task_list (ts @ [tsk]) s'"
    "objs s' tsk = Some (OTask t)" "t = (fresh_task dir proc)\<lparr>task_prv := (if ts = [] then 0 else last ts)\<rparr>"
    "paging_chunk ds directory dir s'" "\<forall>v. v mod 4096 = 0 \<longrightarrow> paging_get directory v s' = Some (v OR 5)"
    "\<forall>q \<in> set ts. regs_of s' q = regs_of s q" "current_task s' = (if ts = [] then tsk else current_task s)"
    by (rule task_new_result [OF assms])
  then show ?thesis
    by (intro exI [of _ tsk] exI [of _ t] exI [of _ ds] exI [of _ directory] exI [of _ s'] conjI)
      (simp_all add: fresh_task_def)
qed

lemma task_new_appends_witness:
  "\<exists>(s :: (unit, unit) taskmem_scheme) proc tsk s'. task_new proc s = Some (tsk, s') \<and> task_list [tsk] s'"
proof -
  obtain s :: "(unit, unit) taskmem_scheme" and proc p where "kmem_inv s" "kavail s = 1027"
    "task_list [] s" "objs s proc = Some (OProcess p)"
    by (rule sample_process_state [of 1027]) simp_all
  then show ?thesis using task_new_appends [of "[]" s proc p] by fastforce
qed

text \<open>
  C28. Releasing the tasks of the list in their order is undefined behaviour: \<^verbatim>\<open>task_list_remove\<close>
  leaves the \<^verbatim>\<open>prev\<close> pointer of the following task on the released one, and the next
  \<^verbatim>\<open>task_free\<close> writes through it.
\<close>

theorem task_free_dangles:
  assumes "task_list (a # b # ts) s" and "task_free a s = Some (res, s')"
  shows "task_free b s' = None"
  using assms by (rule task_free_twice)

lemma task_free_dangles_witness:
  "\<exists>(s :: (unit, unit) taskmem_scheme) a b s'. task_free a s = Some (0, s') \<and> task_free b s' = None"
proof -
  obtain s0 :: "(unit, unit) taskmem_scheme" and proc p where s0: "task_list [] s0" "kmem_inv s0"
    "1027 \<le> kavail s0" "objs s0 proc = Some (OProcess p)" and av: "kavail s0 = 2054"
    by (rule sample_process_state [of 2054]) simp_all
  obtain a dir ds directory s1 s1' where new1: "task_new proc s0 = Some (a, s1')"
    and m1: "task_made [] s0 a dir ds directory s1" "task_list [a] s1'" "objs s1' = objs s1"
      "objs s1 a = Some (OTask (fresh_task dir proc))" "kernel_heap s1' = kernel_heap s1" "kmem_inv s1'"
    by (rule task_new_ok [OF s0]) simp_all
  have s1: "task_list [a] s1'" "kmem_inv s1'" "1027 \<le> kavail s1'" "objs s1' proc = Some (OProcess p)"
    using m1 av s0(4) by (simp_all add: task_made_def)
  obtain b dir2 ds2 directory2 s2 and s2' :: "(unit, unit) taskmem_scheme" where m2: "task_made [a] s1' b dir2 ds2 directory2 s2"
    "task_list ([a] @ [b]) s2'"
    and ob: "objs s2' = (if [a] = [] then objs s2 else (objs s2)
       (last [a] \<mapsto> OTask ((the (deref as_task (last [a]) s1'))\<lparr>task_nxt := b\<rparr>),
        b \<mapsto> OTask ((fresh_task dir2 proc)\<lparr>task_prv := last [a]\<rparr>)))"
    and kh: "kernel_heap s2' = kernel_heap s2" and inv: "kmem_inv s2'"
    by (rule task_new_ok [OF s1])
  let ?t = "(fresh_task dir proc)\<lparr>task_nxt := b\<rparr>"
  have ab: "a \<noteq> b" using m2(2) by (simp add: task_list_def)
  have t: "objs s2' a = Some (OTask ?t)" using ob m1(3,4) ab by (simp add: deref_def)
  have blocks: "objs s2' x = objs s1 x" if "x \<in> chunk_blocks ds directory dir" for x
  proof -
    have "x \<noteq> a" "objs s1 x \<noteq> None" using m1(1) that
      by (auto simp: task_made_def chunk_blocks_def paging_chunk_def paging_dir_def)
    with m1(3) m2(1) ob show ?thesis by (auto simp: task_made_def)
  qed
  have ch: "paging_chunk ds directory (page_directory ?t) s2'"
    using paging_frame(1) [of ds directory dir s1 s2'] blocks m1(1) by (simp add: task_made_def fresh_task_def)
  have own: "(\<lambda>x. (x, 1)) ` chunk_blocks ds directory (page_directory ?t) \<subseteq> klive s2'" "(a, 1) \<in> klive s2'"
    using m1(1,5) m2(1) kh by (auto simp: task_made_def fresh_task_def)
  have list: "task_list (a # b # []) s2'" using m2(2) by simp
  obtain s' where "task_free a s2' = Some (0, s')" by (rule task_free_head [OF list inv t ch own])
  with task_free_dangles [OF list this] show ?thesis by blast
qed

end
