(* ===== verification/Process_Props.thy ===== *)
theory Process_Props
  imports Process Task_List Heap_Room
begin

text \<open>
  What the process layer does: mapping the memory of a process and loading a process, which
  composes the kernel heap, the task list and the page directories.
\<close>

section \<open>Mapping\<close>

lemma paging_rest_more: "paging_rest ds s' = paging_rest ds s \<Longrightarrow> kmem.more s' = kmem.more s"
  by (cases s; cases s') (simp add: paging_rest_def)

lemma paging_rest_inv:
  assumes "paging_rest ds s' = paging_rest ds s" and "paging_dir ds directory s" "paging_dir ds directory s'"
    and "kmem_inv s"
  shows "kmem_inv s'"
proof -
  have "objs s' p \<noteq> None \<longleftrightarrow> objs s p \<noteq> None" for p
  proof (cases "p \<in> table_of ` set ds")
    case True
    then show ?thesis using assms(2,3) by (auto simp: paging_dir_def)
  next
    case False
    then show ?thesis using paging_rest_objs [OF assms(1)] by simp
  qed
  then show ?thesis using assms(4) paging_rest_kernel_heap [OF assms(1)] by (simp add: kmem_inv_def)
qed

text \<open>The stack of a process: 16384 bytes below 0x3FF000, writable.\<close>

definition stack_mapped :: "ptr \<Rightarrow> ptr \<Rightarrow> 'a kmem_scheme \<Rightarrow> bool" where
  "stack_mapped directory stack s \<longleftrightarrow> (\<forall>w. w mod 4096 = 0 \<longrightarrow> paging_get directory w s =
     Some (if unat (w - 0x3FB000) < 16384 then (stack + (w - 0x3FB000)) OR 7 else w OR 5))"

lemma process_map_memory_ok:
  assumes p: "objs s proc = Some (OProcess p)" "pr_filetype p = 0"
    and t: "objs s (pr_task p) = Some (OTask t)"
    and ch: "paging_chunk ds directory (page_directory t) s"
    and get: "\<forall>v. v mod 4096 = 0 \<longrightarrow> paging_get directory v s = Some (v OR 5)"
    and st: "pr_stack p mod 4096 = 0" "unat (pr_stack p) + 16384 < 2147483648"
  obtains s' where "process_map_memory proc s = Some (0, s')" "paging_chunk ds directory (page_directory t) s'"
    "paging_rest ds s' = paging_rest ds s" "stack_mapped directory (pr_stack p) s'"
proof -
  let ?e = "pr_stack p + 16384"
  have u: "unat ?e = unat (pr_stack p) + 16384" using st(2) by (simp add: unat_word_ariths)
  have e: "?e mod 4096 = 0" using st(1) u by (simp add: mod_page_zero_iff mod_add_eq [symmetric])
  then have al: "paging_align_address ?e = ?e" by (simp add: paging_align_address_def)
  have le: "pr_stack p \<le> ?e" using u by (simp add: word_le_nat_alt)
  have virt: "(0x3FB000 :: u32) mod 4096 = 0" by simp
  from map_to_ok [OF ch virt st(1) e le, of 7] obtain s' where
    m: "paging_map_to (page_directory t) 0x3FB000 (pr_stack p) ?e 7 s = Some (0, s')"
      "paging_chunk ds directory (page_directory t) s'" "paging_rest ds s' = paging_rest ds s"
      "\<forall>w. w mod 4096 = 0 \<longrightarrow> paging_get directory w s' =
        (if unat (w - 0x3FB000) < unat ?e - unat (pr_stack p)
         then Some ((pr_stack p + (w - 0x3FB000)) OR word_of_int 7) else paging_get directory w s)"
    by blast
  have "stack_mapped directory (pr_stack p) s'" using m(4) get u by (simp add: stack_mapped_def)
  moreover have "process_map_memory proc s = Some (0, s')"
    using p t m(1) al by (simp add: process_map_memory_def process_map_elf_def deref_def)
  ultimately show thesis using that m(2,3) by blast
qed

section \<open>Loading\<close>

text \<open>The process object when \<^verbatim>\<open>task_new\<close> is called, given its slot, name and stack.\<close>

definition new_process :: "nat \<Rightarrow> u8 list \<Rightarrow> ptr \<Rightarrow> process" where
  "new_process slot name stack = zero_process\<lparr>pr_stack := stack, pr_filename := name, pr_id := of_nat slot\<rparr>"

definition stored_name :: "u8 list \<Rightarrow> u8 list" where
  "stored_name filename = (let n = take 107 (cstr filename) in n @ replicate (108 - length n) 0)"

lemma strncpy_stored_name:
  assumes "0 \<in> set filename"
  shows "strncpy (replicate 108 0) filename 108 = Some (stored_name filename)"
proof -
  define l where "l = min 107 (length (cstr filename))"
  define n where "n = take 107 (cstr filename)"
  have "take (length (cstr filename)) filename = cstr filename"
    unfolding cstr_def by (rule takeWhile_eq_take [symmetric])
  then have "n = take 107 (take (length (cstr filename)) filename)" by (simp only: n_def)
  then have n: "take l filename = n" by (simp only: take_take l_def)
  have len: "length n = l" by (simp only: n_def l_def length_take min.commute)
  have "strncpy (replicate 108 0) filename 108 = Some (take l filename @ 0 # drop (Suc l) (replicate 108 0))"
  proof (rule strncpy_eq)
    show "nat 108 \<le> length (replicate 108 (0 :: u8))" by (simp only: length_replicate)
    show "0 \<in> set filename \<or> nat 108 \<le> length filename" using assms by (rule disjI1)
    show "l = min (nat (108 - 1)) (length (cstr filename))" unfolding l_def by (rule arg_cong) simp
  qed simp
  also have "0 # drop (Suc l) (replicate 108 0) = replicate (Suc (108 - Suc l)) (0 :: u8)"
    by (simp only: drop_replicate replicate_Suc)
  also have "Suc (108 - Suc l) = 108 - length n" unfolding len l_def by linarith
  finally show ?thesis by (simp only: n stored_name_def n_def [symmetric] Let_def)
qed

text \<open>
  The first half of \<^verbatim>\<open>process_load_for_slot\<close>: the process object and its stack are allocated; then
  the task is made and the stack mapped.
\<close>

lemma process_objects:
  assumes inv: "kmem_inv s" and room: "7 \<le> kroom s"
  obtains proc stack s1 s2 where "kzalloc sizeof_process s = Some (proc, s1)"
    "kzalloc 16384 (setobj proc x s1) = Some (stack, s2)" "proc \<noteq> 0" "stack \<noteq> 0" "stack \<noteq> proc"
    "objs s1 proc \<noteq> None" "kmem_inv s2" "objs s2 proc = Some x" "stack mod 4096 = 0"
    "unat stack + 16384 < 2147483648" "objs s proc = None" "objs s stack = None"
    "\<forall>q. objs s q \<noteq> None \<longrightarrow> objs s2 q = objs s q" "kroom s \<le> kroom s2 + 7" "kmem.more s2 = kmem.more s"
proof -
  have b: "blocks_for sizeof_process = 3" "blocks_for 16384 = 4" by (simp_all add: blocks_for_def)
  obtain proc s1 where a: "kzalloc sizeof_process s = Some (proc, s1)" "kmem_inv s1" "proc \<noteq> 0"
    "objs s proc = None" "objs s1 = (objs s)(proc \<mapsto> OBytes (replicate (unat sizeof_process) 0))"
    "kroom s \<le> kroom s1 + 3" "kmem.more s1 = kmem.more s"
    by (rule alloc_in_room [OF inv, of sizeof_process "OBytes (replicate (unat sizeof_process) 0)"])
      (use room b in \<open>simp_all only: kzalloc_bytes, simp_all\<close>)
  let ?s = "setobj proc x s1"
  have inv1: "kmem_inv ?s" using a(2,5) by (intro kmem_inv_setobj) simp_all
  have room1: "blocks_for 16384 \<le> kroom ?s" using a(6) room b by simp
  obtain stack s2 where c: "kzalloc 16384 ?s = Some (stack, s2)" "kmem_inv s2" "stack \<noteq> 0"
    "objs ?s stack = None" "objs s2 = (objs ?s)(stack \<mapsto> OBytes (replicate (unat (16384 :: u32)) 0))"
    "klive s2 = insert (stack, 4) (klive ?s)" "kroom ?s \<le> kroom s2 + 4" "kmem.more s2 = kmem.more ?s"
    by (rule alloc_in_room [OF inv1 _ _ room1, of "OBytes (replicate (unat (16384 :: u32)) 0)"])
      (use b in \<open>simp_all only: kzalloc_bytes, simp_all\<close>)
  have live: "(stack, 4) \<in> klive s2" using c(6) by simp
  have "heap_inv (kernel_heap s2)" using c(2) by (simp add: kmem_inv_def)
  note g = heap_live_geometry(1,6) [OF this live]
  have ne: "stack \<noteq> proc" using c(4) a(5) by auto
  show thesis
    by (rule that [OF a(1) c(1) a(3) c(3) ne _ c(2) _ g(1)])
      (use a c ne g(2) in \<open>auto split: if_splits\<close>)
qed

lemma more_proc_fields:
  "kmem.more s' = kmem.more s \<Longrightarrow> processes s' = processes s"
  "taskmem.more s' = taskmem.more s \<Longrightarrow> processes s' = processes s"
  by (cases s; cases s'; simp)+

text \<open>The calls of \<^verbatim>\<open>process_load_for_slot\<close> up to \<^verbatim>\<open>task_new\<close>.\<close>

lemma process_load_body_eq:
  assumes "objs s1 proc \<noteq> None" and "0 \<in> set filename"
    and "kzalloc 16384 (setobj proc (OProcess zero_process) s1) = Some (stack, s2)" and "stack \<noteq> 0"
    and "objs s2 proc = Some (OProcess zero_process)"
  shows "process_load_body fs filename out (int slot) proc s1 =
    (let s3 = setobj proc (OProcess (new_process slot (stored_name filename) stack)) s2 in do {
       (tsk, s) \<leftarrow> task_new proc s3;
       p \<leftarrow> deref as_process proc s;
       s \<leftarrow> store proc (OProcess (p\<lparr>pr_task := tsk\<rparr>)) s;
       if int_of_u32 tsk = 0 then do {
         p \<leftarrow> deref as_process proc s;
         s \<leftarrow> store proc (OProcess (p\<lparr>pr_task := 0\<rparr>)) s;
         Some (int_of_u32 tsk, out, s) }
       else do {
         (res, s) \<leftarrow> process_map_memory proc s;
         if res < 0 then Some (res, out, s)
         else do {
           l \<leftarrow> aset_i (processes s) (int slot) proc;
           Some (res, proc, s\<lparr>processes := l\<rparr>) } } })"
proof -
  obtain y where y: "objs s1 proc = Some y" using assms(1) by blast
  have nm: "strncpy (pr_filename zero_process) filename (int 108) = Some (stored_name filename)"
    using strncpy_stored_name [OF assms(2)] by (simp add: zero_process_def)
  have w: "word_of_int (int slot) = (of_nat slot :: u16)" by simp
  show ?thesis
    unfolding process_load_body_def process_init_def store_eq [OF y]
    using assms(3-5) nm
    by (simp add: process_load_data_def process_load_elf_def deref_def store_eq new_process_def Let_def)
qed

text \<open>The second half: the task is appended and the stack mapped.\<close>

definition loaded ::
  "ptr list \<Rightarrow> nat \<Rightarrow> u8 list \<Rightarrow> ptr \<Rightarrow> ('d, 'a) procmem_scheme \<Rightarrow> ('d, 'a) procmem_scheme \<Rightarrow> bool" where
  "loaded ts i filename proc s s' \<longleftrightarrow> kmem_inv s' \<and> objs s proc = None \<and> proc \<noteq> 0 \<and>
     processes s' = (processes s)[i := proc] \<and>
     (\<exists>tsk t stack directory.
        objs s' proc = Some (OProcess (new_process i (stored_name filename) stack\<lparr>pr_task := tsk\<rparr>)) \<and>
        task_list (ts @ [tsk]) s' \<and> objs s' tsk = Some (OTask t) \<and> task_process t = proc \<and>
        r_ip (task_registers t) = 0x400000 \<and> r_esp (task_registers t) = 0x3FF000 \<and>
        r_ss (task_registers t) = 0x23 \<and> r_cs (task_registers t) = 0x1b \<and>
        objs s' (page_directory t) = Some (OChunk \<lparr>directory_entry = directory\<rparr>) \<and>
        stack_mapped directory stack s' \<and> current_task s' = (if ts = [] then tsk else current_task s)) \<and>
     kernel_chunk s' = kernel_chunk s \<and> disk s' = disk s \<and> dev s' = dev s \<and> cr0 s' = cr0 s \<and> procmem.more s' = procmem.more s \<and>
     (\<forall>q x. objs s q = Some x \<longrightarrow> q \<notin> set ts \<longrightarrow> (\<forall>ws. x \<noteq> OWords ws) \<longrightarrow> objs s' q = Some x)"

lemma task_list_directory:
  assumes "task_list ts s" and "q \<in> set ts" and "objs s q = Some (OTask t)"
  obtains c where "objs s (page_directory t) = Some (OChunk c)"
proof -
  obtain j where j: "j < length ts" "q = ts ! j" using assms(2) by (metis in_set_conv_nth)
  with task_listD(3) [OF assms(1) j(1)] assms(3) show thesis by (auto simp: task_node_def intro: that)
qed

lemma task_list_setproc:
  assumes "task_list ts s" and "objs s proc = Some (OProcess p)"
  shows "task_list ts (setobj proc x s)"
proof (rule task_list_frame [OF assms(1)])
  fix q t assume q: "q \<in> set ts" "objs s q = Some (OTask t)"
  obtain c where "objs s (page_directory t) = Some (OChunk c)"
    by (rule task_list_directory [OF assms(1) q])
  with q(2) assms(2) show "objs (setobj proc x s) q = Some (OTask t) \<and>
      objs (setobj proc x s) (page_directory t) = objs s (page_directory t)" by auto
qed simp

lemma task_list_rest:
  assumes list: "task_list ts s" and ch: "paging_chunk ds directory dir s"
    and rest: "paging_rest ds s' = paging_rest ds s"
  shows "task_list ts s'"
proof (rule task_list_frame [OF list paging_rest_more [OF rest]])
  have words: "\<exists>ws. objs s q = Some (OWords ws)" if "q \<in> table_of ` set ds" for q
    using ch that by (auto simp: paging_chunk_def paging_dir_def)
  fix q t assume q: "q \<in> set ts" "objs s q = Some (OTask t)"
  obtain c where c: "objs s (page_directory t) = Some (OChunk c)" by (rule task_list_directory [OF list q])
  have "q \<notin> table_of ` set ds" "page_directory t \<notin> table_of ` set ds"
    using words [of q] words [of "page_directory t"] q(2) c by auto
  then show "objs s' q = Some (OTask t) \<and> objs s' (page_directory t) = objs s (page_directory t)"
    using paging_rest_objs [OF rest] q(2) by simp
qed

lemma process_task_mapped:
  assumes s: "task_list ts s" "kmem_inv s" "1027 \<le> kavail s" "objs s proc = Some (OProcess p)"
    and pt: "proc \<notin> set ts"
    and p: "pr_filetype p = 0" "pr_stack p mod 4096 = 0" "unat (pr_stack p) + 16384 < 2147483648"
  obtains tsk t directory s4 s6 where "task_new proc s = Some (tsk, s4)" "tsk \<noteq> 0"
    "objs s4 proc = Some (OProcess p)"
    "process_map_memory proc (setobj proc (OProcess (p\<lparr>pr_task := tsk\<rparr>)) s4) = Some (0, s6)"
    "kmem_inv s6" "task_list (ts @ [tsk]) s6" "objs s6 proc = Some (OProcess (p\<lparr>pr_task := tsk\<rparr>))"
    "objs s6 tsk = Some (OTask t)"
    "t = (fresh_task (page_directory t) proc)\<lparr>task_prv := (if ts = [] then 0 else last ts)\<rparr>"
    "objs s6 (page_directory t) = Some (OChunk \<lparr>directory_entry = directory\<rparr>)"
    "stack_mapped directory (pr_stack p) s6" "current_task s6 = (if ts = [] then tsk else current_task s)"
    "taskmem.more s6 = taskmem.more s"
    "kernel_chunk s6 = kernel_chunk s \<and> disk s6 = disk s \<and> dev s6 = dev s \<and> cr0 s6 = cr0 s"
    "\<forall>q x. objs s q = Some x \<longrightarrow> q \<notin> set ts \<longrightarrow> q \<noteq> proc \<longrightarrow> (\<forall>ws. x \<noteq> OWords ws) \<longrightarrow> objs s6 q = Some x"
proof -
  obtain tsk dir t ds directory s4 where new: "task_new proc s = Some (tsk, s4)"
    and list4: "task_list (ts @ [tsk]) s4" and t4: "objs s4 tsk = Some (OTask t)"
    and t: "t = (fresh_task dir proc)\<lparr>task_prv := (if ts = [] then 0 else last ts)\<rparr>"
    and ch4: "paging_chunk ds directory dir s4"
    and get4: "\<forall>v. v mod 4096 = 0 \<longrightarrow> paging_get directory v s4 = Some (v OR 5)"
    and cur: "current_task s4 = (if ts = [] then tsk else current_task s)"
    and rest4: "kmem_inv s4" "taskmem.more s4 = taskmem.more s" "kernel_chunk s4 = kernel_chunk s \<and> disk s4 = disk s \<and> dev s4 = dev s \<and> cr0 s4 = cr0 s"
    and nz: "tsk \<noteq> 0" and other: "\<forall>q. q \<notin> set ts \<longrightarrow> objs s q \<noteq> None \<longrightarrow> objs s4 q = objs s q"
    by (rule task_new_result [OF s])
  have p4: "objs s4 proc = Some (OProcess p)" using other s(4) pt by simp
  let ?s5 = "setobj proc (OProcess (p\<lparr>pr_task := tsk\<rparr>)) s4"
  have tp: "tsk \<noteq> proc" "proc \<notin> chunk_blocks ds directory dir"
    using t4 p4 ch4 by (auto simp: chunk_blocks_def paging_chunk_def paging_dir_def)
  have pd: "page_directory t = dir" by (simp add: t fresh_task_def)
  have b5: "objs ?s5 b = objs s4 b" if "b \<in> chunk_blocks ds directory dir" for b using that tp(2) by auto
  have ch5: "paging_chunk ds directory (page_directory t) ?s5"
    unfolding pd by (rule paging_frame(1) [OF ch4]) (erule b5)
  have get5: "\<forall>v. v mod 4096 = 0 \<longrightarrow> paging_get directory v ?s5 = Some (v OR 5)"
    using paging_frame(2) [OF ch4 b5] get4 by simp
  obtain s6 where m: "process_map_memory proc ?s5 = Some (0, s6)"
    "paging_chunk ds directory (page_directory t) s6" "paging_rest ds s6 = paging_rest ds ?s5"
    "stack_mapped directory (pr_stack (p\<lparr>pr_task := tsk\<rparr>)) s6"
    by (rule process_map_memory_ok [of ?s5 proc "p\<lparr>pr_task := tsk\<rparr>" t ds directory])
      (use ch5 get5 t4 tp p in simp_all)
  have keep: "objs s6 q = objs ?s5 q" if "\<forall>ws. objs ?s5 q \<noteq> Some (OWords ws)" for q
  proof (rule paging_rest_objs [OF m(3)], rule notI)
    assume "q \<in> table_of ` set ds"
    with ch5 that show False by (auto simp: paging_chunk_def paging_dir_def)
  qed
  have more: "kmem.more s6 = kmem.more s4" using paging_rest_more [OF m(3)] by simp
  note f = more_task_fields [OF more]
  have "kmem_inv s6"
    using ch5 m(2) kmem_inv_setobj [OF rest4(1)] p4
    by (intro paging_rest_inv [OF m(3), where directory = directory]) (simp_all add: paging_chunk_def)
  moreover have "task_list (ts @ [tsk]) s6"
    by (rule task_list_rest [OF task_list_setproc [OF list4 p4] ch5 m(3)])
  moreover have "objs s6 q = Some x"
    if "objs s q = Some x" "q \<notin> set ts" "q \<noteq> proc" "\<forall>ws. x \<noteq> OWords ws" for q x
    using keep [of q] other that by simp
  moreover have tt: "t = (fresh_task (page_directory t) proc)\<lparr>task_prv := (if ts = [] then 0 else last ts)\<rparr>"
    unfolding pd by (rule t)
  ultimately show thesis
    using keep [of proc] keep [of tsk] t4 tp(1) m(2,4) f cur rest4
    by (intro that [OF new nz p4 m(1) _ _ _ _ tt]) (simp_all add: paging_chunk_def)
qed

lemma process_load_body_ok:
  assumes list: "task_list ts s" and inv: "kmem_inv s" and room: "1034 \<le> kroom s"
    and procs: "i < length (processes s)" and name: "0 \<in> set filename"
  obtains proc s1 s' where "kzalloc sizeof_process s = Some (proc, s1)" "proc \<noteq> 0"
    "process_load_body fs filename out (int i) proc s1 = Some (0, proc, s')" "loaded ts i filename proc s s'"
proof -
  have room7: "7 \<le> kroom s" using room by simp
  obtain proc stack s1 s2 where a: "kzalloc sizeof_process s = Some (proc, s1)"
    "kzalloc 16384 (setobj proc (OProcess zero_process) s1) = Some (stack, s2)" "proc \<noteq> 0" "stack \<noteq> 0"
    "objs s1 proc \<noteq> None" "kmem_inv s2" "objs s2 proc = Some (OProcess zero_process)"
    "stack mod 4096 = 0" "unat stack + 16384 < 2147483648" "objs s proc = None"
    and old: "\<forall>q. objs s q \<noteq> None \<longrightarrow> objs s2 q = objs s q" and room2: "kroom s \<le> kroom s2 + 7"
    and more: "kmem.more s2 = kmem.more s"
    by (rule process_objects [OF inv room7])
  let ?p = "new_process i (stored_name filename) stack"
  let ?s3 = "setobj proc (OProcess ?p) s2"
  have s3: "task_list ts ?s3" "kmem_inv ?s3" "1027 \<le> kavail ?s3" "objs ?s3 proc = Some (OProcess ?p)"
    using task_list_setproc [OF task_list_kept [OF list more old] a(7)] kmem_inv_setobj [OF a(6)] a(7)
      room room2 kroom_le_avail [of s2] by simp_all
  have pt: "proc \<notin> set ts" by (rule task_list_not_fresh [OF list a(10)])
  have p: "pr_filetype ?p = 0" "pr_stack ?p mod 4096 = 0" "unat (pr_stack ?p) + 16384 < 2147483648"
    using a(8,9) by (simp_all add: new_process_def zero_process_def)
  obtain tsk t directory s4 s6 where m: "task_new proc ?s3 = Some (tsk, s4)" "tsk \<noteq> 0"
    "objs s4 proc = Some (OProcess ?p)"
    "process_map_memory proc (setobj proc (OProcess (?p\<lparr>pr_task := tsk\<rparr>)) s4) = Some (0, s6)"
    "kmem_inv s6" "task_list (ts @ [tsk]) s6" "objs s6 proc = Some (OProcess (?p\<lparr>pr_task := tsk\<rparr>))"
    "objs s6 tsk = Some (OTask t)"
    and t: "t = (fresh_task (page_directory t) proc)\<lparr>task_prv := (if ts = [] then 0 else last ts)\<rparr>"
    and ch: "objs s6 (page_directory t) = Some (OChunk \<lparr>directory_entry = directory\<rparr>)"
    "stack_mapped directory (pr_stack ?p) s6" "current_task s6 = (if ts = [] then tsk else current_task ?s3)"
    "taskmem.more s6 = taskmem.more ?s3" "kernel_chunk s6 = kernel_chunk ?s3 \<and> disk s6 = disk ?s3 \<and> dev s6 = dev ?s3 \<and> cr0 s6 = cr0 ?s3"
    "\<forall>q x. objs ?s3 q = Some x \<longrightarrow> q \<notin> set ts \<longrightarrow> q \<noteq> proc \<longrightarrow> (\<forall>ws. x \<noteq> OWords ws) \<longrightarrow> objs s6 q = Some x"
    by (rule process_task_mapped [OF s3 pt p])
  have more3: "kmem.more ?s3 = kmem.more s" using more by simp
  note f = more_task_fields [OF more3]
  have pr: "processes s6 = processes s" "procmem.more s6 = procmem.more s"
    using ch(4) f(5) by (cases s6; cases s; simp)+
  let ?s = "s6\<lparr>processes := (processes s)[i := proc]\<rparr>"
  have "process_load_body fs filename out (int i) proc s1 = Some (0, proc, ?s)"
    using m(1-4) procs pr(1)
    by (simp add: process_load_body_eq [OF a(5) name a(2,4,7)] Let_def deref_def store_eq signed_eq_0_iff)
  moreover have "loaded ts i filename proc s ?s"
  proof -
    have regs: "task_process t = proc" "r_ip (task_registers t) = 0x400000" "r_esp (task_registers t) = 0x3FF000"
      "r_ss (task_registers t) = 0x23" "r_cs (task_registers t) = 0x1b"
      by (subst t, simp add: fresh_task_def)+
    have "kmem_inv ?s" "stack_mapped directory (pr_stack ?p) ?s" "task_list (ts @ [tsk]) ?s"
      using m(5,6) ch(2) by (simp_all add: kmem_inv_def stack_mapped_def paging_get_def deref_def
          task_list_def task_node_def)
    moreover have "pr_stack ?p = stack" by (simp add: new_process_def)
    moreover have "objs ?s q = Some x" if "objs s q = Some x" "q \<notin> set ts" "\<forall>ws. x \<noteq> OWords ws" for q x
    proof -
      have "q \<noteq> proc" using that(1) a(10) by auto
      then show ?thesis using that old ch(6) by simp
    qed
    ultimately show ?thesis
      unfolding loaded_def using a(3,10) m(7,8) regs ch(1,3,5) f pr(2)
      by (intro conjI exI [of _ tsk] exI [of _ t] exI [of _ stack] exI [of _ directory]) simp_all
  qed
  ultimately show thesis using that a(1,3) by blast
qed

lemma process_load_ok:
  assumes "task_list ts s" and "kmem_inv s" and "1034 \<le> kroom s" and "length (processes s) = 12"
    and "0 \<in> set filename" and slot: "free_slot 0 (processes s) 0 = Some i"
  shows "\<exists>proc s'. process_load fs filename out s = Some (0, proc, s') \<and> loaded ts i filename proc s s'"
proof -
  have i: "i < length (processes s)" "processes s ! i = 0" using free_slot_Some [OF slot] by simp_all
  obtain proc s1 s' where *: "kzalloc sizeof_process s = Some (proc, s1)" "proc \<noteq> 0"
    "process_load_body fs filename out (int i) proc s1 = Some (0, proc, s')" "loaded ts i filename proc s s'"
    by (rule process_load_body_ok [OF assms(1-3) i(1) assms(5)])
  have "process_get_free_slot s = int i" using slot assms(4) by (simp add: process_get_free_slot_def)
  moreover have "process_get (int i) s = Some 0" using i assms(4) by (simp add: process_get_def)
  ultimately have "process_load fs filename out s = Some (0, proc, s')"
    using *(1-3) by (simp add: process_load_def process_load_for_slot_def)
  with *(4) show ?thesis by blast
qed

section \<open>The invariant of the process table\<close>

text \<open>
  Every process of the table is a process object with the number of its slot, and its task is in
  the task list.
\<close>

definition proc_entry :: "ptr list \<Rightarrow> nat \<Rightarrow> ('d, 'a) procmem_scheme \<Rightarrow> bool" where
  "proc_entry ts i s \<longleftrightarrow> processes s ! i = 0 \<or>
     (\<exists>p. objs s (processes s ! i) = Some (OProcess p) \<and> unat (pr_id p) = i \<and> pr_task p \<in> set ts)"

definition proc_inv :: "('d, 'a) procmem_scheme \<Rightarrow> bool" where
  "proc_inv s \<longleftrightarrow> kmem_inv s \<and> length (processes s) = 12 \<and>
     (\<exists>ts. task_list ts s \<and> (\<forall>i < 12. proc_entry ts i s))"

lemma task_not_process: "task_list ts s \<Longrightarrow> objs s q = Some (OProcess p) \<Longrightarrow> q \<notin> set ts"
  by (auto simp: task_list_def task_node_def in_set_conv_nth)

lemma loaded_inv:
  assumes "task_list ts s" and "\<forall>i < 12. proc_entry ts i s" and "length (processes s) = 12"
    and "i < 12" and "loaded ts i filename proc s s'"
  shows "proc_inv s'"
proof -
  obtain tsk stack where l: "kmem_inv s'" "processes s' = (processes s)[i := proc]"
    "objs s' proc = Some (OProcess (new_process i (stored_name filename) stack\<lparr>pr_task := tsk\<rparr>))"
    "task_list (ts @ [tsk]) s'"
    and old: "\<forall>q x. objs s q = Some x \<longrightarrow> q \<notin> set ts \<longrightarrow> (\<forall>ws. x \<noteq> OWords ws) \<longrightarrow> objs s' q = Some x"
    using assms(5) unfolding loaded_def by blast
  have "proc_entry (ts @ [tsk]) j s'" if j: "j < 12" for j
  proof (cases "j = i")
    case True
    have "unat (of_nat i :: u16) = i" using assms(4) by (simp add: unat_of_nat take_bit_nat_eq_self)
    then show ?thesis using True l(2,3) assms(3,4) by (simp add: proc_entry_def new_process_def)
  next
    case False
    with j assms(2) l(2) show ?thesis
      using old task_not_process [OF assms(1)] by (fastforce simp: proc_entry_def)
  qed
  with l(1,2,4) assms(3) show ?thesis by (auto simp: proc_inv_def)
qed

lemma switch_to_any_loop:
  "i + n \<le> length (processes s) \<Longrightarrow>
   \<exists>q. process_switch_to_any_loop i n s = Some (s\<lparr>current_process := q\<rparr>)"
proof (induction n arbitrary: i)
  case 0
  then show ?case by (intro exI [of _ "current_process s"]) simp
next
  case (Suc n)
  from Suc.IH [of "Suc i"] Suc.prems show ?case by (auto simp: process_switch_def)
qed

lemma process_terminate_ok:
  assumes "objs s proc = Some (OProcess p)" and "unat (pr_id p) < 12" and "length (processes s) = 12"
  shows "\<exists>q. process_terminate proc s = Some (1, s\<lparr>processes := (processes s)[unat (pr_id p) := 0],
    current_process := q\<rparr>)"
proof -
  let ?s = "s\<lparr>processes := (processes s)[unat (pr_id p) := 0]\<rparr>"
  obtain q where "process_switch_to_any_loop 0 12 ?s = Some (?s\<lparr>current_process := q\<rparr>)"
    using switch_to_any_loop [of 0 12 ?s] assms(3) by auto
  with assms show ?thesis
    by (intro exI [of _ "if current_process s = proc then q else current_process s"])
      (simp add: process_terminate_def process_unlink_def deref_def process_switch_to_any_def
        process_free_process_def)
qed

lemma task_list_proc [simp]:
  "task_list ts (s\<lparr>processes := l\<rparr>) = task_list ts s"
  "task_list ts (s\<lparr>current_process := q\<rparr>) = task_list ts s"
  by (simp_all add: task_list_def task_node_def)

lemma terminate_inv:
  assumes inv: "proc_inv s" and i: "i < 12" "processes s ! i \<noteq> 0"
    and tm: "process_terminate (processes s ! i) s = Some (res, s')"
  shows "proc_inv s' \<and> processes s' = (processes s)[i := 0]"
proof -
  obtain ts p where l: "kmem_inv s" "length (processes s) = 12" "task_list ts s" "\<forall>i < 12. proc_entry ts i s"
    and p: "objs s (processes s ! i) = Some (OProcess p)" "unat (pr_id p) = i"
    using inv i unfolding proc_inv_def proc_entry_def by metis
  obtain q where s': "s' = s\<lparr>processes := (processes s)[i := 0], current_process := q\<rparr>"
    using process_terminate_ok [OF p(1) _ l(2)] p(2) i(1) tm by auto
  have "proc_entry ts j s'" if "j < 12" for j
    using l(2,4) that i(1) by (auto simp: proc_entry_def s' nth_list_update)
  with l show ?thesis by (auto simp: proc_inv_def s' kmem_inv_def)
qed

text \<open>The operations of the table, as steps; loading is done with memory enough for one more process.\<close>

inductive proc_step :: "('d, 'a) procmem_scheme fs_table \<Rightarrow> ('d, 'a) procmem_scheme \<Rightarrow>
    ('d, 'a) procmem_scheme \<Rightarrow> bool" for fs where
  load: "1034 \<le> kroom s \<Longrightarrow> 0 \<in> set filename \<Longrightarrow> process_load fs filename out s = Some (res, proc, s') \<Longrightarrow>
    proc_step fs s s'"
| terminate: "i < 12 \<Longrightarrow> processes s ! i \<noteq> 0 \<Longrightarrow> process_terminate (processes s ! i) s = Some (res, s') \<Longrightarrow>
    proc_step fs s s'"
| switch: "process_switch proc s = (res, s') \<Longrightarrow> proc_step fs s s'"

lemma process_load_full:
  assumes "length (processes s) = 12" and "free_slot 0 (processes s) 0 = None"
  shows "process_load fs filename out s = Some (- EISTKN, out, s)"
  using assms by (simp add: process_load_def process_get_free_slot_def)

lemma proc_step_inv: "proc_step fs s s' \<Longrightarrow> proc_inv s \<Longrightarrow> proc_inv s'"
proof (induction rule: proc_step.induct)
  case (load s filename out res proc s')
  then obtain ts where l: "task_list ts s" "\<forall>i < 12. proc_entry ts i s" "length (processes s) = 12" "kmem_inv s"
    by (auto simp: proc_inv_def)
  show ?case
  proof (cases "free_slot 0 (processes s) 0")
    case None
    then show ?thesis using load.hyps(3) load.prems process_load_full [OF l(3) None] by simp
  next
    case (Some i)
    then have i: "i < 12" using free_slot_Some [OF Some] l(3) by simp
    have "loaded ts i filename proc s s'"
      using process_load_ok [OF l(1,4) load.hyps(1) l(3) load.hyps(2) Some, of fs out] load.hyps(3) by auto
    then show ?thesis by (rule loaded_inv [OF l(1-3) i])
  qed
next
  case (terminate i s res s')
  then show ?case using terminate_inv by blast
next
  case (switch proc s res s')
  then have "s' = s\<lparr>current_process := proc\<rparr>" by (simp add: process_switch_def)
  with switch.prems show ?case by (simp add: proc_inv_def kmem_inv_def proc_entry_def)
qed

section \<open>Properties\<close>

definition sample_procmem :: "'d \<Rightarrow> nat \<Rightarrow> ptr list \<Rightarrow> ('d, unit) procmem_scheme" where
  "sample_procmem d n ps = taskmem.extend (sample_taskmem d n) \<lparr>current_process = 0, processes = ps\<rparr>"

lemma sample_procmem_ok:
  assumes "n \<le> 100000"
  shows "kmem_inv (sample_procmem d n ps)" "kroom (sample_procmem d n ps) = n"
    "task_list [] (sample_procmem d n ps)" "processes (sample_procmem d n ps) = ps"
    "objs (sample_procmem d n ps) = Map.empty"
proof -
  have "heap_segs (sample_heap (replicate n Free)) = replicate n Free"
    using sample_heap_inv [of "replicate n Free"] assms by auto
  then show "kroom (sample_procmem d n ps) = n"
    by (simp add: sample_procmem_def kroom_def taskmem.extend_def sample_taskmem_def)
  show "kmem_inv (sample_procmem d n ps)"
    using sample_taskmem_ok(1) [OF assms, of d]
    by (simp add: sample_procmem_def taskmem.extend_def kmem_inv_def sample_taskmem_def)
qed (simp_all add: sample_procmem_def taskmem.extend_def sample_taskmem_def task_list_def)

text \<open>
  C25. With 1034 free blocks at the end of the pool, \<^verbatim>\<open>process_load\<close> fails only when the table is full;
  otherwise it puts a new process into the first free slot, with a task of its own at the end of the
  task list that starts in user mode at 0x400000 on an address space in which the 16 KB below
  0x3FF000 are the writable stack and every other page is itself. It does so for every file name
  and every filesystem: the file is not read.
\<close>

theorem process_load_new_process:
  assumes "task_list ts s" and "kmem_inv s" and "1034 \<le> kroom s" and "length (processes s) = 12"
    and "0 \<in> set filename"
  shows "case free_slot 0 (processes s) 0 of
      None \<Rightarrow> process_load fs filename out s = Some (- EISTKN, out, s)
    | Some i \<Rightarrow> \<exists>proc s'. process_load fs filename out s = Some (0, proc, s') \<and> loaded ts i filename proc s s'"
proof (cases "free_slot 0 (processes s) 0")
  case None
  then show ?thesis using process_load_full [OF assms(4)] by simp
next
  case (Some i)
  then show ?thesis using process_load_ok [OF assms Some] by simp
qed

lemma process_load_new_process_witness:
  "\<exists>proc s'. process_load (\<lambda>_. undefined) [65, 0] 0 (sample_procmem () 1034 (7 # replicate 11 0)) = Some (0, proc, s') \<and>
     loaded [] 1 [65, 0] proc (sample_procmem () 1034 (7 # replicate 11 0)) s'"
proof -
  have "free_slot 0 (7 # replicate 11 (0 :: ptr)) 0 = Some 1" by code_simp
  then show ?thesis
    using process_load_new_process [of "[]" "sample_procmem () 1034 (7 # replicate 11 0)" "[65, 0]" "\<lambda>_. undefined" 0]
      sample_procmem_ok [of 1034 "()" "7 # replicate 11 0"] by simp
qed

text \<open>
  C26. The process table keeps its invariant under loading, terminating and switching in any order:
  a used slot holds a process object with the number of the slot, whose task is in the task list,
  and no process is in two slots.
\<close>

theorem process_table_invariant:
  assumes "proc_inv s" and "(proc_step fs)\<^sup>*\<^sup>* s s'"
  shows "proc_inv s' \<and> (\<forall>i < 12. \<forall>j < 12. processes s' ! i \<noteq> 0 \<and> processes s' ! i = processes s' ! j \<longrightarrow> i = j)"
proof -
  have inv: "proc_inv s'" using assms(2,1) by induction (auto dest: proc_step_inv)
  then obtain ts where entry: "\<And>i. i < 12 \<Longrightarrow> proc_entry ts i s'" by (auto simp: proc_inv_def)
  have uniq: "i = j" if a: "i < 12" "j < 12" "processes s' ! i \<noteq> 0" "processes s' ! i = processes s' ! j" for i j
  proof -
    obtain p where "objs s' (processes s' ! i) = Some (OProcess p)" "unat (pr_id p) = i"
      using entry [OF a(1)] a(3) unfolding proc_entry_def by blast
    moreover obtain q where "objs s' (processes s' ! j) = Some (OProcess q)" "unat (pr_id q) = j"
      using entry [OF a(2)] a(3,4) unfolding proc_entry_def by metis
    ultimately show ?thesis using a(4) by simp
  qed
  show ?thesis
  proof (intro conjI allI impI)
    fix i j assume "i < 12" "j < 12" "processes s' ! i \<noteq> 0 \<and> processes s' ! i = processes s' ! j"
    then show "i = j" using uniq [of i j] by (elim conjE) (rule uniq)
  qed (rule inv)
qed

lemma process_table_invariant_witness:
  "\<exists>s'. (proc_step (\<lambda>_. undefined))\<^sup>*\<^sup>* (sample_procmem () 1034 (replicate 12 0)) s' \<and> proc_inv s' \<and>
     processes s' ! 0 \<noteq> 0"
proof -
  let ?s = "sample_procmem () 1034 (replicate 12 0)"
  have s: "task_list [] ?s" "kmem_inv ?s" "1034 \<le> kroom ?s" "length (processes ?s) = 12"
    "free_slot 0 (processes ?s) 0 = Some 0"
  proof -
    have "free_slot 0 (replicate 12 (0 :: ptr)) 0 = Some 0" by code_simp
    then show "task_list [] ?s" "kmem_inv ?s" "1034 \<le> kroom ?s" "length (processes ?s) = 12"
      "free_slot 0 (processes ?s) 0 = Some 0"
      using sample_procmem_ok [of 1034 "()" "replicate 12 0"] by simp_all
  qed
  have inv: "proc_inv ?s"
    using s(1,2,4) sample_procmem_ok(4) [of 1034 "()" "replicate 12 0"] by (auto simp: proc_inv_def proc_entry_def)
  obtain proc s' where l: "process_load (\<lambda>_. undefined) [65, 0] 0 ?s = Some (0, proc, s')" "loaded [] 0 [65, 0] proc ?s s'"
    using process_load_ok [OF s(1-4) _ s(5), of "[65, 0]" "\<lambda>_. undefined" 0] by auto
  have step: "(proc_step (\<lambda>_. undefined))\<^sup>*\<^sup>* ?s s'" using proc_step.load [OF s(3) _ l(1)] by auto
  have "processes s' ! 0 \<noteq> 0" using l(2) s(4) by (simp add: loaded_def)
  then show ?thesis using process_table_invariant [OF inv step] step by blast
qed

end
