(* ===== verification/Scheduler.thy ===== *)
theory Scheduler
  imports Idt Process_Props
begin

text \<open>
  Preemptive scheduling, the composition of the interrupt handler, the clock callback and the task
  list: what a sequence of clock interrupts does to the tasks.
\<close>

section \<open>Round robin\<close>

text \<open>A state machine run over a list of events.\<close>

fun run_events :: "('e \<Rightarrow> 's \<Rightarrow> 's option) \<Rightarrow> 'e list \<Rightarrow> 's \<Rightarrow> 's option" where
  "run_events step [] s = Some s"
| "run_events step (e # es) s = do { s \<leftarrow> step e s; run_events step es s }"

text \<open>
  What a client of the scheduler relies on: every step goes from the current element of the ring
  to the next one and keeps the ring.
\<close>

locale round_robin =
  fixes step :: "'e \<Rightarrow> 's \<Rightarrow> 's option" and cur :: "'s \<Rightarrow> 'p" and ok :: "'p list \<Rightarrow> 's \<Rightarrow> bool"
  assumes ok_cur: "ok ts s \<Longrightarrow> cur s \<in> set ts"
    and step_next: "ok ts s \<Longrightarrow> i < length ts \<Longrightarrow> cur s = ts ! i \<Longrightarrow>
      \<exists>s'. step e s = Some s' \<and> ok ts s' \<and> cur s' = ts ! (Suc i mod length ts)"
begin

lemma steps_cur:
  assumes "ok ts s" and "i < length ts" and "cur s = ts ! i"
  shows "\<exists>s'. run_events step es s = Some s' \<and> ok ts s' \<and> cur s' = ts ! ((i + length es) mod length ts)"
  using assms
proof (induction es arbitrary: s i)
  case Nil
  then show ?case by simp
next
  case (Cons e es)
  obtain s1 where s1: "step e s = Some s1" "ok ts s1" "cur s1 = ts ! (Suc i mod length ts)"
    using step_next [OF Cons.prems] by blast
  have "Suc i mod length ts < length ts" using Cons.prems(2) by (intro mod_less_divisor) auto
  from Cons.IH [OF s1(2) this s1(3)] s1(1) show ?case by (auto simp: mod_simps)
qed

lemma steps_reach:
  assumes "ok ts s" and "p \<in> set ts"
  shows "\<exists>k. 0 < k \<and> k \<le> length ts \<and>
    (\<forall>es. length es = k \<longrightarrow> (\<exists>s'. run_events step es s = Some s' \<and> ok ts s' \<and> cur s' = p))"
proof -
  obtain i where i: "i < length ts" "cur s = ts ! i" using ok_cur [OF assms(1)] by (metis in_set_conv_nth)
  obtain j where j: "j < length ts" "p = ts ! j" using assms(2) by (metis in_set_conv_nth)
  define k where "k = (if i < j then j - i else length ts - i + j)"
  have k: "(i + k) mod length ts = j" "0 < k" "k \<le> length ts" using i(1) j(1) by (auto simp: k_def)
  have "\<exists>s'. run_events step es s = Some s' \<and> ok ts s' \<and> cur s' = p" if "length es = k" for es
    using steps_cur [OF assms(1) i, of es] that k(1) j(2) by simp
  with k(2,3) show ?thesis by blast
qed

end

section \<open>Clock interrupts\<close>

text \<open>The states in which the clock finds a task to run.\<close>

definition sched_ok :: "ptr list \<Rightarrow> ('d, 'a) idtmem_scheme \<Rightarrow> bool" where
  "sched_ok ts s \<longleftrightarrow> task_list ts s \<and> ts \<noteq> [] \<and> (\<exists>c. objs s (kernel_chunk s) = Some (OChunk c)) \<and>
     0x20 < length (interrupt_callbacks s) \<and> interrupt_callbacks s ! 0x20 = Idt_clock"

text \<open>
  One clock interrupt of the running task: the processor has pushed \<open>frame\<close>, the handler leaves
  with the registers of the task it picks. The state is the context that runs and the memory.
\<close>

definition clock_step ::
  "'d ata \<Rightarrow> interrupt_frame \<Rightarrow> registers \<times> ('d, 'a) idtmem_scheme \<Rightarrow> (registers \<times> ('d, 'a) idtmem_scheme) option" where
  "clock_step hw frame = (\<lambda>(r, s).
     case interrupt_handler hw 0x20 frame s of Some (UserMode r' s') \<Rightarrow> Some (r', s') | _ \<Rightarrow> None)"

lemma task_list_cpu [simp]:
  "task_list ts (s\<lparr>data_segments := x\<rparr>) = task_list ts s"
  "task_list ts (s\<lparr>current_directory := d\<rparr>) = task_list ts s"
  "task_list ts (s\<lparr>cr3 := d\<rparr>) = task_list ts s"
  "task_list ts (s\<lparr>dev := v\<rparr>) = task_list ts s"
  by (simp_all add: task_list_def task_node_def)

lemma kernel_page_ok:
  assumes "objs s (kernel_chunk s) = Some (OChunk c)"
  shows "kernel_page s = Some (s\<lparr>data_segments := 0x10, cr3 := directory_entry c,
    current_directory := directory_entry c\<rparr>)"
  using assms by (simp add: kernel_page_def kernel_registers_def paging_switch_def deref_def
      paging_load_directory_def)

lemma more_idt_fields:
  "taskmem.more s' = taskmem.more s \<Longrightarrow> interrupt_callbacks s' = interrupt_callbacks s"
  by (cases s; cases s'; simp)

lemma regs_of_objs: "objs s' = objs s \<Longrightarrow> regs_of s' = regs_of s"
  by (simp add: regs_of_def deref_def fun_eq_iff)

lemma regs_of_setobj: "regs_of (setobj p (OTask t) s) = (regs_of s)(p \<mapsto> task_registers t)"
  by (simp add: regs_of_def deref_def fun_eq_iff)

text \<open>Every interrupt with a callback: the interrupted task is saved, then the callback runs.\<close>

lemma interrupt_saved:
  assumes list: "task_list ts s" "ts \<noteq> []" and c: "objs s (kernel_chunk s) = Some (OChunk c)"
    and cb: "aget_i (interrupt_callbacks s) n = Some cb" "cb \<noteq> NullCallback"
  obtains t s2 where "interrupt_handler hw n frame s = map_option (\<lambda>(r, s). UserMode r s) (run_callback hw cb s2)"
    "objs s (current_task s) = Some (OTask t)" "task_list ts s2" "current_task s2 = current_task s"
    "objs s2 = (objs s)(current_task s \<mapsto> OTask (t\<lparr>task_registers := frame_registers frame\<rparr>))"
    "kernel_chunk s2 = kernel_chunk s" "taskmem.more s2 = taskmem.more s"
proof -
  let ?s1 = "s\<lparr>data_segments := 0x10, cr3 := directory_entry c, current_directory := directory_entry c\<rparr>"
  have l1: "task_list ts ?s1" using list(1) by simp
  obtain t where t: "objs ?s1 (current_task ?s1) = Some (OTask t)"
    and sv: "task_current_save_state frame ?s1 =
      Some (setobj (current_task ?s1) (OTask (t\<lparr>task_registers := frame_registers frame\<rparr>)) ?s1)"
      "task_list ts (setobj (current_task ?s1) (OTask (t\<lparr>task_registers := frame_registers frame\<rparr>)) ?s1)"
    by (rule task_current_save_ok [OF l1 list(2)])
  define s2 where "s2 = setobj (current_task ?s1) (OTask (t\<lparr>task_registers := frame_registers frame\<rparr>)) ?s1"
  have "kmem.more s2 = kmem.more ?s1" by (simp add: s2_def)
  note f2 = more_task_fields [OF this]
  have "aget_i (interrupt_callbacks ?s1) n = Some cb" using cb(1) by simp
  then have "interrupt_handler hw n frame s = run_callback hw cb s2 \<bind> (\<lambda>(r, s). Some (UserMode r s))"
    using sv(1) cb(2) unfolding interrupt_handler_def kernel_page_ok [OF c] by (simp add: s2_def)
  moreover have "\<dots> = map_option (\<lambda>(r, s). UserMode r s) (run_callback hw cb s2)"
    by (cases "run_callback hw cb s2") auto
  ultimately show thesis using t sv(2) f2 by (intro that [of s2 t]) (simp_all add: s2_def)
qed

lemma regs_of_saved:
  "objs s2 = (objs s)(p \<mapsto> OTask (t\<lparr>task_registers := r\<rparr>)) \<Longrightarrow> regs_of s2 = (regs_of s)(p \<mapsto> r)"
  by (simp add: regs_of_def deref_def fun_eq_iff)

lemma clock_step_ok:
  assumes ok: "sched_ok ts s" and i: "i < length ts" "current_task s = ts ! i"
  obtains r' s' where "clock_step hw frame (r, s) = Some (r', s')" "sched_ok ts s'"
    "current_task s' = ts ! (Suc i mod length ts)"
    "regs_of s' = (regs_of s)(ts ! i \<mapsto> frame_registers frame)"
    "map_option resumed (regs_of s' (current_task s')) = Some r'"
proof -
  obtain c where c: "objs s (kernel_chunk s) = Some (OChunk c)" using ok by (auto simp: sched_ok_def)
  have l: "task_list ts s" "ts \<noteq> []" "aget_i (interrupt_callbacks s) 0x20 = Some Idt_clock"
    using ok by (simp_all add: sched_ok_def aget_i_def)
  obtain t s2 where h: "interrupt_handler hw 0x20 frame s =
      map_option (\<lambda>(r, s). UserMode r s) (run_callback hw Idt_clock s2)"
    and s2: "objs s (current_task s) = Some (OTask t)" "task_list ts s2" "current_task s2 = current_task s"
      "objs s2 = (objs s)(current_task s \<mapsto> OTask (t\<lparr>task_registers := frame_registers frame\<rparr>))"
      "kernel_chunk s2 = kernel_chunk s" "taskmem.more s2 = taskmem.more s"
    by (rule interrupt_saved [OF l(1,2) c l(3) callback.distinct(4)])
  let ?s3 = "outb hw 0x20 0x20 s2"
  have l3: "task_list ts ?s3" "current_task ?s3 = ts ! i" using s2(2,3) i(2) by (simp_all add: outb_def)
  obtain regs s' where n: "task_next ?s3 = Some (resumed regs, s')" "task_list ts s'"
    "current_task s' = ts ! (Suc i mod length ts)" "objs s' = objs ?s3"
    "regs_of ?s3 (ts ! (Suc i mod length ts)) = Some regs" "kernel_chunk s' = kernel_chunk ?s3"
    "taskmem.more s' = taskmem.more ?s3"
    by (rule task_next_ok [OF l3(1) i(1) l3(2)])
  have ob: "objs s' = objs s2" using n(4) by (simp add: outb_def)
  have "current_task s \<noteq> kernel_chunk s" using s2(1) c by auto
  then have "objs s' (kernel_chunk s') = Some (OChunk c)"
    using ob n(6) s2(4,5) c by (simp add: outb_def)
  moreover have "interrupt_callbacks s' = interrupt_callbacks s"
    using more_idt_fields [OF n(7)] more_idt_fields [OF s2(6)] by (simp add: outb_def)
  ultimately have ok': "sched_ok ts s'" using n(2) ok by (auto simp: sched_ok_def)
  have "clock_step hw frame (r, s) = Some (resumed regs, s')"
    using h n(1) by (simp add: clock_step_def idt_clock_def)
  moreover have "regs_of s' (current_task s') = Some regs" using n(3,5) regs_of_objs [OF n(4)] by metis
  moreover have "regs_of s' = (regs_of s)(ts ! i \<mapsto> frame_registers frame)"
    using regs_of_objs [OF ob] regs_of_saved [OF s2(4)] i(2) by simp
  ultimately show thesis using n(3) ok' that by simp
qed

interpretation clock: round_robin "clock_step hw" "\<lambda>(r, s). current_task s" "\<lambda>ts (r, s). sched_ok ts s"
  for hw :: "'d ata"
proof unfold_locales
  fix ts and x :: "registers \<times> ('d, 'a) idtmem_scheme"
  assume "case x of (r, s) \<Rightarrow> sched_ok ts s"
  then show "(case x of (r, s) \<Rightarrow> current_task s) \<in> set ts"
    using task_listD(5) by (auto simp: sched_ok_def)
next
  fix ts i e and x :: "registers \<times> ('d, 'a) idtmem_scheme"
  obtain r s where x: "x = (r, s)" by force
  assume "case x of (r, s) \<Rightarrow> sched_ok ts s" and "i < length ts"
    and "(case x of (r, s) \<Rightarrow> current_task s) = ts ! i"
  then have s: "sched_ok ts s" "i < length ts" "current_task s = ts ! i" by (simp_all add: x)
  obtain r' s' where "clock_step hw e (r, s) = Some (r', s')" "sched_ok ts s'"
    "current_task s' = ts ! (Suc i mod length ts)"
    by (rule clock_step_ok [OF s])
  then show "\<exists>y. clock_step hw e x = Some y \<and> (case y of (r, s) \<Rightarrow> sched_ok ts s) \<and>
      (case y of (r, s) \<Rightarrow> current_task s) = ts ! (Suc i mod length ts)"
    by (auto simp: x)
qed

interpretation task_ring: round_robin "\<lambda>_ :: unit. (map_option snd \<circ> task_next :: ('d, 'a) taskmem_scheme \<Rightarrow> _)" current_task
  "\<lambda>ts s. task_list ts s \<and> ts \<noteq> []"
proof unfold_locales
  fix ts and s :: "('d, 'a) taskmem_scheme"
  assume "task_list ts s \<and> ts \<noteq> []"
  then show "current_task s \<in> set ts" using task_listD(5) by blast
next
  fix ts i and s :: "('d, 'a) taskmem_scheme" and e :: unit
  assume "task_list ts s \<and> ts \<noteq> []" and "i < length ts" and "current_task s = ts ! i"
  then obtain regs s' where "task_next s = Some (resumed regs, s')" "task_list ts s'"
    "current_task s' = ts ! (Suc i mod length ts)" using task_next_ok by metis
  then show "\<exists>s'. (map_option snd \<circ> task_next) s = Some s' \<and> (task_list ts s' \<and> ts \<noteq> []) \<and>
      current_task s' = ts ! (Suc i mod length ts)"
    using \<open>task_list ts s \<and> ts \<noteq> []\<close> by simp
qed

section \<open>A preempted task resumes as it was\<close>

text \<open>While other tasks run, what was saved of a task stays.\<close>

lemma clock_keeps_saved:
  assumes "sched_ok ts s" and "j < length ts" and "current_task s = ts ! j" and "i < length ts"
    and "\<And>l. l < length es \<Longrightarrow> (j + l) mod length ts \<noteq> i"
  shows "\<exists>r' s'. run_events (clock_step hw) es (r, s) = Some (r', s') \<and> regs_of s' (ts ! i) = regs_of s (ts ! i) \<and>
    (es \<noteq> [] \<longrightarrow> map_option resumed (regs_of s' (current_task s')) = Some r')"
  using assms
proof (induction es arbitrary: s r j)
  case Nil
  then show ?case by simp
next
  case (Cons e es)
  obtain r1 s1 where s1: "clock_step hw e (r, s) = Some (r1, s1)" "sched_ok ts s1"
    "current_task s1 = ts ! (Suc j mod length ts)" "regs_of s1 = (regs_of s)(ts ! j \<mapsto> frame_registers e)"
    "map_option resumed (regs_of s1 (current_task s1)) = Some r1"
    by (rule clock_step_ok [OF Cons.prems(1-3)])
  have "j \<noteq> i" using Cons.prems(2) Cons.prems(5) [of 0] by simp
  moreover have "distinct ts" using Cons.prems(1) task_listD(1) by (auto simp: sched_ok_def)
  ultimately have "ts ! j \<noteq> ts ! i" using Cons.prems(2,4) by (simp add: nth_eq_iff_index_eq)
  then have keep: "regs_of s1 (ts ! i) = regs_of s (ts ! i)" using s1(4) by simp
  have j1: "Suc j mod length ts < length ts" using Cons.prems(2) by (intro mod_less_divisor) auto
  have "(Suc j mod length ts + l) mod length ts \<noteq> i" if "l < length es" for l
    using Cons.prems(5) [of "Suc l"] that by (simp add: mod_simps)
  from Cons.IH [OF s1(2) j1 s1(3) Cons.prems(4) this, where r = r1] show ?case
    using s1(1,5) keep by (cases es) auto
qed

lemma clock_round:
  assumes ok: "sched_ok ts s" and i: "i < length ts" "current_task s = ts ! i"
    and es: "length (e # es) = length ts"
  shows "\<exists>s'. run_events (clock_step hw) (e # es) (r, s) = Some (resumed (frame_registers e), s') \<and>
    current_task s' = current_task s"
proof -
  obtain r1 s1 where s1: "clock_step hw e (r, s) = Some (r1, s1)" "sched_ok ts s1"
    "current_task s1 = ts ! (Suc i mod length ts)" "regs_of s1 = (regs_of s)(ts ! i \<mapsto> frame_registers e)"
    "map_option resumed (regs_of s1 (current_task s1)) = Some r1"
    by (rule clock_step_ok [OF ok i])
  have j1: "Suc i mod length ts < length ts" using i(1) by (intro mod_less_divisor) auto
  have "(Suc i mod length ts + l) mod length ts \<noteq> i" if "l < length es" for l
  proof -
    have "(Suc i + l) mod length ts = (if Suc i + l < length ts then Suc i + l else Suc i + l - length ts)"
      using i(1) that es by (auto simp: mod_if)
    then show ?thesis using that es i(1) by (auto simp: mod_simps split: if_splits)
  qed
  from clock_keeps_saved [OF s1(2) j1 s1(3) i(1) this, where hw = hw and r = r1] obtain r' s' where
    run: "run_events (clock_step hw) es (r1, s1) = Some (r', s')" "regs_of s' (ts ! i) = regs_of s1 (ts ! i)"
      "es \<noteq> [] \<longrightarrow> map_option resumed (regs_of s' (current_task s')) = Some r'" by blast
  have "case (r, s) of (r, s) \<Rightarrow> sched_ok ts s" "(case (r, s) of (r, s) \<Rightarrow> current_task s) = ts ! i"
    using ok i(2) by simp_all
  note steps = clock.steps_cur [OF this(1) i(1) this(2), where es = "e # es" and hw = hw]
  have "(i + length (e # es)) mod length ts = i" unfolding es using i(1) by simp
  with steps run(1) s1(1) have cur: "current_task s' = ts ! i" by auto
  have "resumed (frame_registers e) = r'"
  proof (cases es)
    case Nil
    then show ?thesis using run(1) s1(4,5) cur by simp
  next
    case (Cons a as)
    then show ?thesis using run(2,3) s1(4) cur by simp
  qed
  with run(1) s1(1) cur i(2) show ?thesis by simp
qed

section \<open>Exceptions\<close>

lemma exception_ok:
  assumes list: "task_list ts s" and i: "i < length ts" "current_task s = ts ! i"
    and t: "objs s (ts ! i) = Some (OTask t)"
    and p: "objs s (task_process t) = Some (OProcess p)" "unat (pr_id p) < 12" "length (processes s) = 12"
  obtains regs s' where "idt_handle_exception s = Some (resumed regs, s')" "task_list ts s'"
    "current_task s' = ts ! (Suc i mod length ts)" "objs s' = objs s"
    "processes s' = (processes s)[unat (pr_id p) := 0]" "regs_of s (ts ! (Suc i mod length ts)) = Some regs"
    "kernel_chunk s' = kernel_chunk s" "procmem.more s' = procmem.more s"
proof -
  obtain q where tm: "process_terminate (task_process t) s =
      Some (1, s\<lparr>processes := (processes s)[unat (pr_id p) := 0], current_process := q\<rparr>)"
    using process_terminate_ok [OF p] by blast
  let ?s = "s\<lparr>processes := (processes s)[unat (pr_id p) := 0], current_process := q\<rparr>"
  have l: "task_list ts ?s" "current_task ?s = ts ! i" using list i(2) by simp_all
  obtain regs s' where n: "task_next ?s = Some (resumed regs, s')" "task_list ts s'"
    "current_task s' = ts ! (Suc i mod length ts)" "objs s' = objs ?s"
    "regs_of ?s (ts ! (Suc i mod length ts)) = Some regs" "kernel_chunk s' = kernel_chunk ?s" "taskmem.more s' = taskmem.more ?s"
    by (rule task_next_ok [OF l(1) i(1) l(2)])
  have "processes s' = processes ?s" "procmem.more s' = procmem.more ?s" using n(7) by (cases s'; cases ?s; simp)+
  moreover have "idt_handle_exception s = Some (resumed regs, s')"
    using n(1) tm i(2) t by (simp add: idt_handle_exception_def task_current_def deref_def)
  moreover have "regs_of ?s = regs_of s" by (rule regs_of_objs) simp
  ultimately show thesis using n by (intro that [of regs s']) simp_all
qed

lemma exception_interrupt:
  assumes "task_list ts s" and "current_task s = ts ! i" and "i < length ts"
    and "objs s (kernel_chunk s) = Some (OChunk c)"
    and "interrupt_callbacks s ! n = Idt_handle_exception" and "n < length (interrupt_callbacks s)"
    and "objs s (ts ! i) = Some (OTask t)" and "objs s (task_process t) = Some (OProcess p)"
    and "unat (pr_id p) < 12" and "length (processes s) = 12"
  shows "\<exists>regs s'. interrupt_handler hw (int n) frame s = Some (UserMode regs s') \<and>
    processes s' = (processes s)[unat (pr_id p) := 0] \<and> task_list ts s' \<and>
    regs_of s' (ts ! i) = Some (frame_registers frame) \<and>
    (length ts = 1 \<longrightarrow> regs = resumed (frame_registers frame) \<and> current_task s' = current_task s)"
proof -
  have ne: "ts \<noteq> []" and cb: "aget_i (interrupt_callbacks s) (int n) = Some Idt_handle_exception"
    using assms(3,5,6) by auto
  obtain t' s2 where h: "interrupt_handler hw (int n) frame s =
      map_option (\<lambda>(r, s). UserMode r s) (run_callback hw Idt_handle_exception s2)"
    and s2: "objs s (current_task s) = Some (OTask t')" "task_list ts s2" "current_task s2 = current_task s"
      "objs s2 = (objs s)(current_task s \<mapsto> OTask (t'\<lparr>task_registers := frame_registers frame\<rparr>))"
      "taskmem.more s2 = taskmem.more s"
    by (rule interrupt_saved [OF assms(1) ne assms(4) cb callback.distinct(2)])
  have t': "t' = t" using s2(1) assms(2,7) by simp
  have "task_process t \<noteq> ts ! i" using assms(7,8) by auto
  then have p2: "objs s2 (task_process (t\<lparr>task_registers := frame_registers frame\<rparr>)) = Some (OProcess p)"
    and t2: "objs s2 (ts ! i) = Some (OTask (t\<lparr>task_registers := frame_registers frame\<rparr>))"
    and c2: "current_task s2 = ts ! i"
    using s2(3,4) t' assms(2,8) by simp_all
  have pr: "processes s2 = processes s" using s2(5) by (cases s; cases s2) simp
  then have l2: "length (processes s2) = 12" using assms(10) by simp
  obtain regs s' where e: "idt_handle_exception s2 = Some (resumed regs, s')" "task_list ts s'"
    "current_task s' = ts ! (Suc i mod length ts)" "objs s' = objs s2"
    "processes s' = (processes s2)[unat (pr_id p) := 0]" "regs_of s2 (ts ! (Suc i mod length ts)) = Some regs"
    by (rule exception_ok [OF s2(2) assms(3) c2 t2 p2 assms(9) l2])
  have r: "regs_of s2 (ts ! i) = Some (frame_registers frame)"
    using t2 by (simp add: regs_of_def deref_def)
  have "regs = frame_registers frame \<and> current_task s' = current_task s" if "length ts = 1"
    using that e(3,6) r assms(2,3) by simp
  then show ?thesis using h e pr r regs_of_objs [OF e(4)]
    by (intro exI [of _ "resumed regs"] exI [of _ s']) simp
qed

section \<open>A sample state\<close>

text \<open>Two tasks of two processes, the first one running, and a kernel directory.\<close>

definition sample_task :: "ptr \<Rightarrow> ptr \<Rightarrow> ptr \<Rightarrow> ptr \<Rightarrow> task" where
  "sample_task dir proc n p = (fresh_task dir proc)\<lparr>task_nxt := n, task_prv := p\<rparr>"

definition sample_sched :: "ptr list \<Rightarrow> (unit, unit) idtmem_scheme" where
  "sample_sched ts = \<lparr>kernel_heap = sample_heap [],
     objs = [0x1000 \<mapsto> OTask (sample_task 0x3000 0x5000 (link ts 1) 0), 0x2000 \<mapsto> OTask (sample_task 0x3000 0x6000 0 0x1000),
       0x3000 \<mapsto> OChunk \<lparr>directory_entry = 0x7000\<rparr>, 0x5000 \<mapsto> OProcess zero_process,
       0x6000 \<mapsto> OProcess (zero_process\<lparr>pr_id := 1\<rparr>)],
     current_directory = 0, cr3 = 0, cr0 = 0,
     disk = \<lparr>dk_type = 0, dk_sector_size = 512, dk_id = 0, dk_filesystem = NullFs, dk_fs_private = 0\<rparr>,
     dev = (), filesystems = [], file_descriptors = [],
     current_task = 0x1000, task_tail = last ts, task_head = 0x1000, kernel_chunk = 0x3000, data_segments = 0x23,
     current_process = 0x5000, processes = 0x5000 # link ts 1 # replicate 10 0,
     idt_descriptors = [], idtr_descriptor = \<lparr>idtr_limit = 0, idtr_base = 0\<rparr>, idtr = None,
     interrupt_callbacks = replicate 32 Idt_handle_exception @ Idt_clock # replicate 479 NullCallback,
     isr80h_commands = replicate 1024 0,
     screen = \<lparr>vga = [], video_mem = 0, terminal_row = 0, terminal_col = 0\<rparr>\<rparr>"

definition sample_frame :: interrupt_frame where
  "sample_frame = \<lparr>if_edi = 1, if_esi = 2, if_ebp = 3, if_reserved = 4, if_ebx = 5, if_edx = 6, if_ecx = 7,
     if_eax = 8, if_ip = 0x400010, if_cs = 0x1b, if_flags = 0x202, if_esp = 0x3FEFF0, if_ss = 0x23\<rparr>"

definition null_ata :: "unit ata" where
  "null_ata = \<lparr>hw_outb = \<lambda>_ _ d. d, hw_insb = \<lambda>_ d. (0, d), hw_insw = \<lambda>_ d. (0, d)\<rparr>"

lemma sample_sched_one: "task_list [0x1000] (sample_sched [0x1000])"
  by (simp add: task_list_def task_node_def sample_sched_def sample_task_def link_def fresh_task_def)

lemma sample_sched_two: "sched_ok [0x1000, 0x2000] (sample_sched [0x1000, 0x2000])"
  by (auto simp: sched_ok_def task_list_def task_node_def sample_sched_def sample_task_def link_def
      fresh_task_def nth_append less_Suc_eq nth_Cons')

section \<open>Properties\<close>

text \<open>
  C23. No task starves: in a ring of n tasks every task is running after some number of clock
  interrupts between 1 and n, whatever the tasks do in between, and the ring stays intact.
\<close>

theorem clock_reaches_every_task:
  assumes "sched_ok ts s" and "p \<in> set ts"
  shows "\<exists>k. 0 < k \<and> k \<le> length ts \<and> (\<forall>frames. length frames = k \<longrightarrow>
    (\<exists>r' s'. run_events (clock_step hw) frames (r, s) = Some (r', s') \<and> sched_ok ts s' \<and> current_task s' = p))"
  using clock.steps_reach [of ts "(r, s)" p hw] assms by simp

lemma clock_reaches_every_task_witness:
  "\<exists>frames r' s'. length frames \<le> 2 \<and> run_events (clock_step null_ata) frames
     (zero_registers, sample_sched [0x1000, 0x2000]) = Some (r', s') \<and> current_task s' = 0x2000"
proof -
  obtain k where "k \<le> length [0x1000, 0x2000 :: ptr]" "\<forall>frames. length frames = k \<longrightarrow>
    (\<exists>r' s'. run_events (clock_step null_ata) frames (zero_registers, sample_sched [0x1000, 0x2000]) =
       Some (r', s') \<and> sched_ok [0x1000, 0x2000] s' \<and> current_task s' = 0x2000)"
    using clock_reaches_every_task [OF sample_sched_two, of "0x2000" null_ata zero_registers] by auto
  from this(1) this(2) [rule_format, of "replicate k sample_frame"] show ?thesis
    by (intro exI [of _ "replicate k sample_frame"]) auto
qed

text \<open>
  C24. A preempted task goes on exactly where it was: after a full round of clock interrupts the
  processor resumes the task with the registers of the frame it was interrupted with, and with
  interrupts enabled, whatever the frames of the other tasks hold.
\<close>

theorem clock_round_resumes:
  assumes "sched_ok ts s" and "length (frame # frames) = length ts"
  shows "\<exists>s'. run_events (clock_step hw) (frame # frames) (r, s) = Some (resumed (frame_registers frame), s') \<and>
    current_task s' = current_task s"
proof -
  have l: "task_list ts s" "ts \<noteq> []" using assms(1) by (simp_all add: sched_ok_def)
  obtain i where i: "i < length ts" "current_task s = ts ! i" by (rule task_list_current [OF l])
  show ?thesis by (rule clock_round [OF assms(1) i assms(2)])
qed

lemma clock_round_resumes_witness:
  "\<exists>s'. run_events (clock_step null_ata)
      [sample_frame,
       sample_frame\<lparr>if_eax := 99\<rparr>]
      (zero_registers, sample_sched [0x1000, 0x2000]) =
    Some (\<lparr>r_edi = 1, r_esi = 2, r_ebp = 3, r_ebx = 5, r_edx = 6, r_ecx = 7, r_eax = 8, r_ip = 0x400010,
      r_cs = 0x1b, r_flags = 0x202, r_esp = 0x3FEFF0, r_ss = 0x23\<rparr>, s')"
  using clock_round_resumes [OF sample_sched_two, where r = zero_registers and hw = null_ata and frame = sample_frame and frames =
      "[sample_frame\<lparr>if_eax := 99\<rparr>]"]
  by (auto simp: sample_frame_def frame_registers_def resumed_def)

end
