(* ===== verification/Idt_Props.thy ===== *)
theory Idt_Props
  imports Scheduler
begin

text \<open>
  What \<^verbatim>\<open>idt_init\<close> of \<^verbatim>\<open>src/src/idt/idt.c\<close> installs, read back the way the processor reads a gate, and
  the system-call table.
\<close>

section \<open>Gates\<close>

text \<open>The handler address that the processor assembles from a gate.\<close>

definition gate_address :: "idt_desc \<Rightarrow> ptr" where
  "gate_address d = ucast (offset_1 d) OR push_bit 16 (ucast (offset_2 d))"

definition gate :: "ptr \<Rightarrow> idt_desc" where
  "gate a = \<lparr>offset_1 = ucast (a AND 0xffff), selector = 8, id_zero = 0, type_attr = 0xEE,
     offset_2 = ucast (drop_bit 16 a)\<rparr>"

lemma gate_roundtrip: "gate_address (gate a) = a"
proof (rule bit_word_eqI)
  fix n assume n: "n < LENGTH(32)"
  have m: "(0xffff :: u32) = mask 16" by (simp add: mask_eq_exp_minus_1)
  show "bit (gate_address (gate a)) n = bit a n"
    using n unfolding gate_address_def gate_def m
    by (cases "n < 16") (auto simp: bit_simps)
qed

lemma gate_update:
  "d\<lparr>offset_1 := ucast (a AND 0xffff), selector := 8, id_zero := 0, type_attr := 0xEE,
     offset_2 := ucast (drop_bit 16 a)\<rparr> = gate a" for d :: idt_desc
  by (cases d) (simp add: gate_def)

lemma idt_set_eq:
  assumes "i < length (idt_descriptors s)"
  shows "idt_set (int i) a s = Some (s\<lparr>idt_descriptors := (idt_descriptors s)[i := gate a]\<rparr>)"
  using assms by (simp add: idt_set_def gate_update)

lemma gates_loop:
  assumes "length tab = 512" and "length (idt_descriptors s) = 512"
  shows "for_range 0 512 (\<lambda>i s. do { a \<leftarrow> aget tab i; idt_set (int i) a s }) s =
    Some (s\<lparr>idt_descriptors := map gate tab\<rparr>)"
proof -
  let ?P = "\<lambda>k t. \<exists>l. t = s\<lparr>idt_descriptors := l\<rparr> \<and> length l = 512 \<and> (\<forall>j < k. l ! j = gate (tab ! j))"
  let ?body = "\<lambda>i s. do { a \<leftarrow> aget tab i; idt_set (int i) a s }"
  have "\<exists>t. for_range 0 512 ?body s = Some t \<and> ?P (0 + 512) t"
  proof (rule for_range_rule [where P = ?P])
    show "?P 0 s" using assms(2) by (intro exI [of _ "idt_descriptors s"]) simp
  next
    fix k t assume k: "k < 0 + 512" and "?P k t"
    then obtain l where l: "t = s\<lparr>idt_descriptors := l\<rparr>" "length l = 512" "\<forall>j < k. l ! j = gate (tab ! j)"
      by blast
    have "?body k t = Some (t\<lparr>idt_descriptors := l[k := gate (tab ! k)]\<rparr>)"
      using idt_set_eq [of k t "tab ! k"] k l(1,2) assms(1) by simp
    moreover have "?P (Suc k) (t\<lparr>idt_descriptors := l[k := gate (tab ! k)]\<rparr>)"
      using l k by (intro exI [of _ "l[k := gate (tab ! k)]"]) (auto simp: nth_list_update less_Suc_eq)
    ultimately show "\<exists>t'. ?body k t = Some t' \<and> ?P (Suc k) t'" by blast
  qed
  then obtain l where l: "for_range 0 512 ?body s = Some (s\<lparr>idt_descriptors := l\<rparr>)" "length l = 512"
    "\<forall>j < 512. l ! j = gate (tab ! j)" by auto
  have "l = map gate tab" using l(2,3) assms(1) by (intro nth_equalityI) simp_all
  with l(1) show ?thesis by simp
qed

lemma callbacks_loop:
  assumes "length (interrupt_callbacks s) = 512"
  shows "for_range 0 0x20 (\<lambda>i s. do {
      (r, s) \<leftarrow> idt_register_interrupt_callback (int i) Idt_handle_exception s; Some s }) s =
    Some (s\<lparr>interrupt_callbacks := replicate 32 Idt_handle_exception @ drop 32 (interrupt_callbacks s)\<rparr>)"
proof -
  let ?P = "\<lambda>k t. \<exists>l. t = s\<lparr>interrupt_callbacks := l\<rparr> \<and> length l = 512 \<and>
    (\<forall>j < 512. l ! j = (if j < k then Idt_handle_exception else interrupt_callbacks s ! j))"
  let ?body = "\<lambda>i s. do { (r, s) \<leftarrow> idt_register_interrupt_callback (int i) Idt_handle_exception s; Some s }"
  have "\<exists>t. for_range 0 0x20 ?body s = Some t \<and> ?P (0 + 0x20) t"
  proof (rule for_range_rule [where P = ?P])
    show "?P 0 s" using assms by (intro exI [of _ "interrupt_callbacks s"]) simp
  next
    fix k t assume k: "k < 0 + 0x20" and "?P k t"
    then obtain l where l: "t = s\<lparr>interrupt_callbacks := l\<rparr>" "length l = 512"
      "\<forall>j < 512. l ! j = (if j < k then Idt_handle_exception else interrupt_callbacks s ! j)" by blast
    let ?l = "l[k := Idt_handle_exception]"
    have "?body k t = Some (t\<lparr>interrupt_callbacks := ?l\<rparr>)"
      using k l(1,2) by (simp add: idt_register_interrupt_callback_def)
    moreover have "?P (Suc k) (t\<lparr>interrupt_callbacks := ?l\<rparr>)"
      using l k by (intro exI [of _ ?l]) (auto simp: nth_list_update less_Suc_eq)
    ultimately show "\<exists>t'. ?body k t = Some t' \<and> ?P (Suc k) t'" by blast
  qed
  then obtain l where l: "for_range 0 0x20 ?body s = Some (s\<lparr>interrupt_callbacks := l\<rparr>)" "length l = 512"
    "\<forall>j < 512. l ! j = (if j < 32 then Idt_handle_exception else interrupt_callbacks s ! j)" by auto
  have "l = replicate 32 Idt_handle_exception @ drop 32 (interrupt_callbacks s)"
    using l(2,3) assms by (intro nth_equalityI) (simp_all add: nth_append)
  with l(1) show ?thesis by simp
qed

text \<open>The state that \<^verbatim>\<open>idt_init\<close> leaves.\<close>

definition idt_ready :: "image \<Rightarrow> ('d, 'a) idtmem_scheme \<Rightarrow> ('d, 'a) idtmem_scheme" where
  "idt_ready img s = s\<lparr>
     idt_descriptors := (map gate (interrupt_pointer_table img))[0 := gate (addr_idt_zero img),
       0x80 := gate (addr_isr80h_wrapper img)],
     idtr_descriptor := \<lparr>idtr_limit = 4095, idtr_base = addr_idt_descriptors img\<rparr>,
     idtr := Some \<lparr>idtr_limit = 4095, idtr_base = addr_idt_descriptors img\<rparr>,
     interrupt_callbacks := replicate 32 Idt_handle_exception @ Idt_clock # drop 33 (interrupt_callbacks s)\<rparr>"

lemma idt_init_eq:
  assumes "length (interrupt_pointer_table img) = 512" and "length (interrupt_callbacks s) = 512"
  shows "idt_init img s = Some (idt_ready img s)"
proof -
  let ?r = "\<lparr>idtr_limit = 4095, idtr_base = addr_idt_descriptors img\<rparr> :: idtr_desc"
  let ?s1 = "s\<lparr>idt_descriptors := replicate 512 zero_idt_desc, idtr_descriptor := ?r\<rparr>"
  let ?s2 = "?s1\<lparr>idt_descriptors := map gate (interrupt_pointer_table img)\<rparr>"
  let ?d3 = "(map gate (interrupt_pointer_table img))[0 := gate (addr_idt_zero img)]"
  let ?d4 = "?d3[0x80 := gate (addr_isr80h_wrapper img)]"
  let ?s4 = "?s2\<lparr>idt_descriptors := ?d4\<rparr>"
  let ?cb = "replicate 32 Idt_handle_exception @ drop 32 (interrupt_callbacks s)"
  have g: "for_range 0 512 (\<lambda>i s. do { a \<leftarrow> aget (interrupt_pointer_table img) i; idt_set (int i) a s }) ?s1 = Some ?s2"
    using gates_loop [OF assms(1), of ?s1] by simp
  have s3: "idt_set 0 (addr_idt_zero img) ?s2 = Some (?s2\<lparr>idt_descriptors := ?d3\<rparr>)"
    using idt_set_eq [of 0 ?s2] assms(1) by simp
  have s4: "idt_set 0x80 (addr_isr80h_wrapper img) (?s2\<lparr>idt_descriptors := ?d3\<rparr>) = Some ?s4"
    using idt_set_eq [of "0x80" "?s2\<lparr>idt_descriptors := ?d3\<rparr>"] assms(1) by simp
  have s5: "for_range 0 0x20 (\<lambda>i s. do {
      (r, s) \<leftarrow> idt_register_interrupt_callback (int i) Idt_handle_exception s; Some s }) ?s4 =
      Some (?s4\<lparr>interrupt_callbacks := ?cb\<rparr>)"
    using callbacks_loop [of ?s4] assms(2) by simp
  have "?cb[32 := Idt_clock] = replicate 32 Idt_handle_exception @ Idt_clock # drop 33 (interrupt_callbacks s)"
    using assms(2) by (simp add: list_update_append Cons_nth_drop_Suc [symmetric])
  then have s6: "idt_register_interrupt_callback 0x20 Idt_clock (?s4\<lparr>interrupt_callbacks := ?cb\<rparr>) =
      Some (0, ?s4\<lparr>interrupt_callbacks := replicate 32 Idt_handle_exception @ Idt_clock # drop 33 (interrupt_callbacks s)\<rparr>)"
    using assms(2) by (simp add: idt_register_interrupt_callback_def aset_i_def)
  have lim: "of_nat (512 * 8) - 1 = (4095 :: u16)" by simp
  show ?thesis
    unfolding idt_init_def lim Option.bind.simps(2) g s3 s4 s5 s6
    by (simp add: idt_load_def idt_ready_def)
qed

section \<open>Properties\<close>

text \<open>
  C29. \<^verbatim>\<open>idt_init\<close> loads a table of 512 gates in which the processor finds, for every vector, the entry
  stub of that vector, with two exceptions: vector 0 leads to the C function \<^verbatim>\<open>idt_zero\<close> and vector
  0x80 to the system call. Every gate is a 32-bit interrupt gate of the kernel code segment that user
  mode may raise. The first 32 callbacks are the exception handler, the next is the clock.
\<close>

theorem idt_init_installs:
  assumes "length (interrupt_pointer_table img) = 512" and "length (interrupt_callbacks s) = 512"
  shows "\<exists>s'. idt_init img s = Some s' \<and> length (idt_descriptors s') = 512 \<and>
    idtr s' = Some \<lparr>idtr_limit = 512 * 8 - 1, idtr_base = addr_idt_descriptors img\<rparr> \<and>
    (\<forall>i < 512. gate_address (idt_descriptors s' ! i) =
       (if i = 0 then addr_idt_zero img else if i = 0x80 then addr_isr80h_wrapper img
        else interrupt_pointer_table img ! i) \<and>
      selector (idt_descriptors s' ! i) = KERNEL_CODE_SELECTOR \<and> type_attr (idt_descriptors s' ! i) = 0xEE) \<and>
    (\<forall>i < 512. interrupt_callbacks s' ! i = (if i < 0x20 then Idt_handle_exception
       else if i = 0x20 then Idt_clock else interrupt_callbacks s ! i))"
proof -
  have g: "selector (gate a) = 8" "type_attr (gate a) = 0xEE" for a by (simp_all add: gate_def)
  have "idt_descriptors (idt_ready img s) ! i = gate (if i = 0 then addr_idt_zero img
      else if i = 0x80 then addr_isr80h_wrapper img else interrupt_pointer_table img ! i)" if "i < 512" for i
    using that assms(1) by (simp add: idt_ready_def nth_list_update)
  moreover have "interrupt_callbacks (idt_ready img s) ! i = (if i < 0x20 then Idt_handle_exception
       else if i = 0x20 then Idt_clock else interrupt_callbacks s ! i)" if "i < 512" for i
    using that assms(2) by (auto simp: idt_ready_def nth_append nth_Cons')
  ultimately show ?thesis
    using idt_init_eq [OF assms] assms(1)
    by (intro exI [of _ "idt_ready img s"]) (simp add: gate_roundtrip g, simp add: idt_ready_def)
qed

definition sample_image :: image where
  "sample_image = \<lparr>interrupt_pointer_table = map (\<lambda>i. 0x100000 + 16 * of_nat i) [0..<512],
     addr_idt_zero = 0x110000, addr_isr80h_wrapper = 0x12345678, addr_idt_descriptors = 0x120000,
     addr_gdt_real = 0x130000, addr_tss = 0x140000\<rparr>"

lemma idt_init_installs_witness:
  "\<exists>s'. idt_init sample_image (sample_sched [0x1000]) = Some s' \<and>
     gate_address (idt_descriptors s' ! 0x80) = 0x12345678 \<and> gate_address (idt_descriptors s' ! 3) = 0x100030"
proof -
  have l: "length (interrupt_pointer_table sample_image) = 512"
    "length (interrupt_callbacks (sample_sched [0x1000])) = 512"
    by (simp_all add: sample_image_def sample_sched_def)
  obtain s' where s': "idt_init sample_image (sample_sched [0x1000]) = Some s'"
    and g: "\<forall>i < 512. gate_address (idt_descriptors s' ! i) =
       (if i = 0 then addr_idt_zero sample_image else if i = 0x80 then addr_isr80h_wrapper sample_image
        else interrupt_pointer_table sample_image ! i)"
    using idt_init_installs [OF l] by blast
  from g [rule_format, of "0x80"] g [rule_format, of 3] s' show ?thesis by (simp add: sample_image_def)
qed

end
