(* ===== verification/Fat16_Chain.thy ===== *)
theory Fat16_Chain
  imports Fat16_Files
begin

text \<open>
  What the FAT16 driver reads. The reference is the disk itself: the file allocation table is a
  function of the disk's bytes, a file is the chain of clusters that the table links, and a byte
  of a file is a byte of one of its clusters. On a mounted disk the driver's walk through the
  table, its reads and its count of directory items agree with the reference.
\<close>

section \<open>The disk as a FAT volume\<close>

definition fat_entry :: "(nat \<Rightarrow> u8 list) \<Rightarrow> fat_private \<Rightarrow> nat \<Rightarrow> nat" where
  "fat_entry img p c =
     unat (le16 (img_bytes img (512 * nat (h_reserved_sectors (fp_header p)) + 2 * c) 2) 0)"

text \<open>The table entries that the driver takes for the end of a chain or for an unusable cluster.\<close>

definition chain_stop :: "nat \<Rightarrow> bool" where
  "chain_stop e \<longleftrightarrow> e \<in> {0, 0xFF0, 0xFF6, 0xFF7, 0xFFF8, 0xFFFF}"

fun fat_chain :: "(nat \<Rightarrow> nat) \<Rightarrow> nat \<Rightarrow> nat \<Rightarrow> nat option" where
  "fat_chain fat 0 c = Some c"
| "fat_chain fat (Suc n) c = (if chain_stop (fat c) then None else fat_chain fat n (fat c))"

definition cluster_bytes :: "fat_private \<Rightarrow> nat" where
  "cluster_bytes p = nat (h_sectors_per_cluster (fp_header p)) * 512"

definition cluster_pos :: "fat_private \<Rightarrow> nat \<Rightarrow> int" where
  "cluster_pos p c = fat16_cluster_to_sector p (int c) * 512"

text \<open>Byte \<open>i\<close> of the file that starts at cluster \<open>c\<close>.\<close>

definition file_byte :: "(nat \<Rightarrow> u8 list) \<Rightarrow> fat_private \<Rightarrow> nat \<Rightarrow> nat \<Rightarrow> u8" where
  "file_byte img p c i =
     (case fat_chain (fat_entry img p) (i div cluster_bytes p) c of
        Some k \<Rightarrow> img_byte img (nat (cluster_pos p k) + i mod cluster_bytes p)
      | None \<Rightarrow> 0)"

definition file_bytes :: "(nat \<Rightarrow> u8 list) \<Rightarrow> fat_private \<Rightarrow> nat \<Rightarrow> nat \<Rightarrow> nat \<Rightarrow> u8 list" where
  "file_bytes img p c off n = map (file_byte img p c) [off..<off + n]"

text \<open>The clusters that hold the bytes before \<open>e\<close> of a file are chained and lie on the disk.\<close>

definition file_extent_ok :: "(nat \<Rightarrow> u8 list) \<Rightarrow> fat_private \<Rightarrow> nat \<Rightarrow> nat \<Rightarrow> bool" where
  "file_extent_ok img p c e \<longleftrightarrow>
     (\<forall>i < e. case fat_chain (fat_entry img p) (i div cluster_bytes p) c of
        Some k \<Rightarrow> 0 \<le> cluster_pos p k \<and> cluster_pos p k + int (cluster_bytes p) \<le> 2147483647
      | None \<Rightarrow> False)"

lemma fat_entry_less: "fat_entry img p c < 65536"
  using unsigned_less [of "le16 (img_bytes img (512 * nat (h_reserved_sectors (fp_header p)) + 2 * c) 2) 0", where 'a = nat]
  by (simp add: fat_entry_def)

lemma length_file_bytes [simp]: "length (file_bytes img p c off n) = n"
  by (simp add: file_bytes_def)

lemma file_bytes_add: "file_bytes img p c off (n + m) = file_bytes img p c off n @ file_bytes img p c (off + n) m"
  using upt_add_eq_append [of off "off + n" m] by (simp add: file_bytes_def add.assoc)

lemma file_bytes_in_cluster:
  assumes k: "fat_chain (fat_entry img p) (off div cluster_bytes p) c = Some k"
    and fit: "off mod cluster_bytes p + n \<le> cluster_bytes p"
  shows "file_bytes img p c off n = img_bytes img (nat (cluster_pos p k) + off mod cluster_bytes p) n"
proof (rule nth_equalityI)
  fix i assume "i < length (file_bytes img p c off n)"
  then have i: "i < n" by simp
  let ?b = "cluster_bytes p"
  have lt: "off mod ?b + i < ?b" using i fit by simp
  have eq: "off + i = ?b * (off div ?b) + (off mod ?b + i)" by simp
  have "(off + i) div ?b = off div ?b"
    by (subst eq, subst div_mult_self4) (use lt in \<open>simp_all\<close>)
  moreover have "(off + i) mod ?b = off mod ?b + i"
    by (subst eq, subst mod_mult_self4) (use lt in \<open>simp\<close>)
  ultimately show "file_bytes img p c off n ! i = img_bytes img (nat (cluster_pos p k) + off mod ?b) n ! i"
    using i k by (simp add: file_bytes_def file_byte_def add.assoc)
qed simp

section \<open>A mounted disk\<close>

abbreviation (input) stream_obj :: "nat \<Rightarrow> obj" where
  "stream_obj pos \<equiv> OStream \<lparr>ds_pos = int pos, ds_disk = TheDisk\<rparr>"

definition fat_streams :: "fat_private \<Rightarrow> ptr set" where
  "fat_streams p = {cluster_read_stream p, fat_read_stream p, directory_stream p}"

definition fat_mounted :: "fat_private \<Rightarrow> ('d, 'a) diskmem_scheme \<Rightarrow> bool" where
  "fat_mounted p s \<longleftrightarrow> dk_sector_size (disk s) = 512 \<and>
     objs s (dk_fs_private (disk s)) = Some (OFatPrivate p) \<and> fat_read_stream p \<noteq> 0 \<and>
     (\<forall>q \<in> fat_streams p. \<exists>pos. objs s q = Some (OStream \<lparr>ds_pos = pos, ds_disk = TheDisk\<rparr>))"

text \<open>\<open>s'\<close> is \<open>s\<close> with the controller in another state and the driver's streams elsewhere.\<close>

definition streamed :: "fat_private \<Rightarrow> ('d, 'a) diskmem_scheme \<Rightarrow> ('d, 'a) diskmem_scheme \<Rightarrow> bool" where
  "streamed p s s' \<longleftrightarrow> s' = s\<lparr>dev := dev s', objs := objs s'\<rparr> \<and> fat_mounted p s' \<and>
     (\<forall>q. q \<notin> fat_streams p \<longrightarrow> objs s' q = objs s q)"

lemma streamed_refl: "fat_mounted p s \<Longrightarrow> streamed p s s"
  by (simp add: streamed_def)

lemma streamed_trans: 
  assumes "streamed p s t" and "streamed p t u"
  shows "streamed p s u"
proof -
  have t: "t = s\<lparr>dev := dev t, objs := objs t\<rparr>" and u: "u = t\<lparr>dev := dev u, objs := objs u\<rparr>"
    using assms by (simp_all add: streamed_def)
  have "u = s\<lparr>dev := dev u, objs := objs u\<rparr>"
    by (subst u, subst t) simp
  with assms show ?thesis by (simp add: streamed_def)
qed

lemma streamed_mounted: "streamed p s s' \<Longrightarrow> fat_mounted p s'"
  by (simp add: streamed_def)

lemma streamed_disk: "streamed p s s' \<Longrightarrow> disk s' = disk s"
proof -
  assume "streamed p s s'"
  then have "s' = s\<lparr>dev := dev s', objs := objs s'\<rparr>" by (simp add: streamed_def)
  then have "disk s' = disk (s\<lparr>dev := dev s', objs := objs s'\<rparr>)" by (rule arg_cong)
  then show ?thesis by simp
qed

lemma mounted_private:
  "fat_mounted p s \<Longrightarrow> get_private TheDisk s = Some p" "fat_mounted p s \<Longrightarrow> get_disk TheDisk s = Some (disk s)"
  "fat_mounted p s \<Longrightarrow> dk_sector_size (disk s) = 512"
  by (simp_all add: fat_mounted_def get_private_def get_disk_def deref_def)

lemma mounted_not_stream: "fat_mounted p s \<Longrightarrow> dk_fs_private (disk s) \<notin> fat_streams p"
  by (auto simp: fat_mounted_def)

lemma streamed_moved:
  assumes m: "fat_mounted p s" and q: "q \<in> fat_streams p"
  shows "streamed p s (stream_moved s q pos d)"
  using assms mounted_not_stream [OF m]
  by (auto simp: streamed_def fat_mounted_def stream_moved_def)

text \<open>Seeking one of the driver's streams and reading from there.\<close>

lemma seek_read_ok:
  assumes hw: "ata_ok hw img idle xfer" and idle: "idle (dev s)" and m: "fat_mounted p s"
    and q: "q \<in> fat_streams p" and b: "pos + n \<le> 2147483647" "n \<le> length out"
    and al: "pos mod 512 = 0 \<or> pos mod 512 + n \<le> 512"
  obtains s1 s2 where "diskstreamer_seek q (int pos) s = Some (0, s1)" "streamed p s s1"
    "diskstreamer_read hw q out (int n) s1 = Some (0, img_bytes img pos n @ drop n out, s2)"
    "streamed p s s2" "idle (dev s2)" "objs s2 q = Some (stream_obj (pos + n))"
proof -
  from m q obtain k where k: "objs s q = Some (OStream \<lparr>ds_pos = k, ds_disk = TheDisk\<rparr>)"
    by (auto simp: fat_mounted_def)
  let ?s = "stream_moved s q pos (dev s)"
  have seek: "diskstreamer_seek q (int pos) s = Some (0, ?s)"
    using k by (simp add: diskstreamer_seek_def deref_def store_def stream_moved_def)
  have st: "objs ?s q = Some (stream_obj pos)" and id: "idle (dev ?s)" using idle by simp_all
  obtain d where d: "idle d" "diskstreamer_read hw q out (int n) ?s =
      Some (0, img_bytes img pos n @ drop n out, stream_moved ?s q (pos + n) d)"
    using stream_read_ok [OF hw id st b al] by blast
  show thesis
    by (rule that [OF seek streamed_moved [OF m q] d(2)])
      (use d(1) streamed_moved [OF m q] in simp_all)
qed

section \<open>The walk through the table\<close>

lemma fat_entry_ok:
  assumes hw: "ata_ok hw img idle xfer" and idle: "idle (dev s)" and m: "fat_mounted p s" and c: "c < 65536"
  obtains s' where "fat16_get_fat_entry hw TheDisk (int c) s = Some (int (fat_entry img p c), s')"
    "streamed p s s'" "idle (dev s')"
proof -
  define r where "r = nat (h_reserved_sectors (fp_header p))"
  have r: "h_reserved_sectors (fp_header p) = int r" "r < 65536"
    using unsigned_less [of "le16 (fp_header p) 14", where 'a = nat] by (simp_all add: r_def h_reserved_sectors_def)
  let ?pos = "512 * r + 2 * c"
  have w: "fat16_get_first_fat_sector p * u32_of_int 512 + u32_of_int (int c * 2) = of_nat ?pos"
    by (simp add: fat16_get_first_fat_sector_def r(1) mult.commute)
  have "unat (of_nat ?pos :: u32) = ?pos" using r(2) c by (intro unat_of_nat_u32) simp
  then have pos: "sint (of_nat ?pos :: u32) = int ?pos"
    using r(2) c by (subst sint_u32_small) simp_all
  have al: "?pos mod 512 = 0 \<or> ?pos mod 512 + 2 \<le> 512"
  proof -
    have "?pos mod 512 = 2 * (c mod 256)" by (simp add: mult_mod_right)
    moreover have "c mod 256 < 256" by simp
    ultimately show ?thesis by linarith
  qed
  have q: "fat_read_stream p \<in> fat_streams p" by (simp add: fat_streams_def)
  have len: "2 \<le> length [0 :: u8, 0]" and bnd: "?pos + 2 \<le> 2147483647" using r(2) c by simp_all
  obtain s1 s2 where s: "diskstreamer_seek (fat_read_stream p) (int ?pos) s = Some (0, s1)"
    "diskstreamer_read hw (fat_read_stream p) [0, 0] (int 2) s1 = Some (0, img_bytes img ?pos 2 @ drop 2 [0, 0], s2)"
    "streamed p s s2" "idle (dev s2)"
    by (rule seek_read_ok [OF hw idle m q bnd len al])
  have "fat_read_stream p \<noteq> 0" using m by (simp add: fat_mounted_def)
  then have "fat16_get_fat_entry hw TheDisk (int c) s = Some (int (fat_entry img p c), s2)"
    using s(1,2) w pos
    by (simp add: fat16_get_fat_entry_def mounted_private [OF m] Let_def fat_entry_def r_def [symmetric]
        mult.commute [of "word_of_nat c :: u32" 2])
  then show thesis by (rule that [OF _ s(3,4)])
qed

lemma cluster_walk_ok:
  assumes hw: "ata_ok hw img idle xfer"
  shows "idle (dev s) \<Longrightarrow> fat_mounted p s \<Longrightarrow> c < 65536 \<Longrightarrow>
    \<exists>s'. fat16_cluster_walk hw TheDisk n (int c) s =
      Some (case fat_chain (fat_entry img p) n c of Some k \<Rightarrow> int k | None \<Rightarrow> - EIO, s') \<and>
      streamed p s s' \<and> idle (dev s')"
proof (induction n arbitrary: c s)
  case 0
  then show ?case by (auto intro: streamed_refl)
next
  case (Suc n)
  obtain s1 where s1: "fat16_get_fat_entry hw TheDisk (int c) s = Some (int (fat_entry img p c), s1)"
    "streamed p s s1" "idle (dev s1)"
    by (rule fat_entry_ok [OF hw Suc.prems])
  show ?case
  proof (cases "chain_stop (fat_entry img p c)")
    case True
    then have "fat16_cluster_walk hw TheDisk (Suc n) (int c) s = Some (- EIO, s1)"
      using s1(1) by (auto simp: chain_stop_def)
    then show ?thesis using True s1(2,3) by auto
  next
    case False
    then have walk: "fat16_cluster_walk hw TheDisk (Suc n) (int c) s =
        fat16_cluster_walk hw TheDisk n (int (fat_entry img p c)) s1"
      using s1(1) by (auto simp: chain_stop_def)
    from Suc.IH [OF s1(3) streamed_mounted [OF s1(2)] fat_entry_less]
    show ?thesis using False streamed_trans [OF s1(2)] unfolding walk fat_chain.simps(2) if_not_P [OF False] by blast
  qed
qed

lemma cluster_bytes_eq:
  "h_sectors_per_cluster (fp_header p) * 512 = int (cluster_bytes p)"
  by (simp add: cluster_bytes_def h_sectors_per_cluster_def)

lemma cluster_for_offset_ok:
  assumes hw: "ata_ok hw img idle xfer" and "idle (dev s)" and m: "fat_mounted p s" and "c < 65536"
    and b: "0 < cluster_bytes p"
  shows "\<exists>s'. fat16_get_cluster_for_offset hw TheDisk (int c) (int off) s =
      Some (case fat_chain (fat_entry img p) (off div cluster_bytes p) c of Some k \<Rightarrow> int k | None \<Rightarrow> - EIO, s') \<and>
      streamed p s s' \<and> idle (dev s')"
proof -
  have "h_sectors_per_cluster (fp_header p) \<noteq> 0" using b cluster_bytes_eq [of p] by auto
  then show ?thesis
    using cluster_walk_ok [OF hw assms(2-4), of "off div cluster_bytes p"]
    by (simp add: fat16_get_cluster_for_offset_def mounted_private [OF m] Let_def cluster_bytes_eq sdiv_nat)
qed

section \<open>Reading a file\<close>

text \<open>A read of at most one cluster that stays in it.\<close>

lemma read_in_cluster:
  assumes hw: "ata_ok hw img idle xfer" and idle: "idle (dev s)" and m: "fat_mounted p s" and c: "c < 65536"
    and b: "0 < cluster_bytes p" and q: "q \<in> fat_streams p"
    and ext: "file_extent_ok img p c (off + n)" and n: "0 < n" "n \<le> length out"
    and fit: "off mod cluster_bytes p + min n (cluster_bytes p) \<le> cluster_bytes p"
    and al: "off mod 512 = 0 \<or> off mod 512 + min n (cluster_bytes p) \<le> 512"
  obtains s' where "streamed p s s'" "idle (dev s')"
    "fat16_read_internal_from_stream hw TheDisk q (int c) (int off) (int n) out s =
      (let t = min n (cluster_bytes p); out1 = file_bytes img p c off t @ drop t out in
       if n > cluster_bytes p then do {
         (res, out', s) \<leftarrow> fat16_read_internal_from_stream hw TheDisk q (int c) (int (off + t)) (int (n - t))
            (drop t out1) s';
         Some (res, take t out1 @ out', s) }
       else Some (0, out1, s'))"
proof -
  let ?b = "cluster_bytes p" and ?t = "min n (cluster_bytes p)"
  have "off < off + n" using n by simp
  with ext have "case fat_chain (fat_entry img p) (off div ?b) c of
      Some k \<Rightarrow> 0 \<le> cluster_pos p k \<and> cluster_pos p k + int ?b \<le> 2147483647 | None \<Rightarrow> False"
    unfolding file_extent_ok_def by blast
  then obtain k where k: "fat_chain (fat_entry img p) (off div ?b) c = Some k"
    "0 \<le> cluster_pos p k" "cluster_pos p k + int ?b \<le> 2147483647"
    by (auto split: option.splits)
  obtain s1 where s1: "fat16_get_cluster_for_offset hw TheDisk (int c) (int off) s = Some (int k, s1)"
    "streamed p s s1" "idle (dev s1)"
    using cluster_for_offset_ok [OF hw idle m c b, of off] k(1) by auto
  define pos where "pos = nat (cluster_pos p k) + off mod ?b"
  have pos: "cluster_pos p k + int (off mod ?b) = int pos" using k(2) by (simp add: pos_def)
  have bnd: "pos + ?t \<le> 2147483647" using k(2,3) fit pos by simp
  have "pos mod 512 = off mod 512"
  proof -
    have "512 dvd nat (cluster_pos p k)" using k(2) by (simp add: cluster_pos_def nat_mult_distrib)
    moreover have "off mod ?b mod 512 = off mod 512" by (simp add: cluster_bytes_def mod_mod_cancel)
    ultimately show ?thesis unfolding pos_def by (metis dvd_imp_mod_0 mod_add_left_eq add_0)
  qed
  then have al': "pos mod 512 = 0 \<or> pos mod 512 + ?t \<le> 512" using al by simp
  have len: "?t \<le> length out" using n(2) by simp
  obtain s2 s3 where s3: "diskstreamer_seek q (int pos) s1 = Some (0, s2)"
    "diskstreamer_read hw q out (int ?t) s2 = Some (0, img_bytes img pos ?t @ drop ?t out, s3)"
    "streamed p s1 s3" "idle (dev s3)"
    by (rule seek_read_ok [OF hw s1(3) streamed_mounted [OF s1(2)] q bnd len al'])
  have fb: "img_bytes img pos ?t = file_bytes img p c off ?t"
    using file_bytes_in_cluster [OF k(1) fit] by (simp add: pos_def)
  have tt: "(if int n > int ?b then int ?b else int n) = int ?t" by auto
  have sm: "int off smod int ?b = int (off mod ?b)" by (rule smod_nat)
  have cp: "fat16_cluster_to_sector p (int k) * 512 + int (off mod ?b) = int pos"
    using pos by (simp add: cluster_pos_def)
  have "fat16_read_internal_from_stream hw TheDisk q (int c) (int off) (int n) out s =
      (let t = ?t; out1 = file_bytes img p c off t @ drop t out in
       if n > ?b then do {
         (res, out', s) \<leftarrow> fat16_read_internal_from_stream hw TheDisk q (int c) (int (off + t)) (int (n - t))
            (drop t out1) s3;
         Some (res, take t out1 @ out', s) }
       else Some (0, out1, s3))"
    unfolding fat16_read_internal_from_stream.simps [of hw TheDisk q "int c" "int off" "int n" out s]
      mounted_private [OF m] Option.bind.simps Let_def cluster_bytes_eq s1(1) prod.case sm cp tt
    using s3(1) s3(2) [unfolded fb]
    by (cases "?b < n") (simp_all add: min.absorb1 min.absorb2 of_nat_diff)
  then show thesis by (rule that [OF streamed_trans [OF s1(2) s3(3)] s3(4)])
qed

text \<open>
  A read of at most one cluster takes the bytes that follow on the disk, also those beyond the end of
  the cluster; one that is neither on a sector boundary nor inside one sector is undefined.
\<close>

lemma read_piece:
  assumes hw: "ata_ok hw img idle xfer" and idle: "idle (dev s)" and m: "fat_mounted p s" and c: "c < 65536"
    and b: "0 < cluster_bytes p" and q: "q \<in> fat_streams p"
    and k: "fat_chain (fat_entry img p) (off div cluster_bytes p) c = Some k" "0 \<le> cluster_pos p k"
    and n: "n \<le> cluster_bytes p" "n \<le> length out" and pos: "pos = nat (cluster_pos p k) + off mod cluster_bytes p"
    and bnd: "pos + n \<le> 2147483647"
  shows "if off mod 512 = 0 \<or> off mod 512 + n \<le> 512
    then \<exists>s'. fat16_read_internal_from_stream hw TheDisk q (int c) (int off) (int n) out s =
        Some (0, img_bytes img pos n @ drop n out, s') \<and> streamed p s s' \<and> idle (dev s')
    else fat16_read_internal_from_stream hw TheDisk q (int c) (int off) (int n) out s = None"
proof -
  let ?b = "cluster_bytes p"
  obtain s1 where s1: "fat16_get_cluster_for_offset hw TheDisk (int c) (int off) s = Some (int k, s1)"
    "streamed p s s1" "idle (dev s1)"
    using cluster_for_offset_ok [OF hw idle m c b, of off] k(1) by auto
  have cp: "fat16_cluster_to_sector p (int k) * 512 + int (off mod ?b) = int pos"
    using k(2) by (simp add: pos cluster_pos_def)
  have "512 dvd nat (cluster_pos p k)" using k(2) by (simp add: cluster_pos_def nat_mult_distrib)
  moreover have "off mod ?b mod 512 = off mod 512" by (simp add: cluster_bytes_def mod_mod_cancel)
  ultimately have al: "pos mod 512 = off mod 512" unfolding pos by (metis dvd_imp_mod_0 mod_add_left_eq add_0)
  obtain i where i: "objs s1 q = Some (OStream \<lparr>ds_pos = i, ds_disk = TheDisk\<rparr>)"
    using streamed_mounted [OF s1(2)] q by (auto simp: fat_mounted_def)
  let ?s = "stream_moved s1 q pos (dev s1)"
  have seek: "diskstreamer_seek q (int pos) s1 = Some (0, ?s)"
    using i by (simp add: diskstreamer_seek_def deref_def store_def stream_moved_def)
  have read: "fat16_read_internal_from_stream hw TheDisk q (int c) (int off) (int n) out s = do {
      (res, out, s) \<leftarrow> diskstreamer_read hw q out (int n) ?s;
      Some (res, out, s) }"
    unfolding fat16_read_internal_from_stream.simps [of hw TheDisk q "int c" "int off" "int n" out s]
      mounted_private [OF m] Option.bind.simps Let_def cluster_bytes_eq s1(1) prod.case smod_nat cp
    using seek n(1) by (cases "diskstreamer_read hw q out (int n) ?s") auto
  have st: "objs ?s q = Some (stream_obj pos)" "idle (dev ?s)" using s1(3) by simp_all
  show ?thesis
  proof (cases "off mod 512 = 0 \<or> off mod 512 + n \<le> 512")
    case True
    then obtain d where d: "idle d" "diskstreamer_read hw q out (int n) ?s =
        Some (0, img_bytes img pos n @ drop n out, stream_moved ?s q (pos + n) d)"
      using stream_read_ok [OF hw st(2,1) bnd n(2)] al by auto
    have "streamed p s (stream_moved s1 q (pos + n) d)"
      by (rule streamed_trans [OF s1(2) streamed_moved [OF streamed_mounted [OF s1(2)] q]])
    then show ?thesis using True read d by simp
  next
    case False
    then show ?thesis using stream_read_overrun [OF hw st(2,1) bnd n(2)] al read by simp
  qed
qed

lemma file_extent_mono: "file_extent_ok img p c e \<Longrightarrow> e' \<le> e \<Longrightarrow> file_extent_ok img p c e'"
  by (auto simp: file_extent_ok_def)

lemma read_internal_ok:
  assumes hw: "ata_ok hw img idle xfer" and c: "c < 65536" and b: "0 < cluster_bytes p" and q: "q \<in> fat_streams p"
  shows "\<lbrakk>idle (dev s); fat_mounted p s; file_extent_ok img p c (off + n); 0 < n; n \<le> length out;
      off mod cluster_bytes p = 0 \<or> off mod 512 + n \<le> 512\<rbrakk> \<Longrightarrow>
    \<exists>s'. fat16_read_internal_from_stream hw TheDisk q (int c) (int off) (int n) out s =
      Some (0, file_bytes img p c off n @ drop n out, s') \<and> streamed p s s' \<and> idle (dev s')"
proof (induction n arbitrary: off out s rule: less_induct)
  case (less n)
  let ?b = "cluster_bytes p" and ?t = "min n (cluster_bytes p)"
  have dvd: "512 dvd ?b" by (simp add: cluster_bytes_def)
  have al: "off mod 512 = 0 \<or> off mod 512 + ?t \<le> 512"
    using less.prems(6) dvd by (auto simp: mod_0_imp_dvd intro: dvd_trans)
  have fit: "off mod ?b + ?t \<le> ?b"
    using less.prems(6)
  proof
    assume in_sector: "off mod 512 + n \<le> 512"
    obtain j where j: "?b = 512 * j" using dvd by (auto simp: dvd_def)
    have "off mod ?b = off mod 512 + 512 * (off div 512 mod j)" by (simp add: j mod_mult2_eq)
    moreover have "off div 512 mod j < j" using b j by simp
    then have "512 * (off div 512 mod j) + 512 \<le> ?b" unfolding j by simp
    ultimately show ?thesis using in_sector by linarith
  qed simp
  obtain s1 where s1: "streamed p s s1" "idle (dev s1)"
    "fat16_read_internal_from_stream hw TheDisk q (int c) (int off) (int n) out s =
      (let t = ?t; out1 = file_bytes img p c off t @ drop t out in
       if n > ?b then do {
         (res, out', s) \<leftarrow> fat16_read_internal_from_stream hw TheDisk q (int c) (int (off + t)) (int (n - t))
            (drop t out1) s1;
         Some (res, take t out1 @ out', s) }
       else Some (0, out1, s1))"
    by (rule read_in_cluster [OF hw less.prems(1,2) c b q less.prems(3,4,5) fit al])
  show ?case
  proof (cases "n > ?b")
    case False
    then show ?thesis using s1 by (intro exI [of _ s1]) (simp add: min_def)
  next
    case True
    then have t: "?t = ?b" by simp
    have "off mod ?b = 0" using less.prems(6) True dvd b by (metis add_leD2 dvd_imp_le leD le_trans)
    then have off: "(off + ?b) mod ?b = 0 \<or> (off + ?b) mod 512 + (n - ?b) \<le> 512" by simp
    have "n - ?b < n" "0 < n - ?b" "n - ?b \<le> length (drop ?b out)" using True b less.prems(5) by simp_all
    moreover have "file_extent_ok img p c (off + ?b + (n - ?b))" using less.prems(3) True by simp
    ultimately obtain s2 where s2: "fat16_read_internal_from_stream hw TheDisk q (int c) (int (off + ?b))
        (int (n - ?b)) (drop ?b out) s1 = Some (0, file_bytes img p c (off + ?b) (n - ?b) @ drop (n - ?b) (drop ?b out), s2)"
      "streamed p s1 s2" "idle (dev s2)"
      using less.IH [of "n - ?b" s1 "off + ?b" "drop ?b out"] s1(2) streamed_mounted [OF s1(1)] off by blast
    have "file_bytes img p c off n = file_bytes img p c off ?b @ file_bytes img p c (off + ?b) (n - ?b)"
      using True file_bytes_add [of img p c off ?b "n - ?b"] by simp
    then show ?thesis
      using s1(3) s2(1,3) True streamed_trans [OF s1(1) s2(2)]
      by (intro exI [of _ s2]) (simp add: t Let_def)
  qed
qed

section \<open>Counting the items of a directory\<close>

text \<open>
  The entry \<open>n\<close> of the directory at \<open>pos\<close> is its first free entry, and the number of entries
  before it that are not deleted.
\<close>

definition dir_end :: "(nat \<Rightarrow> u8 list) \<Rightarrow> nat \<Rightarrow> nat \<Rightarrow> bool" where
  "dir_end img pos n \<longleftrightarrow> img_byte img (pos + 32 * n) = 0 \<and> (\<forall>k < n. img_byte img (pos + 32 * k) \<noteq> 0)"

definition dir_count :: "(nat \<Rightarrow> u8 list) \<Rightarrow> nat \<Rightarrow> nat \<Rightarrow> nat" where
  "dir_count img pos n = length (filter (\<lambda>k. img_byte img (pos + 32 * k) \<noteq> 0xE5) [0..<n])"

lemma dir_end_Suc:
  "dir_end img pos (Suc n) \<longleftrightarrow> img_byte img pos \<noteq> 0 \<and> dir_end img (pos + 32) n"
  by (auto simp: dir_end_def All_less_Suc2 add.assoc)

lemma dir_count_Suc:
  "dir_count img pos (Suc n) = (if img_byte img pos = 0xE5 then 0 else 1) + dir_count img (pos + 32) n"
proof -
  have "[0..<Suc n] = 0 # map Suc [0..<n]" by (simp add: upt_conv_Cons map_Suc_upt)
  then show ?thesis
    by (simp add: dir_count_def filter_map comp_def add.assoc del: upt_Suc)
qed

lemma entry_in_sector: "pos mod 32 = 0 \<Longrightarrow> pos mod 512 = 0 \<or> pos mod 512 + 32 \<le> (512 :: nat)"
proof -
  assume "pos mod 32 = 0"
  then obtain k where "pos = 32 * k" by (auto simp: mod_eq_0_iff_dvd dvd_def)
  then have "pos mod 512 = 32 * (k mod 16)" by (simp add: mult_mod_right)
  moreover have "k mod 16 < 16" by simp
  ultimately show ?thesis by linarith
qed

lemma count_items_ok:
  assumes hw: "ata_ok hw img idle xfer" and q: "q \<in> fat_streams p"
  shows "\<lbrakk>idle (dev s); fat_mounted p s; objs s q = Some (stream_obj pos); pos mod 32 = 0;
      pos + 32 * n + 32 \<le> 2147483647; dir_end img pos n\<rbrakk> \<Longrightarrow>
    \<exists>s'. fat16_count_items hw q i s = Some (i + int (dir_count img pos n), s') \<and> streamed p s s' \<and> idle (dev s')"
proof (induction n arbitrary: pos i s)
  case 0
  have al: "pos mod 512 = 0 \<or> pos mod 512 + 32 \<le> 512" using 0(4) by (rule entry_in_sector)
  have bnd: "pos + 32 \<le> 2147483647" and len: "32 \<le> length (replicate 32 (0 :: u8))" using 0(5) by simp_all
  from stream_read_ok [OF hw 0(1,3) bnd len al] obtain d where d: "idle d"
    "diskstreamer_read hw q (replicate 32 0) 32 s = Some (0, img_bytes img pos 32, stream_moved s q (pos + 32) d)"
    by auto
  have "img_bytes img pos 32 ! 0 = 0" using 0(6) by (simp add: dir_end_def)
  then have "fat16_count_items hw q i s = Some (i, stream_moved s q (pos + 32) d)"
    by (subst fat16_count_items.simps) (simp add: d(2))
  then show ?case using d(1) streamed_moved [OF 0(2) q] by (simp add: dir_count_def)
next
  case (Suc n)
  have al: "pos mod 512 = 0 \<or> pos mod 512 + 32 \<le> 512" using Suc.prems(4) by (rule entry_in_sector)
  have bnd: "pos + 32 \<le> 2147483647" and len: "32 \<le> length (replicate 32 (0 :: u8))"
    using Suc.prems(5) by simp_all
  from stream_read_ok [OF hw Suc.prems(1,3) bnd len al] obtain d where d: "idle d"
    "diskstreamer_read hw q (replicate 32 0) 32 s = Some (0, img_bytes img pos 32, stream_moved s q (pos + 32) d)"
    by auto
  let ?s = "stream_moved s q (pos + 32) d"
  have m: "streamed p s ?s" by (rule streamed_moved [OF Suc.prems(2) q])
  have b: "img_bytes img pos 32 ! 0 = img_byte img pos" by simp
  define j where "j = (if img_byte img pos = 0xE5 then i else i + 1)"
  have nz: "img_byte img pos \<noteq> 0" and e: "dir_end img (pos + 32) n" using Suc.prems(6) by (simp_all add: dir_end_Suc)
  have step: "fat16_count_items hw q i s = fat16_count_items hw q j ?s"
    by (subst fat16_count_items.simps) (simp add: d(2) b nz j_def)
  have pm: "(pos + 32) mod 32 = 0" using Suc.prems(4) by simp
  have bd: "pos + 32 + 32 * n + 32 \<le> 2147483647" using Suc.prems(5) by simp
  have st: "objs ?s q = Some (stream_obj (pos + 32))" by simp
  obtain s' where "fat16_count_items hw q j ?s = Some (j + int (dir_count img (pos + 32) n), s')"
    "streamed p ?s s'" "idle (dev s')"
    using Suc.IH [OF _ streamed_mounted [OF m] st pm bd e, of j] d(1) by auto
  then show ?case using step streamed_trans [OF m] by (auto simp: j_def dir_count_Suc)
qed

lemma total_items_ok:
  assumes hw: "ata_ok hw img idle xfer" and "idle (dev s)" and m: "fat_mounted p s"
    and b: "512 * sector + 32 * n + 32 \<le> 2147483647" and e: "dir_end img (512 * sector) n"
  shows "\<exists>s'. fat16_get_total_items_for_directory hw TheDisk (of_nat sector) s =
      Some (int (dir_count img (512 * sector) n), s') \<and> streamed p s s' \<and> idle (dev s')"
proof -
  have q: "directory_stream p \<in> fat_streams p" by (simp add: fat_streams_def)
  from m q obtain k where k: "objs s (directory_stream p) = Some (OStream \<lparr>ds_pos = k, ds_disk = TheDisk\<rparr>)"
    by (auto simp: fat_mounted_def)
  let ?s = "stream_moved s (directory_stream p) (512 * sector) (dev s)"
  have "(of_nat sector * u32_of_int 512 :: u32) = of_nat (512 * sector)" by (simp add: mult.commute)
  moreover have "unat (of_nat (512 * sector) :: u32) = 512 * sector" using b by (intro unat_of_nat_u32) simp
  then have "sint (of_nat (512 * sector) :: u32) = int (512 * sector)"
    using b by (subst sint_u32_small) simp_all
  ultimately have pos: "sint (of_nat sector * u32_of_int 512 :: u32) = int (512 * sector)" by metis
  have seek: "diskstreamer_seek (directory_stream p) (int (512 * sector)) s = Some (0, ?s)"
    using k by (simp add: diskstreamer_seek_def deref_def store_def stream_moved_def)
  have ms: "streamed p s ?s" by (rule streamed_moved [OF m q])
  have st: "objs ?s (directory_stream p) = Some (stream_obj (512 * sector))" by simp
  obtain s' where s': "fat16_count_items hw (directory_stream p) 0 ?s =
      Some (0 + int (dir_count img (512 * sector) n), s')" "streamed p ?s s'" "idle (dev s')"
    using count_items_ok [OF hw q _ streamed_mounted [OF ms] st _ b e, of 0] assms(2) by auto
  have "fat16_get_total_items_for_directory hw TheDisk (of_nat sector) s =
      Some (int (dir_count img (512 * sector) n), s')"
    unfolding fat16_get_total_items_for_directory_def mounted_private [OF m] Option.bind.simps Let_def pos seek
    using s'(1) by simp
  then show ?thesis using s'(3) streamed_trans [OF ms s'(2)] by blast
qed

section \<open>An open file\<close>

text \<open>
  The descriptor \<open>fd\<close> is open: \<open>d\<close> is its descriptor, \<open>f\<close> the driver's part of it with the
  position, \<open>item\<close> the file's directory entry.
\<close>

definition open_file ::
  "int \<Rightarrow> file_descriptor \<Rightarrow> fat_file_descriptor \<Rightarrow> fat_directory_item \<Rightarrow> ('d, 'a) vfsmem_scheme \<Rightarrow> bool" where
  "open_file fd d f item s \<longleftrightarrow> (\<exists>desc it. 1 \<le> fd \<and> file_get_descriptor fd s = Some desc \<and> desc \<noteq> 0 \<and>
     objs s desc = Some (OFileDesc d) \<and> fd_disk d = TheDisk \<and> fd_filesystem d = Fat16Fs \<and>
     objs s (fd_private d) = Some (OFatFd f) \<and> objs s (ffd_item f) = Some (OFatItem it) \<and>
     fi_type it = FAT_ITEM_TYPE_FILE \<and> objs s (fi_ptr it) = Some (OBytes item))"

lemma streamed_objs:
  assumes "streamed p s s'" and "fat_mounted p s" and "objs s q = Some x"
    and "\<And>st. x \<noteq> OStream st"
  shows "objs s' q = Some x"
proof -
  have "q \<notin> fat_streams p" using assms(2,3,4) unfolding fat_mounted_def by (metis option.inject)
  with assms(1,3) show ?thesis by (simp add: streamed_def)
qed

lemma streamed_table:
  fixes s s' :: "('d, 'a) vfsmem_scheme"
  assumes "streamed p s s'"
  shows "file_descriptors s' = file_descriptors s"
proof -
  have "s' = s\<lparr>dev := dev s', objs := objs s'\<rparr>" using assms by (simp add: streamed_def)
  then have "file_descriptors s' = file_descriptors (s\<lparr>dev := dev s', objs := objs s'\<rparr>)" by (rule arg_cong)
  then show ?thesis by simp
qed

text \<open>Only the file position and the streams are other than before.\<close>

definition moved_file :: "fat_private \<Rightarrow> ptr \<Rightarrow> ('d, 'a) vfsmem_scheme \<Rightarrow> ('d, 'a) vfsmem_scheme \<Rightarrow> bool" where
  "moved_file p private s s' \<longleftrightarrow> fat_mounted p s' \<and> kernel_heap s' = kernel_heap s \<and> disk s' = disk s \<and>
     file_descriptors s' = file_descriptors s \<and>
     (\<forall>q. q \<notin> fat_streams p \<longrightarrow> q \<noteq> private \<longrightarrow> objs s' q = objs s q)"

lemma moved_fileI:
  fixes s s1 :: "('d, 'a) vfsmem_scheme"
  assumes m: "fat_mounted p s" and st: "streamed p s s1" and f: "objs s q = Some (OFatFd f)"
  shows "moved_file p q s (s1\<lparr>objs := (objs s1)(q \<mapsto> OFatFd f')\<rparr>)"
proof -
  have s1: "s1 = s\<lparr>dev := dev s1, objs := objs s1\<rparr>" using st by (simp add: streamed_def)
  then have "kernel_heap s1 = kernel_heap (s\<lparr>dev := dev s1, objs := objs s1\<rparr>)" by (rule arg_cong)
  moreover have "q \<notin> fat_streams p" "q \<noteq> dk_fs_private (disk s)" using m f by (auto simp: fat_mounted_def)
  ultimately show ?thesis
    using streamed_mounted [OF st] streamed_disk [OF st] streamed_table [OF st] st
    by (auto simp: moved_file_def fat_mounted_def streamed_def)
qed

text \<open>
  \<open>k\<close> members of \<open>n\<close> bytes from \<open>off\<close> on, each on a cluster boundary or inside one sector.
\<close>

definition members_aligned :: "nat \<Rightarrow> nat \<Rightarrow> nat \<Rightarrow> nat \<Rightarrow> bool" where
  "members_aligned b off n k \<longleftrightarrow> (\<forall>i < k. (off + i * n) mod b = 0 \<or> (off + i * n) mod 512 + n \<le> 512)"

lemma members_aligned_Suc:
  "members_aligned b off n (Suc k) \<longleftrightarrow>
     (off mod b = 0 \<or> off mod 512 + n \<le> 512) \<and> members_aligned b (off + n) n k"
  by (simp add: members_aligned_def All_less_Suc2 add.assoc)

lemma read_loop_ok:
  assumes hw: "ata_ok hw img idle xfer" and b: "0 < cluster_bytes p" and c: "unat cl < 65536"
    and n: "0 < n" "n \<le> 2147483647"
  shows "\<lbrakk>idle (dev s); fat_mounted p s; file_extent_ok img p (unat cl) (off + k * n); k * n \<le> length out;
      off + k * n \<le> 2147483647; members_aligned (cluster_bytes p) off n k\<rbrakk> \<Longrightarrow>
    \<exists>s'. fat16_read_loop hw TheDisk cl k (of_nat n) res (int off) out s =
      Some (if k = 0 then res else 0, int (off + k * n), file_bytes img p (unat cl) off (k * n) @ drop (k * n) out, s') \<and>
      streamed p s s' \<and> idle (dev s')"
proof (induction k arbitrary: off res out s)
  case 0
  then show ?case by (simp add: streamed_refl file_bytes_def)
next
  case (Suc k)
  have q: "cluster_read_stream p \<in> fat_streams p" by (simp add: fat_streams_def)
  have al: "off mod cluster_bytes p = 0 \<or> off mod 512 + n \<le> 512" "members_aligned (cluster_bytes p) (off + n) n k"
    using Suc.prems(6) by (simp_all add: members_aligned_Suc)
  have len: "n \<le> length out" and ext: "file_extent_ok img p (unat cl) (off + n)"
    using Suc.prems(3,4) by (simp, elim file_extent_mono) simp
  obtain s1 where s1: "fat16_read_internal_from_stream hw TheDisk (cluster_read_stream p) (int (unat cl)) (int off) (int n) out s =
      Some (0, file_bytes img p (unat cl) off n @ drop n out, s1)" "streamed p s s1" "idle (dev s1)"
    using read_internal_ok [OF hw c b q Suc.prems(1,2) ext n(1) len al(1)] by blast
  have un: "unat (of_nat n :: u32) = n" using n(2) by (intro unat_of_nat_u32) simp
  then have w: "sint cl = int (unat cl)" "sint (of_nat n :: u32) = int n"
    using c n(2) by (simp_all add: sint_u32_small)
  have "sint (of_nat (off + n) :: u32) = int (off + n)"
    using Suc.prems(5) by (subst sint_u32_small) (simp_all add: unat_of_nat_u32 del: of_nat_add)
  then have next_off: "sint (of_nat n + of_nat off :: u32) = int n + int off" by (simp add: add.commute)
  have pre: "file_extent_ok img p (unat cl) (off + n + k * n)" "k * n \<le> length (drop n out)" "off + n + k * n \<le> 2147483647"
    using Suc.prems(3-5) by (simp_all add: add.assoc)
  obtain s2 where s2: "fat16_read_loop hw TheDisk cl k (of_nat n) 0 (int (off + n)) (drop n out) s1 =
      Some (if k = 0 then 0 else 0, int (off + n + k * n), file_bytes img p (unat cl) (off + n) (k * n) @ drop (k * n) (drop n out), s2)"
    "streamed p s1 s2" "idle (dev s2)"
    using Suc.IH [OF s1(3) streamed_mounted [OF s1(2)] pre al(2), of 0] by blast
  have "fat16_read_loop hw TheDisk cl (Suc k) (of_nat n) res (int off) out s =
      Some (0, int (off + Suc k * n), file_bytes img p (unat cl) off (Suc k * n) @ drop (Suc k * n) out, s2)"
    using s1(1) s2(1) file_bytes_add [of img p "unat cl" off n "k * n"]
    by (simp add: fat16_read_internal_def mounted_private [OF Suc.prems(2)] w un next_off ac_simps
        del: fat16_read_internal_from_stream.simps)
  then show ?case using streamed_trans [OF s1(2) s2(2)] s2(3) by auto
qed

text \<open>The members read through the driver.\<close>

lemma fat16_read_ok:
  fixes s :: "('d, 'a) vfsmem_scheme"
  assumes hw: "ata_ok hw img idle xfer" and idle: "idle (dev s)" and m: "fat_mounted p s" and b: "0 < cluster_bytes p"
    and op: "objs s q = Some (OFatFd f)" "objs s (ffd_item f) = Some (OFatItem it)" "objs s (fi_ptr it) = Some (OBytes item)"
    and c: "unat (fat16_get_first_cluster item) < 65536" and n: "0 < n" "0 < k" "k * n \<le> length out"
    and e: "unat (ffd_pos f) + k * n \<le> 2147483647"
      "file_extent_ok img p (unat (fat16_get_first_cluster item)) (unat (ffd_pos f) + k * n)"
    and al: "members_aligned (cluster_bytes p) (unat (ffd_pos f)) n k"
  obtains s1 where "fat16_read hw TheDisk q (of_nat n) (of_nat k) out s =
      Some (int k, file_bytes img p (unat (fat16_get_first_cluster item)) (unat (ffd_pos f)) (k * n) @ drop (k * n) out,
        s1\<lparr>objs := (objs s1)(q \<mapsto> OFatFd (f\<lparr>ffd_pos := ffd_pos f + of_nat (k * n)\<rparr>))\<rparr>)"
    "streamed p s s1" "idle (dev s1)"
proof -
  let ?c = "unat (fat16_get_first_cluster item)" and ?pos = "unat (ffd_pos f)"
  have kn: "k \<le> k * n" "n \<le> k * n" using n(1,2) by simp_all
  have n': "n \<le> 2147483647" "k \<le> 2147483647" using kn e(1) by linarith+
  obtain s1 where s1: "fat16_read_loop hw TheDisk (fat16_get_first_cluster item) k (of_nat n) 0 (int ?pos) out s =
      Some (0, int (?pos + k * n), file_bytes img p ?c ?pos (k * n) @ drop (k * n) out, s1)" "streamed p s s1" "idle (dev s1)"
    using read_loop_ok [OF hw b c n(1) n'(1) idle m e(2) n(3) e(1) al, of 0] n(2) by auto
  have w: "sint (ffd_pos f) = int ?pos" using e(1) by (simp add: sint_u32_small)
  have uk: "unat (of_nat k :: u32) = k" using n'(2) by (intro unat_of_nat_u32) simp
  then have sk: "sint (of_nat k :: u32) = int k" using n'(2) by (subst sint_u32_small) simp_all
  have wpos: "of_nat (?pos + k * n) = ffd_pos f + of_nat (k * n)"
    unfolding of_nat_add by (simp del: of_nat_mult)
  have k: "objs s1 q = Some (OFatFd f)" by (rule streamed_objs [OF s1(2) m op(1)]) simp
  have "fat16_read hw TheDisk q (of_nat n) (of_nat k) out s =
      Some (int k, file_bytes img p ?c ?pos (k * n) @ drop (k * n) out,
        s1\<lparr>objs := (objs s1)(q \<mapsto> OFatFd (f\<lparr>ffd_pos := ffd_pos f + of_nat (k * n)\<rparr>))\<rparr>)"
    unfolding fat16_read_def using s1(1) op k
    by (simp add: deref_def store_def w uk sk wpos del: fat16_read_loop.simps of_nat_add of_nat_mult)
  then show thesis by (rule that [OF _ s1(2,3)])
qed

text \<open>One member of at most a cluster.\<close>

lemma fat16_read_piece:
  fixes s :: "('d, 'a) vfsmem_scheme"
  assumes hw: "ata_ok hw img idle xfer" and idle: "idle (dev s)" and m: "fat_mounted p s" and b: "0 < cluster_bytes p"
    and op: "objs s q = Some (OFatFd f)" "objs s (ffd_item f) = Some (OFatItem it)" "objs s (fi_ptr it) = Some (OBytes item)"
    and c: "unat (fat16_get_first_cluster item) < 65536" and n: "n \<le> cluster_bytes p" "n \<le> length out"
    and e: "unat (ffd_pos f) + n \<le> 2147483647"
    and k: "fat_chain (fat_entry img p) (unat (ffd_pos f) div cluster_bytes p) (unat (fat16_get_first_cluster item)) = Some k"
      "0 \<le> cluster_pos p k"
    and pos: "pos = nat (cluster_pos p k) + unat (ffd_pos f) mod cluster_bytes p" and bnd: "pos + n \<le> 2147483647"
  shows "if unat (ffd_pos f) mod 512 = 0 \<or> unat (ffd_pos f) mod 512 + n \<le> 512
    then \<exists>s1. fat16_read hw TheDisk q (of_nat n) 1 out s = Some (1, img_bytes img pos n @ drop n out,
        s1\<lparr>objs := (objs s1)(q \<mapsto> OFatFd (f\<lparr>ffd_pos := ffd_pos f + of_nat n\<rparr>))\<rparr>) \<and> streamed p s s1 \<and> idle (dev s1)
    else fat16_read hw TheDisk q (of_nat n) 1 out s = None"
proof -
  let ?c = "unat (fat16_get_first_cluster item)" and ?pos = "unat (ffd_pos f)"
  have q: "cluster_read_stream p \<in> fat_streams p" by (simp add: fat_streams_def)
  note piece = read_piece [OF hw idle m c b q k n pos bnd]
  have un: "unat (of_nat n :: u32) = n" using e(1) by (intro unat_of_nat_u32) simp
  then have w: "sint (fat16_get_first_cluster item) = int ?c" "sint (ffd_pos f) = int ?pos" "sint (of_nat n :: u32) = int n"
    using c e(1) by (simp_all add: sint_u32_small)
  note defs = fat16_read_def fat16_read_internal_def mounted_private [OF m] deref_def store_def op un w
  show ?thesis
  proof (cases "?pos mod 512 = 0 \<or> ?pos mod 512 + n \<le> 512")
    case True
    then obtain s1 where s1: "fat16_read_internal_from_stream hw TheDisk (cluster_read_stream p) (int ?c) (int ?pos) (int n) out s =
        Some (0, img_bytes img pos n @ drop n out, s1)" "streamed p s s1" "idle (dev s1)"
      using piece by auto
    have "objs s1 q = Some (OFatFd f)" by (rule streamed_objs [OF s1(2) m op(1)]) simp
    then show ?thesis
      using True s1 by (auto simp: defs simp del: fat16_read_internal_from_stream.simps)
  next
    case False
    then show ?thesis using piece by (simp add: defs del: fat16_read_internal_from_stream.simps)
  qed
qed

section \<open>A sample volume\<close>

text \<open>
  One sector per cluster, one reserved sector, two tables of one sector and a root directory of
  one sector: the file \<open>HELLO.TXT\<close> of 600 bytes in the clusters 2 and 3, and a deleted file. The
  first 512 bytes of the file are a parameter.
\<close>

definition sample_header :: "u8 list" where
  "sample_header = replicate 13 0 @ [1, 1, 0, 2, 16, 0, 0, 0, 0, 1, 0] @ replicate 14 0 @ [0x29] @ replicate 23 0"

definition sample_fat :: "u8 list" where
  "sample_fat = [0xF8, 0xFF, 0xFF, 0xFF, 3, 0, 0xFF, 0xFF] @ replicate 504 0"

definition sample_item :: "u8 list" where
  "sample_item = [72, 69, 76, 76, 79, 32, 32, 32, 84, 88, 84, 0x20, 0, 0, 0, 0, 0, 0, 0, 0, 0, 0, 0, 0, 0, 0,
     2, 0, 0x58, 2, 0, 0]"

definition sample_root :: "u8 list" where
  "sample_root = sample_item @ [0xE5] @ replicate 31 32 @ replicate 448 0"

definition sample_vol :: "u8 list \<Rightarrow> nat \<Rightarrow> u8 list" where
  "sample_vol d lba = (if lba = 0 then sample_header @ replicate 450 0 else if lba < 3 then sample_fat
     else if lba = 3 then sample_root else if lba = 4 then d else replicate 512 (of_nat lba))"

abbreviation sample_volume :: "nat \<Rightarrow> u8 list" where
  "sample_volume \<equiv> sample_vol (replicate 512 4)"

lemma sample_vol_ok: "length b = 512 \<Longrightarrow> ata_ok (sample_ata (sample_vol b)) (sample_vol b) (\<lambda>_. True)
    (\<lambda>d lba n. sd_queue d = sample_words (sample_vol b) lba n)"
  by (rule sample_ata_ok)
    (simp add: sample_vol_def sample_header_def sample_fat_def sample_root_def sample_item_def)

lemma sample_volume_ok: "ata_ok (sample_ata sample_volume) sample_volume (\<lambda>_. True)
    (\<lambda>d lba n. sd_queue d = sample_words sample_volume lba n)"
  by (rule sample_vol_ok) simp

definition sample_private :: fat_private where
  "sample_private = \<lparr>fp_header = sample_header,
     root_directory = \<lparr>fdir_item = 0x1008000, fdir_total = 1, sector_pos = 3, ending_sector_pos = 4\<rparr>,
     cluster_read_stream = 0x1001000, fat_read_stream = 0x1002000, directory_stream = 0x1003000\<rparr>"

definition sample_vfs :: "(sample_dev, unit) vfsmem_scheme" where
  "sample_vfs = \<lparr>kernel_heap = sample_heap (replicate 8 (Used 1)),
     objs = [0x1000000 \<mapsto> OFatPrivate sample_private, 0x1001000 \<mapsto> stream_obj 0, 0x1002000 \<mapsto> stream_obj 0,
       0x1003000 \<mapsto> stream_obj 0,
       0x1004000 \<mapsto> OFileDesc \<lparr>fd_index = 1, fd_filesystem = Fat16Fs, fd_private = 0x1005000, fd_disk = TheDisk\<rparr>,
       0x1005000 \<mapsto> OFatFd \<lparr>ffd_item = 0x1006000, ffd_pos = 0\<rparr>,
       0x1006000 \<mapsto> OFatItem \<lparr>fi_ptr = 0x1007000, fi_type = 1\<rparr>, 0x1007000 \<mapsto> OBytes sample_item],
     current_directory = 0, cr3 = 0, cr0 = 0,
     disk = \<lparr>dk_type = 0, dk_sector_size = 512, dk_id = 0, dk_filesystem = Fat16Fs, dk_fs_private = 0x1000000\<rparr>,
     dev = sample_device, filesystems = Fat16Fs # replicate 11 NullFs,
     file_descriptors = 0x1004000 # replicate 511 0\<rparr>"

lemma sample_header_fields:
  "h_sectors_per_cluster sample_header = 1" "h_reserved_sectors sample_header = 1" "h_fat_copies sample_header = 2"
  "h_root_dir_entries sample_header = 16" "h_sectors_per_fat sample_header = 1" "h_signature sample_header = 0x29"
  by (simp_all add: h_sectors_per_cluster_def h_reserved_sectors_def h_fat_copies_def h_root_dir_entries_def
      h_sectors_per_fat_def h_signature_def le16_def sample_header_def nth_append)

lemma sample_geometry: "cluster_bytes sample_private = 512" "cluster_pos sample_private c = int c * 512 + 1024"
  by (simp_all add: cluster_bytes_def cluster_pos_def fat16_cluster_to_sector_def sample_private_def
      sample_header_fields)

lemma sample_mounted: "fat_mounted sample_private sample_vfs"
  by (simp add: fat_mounted_def sample_vfs_def sample_private_def fat_streams_def)

lemma sample_entries: "fat_entry (sample_vol d) sample_private 2 = 3" "fat_entry (sample_vol d) sample_private 3 = 65535"
  by (simp_all add: fat_entry_def sample_private_def sample_header_fields le16_def
      img_byte_def sample_vol_def sample_fat_def)

lemma sample_chain:
  "fat_chain (fat_entry (sample_vol d) sample_private) 0 2 = Some 2"
  "fat_chain (fat_entry (sample_vol d) sample_private) (Suc 0) 2 = Some 3"
  "fat_chain (fat_entry (sample_vol d) sample_private) (Suc (Suc 0)) 2 = None"
  by (simp_all add: sample_entries chain_stop_def)

lemma sector_split: "i < 512 \<Longrightarrow> (512 * k + i) div 512 = k" "i < 512 \<Longrightarrow> (512 * k + i) mod 512 = (i :: nat)"
  by simp_all

lemma sample_sectors: 
  assumes "i < 600"
  obtains "i < 512" "i div 512 = 0" "i mod 512 = i" | j where "i = 512 + j" "j < 88" "i div 512 = Suc 0" "i mod 512 = j"
proof (cases "i < 512")
  case True
  then show thesis by (intro that(1)) simp_all
next
  case False
  then have i: "i = 512 * 1 + (i - 512)" and lt: "i - 512 < 512" using assms by simp_all
  have "i div 512 = 1" "i mod 512 = i - 512"
    by (subst i, rule sector_split [OF lt])+
  with False assms show thesis by (intro that(2) [of "i - 512"]) simp_all
qed

lemma sample_file_byte:
  assumes "i < 600"
  shows "file_byte (sample_vol d) sample_private 2 i = (if i < 512 then d ! i else 5)"
  using assms
proof (cases rule: sample_sectors)
  case 1
  then show ?thesis
    using sector_split [of i 4]
    by (simp add: file_byte_def sample_geometry img_byte_def sample_vol_def del: fat_chain.simps(2))
next
  case (2 j)
  then have "nat (cluster_pos sample_private 3) + j = 512 * 5 + j" by (simp add: sample_geometry)
  then have "file_byte (sample_vol d) sample_private 2 i = img_byte (sample_vol d) (512 * 5 + j)"
    using 2 by (simp only: file_byte_def sample_geometry(1) sample_chain option.case)
  then show ?thesis
    using 2 sector_split [of j 5] by (simp add: img_byte_def sample_vol_def)
qed

lemma sample_file_bytes:
  "length d = 512 \<Longrightarrow> file_bytes (sample_vol d) sample_private 2 0 600 = d @ replicate 88 5"
  by (rule nth_equalityI) (auto simp: file_bytes_def sample_file_byte nth_append)

lemma sample_extent: "file_extent_ok (sample_vol d) sample_private 2 600"
  unfolding file_extent_ok_def
proof (intro allI impI)
  fix i :: nat assume "i < 600"
  then have "i div 512 = 0 \<or> i div 512 = Suc 0" by (cases rule: sample_sectors) simp_all
  then show "case fat_chain (fat_entry (sample_vol d) sample_private) (i div cluster_bytes sample_private) 2 of
      Some k \<Rightarrow> 0 \<le> cluster_pos sample_private k \<and>
        cluster_pos sample_private k + int (cluster_bytes sample_private) \<le> 2147483647
    | None \<Rightarrow> False"
    by (elim disjE) (simp_all only: sample_geometry sample_chain option.case, simp_all)
qed

lemma sample_cluster: "fat16_get_first_cluster sample_item = 2"
  by (simp add: fat16_get_first_cluster_def it_high_cluster_def it_low_cluster_def le16_def sample_item_def)

lemma sample_open: "open_file 1 \<lparr>fd_index = 1, fd_filesystem = Fat16Fs, fd_private = 0x1005000, fd_disk = TheDisk\<rparr>
    \<lparr>ffd_item = 0x1006000, ffd_pos = 0\<rparr> sample_item sample_vfs"
  unfolding open_file_def
  by (intro exI [of _ "0x1004000"] exI [of _ "\<lparr>fi_ptr = 0x1007000, fi_type = 1\<rparr>"])
    (simp add: sample_vfs_def file_get_descriptor_def aget_i_def)

lemma sample_dir: "dir_end (sample_vol d) 1536 2" "dir_count (sample_vol d) 1536 2 = 1"
proof -
  have "img_byte (sample_vol d) 1536 = 72" "img_byte (sample_vol d) 1568 = 0xE5" "img_byte (sample_vol d) 1600 = 0"
    by (simp_all add: img_byte_def sample_vol_def sample_root_def sample_item_def nth_append)
  moreover have "\<And>P. (\<forall>k < 2 :: nat. P k) \<longleftrightarrow> P 0 \<and> P 1" by (auto simp: less_2_cases_iff)
  moreover have "[0..<2] = [0, 1 :: nat]" by (simp add: upt_rec)
  ultimately show "dir_end (sample_vol d) 1536 2" "dir_count (sample_vol d) 1536 2 = 1"
    by (simp_all add: dir_end_def dir_count_def)
qed

end
