(* ===== verification/Fat16_Props.thy ===== *)
theory Fat16_Props
  imports Fat16_Chain Heap_Room
begin

text \<open>
  Mounting a FAT16 volume at start-up and reading files from it: the driver, the descriptors of
  the file layer and the disk streams together. The state that mounting leaves behind is the one
  that the reads and the count of directory items need.
\<close>

section \<open>Reading through a descriptor\<close>

lemma of_nat_u32_nonzero: "0 < n \<Longrightarrow> n < 4294967296 \<Longrightarrow> of_nat n \<noteq> (0 :: u32)"
  using unat_of_nat_u32 [of n] by (metis less_irrefl unat_0)

lemma file_get_descriptor_cong:
  "file_descriptors s' = file_descriptors s \<Longrightarrow> file_get_descriptor fd s' = file_get_descriptor fd s"
  by (simp add: file_get_descriptor_def)

lemma open_file_moved:
  fixes s s1 :: "('d, 'a) vfsmem_scheme"
  assumes o: "open_file fd d f item s" and m: "fat_mounted p s" and st: "streamed p s s1"
    and f': "ffd_item f' = ffd_item f"
  shows "open_file fd d f' item (s1\<lparr>objs := (objs s1)(fd_private d \<mapsto> OFatFd f')\<rparr>)"
proof -
  obtain desc it where op: "1 \<le> fd" "file_get_descriptor fd s = Some desc" "desc \<noteq> 0"
    "objs s desc = Some (OFileDesc d)" "fd_disk d = TheDisk" "fd_filesystem d = Fat16Fs"
    "objs s (fd_private d) = Some (OFatFd f)" "objs s (ffd_item f) = Some (OFatItem it)"
    "fi_type it = FAT_ITEM_TYPE_FILE" "objs s (fi_ptr it) = Some (OBytes item)"
    using o unfolding open_file_def by blast
  note keep = streamed_objs [OF st m]
  have k: "objs s1 desc = Some (OFileDesc d)" "objs s1 (ffd_item f) = Some (OFatItem it)"
    "objs s1 (fi_ptr it) = Some (OBytes item)"
    by (rule keep; use op in simp)+
  have "fd_private d \<noteq> desc" "fd_private d \<noteq> ffd_item f" "fd_private d \<noteq> fi_ptr it" using op by auto
  moreover have "file_get_descriptor fd (s1\<lparr>objs := t\<rparr>) = Some desc" for t
    using file_get_descriptor_cong [of "s1\<lparr>objs := t\<rparr>" s] streamed_table [OF st] op(2) by simp
  ultimately show ?thesis
    unfolding open_file_def using op k f'
    by (intro exI [of _ desc] exI [of _ it]) simp
qed

text \<open>The bytes on the disk from inside a cluster: the rest of the cluster and the next cluster on the disk.\<close>

lemma piece_bytes:
  assumes k: "fat_chain (fat_entry img p) (off div cluster_bytes p) c = Some k" "0 \<le> cluster_pos p k"
    and b: "0 < cluster_bytes p"
  shows "img_bytes img (nat (cluster_pos p k) + off mod cluster_bytes p) n =
    file_bytes img p c off (min n (cluster_bytes p - off mod cluster_bytes p)) @
    img_bytes img (nat (cluster_pos p (k + 1))) (n - min n (cluster_bytes p - off mod cluster_bytes p))"
proof -
  let ?b = "cluster_bytes p" and ?pos = "nat (cluster_pos p k) + off mod cluster_bytes p"
  let ?l = "min n (?b - off mod ?b)"
  have o: "off mod ?b < ?b" using b by simp
  then have fit: "off mod ?b + ?l \<le> ?b" by simp
  have "cluster_pos p (k + 1) = cluster_pos p k + int ?b"
    using cluster_bytes_eq [of p] by (simp add: cluster_pos_def fat16_cluster_to_sector_def algebra_simps)
  then have succ: "nat (cluster_pos p (k + 1)) = nat (cluster_pos p k) + ?b" using k(2) by simp
  have "img_bytes img ?pos n = img_bytes img ?pos ?l @ img_bytes img (?pos + ?l) (n - ?l)"
    using img_bytes_add [of img ?pos ?l "n - ?l"] by simp
  moreover have "img_bytes img (?pos + ?l) (n - ?l) = img_bytes img (nat (cluster_pos p (k + 1))) (n - ?l)"
  proof (cases "n \<le> ?b - off mod ?b")
    case False
    then have "?pos + ?l = nat (cluster_pos p (k + 1))" using o succ by simp
    then show ?thesis by simp
  qed (simp add: img_bytes_def)
  ultimately show ?thesis using file_bytes_in_cluster [OF k(1) fit] by simp
qed

lemma fread_members_ok:
  fixes s :: "('d, 'a) vfsmem_scheme"
  assumes "ata_ok hw img idle xfer" and "idle (dev s)" and "fat_mounted p s" and "0 < cluster_bytes p"
    and "open_file fd d f item s"
    and "unat (fat16_get_first_cluster item) < 65536" and "0 < n" and "0 < k" and "k * n \<le> length out"
    and "unat (ffd_pos f) + k * n \<le> 2147483647"
    and "file_extent_ok img p (unat (fat16_get_first_cluster item)) (unat (ffd_pos f) + k * n)"
    and "members_aligned (cluster_bytes p) (unat (ffd_pos f)) n k"
  shows "\<exists>s'. fread (\<lambda>_. fat16_fs hw) out (of_nat n) (of_nat k) fd s =
      Some (int k, file_bytes img p (unat (fat16_get_first_cluster item)) (unat (ffd_pos f)) (k * n) @ drop (k * n) out, s') \<and>
    open_file fd d (f\<lparr>ffd_pos := ffd_pos f + of_nat (k * n)\<rparr>) item s' \<and> moved_file p (fd_private d) s s' \<and> idle (dev s')"
proof -
  obtain desc it where op: "1 \<le> fd" "file_get_descriptor fd s = Some desc" "desc \<noteq> 0"
    "objs s desc = Some (OFileDesc d)" "fd_disk d = TheDisk" "fd_filesystem d = Fat16Fs"
    "objs s (fd_private d) = Some (OFatFd f)" "objs s (ffd_item f) = Some (OFatItem it)"
    "objs s (fi_ptr it) = Some (OBytes item)"
    using assms(5) unfolding open_file_def by blast
  obtain s1 where s1: "fat16_read hw TheDisk (fd_private d) (of_nat n) (of_nat k) out s =
      Some (int k, file_bytes img p (unat (fat16_get_first_cluster item)) (unat (ffd_pos f)) (k * n) @ drop (k * n) out,
        s1\<lparr>objs := (objs s1)(fd_private d \<mapsto> OFatFd (f\<lparr>ffd_pos := ffd_pos f + of_nat (k * n)\<rparr>))\<rparr>)"
    "streamed p s s1" "idle (dev s1)"
    by (rule fat16_read_ok [OF assms(1-4) op(7-9) assms(6-12)])
  have "k \<le> k * n" "n \<le> k * n" using assms(7,8) by simp_all
  then have "of_nat n \<noteq> (0 :: u32)" "of_nat k \<noteq> (0 :: u32)"
    using assms(7,8,10) by (intro of_nat_u32_nonzero; linarith)+
  then have "fread (\<lambda>_. fat16_fs hw) out (of_nat n) (of_nat k) fd s =
      fat16_read hw TheDisk (fd_private d) (of_nat n) (of_nat k) out s"
    using op by (simp add: fread_def deref_def fs_call_def fat16_fs_def)
  moreover have "ffd_item (f\<lparr>ffd_pos := ffd_pos f + of_nat (k * n)\<rparr>) = ffd_item f" by simp
  ultimately show ?thesis
    using s1(1,3) open_file_moved [OF assms(5,3) s1(2)] moved_fileI [OF assms(3) s1(2) op(7)]
    by (intro exI conjI) (assumption | simp del: of_nat_mult)+
qed

lemma fread_ok:
  fixes s :: "('d, 'a) vfsmem_scheme"
  assumes "ata_ok hw img idle xfer" and "idle (dev s)" and "fat_mounted p s" and "0 < cluster_bytes p"
    and "open_file fd d f item s"
    and "unat (fat16_get_first_cluster item) < 65536" and "0 < n" and "n \<le> length out"
    and "unat (ffd_pos f) + n \<le> 2147483647"
    and "file_extent_ok img p (unat (fat16_get_first_cluster item)) (unat (ffd_pos f) + n)"
    and "unat (ffd_pos f) mod cluster_bytes p = 0 \<or> unat (ffd_pos f) mod 512 + n \<le> 512"
  shows "\<exists>s'. fread (\<lambda>_. fat16_fs hw) out (of_nat n) 1 fd s =
      Some (1, file_bytes img p (unat (fat16_get_first_cluster item)) (unat (ffd_pos f)) n @ drop n out, s') \<and>
    open_file fd d (f\<lparr>ffd_pos := ffd_pos f + of_nat n\<rparr>) item s' \<and> moved_file p (fd_private d) s s' \<and> idle (dev s')"
  using fread_members_ok [OF assms(1-7), of 1 out] assms(8-11) by (simp add: members_aligned_def)

section \<open>Mounting\<close>

text \<open>What an allocation of the driver leaves in place.\<close>

lemma more_disk:
  fixes s s' :: "('d, 'a) diskmem_scheme"
  assumes "kmem.more s' = kmem.more s"
  shows "disk s' = disk s" and "dev s' = dev s" and "s' = s\<lparr>kernel_heap := kernel_heap s', objs := objs s'\<rparr>"
    and "diskmem.more s' = diskmem.more s"
proof -
  show *: "s' = s\<lparr>kernel_heap := kernel_heap s', objs := objs s'\<rparr>"
    using assms by (intro kmem.equality) simp_all
  have "disk s' = disk (s\<lparr>kernel_heap := kernel_heap s', objs := objs s'\<rparr>)"
    "dev s' = dev (s\<lparr>kernel_heap := kernel_heap s', objs := objs s'\<rparr>)"
    by (rule arg_cong [OF *, of disk], rule arg_cong [OF *, of dev])
  then show "disk s' = disk s" "dev s' = dev s" by simp_all
  have "diskmem.more s' = diskmem.more (s\<lparr>kernel_heap := kernel_heap s', objs := objs s'\<rparr>)"
    by (rule arg_cong [OF *, of diskmem.more])
  then show "diskmem.more s' = diskmem.more s" by simp
qed

lemma setobj_disk [simp]:
  "disk (setobj p x s) = disk s" "dev (setobj p x s) = dev s" "diskmem.more (setobj p x s) = diskmem.more s"
  by (simp_all add: setobj_def)

lemma streamer_new_ok:
  assumes "kmem_inv s" and "1 \<le> kroom s"
  obtains q s' where "diskstreamer_new 0 s = Some (q, s')" "kmem_inv s'" "q \<noteq> 0" "objs s q = None"
    "objs s' = (objs s)(q \<mapsto> stream_obj 0)" "kroom s \<le> kroom s' + 1" "kmem.more s' = kmem.more s"
proof -
  let ?z = "OStream \<lparr>ds_pos = 0, ds_disk = NullDisk\<rparr>"
  have sz: "(8 :: u32) \<noteq> 0" "unat (8 :: u32) \<le> 4294963200" and "blocks_for 8 = 1"
    by (simp_all add: blocks_for_small)
  with assms(2) have fits: "blocks_for 8 \<le> kroom s" by simp
  obtain q s1 where a: "alloc_as 8 ?z s = Some (q, s1)"
    "kmem_inv s1" "q \<noteq> 0" "objs s q = None" "objs s1 = (objs s)(q \<mapsto> ?z)" "kroom s \<le> kroom s1 + blocks_for 8"
    "kmem.more s1 = kmem.more s"
    by (rule alloc_in_room [OF assms(1) sz fits])
  have o: "objs s1 q = Some (OStream \<lparr>ds_pos = 0, ds_disk = NullDisk\<rparr>)" by (simp add: a(5))
  have "diskstreamer_new 0 s = Some (q, setobj q (stream_obj 0) s1)"
    using a(1) o by (simp add: diskstreamer_new_def disk_get_def deref_def store_eq [OF o])
  moreover have "kmem_inv (setobj q (stream_obj 0) s1)" using kmem_inv_setobj [OF a(2)] o by simp
  ultimately show thesis
    using a(3-7) \<open>blocks_for 8 = 1\<close> by (intro that [of q "setobj q (stream_obj 0) s1"]) simp_all
qed

text \<open>A new stream stored in a field of the private data.\<close>

lemma attach_stream:
  assumes inv: "kmem_inv s" and room: "1 \<le> kroom s" and P: "objs s P = Some (OFatPrivate p)"
  obtains q t s' where "diskstreamer_new 0 s = Some (q, t)" "deref as_fat_private P t = Some p"
    "store P (OFatPrivate (upd q)) t = Some s'" "kmem_inv s'" "q \<noteq> 0" "objs s q = None" "q \<noteq> P"
    "objs s' = (objs s)(q \<mapsto> stream_obj 0, P \<mapsto> OFatPrivate (upd q))" "kroom s \<le> kroom s' + 1"
    "kmem.more s' = kmem.more s"
proof -
  obtain q t where a: "diskstreamer_new 0 s = Some (q, t)" "kmem_inv t" "q \<noteq> 0" "objs s q = None"
    "objs t = (objs s)(q \<mapsto> stream_obj 0)" "kroom s \<le> kroom t + 1" "kmem.more t = kmem.more s"
    by (rule streamer_new_ok [OF inv room])
  have "q \<noteq> P" using a(4) P by auto
  then have tP: "objs t P = Some (OFatPrivate p)" using P by (simp add: a(5))
  show thesis
    by (rule that [of q t "setobj P (OFatPrivate (upd q)) t"])
      (use a tP \<open>q \<noteq> P\<close> kmem_inv_setobj [OF a(2)] in \<open>simp_all add: deref_def store_eq [OF tP]\<close>)
qed

text \<open>\<open>P\<close> holds the private data \<open>p\<close> with three new streams; nothing else has changed.\<close>

definition fat_attached ::
  "('d, 'a) diskmem_scheme \<Rightarrow> ptr \<Rightarrow> fat_private \<Rightarrow> ('d, 'a) diskmem_scheme \<Rightarrow> bool" where
  "fat_attached s P p s' \<longleftrightarrow> kmem_inv s' \<and> objs s' P = Some (OFatPrivate p) \<and> fat_read_stream p \<noteq> 0 \<and>
     (\<forall>q \<in> fat_streams p. objs s q = None \<and> objs s' q = Some (stream_obj 0)) \<and>
     (\<forall>q. q \<noteq> P \<longrightarrow> q \<notin> fat_streams p \<longrightarrow> objs s' q = objs s q) \<and> kmem.more s' = kmem.more s"

lemma init_private_ok:
  fixes s :: "('d, 'a) diskmem_scheme"
  assumes inv: "kmem_inv s" and room: "3 \<le> kroom s" and P: "objs s P \<noteq> None" and dk: "dk_id (disk s) = 0"
  obtains p s' where "fat16_init_private P TheDisk s = Some s'" "fat_attached s P p s'"
    "fp_header p = replicate FAT_HEADER_SIZE 0" "kroom s \<le> kroom s' + 3"
proof -
  let ?s0 = "setobj P (OFatPrivate zero_private) s"
  have st0: "store P (OFatPrivate zero_private) s = Some ?s0" using P by (auto intro: store_eq)
  have i0: "kmem_inv ?s0" "1 \<le> kroom ?s0" "objs ?s0 P = Some (OFatPrivate zero_private)"
    using kmem_inv_setobj [OF inv P] room by simp_all
  define p1 where "p1 q = zero_private\<lparr>cluster_read_stream := q\<rparr>" for q
  obtain q1 t1 s1 where a: "diskstreamer_new 0 ?s0 = Some (q1, t1)" "deref as_fat_private P t1 = Some zero_private"
    "store P (OFatPrivate (p1 q1)) t1 = Some s1" "kmem_inv s1" "q1 \<noteq> 0" "objs ?s0 q1 = None" "q1 \<noteq> P"
    "objs s1 = (objs ?s0)(q1 \<mapsto> stream_obj 0, P \<mapsto> OFatPrivate (p1 q1))" "kroom ?s0 \<le> kroom s1 + 1"
    "kmem.more s1 = kmem.more ?s0"
    by (rule attach_stream [OF i0, of p1])
  have i1: "1 \<le> kroom s1" "objs s1 P = Some (OFatPrivate (p1 q1))" using a(8,9) room by simp_all
  define p2 where "p2 q = (p1 q1)\<lparr>fat_read_stream := q\<rparr>" for q
  obtain q2 t2 s2 where b: "diskstreamer_new 0 s1 = Some (q2, t2)" "deref as_fat_private P t2 = Some (p1 q1)"
    "store P (OFatPrivate (p2 q2)) t2 = Some s2" "kmem_inv s2" "q2 \<noteq> 0" "objs s1 q2 = None" "q2 \<noteq> P"
    "objs s2 = (objs s1)(q2 \<mapsto> stream_obj 0, P \<mapsto> OFatPrivate (p2 q2))" "kroom s1 \<le> kroom s2 + 1"
    "kmem.more s2 = kmem.more s1"
    by (rule attach_stream [OF a(4) i1, of p2])
  have i2: "1 \<le> kroom s2" "objs s2 P = Some (OFatPrivate (p2 q2))" using a(9) b(8,9) room by simp_all
  define p3 where "p3 q = (p2 q2)\<lparr>directory_stream := q\<rparr>" for q
  obtain q3 t3 s3 where c: "diskstreamer_new 0 s2 = Some (q3, t3)" "deref as_fat_private P t3 = Some (p2 q2)"
    "store P (OFatPrivate (p3 q3)) t3 = Some s3" "kmem_inv s3" "q3 \<noteq> 0" "objs s2 q3 = None" "q3 \<noteq> P"
    "objs s3 = (objs s2)(q3 \<mapsto> stream_obj 0, P \<mapsto> OFatPrivate (p3 q3))" "kroom s2 \<le> kroom s3 + 1"
    "kmem.more s3 = kmem.more s2"
    by (rule attach_stream [OF b(4) i2, of p3])
  have d0: "get_disk TheDisk ?s0 = Some (disk s)" by (simp add: get_disk_def setobj_def)
  have run: "fat16_init_private P TheDisk s = Some s3"
    using a(1-3) b(1-3) c(1-3) by (simp add: fat16_init_private_def st0 d0 dk p1_def p2_def p3_def)
  have str: "fat_streams (p3 q3) = {q1, q2, q3}" by (simp add: fat_streams_def p1_def p2_def p3_def)
  have n: "objs s q1 = None" "objs s q2 = None" "objs s q3 = None" "q2 \<noteq> q1" "q3 \<noteq> q1" "q3 \<noteq> q2"
    using a(6,7,8) b(6,7,8) c(6,7,8) by (auto split: if_splits)
  have "fat_attached s P (p3 q3) s3"
    unfolding fat_attached_def str
    using a(5,7,8,10) b(5,7,8,10) c(4,5,7,8,10) n by (auto simp: p3_def p2_def)
  moreover have "fp_header (p3 q3) = replicate FAT_HEADER_SIZE 0" by (simp add: p1_def p2_def p3_def)
  moreover have "kroom s \<le> kroom s3 + 3" using a(9) b(9) c(9) by simp
  ultimately show thesis by (rule that [OF run])
qed

section \<open>The root directory\<close>

definition root_sector :: "u8 list \<Rightarrow> nat" where
  "root_sector h = nat (h_fat_copies h * h_sectors_per_fat h + h_reserved_sectors h)"

definition root_size :: "u8 list \<Rightarrow> nat" where
  "root_size h = nat (h_root_dir_entries h) * FAT_ITEM_SIZE"

definition root_end :: "u8 list \<Rightarrow> nat" where
  "root_end h = root_sector h + (root_size h + 511) div 512"

text \<open>
  A FAT16 header on the disk, a root directory that the 31-bit stream positions reach, and a free
  entry after \<open>n\<close> others.
\<close>

definition volume_ok :: "(nat \<Rightarrow> u8 list) \<Rightarrow> nat \<Rightarrow> bool" where
  "volume_ok img n \<longleftrightarrow> (let h = img_bytes img 0 FAT_HEADER_SIZE in
     h_signature h = 0x29 \<and> 0 < h_root_dir_entries h \<and>
     512 * root_sector h + root_size h \<le> 2147483647 \<and>
     512 * root_sector h + 32 * n + 32 \<le> 2147483647 \<and> dir_end img (512 * root_sector h) n)"

lemma streamed_domain: "streamed p s s' \<Longrightarrow> fat_mounted p s \<Longrightarrow> objs s' q = None \<longleftrightarrow> objs s q = None"
  by (cases "q \<in> fat_streams p") (auto simp: streamed_def fat_mounted_def)

lemma streamed_more: "streamed p s s' \<Longrightarrow> diskmem.more s' = diskmem.more s"
proof -
  assume "streamed p s s'"
  then have "s' = s\<lparr>dev := dev s', objs := objs s'\<rparr>" by (simp add: streamed_def)
  then have "diskmem.more s' = diskmem.more (s\<lparr>dev := dev s', objs := objs s'\<rparr>)" by (rule arg_cong)
  then show ?thesis by simp
qed

lemma streamed_inv:
  fixes s s' :: "('d, 'a) diskmem_scheme"
  assumes st: "streamed p s s'" and m: "fat_mounted p s" and inv: "kmem_inv s"
  shows "kmem_inv s'" and "kroom s' = kroom s"
proof -
  have "s' = s\<lparr>dev := dev s', objs := objs s'\<rparr>" using st by (simp add: streamed_def)
  then have "kernel_heap s' = kernel_heap (s\<lparr>dev := dev s', objs := objs s'\<rparr>)" by (rule arg_cong)
  then have h: "kernel_heap s' = kernel_heap s" by simp
  with inv show "kmem_inv s'" "kroom s' = kroom s"
    by (simp_all add: kmem_inv_def kroom_def streamed_domain [OF st m])
qed

lemma header_field_eqs:
  "h_fat_copies h * h_sectors_per_fat h + h_reserved_sectors h = int (root_sector h)"
  "h_root_dir_entries h * int FAT_ITEM_SIZE = int (root_size h)"
  by (simp_all add: root_sector_def root_size_def h_fat_copies_def h_sectors_per_fat_def h_reserved_sectors_def
      h_root_dir_entries_def)

lemma root_size_less: "root_size h < 2097152"
  using unsigned_less [of "le16 h 17", where 'a = nat] by (simp add: root_size_def h_root_dir_entries_def)

lemma ceil_sectors: "n div 512 + (if n mod 512 \<noteq> 0 then 1 else 0) = (n + 511) div (512 :: nat)"
proof (cases "n mod 512 = 0")
  case True
  then obtain k where "n = 512 * k" by (auto simp: mod_eq_0_iff_dvd dvd_def)
  then show ?thesis by simp
next
  case False
  then obtain j where j: "n mod 512 = Suc j" by (cases "n mod 512") simp_all
  have "j < 512" using mod_less_divisor [of 512 n] j by simp
  have "n + 511 = 512 * (n div 512 + 1) + j" using j div_mult_mod_eq [of n 512] by simp
  then have "(n + 511) div 512 = n div 512 + 1" by (simp only: sector_split(1) [OF \<open>j < 512\<close>])
  with False show ?thesis by simp
qed

text \<open>The items are counted and the buffer of the root directory is allocated.\<close>

lemma root_buffer_ok:
  fixes s :: "('d, 'a) diskmem_scheme"
  assumes hw: "ata_ok hw img idle xfer" and idle: "idle (dev s)" and m: "fat_mounted p s" and inv: "kmem_inv s"
    and v: "0 < h_root_dir_entries h" "512 * root_sector h + 32 * n + 32 \<le> 2147483647" "dir_end img (512 * root_sector h) n"
    and room: "blocks_for (of_nat (root_size h)) \<le> kroom s"
  obtains dir s1 s2 where "fat16_get_total_items_for_directory hw TheDisk (of_nat (root_sector h)) s =
      Some (int (dir_count img (512 * root_sector h) n), s1)"
    "kzalloc (of_nat (root_size h)) s1 = Some (dir, s2)" "kmem_inv s2" "dir \<noteq> 0" "objs s dir = None"
    "objs s2 dir = Some (OBytes (replicate (root_size h) 0))" "fat_mounted p s2" "idle (dev s2)" "disk s2 = disk s"
    "diskmem.more s2 = diskmem.more s" "kroom s \<le> kroom s2 + blocks_for (of_nat (root_size h))"
    "\<forall>q. q \<notin> fat_streams p \<longrightarrow> q \<noteq> dir \<longrightarrow> objs s2 q = objs s q"
proof -
  let ?sz = "of_nat (root_size h) :: u32"
  have un: "unat ?sz = root_size h" using root_size_less [of h] by (intro unat_of_nat_u32) simp
  have pos: "0 < root_size h" using v(1) by (simp add: root_size_def)
  have sz: "?sz \<noteq> 0" "unat ?sz \<le> 4294963200"
    using un pos root_size_less [of h] of_nat_u32_nonzero [OF pos] by simp_all
  obtain s1 where s1: "fat16_get_total_items_for_directory hw TheDisk (of_nat (root_sector h)) s =
      Some (int (dir_count img (512 * root_sector h) n), s1)" "streamed p s s1" "idle (dev s1)"
    using total_items_ok [OF hw idle m v(2,3)] by blast
  have i1: "kmem_inv s1" "blocks_for ?sz \<le> kroom s1" using streamed_inv [OF s1(2) m inv] room by simp_all
  obtain dir s2 where s2: "alloc_as ?sz (OBytes (replicate (root_size h) 0)) s1 = Some (dir, s2)" "kmem_inv s2" "dir \<noteq> 0"
    "objs s1 dir = None" "objs s2 = (objs s1)(dir \<mapsto> OBytes (replicate (root_size h) 0))" "kmem.more s2 = kmem.more s1"
    "kroom s1 \<le> kroom s2 + blocks_for ?sz"
    by (rule alloc_in_room [OF i1(1) sz i1(2)])
  have d1: "disk s1 = disk s" by (rule streamed_disk [OF s1(2)])
  have d2: "disk s2 = disk s" "dev s2 = dev s1" using more_disk [OF s2(6)] d1 by simp_all
  have m1: "fat_mounted p s1" by (rule streamed_mounted [OF s1(2)])
  then have "dir \<noteq> dk_fs_private (disk s)" "dir \<notin> fat_streams p" using s2(4) d1 by (auto simp: fat_mounted_def)
  then have "fat_mounted p s2" using m1 unfolding fat_mounted_def d1 d2 by (auto simp: s2(5))
  moreover have "\<forall>q. q \<notin> fat_streams p \<longrightarrow> q \<noteq> dir \<longrightarrow> objs s2 q = objs s q"
    using s1(2) by (simp add: streamed_def s2(5))
  moreover have "diskmem.more s2 = diskmem.more s" using streamed_more [OF s1(2)] more_disk(4) [OF s2(6)] by simp
  moreover have al: "kzalloc ?sz s1 = Some (dir, s2)" using s2(1) un by (simp add: kzalloc_bytes)
  moreover have "objs s dir = None" using s2(4) streamed_domain [OF s1(2) m] by simp
  ultimately show thesis
    using s1(1,3) d2 s2(2,3,5,7) streamed_inv(2) [OF s1(2) m inv] by (intro that [OF s1(1) al]) simp_all
qed

lemma root_directory_ok:
  fixes s :: "('d, 'a) diskmem_scheme"
  assumes hw: "ata_ok hw img idle xfer" and idle: "idle (dev s)" and m: "fat_mounted p s" and inv: "kmem_inv s"
    and h: "fp_header p = h" and v: "0 < h_root_dir_entries h" "512 * root_sector h + root_size h \<le> 2147483647"
      "512 * root_sector h + 32 * n + 32 \<le> 2147483647" "dir_end img (512 * root_sector h) n"
    and room: "blocks_for (of_nat (root_size h)) \<le> kroom s"
  obtains dir s' where "fat16_get_root_directory hw TheDisk (dk_fs_private (disk s)) s = Some (0, s')"
    "fat_mounted (p\<lparr>root_directory := \<lparr>fdir_item = dir, fdir_total = int (dir_count img (512 * root_sector h) n),
       sector_pos = int (root_sector h), ending_sector_pos = int (root_end h)\<rparr>\<rparr>) s'"
    "objs s dir = None" "dir \<noteq> 0" "objs s' dir = Some (OBytes (img_bytes img (512 * root_sector h) (root_size h)))"
    "\<forall>q. q \<notin> fat_streams p \<longrightarrow> q \<noteq> dir \<longrightarrow> q \<noteq> dk_fs_private (disk s) \<longrightarrow> objs s' q = objs s q"
    "kmem_inv s'" "idle (dev s')" "disk s' = disk s" "diskmem.more s' = diskmem.more s"
    "kroom s \<le> kroom s' + blocks_for (of_nat (root_size h))"
proof -
  let ?P = "dk_fs_private (disk s)" and ?sz = "of_nat (root_size h) :: u32"
  have m': "objs s ?P = Some (OFatPrivate p)" using m by (simp add: fat_mounted_def)
  have q: "directory_stream p \<in> fat_streams p" by (simp add: fat_streams_def)
  obtain dir s1 s2 where s1: "fat16_get_total_items_for_directory hw TheDisk (of_nat (root_sector h)) s =
      Some (int (dir_count img (512 * root_sector h) n), s1)"
    and s2: "kzalloc ?sz s1 = Some (dir, s2)" "kmem_inv s2" "dir \<noteq> 0" "objs s dir = None"
    "objs s2 dir = Some (OBytes (replicate (root_size h) 0))" "fat_mounted p s2" "idle (dev s2)" "disk s2 = disk s"
    "diskmem.more s2 = diskmem.more s" "kroom s \<le> kroom s2 + blocks_for ?sz"
    "\<forall>q. q \<notin> fat_streams p \<longrightarrow> q \<noteq> dir \<longrightarrow> objs s2 q = objs s q"
    by (rule root_buffer_ok [where idle = idle, OF hw idle m inv v(1,3,4) room])
  have ne: "dir \<noteq> ?P" "dir \<notin> fat_streams p" using m s2(4) by (auto simp: fat_mounted_def)
  have o2: "objs s2 ?P = Some (OFatPrivate p)" using s2(6,8) by (simp add: fat_mounted_def)
  have len: "root_size h \<le> length (replicate (root_size h) (0 :: u8))" by simp
  have al: "512 * root_sector h mod 512 = 0 \<or> 512 * root_sector h mod 512 + root_size h \<le> 512" by simp
  obtain s3 s4 where s3: "diskstreamer_seek (directory_stream p) (int (512 * root_sector h)) s2 = Some (0, s3)" "streamed p s2 s3"
    "diskstreamer_read hw (directory_stream p) (replicate (root_size h) 0) (int (root_size h)) s3 =
      Some (0, img_bytes img (512 * root_sector h) (root_size h) @ drop (root_size h) (replicate (root_size h) 0), s4)"
    "streamed p s2 s4" "idle (dev s4)"
    by (rule seek_read_ok [OF hw s2(7,6) q v(2) len al])
  have o3: "objs s3 dir = Some (OBytes (replicate (root_size h) 0))"
    by (rule streamed_objs [OF s3(2) s2(6)]) (simp_all add: s2(5))
  have o4: "objs s4 dir = Some (OBytes (replicate (root_size h) 0))" "objs s4 ?P = Some (OFatPrivate p)"
    by (rule streamed_objs [OF s3(4) s2(6)]; use o2 in \<open>simp add: s2(5)\<close>)+
  let ?p = "p\<lparr>root_directory := \<lparr>fdir_item = dir, fdir_total = int (dir_count img (512 * root_sector h) n),
       sector_pos = int (root_sector h), ending_sector_pos = int (root_end h)\<rparr>\<rparr>"
  let ?s5 = "setobj dir (OBytes (img_bytes img (512 * root_sector h) (root_size h))) s4"
  let ?s6 = "setobj ?P (OFatPrivate ?p) ?s5"
  have o5: "objs ?s5 ?P = Some (OFatPrivate p)" using o4(2) ne(1) by simp
  have d4: "disk s4 = disk s" using streamed_disk [OF s3(4)] s2(8) by simp
  have sec: "int (root_size h) sdiv 512 + (if int (root_size h) smod 512 \<noteq> 0 then 1 else 0) = int ((root_size h + 511) div 512)"
    using ceil_sectors [of "root_size h"] sdiv_nat [of "root_size h" 512] smod_nat [of "root_size h" 512]
    by (simp split: if_splits)
  have abs: "fat16_sector_to_absolute TheDisk (int (root_sector h)) s2 = Some (int (512 * root_sector h))"
    using s2(6) by (simp add: fat16_sector_to_absolute_def get_disk_def fat_mounted_def mult.commute)
  have run: "fat16_get_root_directory hw TheDisk ?P s = Some (0, ?s6)"
    unfolding fat16_get_root_directory_def deref_def m' Option.bind.simps as_fat_private.simps mounted_private [OF m]
      h Let_def header_field_eqs sec
    using s1 s2(1,3) abs o2 s3(1,3) o3 o4 ne(1)
    by (simp add: store_eq [OF o4(1)] store_eq [OF o5] root_end_def)
  have "fat_mounted ?p ?s6"
    using streamed_mounted [OF s3(4)] ne d4 by (auto simp: fat_mounted_def fat_streams_def)
  moreover have "\<forall>q. q \<notin> fat_streams p \<longrightarrow> q \<noteq> dir \<longrightarrow> q \<noteq> ?P \<longrightarrow> objs ?s6 q = objs s q"
    using s2(11) s3(4) by (simp add: streamed_def)
  moreover have "kmem_inv ?s6"
    using streamed_inv(1) [OF s3(4) s2(6,2)] o4 ne(1) by (intro kmem_inv_setobj) simp_all
  moreover have "disk ?s6 = disk s" "idle (dev ?s6)" using d4 s3(5) by (simp_all add: setobj_def)
  moreover have "diskmem.more ?s6 = diskmem.more s"
    using streamed_more [OF s3(4)] s2(9) by (simp add: setobj_def)
  moreover have "kroom s \<le> kroom ?s6 + blocks_for ?sz"
    using s2(10) streamed_inv(2) [OF s3(4) s2(6,2)] by simp
  ultimately show thesis using ne(1) s2(3,4) by (intro that [of ?s6 dir, OF run]) simp_all
qed

section \<open>Resolving the disk\<close>

definition volume_loaded :: "(nat \<Rightarrow> u8 list) \<Rightarrow> nat \<Rightarrow> fat_private \<Rightarrow> ('d, 'a) diskmem_scheme \<Rightarrow> bool" where
  "volume_loaded img n p s \<longleftrightarrow> fat_mounted p s \<and> fp_header p = img_bytes img 0 FAT_HEADER_SIZE \<and>
     (\<exists>dir. root_directory p = \<lparr>fdir_item = dir,
          fdir_total = int (dir_count img (512 * root_sector (fp_header p)) n),
          sector_pos = int (root_sector (fp_header p)), ending_sector_pos = int (root_end (fp_header p))\<rparr> \<and>
        objs s dir = Some (OBytes (img_bytes img (512 * root_sector (fp_header p)) (root_size (fp_header p)))))"

lemma fat_streams_update [simp]:
  "fat_streams (p\<lparr>fp_header := h\<rparr>) = fat_streams p" "fat_streams (p\<lparr>root_directory := r\<rparr>) = fat_streams p"
  by (simp_all add: fat_streams_def)

lemma volume_loaded_other:
  assumes "volume_loaded img n p s" and "disk s' = disk s" and "objs s' = (objs s)(q := x)"
    and "q \<noteq> dk_fs_private (disk s)" and "q \<notin> fat_streams p" and "q \<noteq> fdir_item (root_directory p)"
  shows "volume_loaded img n p s'"
proof -
  have "fat_mounted p s'" using assms(1-5) by (auto simp: volume_loaded_def fat_mounted_def)
  with assms show ?thesis by (auto simp: volume_loaded_def)
qed

lemma kfree_present:
  assumes "kmem_inv s" and "objs s p \<noteq> None"
  obtains s' where "kfree p s = Some s'" "kmem_inv s'" "objs s' = (objs s)(p := None)"
    "kmem.more s' = kmem.more s" "kroom s \<le> kroom s'"
proof -
  obtain k where "(p, k) \<in> klive s" using assms kmem_inv_live by blast
  then obtain s' where *: "kfree p s = Some s'" "kmem_inv s'" "objs s' = (objs s)(p := None)"
    "kmem.more s' = kmem.more s" by (rule kfree_live [OF assms(1)])
  moreover have "kroom s \<le> kroom s'" using charged_free [OF assms *(1)] assms(1) by (simp add: charged_def)
  ultimately show thesis by (rule that)
qed

lemma resolve_body_ok:
  fixes s :: "('d, 'a) diskmem_scheme"
  assumes hw: "ata_ok hw img idle xfer" and idle: "idle (dev s)" and m: "fat_mounted p s" and inv: "kmem_inv s"
    and len: "length (fp_header p) = FAT_HEADER_SIZE" and v: "volume_ok img n"
    and st: "objs s st = Some (stream_obj 0)" "st \<noteq> 0" "st \<notin> fat_streams p"
    and room: "blocks_for (of_nat (root_size (img_bytes img 0 FAT_HEADER_SIZE))) \<le> kroom s"
  obtains p' s' where "fat16_resolve_body hw TheDisk (dk_fs_private (disk s)) st s = Some (0, s')"
    "volume_loaded img n p' s'" "fat_streams p' = fat_streams p" "objs s' st \<noteq> None"
    "objs s (fdir_item (root_directory p')) = None"
    "\<forall>q. q \<notin> fat_streams p \<longrightarrow> q \<noteq> st \<longrightarrow> q \<noteq> dk_fs_private (disk s) \<longrightarrow> objs s q \<noteq> None \<longrightarrow> objs s' q = objs s q"
    "kmem_inv s'" "idle (dev s')" "disk s' = disk s" "diskmem.more s' = diskmem.more s"
    "kroom s \<le> kroom s' + blocks_for (of_nat (root_size (img_bytes img 0 FAT_HEADER_SIZE)))"
proof -
  let ?P = "dk_fs_private (disk s)"
  define h where "h = img_bytes img 0 FAT_HEADER_SIZE"
  have vo: "h_signature h = 0x29" "0 < h_root_dir_entries h" "512 * root_sector h + root_size h \<le> 2147483647"
    "512 * root_sector h + 32 * n + 32 \<le> 2147483647" "dir_end img (512 * root_sector h) n"
    using v unfolding volume_ok_def Let_def h_def by blast+
  have P: "objs s ?P = Some (OFatPrivate p)" using m by (simp add: fat_mounted_def)
  have neP: "st \<noteq> ?P" using P st(1) by auto
  have l: "62 \<le> length (fp_header p)" using len by simp
  obtain d where d: "idle d" "diskstreamer_read hw st (fp_header p) (int 62) s =
      Some (0, img_bytes img 0 62 @ drop 62 (fp_header p), stream_moved s st (0 + 62) d)"
    using stream_read_ok [OF hw idle st(1) _ l] by auto
  let ?s1 = "stream_moved s st 62 d"
  have rd: "diskstreamer_read hw st (fp_header p) (int FAT_HEADER_SIZE) s = Some (0, h, ?s1)"
    using d(2) len by (simp add: h_def)
  have o1: "objs ?s1 ?P = Some (OFatPrivate p)" using P neP by simp
  let ?p = "p\<lparr>fp_header := h\<rparr>"
  let ?s2 = "setobj ?P (OFatPrivate ?p) ?s1"
  have i2: "kmem_inv ?s2"
  proof -
    have "kmem_inv ?s1" using inv st(1) by (auto simp: kmem_inv_def stream_moved_def)
    then show ?thesis using o1 by (intro kmem_inv_setobj) simp_all
  qed
  have m2: "fat_mounted ?p ?s2"
    using m st(3) mounted_not_stream [OF m] by (auto simp: fat_mounted_def)
  have id2: "idle (dev ?s2)" and h2: "fp_header ?p = h" using d(1) by simp_all
  have room2: "blocks_for (of_nat (root_size h)) \<le> kroom ?s2" using room by (simp add: kroom_def h_def)
  let ?p' = "\<lambda>dir. ?p\<lparr>root_directory := \<lparr>fdir_item = dir, fdir_total = int (dir_count img (512 * root_sector h) n),
       sector_pos = int (root_sector h), ending_sector_pos = int (root_end h)\<rparr>\<rparr>"
  obtain dir s3 where r: "fat16_get_root_directory hw TheDisk (dk_fs_private (disk ?s2)) ?s2 = Some (0, s3)"
    "fat_mounted (?p' dir) s3" "objs ?s2 dir = None" "dir \<noteq> 0"
    "objs s3 dir = Some (OBytes (img_bytes img (512 * root_sector h) (root_size h)))"
    "\<forall>q. q \<notin> fat_streams ?p \<longrightarrow> q \<noteq> dir \<longrightarrow> q \<noteq> dk_fs_private (disk ?s2) \<longrightarrow> objs s3 q = objs ?s2 q"
    "kmem_inv s3" "idle (dev s3)" "disk s3 = disk ?s2" "diskmem.more s3 = diskmem.more ?s2"
    "kroom ?s2 \<le> kroom s3 + blocks_for (of_nat (root_size h))"
    by (rule root_directory_ok [OF hw id2 m2 i2 h2 vo(2-5) room2])
  have run: "fat16_resolve_body hw TheDisk ?P st s = Some (0, s3)"
    using st(2) P o1 rd vo(1) r(1) by (simp add: fat16_resolve_body_def deref_def store_eq [OF o1])
  have dir: "objs s dir = None" "dir \<noteq> st" "dir \<noteq> ?P" using r(3) by (simp_all split: if_splits)
  have "volume_loaded img n (?p' dir) s3"
    using r(2,5) by (simp add: volume_loaded_def h_def [symmetric])
  moreover have "objs s3 st \<noteq> None" using r(6) st(3) dir(2) neP by simp
  moreover have "\<forall>q. q \<notin> fat_streams p \<longrightarrow> q \<noteq> st \<longrightarrow> q \<noteq> ?P \<longrightarrow> objs s q \<noteq> None \<longrightarrow> objs s3 q = objs s q"
    using r(6) dir(1) by auto
  moreover have "diskmem.more s3 = diskmem.more s" using r(10) by (simp add: stream_moved_def)
  moreover have "kroom s \<le> kroom s3 + blocks_for (of_nat (root_size h))" using r(11) by (simp add: kroom_def)
  ultimately show thesis using r(7,8,9) dir(1) run by (intro that [of s3 "?p' dir"]) (simp_all add: h_def)
qed

lemma blocks_for_92: "(92 :: u32) \<noteq> 0" "unat (92 :: u32) \<le> 4294963200" "blocks_for 92 = 1"
  by (simp_all add: blocks_for_small)

lemma attached_mounted:
  fixes s s' :: "('d, 'a) diskmem_scheme"
  assumes "fat_attached s P p s'" and "dk_sector_size dk = 512" and "dk_fs_private dk = P"
  shows "fat_mounted p (s'\<lparr>disk := dk\<rparr>)"
  using assms by (auto simp: fat_mounted_def fat_attached_def intro: exI [of _ 0])

text \<open>The room that mounting takes: the private data, three streams, one more for the header, the directory.\<close>

definition mount_room :: "(nat \<Rightarrow> u8 list) \<Rightarrow> nat" where
  "mount_room img = 5 + blocks_for (of_nat (root_size (img_bytes img 0 FAT_HEADER_SIZE)))"

abbreviation (input) mounting_disk :: "ptr \<Rightarrow> disk_struct \<Rightarrow> disk_struct" where
  "mounting_disk P dk \<equiv> dk\<lparr>dk_fs_private := P, dk_filesystem := Fat16Fs\<rparr>"

text \<open>\<^verbatim>\<open>fat16_resolve\<close> up to its first read.\<close>

lemma resolve_prepare:
  fixes s :: "('d, 'a) diskmem_scheme"
  assumes inv: "kmem_inv s" and room: "5 \<le> kroom s" and dk: "dk_id (disk s) = 0" "dk_sector_size (disk s) = 512"
  obtains P s1 s2 p st s4 where "alloc_as 92 (OFatPrivate zero_private) s = Some (P, s1)"
    "fat16_init_private P TheDisk s1 = Some s2" "disk s2 = disk s"
    "diskstreamer_new 0 (s2\<lparr>disk := mounting_disk P (disk s)\<rparr>) = Some (st, s4)"
    "st \<noteq> 0" "st \<noteq> P" "st \<notin> fat_streams p" "objs s4 st = Some (stream_obj 0)" "fat_mounted p s4"
    "fp_header p = replicate FAT_HEADER_SIZE 0" "kmem_inv s4" "kroom s \<le> kroom s4 + 5"
    "disk s4 = mounting_disk P (disk s)" "dev s4 = dev s" "diskmem.more s4 = diskmem.more s"
    "\<forall>q. objs s q \<noteq> None \<longrightarrow> q \<notin> fat_streams p \<and> q \<noteq> st \<and> q \<noteq> P \<and> objs s4 q = objs s q"
proof -
  have "blocks_for 92 \<le> kroom s" using room by (simp add: blocks_for_92)
  then obtain P s1 where a: "alloc_as 92 (OFatPrivate zero_private) s = Some (P, s1)" "kmem_inv s1" "P \<noteq> 0" "objs s P = None"
    "objs s1 = (objs s)(P \<mapsto> OFatPrivate zero_private)" "kroom s \<le> kroom s1 + blocks_for 92" "kmem.more s1 = kmem.more s"
    by (rule alloc_in_room [OF inv blocks_for_92(1,2)])
  have d1: "disk s1 = disk s" "dev s1 = dev s" "diskmem.more s1 = diskmem.more s" using more_disk [OF a(7)] by simp_all
  have r1: "4 \<le> kroom s1" using a(6) room by (simp add: blocks_for_92)
  have P1: "objs s1 P \<noteq> None" and id1: "dk_id (disk s1) = 0" and r1': "3 \<le> kroom s1" using a(5) d1 dk r1 by simp_all
  obtain p s2 where b: "fat16_init_private P TheDisk s1 = Some s2" "fat_attached s1 P p s2"
    "fp_header p = replicate FAT_HEADER_SIZE 0" "kroom s1 \<le> kroom s2 + 3"
    by (rule init_private_ok [OF a(2) r1' P1 id1])
  have b2: "kmem_inv s2" "kmem.more s2 = kmem.more s1" "\<forall>q \<in> fat_streams p. objs s1 q = None"
    "\<forall>q. q \<noteq> P \<longrightarrow> q \<notin> fat_streams p \<longrightarrow> objs s2 q = objs s1 q"
    using b(2) by (simp_all add: fat_attached_def)
  have d2: "disk s2 = disk s" "dev s2 = dev s" "diskmem.more s2 = diskmem.more s" using more_disk [OF b2(2)] d1 by simp_all
  let ?s3 = "s2\<lparr>disk := mounting_disk P (disk s)\<rparr>"
  have m3: "fat_mounted p ?s3" by (rule attached_mounted [OF b(2)]) (simp_all add: dk)
  have i3: "kmem_inv ?s3" "1 \<le> kroom ?s3" using b2(1) b(4) r1 by (simp_all add: kmem_inv_def kroom_def)
  obtain st s4 where c: "diskstreamer_new 0 ?s3 = Some (st, s4)" "kmem_inv s4" "st \<noteq> 0" "objs ?s3 st = None"
    "objs s4 = (objs ?s3)(st \<mapsto> stream_obj 0)" "kroom ?s3 \<le> kroom s4 + 1" "kmem.more s4 = kmem.more ?s3"
    by (rule streamer_new_ok [OF i3])
  have d4: "disk s4 = mounting_disk P (disk s)" "dev s4 = dev s" "diskmem.more s4 = diskmem.more s"
    using more_disk [OF c(7)] d2 by simp_all
  have st: "st \<notin> fat_streams p" "st \<noteq> P" using c(4) m3 by (auto simp: fat_mounted_def)
  have m4: "fat_mounted p s4" using m3 c(4) unfolding fat_mounted_def d4 by (auto simp: c(5))
  have r4: "kroom s \<le> kroom s4 + 5" using a(6) b(4) c(6) by (simp add: kroom_def blocks_for_92)
  have old: "\<forall>q. objs s q \<noteq> None \<longrightarrow> q \<notin> fat_streams p \<and> q \<noteq> st \<and> q \<noteq> P \<and> objs s4 q = objs s q"
  proof (intro allI impI)
    fix q assume q: "objs s q \<noteq> None"
    then have q1: "q \<noteq> P" "objs s1 q = objs s q" using a(4,5) by auto
    then have q2: "q \<notin> fat_streams p" "objs s2 q = objs s q" using b2(3,4) q by auto
    then have q3: "q \<noteq> st" using c(4) q by auto
    then show "q \<notin> fat_streams p \<and> q \<noteq> st \<and> q \<noteq> P \<and> objs s4 q = objs s q" using c(5) q1 q2 by simp
  qed
  have o4: "objs s4 st = Some (stream_obj 0)" by (simp add: c(5))
  show thesis by (rule that [OF a(1) b(1) d2(1) c(1,3) st(2,1) o4 m4 b(3) c(2) r4 d4 old])
qed

lemma resolve_ok:
  fixes s :: "('d, 'a) diskmem_scheme"
  assumes hw: "ata_ok hw img idle xfer" and idle: "idle (dev s)" and inv: "kmem_inv s" and v: "volume_ok img n"
    and room: "mount_room img \<le> kroom s" and dk: "dk_id (disk s) = 0" "dk_sector_size (disk s) = 512"
  obtains p s' where "fat16_resolve hw TheDisk s = Some (0, s')" "volume_loaded img n p s'"
    "dk_filesystem (disk s') = Fat16Fs" "kmem_inv s'" "idle (dev s')"
    "\<forall>q. objs s q \<noteq> None \<longrightarrow> objs s' q = objs s q" "diskmem.more s' = diskmem.more s"
    "kroom s \<le> kroom s' + mount_room img"
proof -
  let ?b = "blocks_for (of_nat (root_size (img_bytes img 0 FAT_HEADER_SIZE)))"
  have r5: "5 \<le> kroom s" using room by (simp add: mount_room_def)
  obtain P s1 s2 p st s4 where a: "alloc_as 92 (OFatPrivate zero_private) s = Some (P, s1)"
    "fat16_init_private P TheDisk s1 = Some s2" "disk s2 = disk s"
    "diskstreamer_new 0 (s2\<lparr>disk := mounting_disk P (disk s)\<rparr>) = Some (st, s4)"
    "st \<noteq> 0" "st \<noteq> P" "st \<notin> fat_streams p" "objs s4 st = Some (stream_obj 0)" "fat_mounted p s4"
    "fp_header p = replicate FAT_HEADER_SIZE 0" "kmem_inv s4" "kroom s \<le> kroom s4 + 5"
    "disk s4 = mounting_disk P (disk s)" "dev s4 = dev s" "diskmem.more s4 = diskmem.more s"
    "\<forall>q. objs s q \<noteq> None \<longrightarrow> q \<notin> fat_streams p \<and> q \<noteq> st \<and> q \<noteq> P \<and> objs s4 q = objs s q"
    by (rule resolve_prepare [OF inv r5 dk])
  have l4: "length (fp_header p) = FAT_HEADER_SIZE" and id4: "idle (dev s4)" and r4: "?b \<le> kroom s4"
    using a(10,12,14) idle room by (simp_all add: mount_room_def)
  obtain p' s5 where e: "fat16_resolve_body hw TheDisk (dk_fs_private (disk s4)) st s4 = Some (0, s5)"
    "volume_loaded img n p' s5" "fat_streams p' = fat_streams p" "objs s5 st \<noteq> None"
    "objs s4 (fdir_item (root_directory p')) = None"
    "\<forall>q. q \<notin> fat_streams p \<longrightarrow> q \<noteq> st \<longrightarrow> q \<noteq> dk_fs_private (disk s4) \<longrightarrow> objs s4 q \<noteq> None \<longrightarrow> objs s5 q = objs s4 q"
    "kmem_inv s5" "idle (dev s5)" "disk s5 = disk s4" "diskmem.more s5 = diskmem.more s4" "kroom s4 \<le> kroom s5 + ?b"
    by (rule resolve_body_ok [OF hw id4 a(9,11) l4 v a(8,5,7) r4])
  have P4: "dk_fs_private (disk s4) = P" "dk_id (disk s4) = 0" by (simp_all add: a(13) dk(1))
  obtain s6 where f: "kfree st s5 = Some s6" "kmem_inv s6" "objs s6 = (objs s5)(st := None)" "kmem.more s6 = kmem.more s5"
    "kroom s5 \<le> kroom s6"
    by (rule kfree_present [OF e(7,4)])
  have d6: "disk s6 = disk s4" "dev s6 = dev s5" "diskmem.more s6 = diskmem.more s"
    using more_disk [OF f(4)] e(9,10) a(15) by simp_all
  have g2: "get_disk TheDisk s2 = Some (disk s)" by (simp add: get_disk_def a(3))
  have cl: "diskstreamer_close st s5 = Some s6" by (simp add: diskstreamer_close_def f(1))
  have run: "fat16_resolve hw TheDisk s = Some (0, s6)"
    unfolding fat16_resolve_def using a(5) e(1) by (simp add: a(1,2,4) g2 dk(1) cl P4)
  have ne: "st \<noteq> fdir_item (root_directory p')" using e(5) a(8) by auto
  have "volume_loaded img n p' s6"
    by (rule volume_loaded_other [OF e(2)]) (use d6(1) e(3,9) P4 a(6,7) ne f(3) in simp_all)
  moreover have "\<forall>q. objs s q \<noteq> None \<longrightarrow> objs s6 q = objs s q"
  proof (intro allI impI)
    fix q assume q: "objs s q \<noteq> None"
    with a(16) have "q \<notin> fat_streams p" "q \<noteq> st" "q \<noteq> P" "objs s4 q = objs s q" by blast+
    then show "objs s6 q = objs s q" using e(6) q P4(1) f(3) by (metis fun_upd_other)
  qed
  moreover have "kroom s \<le> kroom s6 + mount_room img" using a(12) e(11) f(5) by (simp add: mount_room_def)
  moreover have "dk_filesystem (disk s6) = Fat16Fs" by (simp add: d6 a(13))
  moreover have "idle (dev s6)" using e(8) d6(2) by simp
  ultimately show thesis using f(2) d6(3) by (intro that [OF run])
qed

section \<open>Start-up\<close>

lemma fs_init_eq:
  fixes s :: "('d, 'a) vfsmem_scheme"
  shows "fs_init s = Some (s\<lparr>file_descriptors := replicate 512 0, filesystems := Fat16Fs # replicate 11 NullFs\<rparr>)"
proof -
  have "replicate 12 NullFs = NullFs # replicate 11 NullFs" by (simp add: numeral_eq_Suc)
  then show ?thesis
    by (simp add: fs_init_def fs_load_def fs_static_load_def fs_insert_filesystem_def fs_get_free_filesystem_def
        fat16_init_def aset_def)
qed

lemma vfs_more_table:
  fixes s s' :: "('d, 'a) vfsmem_scheme"
  assumes "diskmem.more s' = diskmem.more s"
  shows "filesystems s' = filesystems s" and "file_descriptors s' = file_descriptors s"
    and "vfsmem.more s' = vfsmem.more s"
proof -
  have *: "s' = s\<lparr>kernel_heap := kernel_heap s', objs := objs s', current_directory := current_directory s',
      cr3 := cr3 s', cr0 := cr0 s', disk := disk s', dev := dev s'\<rparr>"
    using assms by (intro diskmem.equality) simp_all
  show "filesystems s' = filesystems s" by (subst *) simp
  show "file_descriptors s' = file_descriptors s" by (subst *) simp
  show "vfsmem.more s' = vfsmem.more s" by (subst *) simp
qed

lemma boot_mount_ok:
  fixes s :: "('d, 'a) vfsmem_scheme"
  assumes hw: "ata_ok hw img idle xfer" and idle: "idle (dev s)" and inv: "kmem_inv s" and v: "volume_ok img n"
    and room: "mount_room img \<le> kroom s"
  obtains p s' where "do { s \<leftarrow> fs_init s; disk_search_and_init (\<lambda>_. fat16_fs hw) s } = Some s'" "volume_loaded img n p s'"
    "dk_filesystem (disk s') = Fat16Fs" "kmem_inv s'" "idle (dev s')" "file_descriptors s' = replicate 512 0"
    "filesystems s' = Fat16Fs # replicate 11 NullFs"
    "\<forall>q. objs s q \<noteq> None \<longrightarrow> objs s' q = objs s q" "kroom s \<le> kroom s' + mount_room img"
    "vfsmem.more s' = vfsmem.more s"
proof -
  let ?s1 = "s\<lparr>file_descriptors := replicate 512 0, filesystems := Fat16Fs # replicate 11 NullFs,
    disk := \<lparr>dk_type = PEACHOS_DISK_TYPE_REAL, dk_sector_size = int PEACHOS_SECTOR_SIZE,
             dk_id = 0, dk_filesystem = NullFs, dk_fs_private = 0\<rparr>\<rparr>"
  have pre: "idle (dev ?s1)" "kmem_inv ?s1" "mount_room img \<le> kroom ?s1" "dk_id (disk ?s1) = 0"
    "dk_sector_size (disk ?s1) = 512"
    using idle inv room by (simp_all add: kmem_inv_def kroom_def)
  obtain p s2 where r: "fat16_resolve hw TheDisk ?s1 = Some (0, s2)" "volume_loaded img n p s2"
    "dk_filesystem (disk s2) = Fat16Fs" "kmem_inv s2" "idle (dev s2)"
    "\<forall>q. objs ?s1 q \<noteq> None \<longrightarrow> objs s2 q = objs ?s1 q" "diskmem.more s2 = diskmem.more ?s1"
    "kroom ?s1 \<le> kroom s2 + mount_room img"
    by (rule resolve_ok [OF hw pre(1,2) v pre(3-5)])
  have t: "filesystems s2 = Fat16Fs # replicate 11 NullFs" "file_descriptors s2 = replicate 512 0"
    "vfsmem.more s2 = vfsmem.more s"
    using vfs_more_table [OF r(7)] by simp_all
  have same: "s2\<lparr>disk := (disk s2)\<lparr>dk_filesystem := Fat16Fs\<rparr>\<rparr> = s2" using r(3) by simp
  have "fs_resolve (\<lambda>_. fat16_fs hw) TheDisk ?s1 = Some (Fat16Fs, s2)"
    using r(1) t by (simp add: fs_resolve_def numeral_eq_Suc fs_call_def fat16_fs_def)
  then have "do { s \<leftarrow> fs_init s; disk_search_and_init (\<lambda>_. fat16_fs hw) s } = Some s2"
    using same by (simp add: fs_init_eq disk_search_and_init_def)
  then show thesis using r t by (intro that [of s2 p]) (simp_all add: kroom_def)
qed

section \<open>Properties\<close>

text \<open>
  C32. Reading \<open>k\<close> members of \<open>n\<close> bytes from an open file with \<^verbatim>\<open>fread\<close> returns \<open>k\<close> and the bytes of the
  file from its position on, as the allocation table chains its clusters, the position moves on by
  what was read, and nothing but the position and the driver's streams changes. Every member starts
  on a cluster boundary or stays inside one sector, as those of the loaders do; the next property
  says what happens otherwise.
\<close>

theorem fread_reads_file:
  fixes s :: "('d, 'a) vfsmem_scheme"
  assumes "ata_ok hw img idle xfer" and "idle (dev s)" and "fat_mounted p s" and "0 < cluster_bytes p"
    and "open_file fd d f item s"
    and "unat (fat16_get_first_cluster item) < 65536" and "0 < n" and "0 < k" and "k * n \<le> length out"
    and "unat (ffd_pos f) + k * n \<le> 2147483647"
    and "file_extent_ok img p (unat (fat16_get_first_cluster item)) (unat (ffd_pos f) + k * n)"
    and "\<forall>i < k. (unat (ffd_pos f) + i * n) mod cluster_bytes p = 0 \<or> (unat (ffd_pos f) + i * n) mod 512 + n \<le> 512"
  shows "\<exists>s'. fread (\<lambda>_. fat16_fs hw) out (of_nat n) (of_nat k) fd s =
      Some (int k, file_bytes img p (unat (fat16_get_first_cluster item)) (unat (ffd_pos f)) (k * n) @ drop (k * n) out, s') \<and>
    open_file fd d (f\<lparr>ffd_pos := ffd_pos f + of_nat (k * n)\<rparr>) item s' \<and> moved_file p (fd_private d) s s' \<and> idle (dev s')"
  by (rule fread_members_ok [OF assms(1-11)]) (use assms(12) in \<open>simp add: members_aligned_def\<close>)

lemma fread_reads_file_witness:
  "(\<exists>s'. fread (\<lambda>_. fat16_fs (sample_ata sample_volume)) (replicate 602 0xFF) 600 1 1 sample_vfs =
     Some (1, replicate 512 4 @ replicate 88 5 @ [0xFF, 0xFF], s')) \<and>
   (\<exists>s'. fread (\<lambda>_. fat16_fs (sample_ata sample_volume)) (replicate 600 0xFF) 200 2 1 sample_vfs =
     Some (2, replicate 400 4 @ replicate 200 0xFF, s'))"
proof
  have "drop 600 (replicate 602 0xFF) = [0xFF, 0xFF :: u8]" by (simp add: numeral_2_eq_2)
  moreover have "(of_nat 600 :: u32) = 600" by simp
  ultimately show "\<exists>s'. fread (\<lambda>_. fat16_fs (sample_ata sample_volume)) (replicate 602 0xFF) 600 1 1 sample_vfs =
     Some (1, replicate 512 4 @ replicate 88 5 @ [0xFF, 0xFF], s')"
    using fread_reads_file [OF sample_volume_ok TrueI sample_mounted _ sample_open, of 600 1 "replicate 602 0xFF"]
      sample_extent sample_file_bytes
    by (auto simp: sample_cluster sample_geometry)
next
  have "file_bytes sample_volume sample_private 2 0 400 = replicate 400 4"
    by (rule nth_equalityI) (simp_all add: file_bytes_def sample_file_byte)
  moreover have "file_extent_ok sample_volume sample_private 2 400"
    using sample_extent by (rule file_extent_mono) simp
  ultimately show "\<exists>s'. fread (\<lambda>_. fat16_fs (sample_ata sample_volume)) (replicate 600 0xFF) 200 2 1 sample_vfs =
     Some (2, replicate 400 4 @ replicate 200 0xFF, s')"
    using fread_reads_file [OF sample_volume_ok TrueI sample_mounted _ sample_open, of 200 2 "replicate 600 0xFF"]
    by (auto simp: sample_cluster sample_geometry less_2_cases_iff)
qed

text \<open>
  C33. A read of at most one cluster that does not keep to its cluster runs on over the disk: from a
  sector boundary it returns the rest of the cluster and then the bytes of the cluster that follows
  on the disk, whatever cluster the table chains next. A read that crosses a sector boundary from
  the inside of a sector is undefined.
\<close>

theorem fread_runs_on:
  fixes s :: "('d, 'a) vfsmem_scheme"
  assumes "ata_ok hw img idle xfer" and "idle (dev s)" and "fat_mounted p s" and "0 < cluster_bytes p"
    and "open_file fd d f item s"
    and "c = unat (fat16_get_first_cluster item)" and "c < 65536" and "off = unat (ffd_pos f)"
    and "0 < n" and "n \<le> cluster_bytes p" and "n \<le> length out" and "off + n \<le> 2147483647"
    and "fat_chain (fat_entry img p) (off div cluster_bytes p) c = Some k"
    and "0 \<le> cluster_pos p k" and "cluster_pos p k + 2 * int (cluster_bytes p) \<le> 2147483647"
    and "l = min n (cluster_bytes p - off mod cluster_bytes p)"
  shows "if off mod 512 = 0 \<or> off mod 512 + n \<le> 512
    then \<exists>s'. fread (\<lambda>_. fat16_fs hw) out (of_nat n) 1 fd s =
        Some (1, file_bytes img p c off l @ img_bytes img (nat (cluster_pos p (k + 1))) (n - l) @ drop n out, s') \<and>
      open_file fd d (f\<lparr>ffd_pos := ffd_pos f + of_nat n\<rparr>) item s' \<and> moved_file p (fd_private d) s s' \<and> idle (dev s')
    else fread (\<lambda>_. fat16_fs hw) out (of_nat n) 1 fd s = None"
proof -
  let ?b = "cluster_bytes p" and ?pos = "nat (cluster_pos p k) + off mod cluster_bytes p"
  obtain desc it where op: "1 \<le> fd" "file_get_descriptor fd s = Some desc" "desc \<noteq> 0"
    "objs s desc = Some (OFileDesc d)" "fd_disk d = TheDisk" "fd_filesystem d = Fat16Fs"
    "objs s (fd_private d) = Some (OFatFd f)" "objs s (ffd_item f) = Some (OFatItem it)"
    "objs s (fi_ptr it) = Some (OBytes item)"
    using assms(5) unfolding open_file_def by blast
  have "off mod ?b < ?b" using assms(4) by simp
  then have bnd: "?pos + n \<le> 2147483647" using assms(10,14,15) by linarith
  have bytes: "img_bytes img ?pos n = file_bytes img p c off l @ img_bytes img (nat (cluster_pos p (k + 1))) (n - l)"
    unfolding assms(16) by (rule piece_bytes [OF assms(13,14,4)])
  have "of_nat n \<noteq> (0 :: u32)" using assms(9,12) by (intro of_nat_u32_nonzero) simp_all
  then have read: "fread (\<lambda>_. fat16_fs hw) out (of_nat n) 1 fd s =
      fat16_read hw TheDisk (fd_private d) (of_nat n) 1 out s"
    using op by (simp add: fread_def deref_def fs_call_def fat16_fs_def)
  note piece = fat16_read_piece [OF assms(1-4) op(7-9) assms(7) [unfolded assms(6)] assms(10,11)
      assms(12) [unfolded assms(8)] assms(13) [unfolded assms(6,8)] assms(14) refl bnd [unfolded assms(8)],
      folded assms(6,8)]
  show ?thesis
  proof (cases "off mod 512 = 0 \<or> off mod 512 + n \<le> 512")
    case True
    then obtain s1 where s1: "fat16_read hw TheDisk (fd_private d) (of_nat n) 1 out s = Some (1, img_bytes img ?pos n @ drop n out,
        s1\<lparr>objs := (objs s1)(fd_private d \<mapsto> OFatFd (f\<lparr>ffd_pos := ffd_pos f + of_nat n\<rparr>))\<rparr>)"
      "streamed p s s1" "idle (dev s1)"
      using piece by auto
    have "ffd_item (f\<lparr>ffd_pos := ffd_pos f + of_nat n\<rparr>) = ffd_item f" by simp
    then show ?thesis
      using True read s1(1,3) bytes open_file_moved [OF assms(5,3) s1(2)] moved_fileI [OF assms(3) s1(2) op(7)]
      by auto
  next
    case False
    then show ?thesis using piece read by simp
  qed
qed

text \<open>
  The same volume with two sectors per cluster and a file in the clusters 2 and 4, open at 512: of
  1024 bytes the second half comes from cluster 3. At 510, three bytes are undefined.
\<close>

definition wide_volume :: "nat \<Rightarrow> u8 list" where
  "wide_volume lba = (if lba = 0 then sample_header[13 := 2] @ replicate 450 0
     else if lba < 3 then sample_fat[4 := 4, 8 := 0xFF, 9 := 0xFF] else sample_volume lba)"

definition wide_private :: fat_private where
  "wide_private = sample_private\<lparr>fp_header := sample_header[13 := 2]\<rparr>"

definition wide_vfs :: "u32 \<Rightarrow> (sample_dev, unit) vfsmem_scheme" where
  "wide_vfs pos = sample_vfs\<lparr>objs := (objs sample_vfs)(0x1000000 \<mapsto> OFatPrivate wide_private,
     0x1005000 \<mapsto> OFatFd \<lparr>ffd_item = 0x1006000, ffd_pos = pos\<rparr>)\<rparr>"

lemma wide_volume_ok: "ata_ok (sample_ata wide_volume) wide_volume (\<lambda>_. True)
    (\<lambda>d lba n. sd_queue d = sample_words wide_volume lba n)"
  by (rule sample_ata_ok)
    (simp add: wide_volume_def sample_vol_def sample_header_def sample_fat_def sample_root_def sample_item_def)

lemma wide_state:
  "fat_mounted wide_private (wide_vfs pos)" "cluster_bytes wide_private = 1024"
  "cluster_pos wide_private c = int c * 1024"
  "open_file 1 \<lparr>fd_index = 1, fd_filesystem = Fat16Fs, fd_private = 0x1005000, fd_disk = TheDisk\<rparr>
    \<lparr>ffd_item = 0x1006000, ffd_pos = pos\<rparr> sample_item (wide_vfs pos)"
proof -
  have "h_sectors_per_cluster (sample_header[13 := 2]) = 2"
    by (simp add: h_sectors_per_cluster_def sample_header_def nth_append)
  then show "cluster_bytes wide_private = 1024" "cluster_pos wide_private c = int c * 1024"
    by (simp_all add: cluster_bytes_def cluster_pos_def fat16_cluster_to_sector_def wide_private_def sample_private_def)
  show "fat_mounted wide_private (wide_vfs pos)"
    by (simp add: fat_mounted_def wide_vfs_def wide_private_def sample_vfs_def sample_private_def fat_streams_def)
  show "open_file 1 \<lparr>fd_index = 1, fd_filesystem = Fat16Fs, fd_private = 0x1005000, fd_disk = TheDisk\<rparr>
      \<lparr>ffd_item = 0x1006000, ffd_pos = pos\<rparr> sample_item (wide_vfs pos)"
    unfolding open_file_def
    by (intro exI [of _ "0x1004000"] exI [of _ "\<lparr>fi_ptr = 0x1007000, fi_type = 1\<rparr>"])
      (simp add: wide_vfs_def sample_vfs_def file_get_descriptor_def aget_i_def)
qed

lemma wide_bytes: "file_bytes wide_volume wide_private 2 512 512 = replicate 512 5"
  "img_bytes wide_volume 3072 512 = replicate 512 6"
proof -
  have five: "img_bytes wide_volume (512 * k) 512 = replicate 512 (of_nat k)" if "4 < k" for k
    using that by (intro nth_equalityI) (simp_all add: img_byte_def wide_volume_def sample_vol_def)
  show "img_bytes wide_volume 3072 512 = replicate 512 6" using five [of 6] by simp
  have "file_bytes wide_volume wide_private 2 512 512 = img_bytes wide_volume (512 * 5) 512"
    using file_bytes_in_cluster [of wide_volume wide_private 512 2 2 512] by (simp add: wide_state)
  then show "file_bytes wide_volume wide_private 2 512 512 = replicate 512 5" using five [of 5] by simp
qed

lemma fread_runs_on_witness:
  "(\<exists>s'. fread (\<lambda>_. fat16_fs (sample_ata wide_volume)) (replicate 1024 0xFF) 1024 1 1 (wide_vfs 512) =
     Some (1, replicate 512 5 @ replicate 512 6, s')) \<and>
   fread (\<lambda>_. fat16_fs (sample_ata wide_volume)) (replicate 3 0xFF) 3 1 1 (wide_vfs 510) = None"
proof
  have "drop 1024 (replicate 1024 0xFF) = ([] :: u8 list)" "(of_nat 1024 :: u32) = 1024" by simp_all
  then show "\<exists>s'. fread (\<lambda>_. fat16_fs (sample_ata wide_volume)) (replicate 1024 0xFF) 1024 1 1 (wide_vfs 512) =
     Some (1, replicate 512 5 @ replicate 512 6, s')"
    using fread_runs_on [OF wide_volume_ok TrueI wide_state(1) [of 512] _ wide_state(4) [of 512], where c = 2 and off = 512 and n = 1024 and
        out = "replicate 1024 0xFF" and k = 2 and l = 512] wide_bytes
    by (auto simp: sample_cluster wide_state)
  show "fread (\<lambda>_. fat16_fs (sample_ata wide_volume)) (replicate 3 0xFF) 3 1 1 (wide_vfs 510) = None"
    using fread_runs_on [OF wide_volume_ok TrueI wide_state(1) [of 510] _ wide_state(4) [of 510], where c = 2 and off = 510 and n = 3 and
        out = "replicate 3 0xFF" and k = 2 and l = 3]
    by (simp add: sample_cluster wide_state)
qed

text \<open>
  C34. The cluster that \<^verbatim>\<open>fat16_get_cluster_for_offset\<close> finds by reading table entries through a disk
  stream is the one that the table on the disk, read as a function, chains to the file's first
  cluster; where the chain ends or is unusable before the offset the result is \<^verbatim>\<open>-EIO\<close>.
\<close>

theorem cluster_for_offset_eq_chain:
  assumes "ata_ok hw img idle xfer" and "idle (dev s)" and "fat_mounted p s" and "c < 65536" and "0 < cluster_bytes p"
  shows "\<exists>s'. fat16_get_cluster_for_offset hw TheDisk (int c) (int off) s =
      Some (case fat_chain (fat_entry img p) (off div cluster_bytes p) c of Some k \<Rightarrow> int k | None \<Rightarrow> - EIO, s') \<and>
      streamed p s s' \<and> idle (dev s')"
  by (rule cluster_for_offset_ok [OF assms])

lemma cluster_for_offset_eq_chain_witness:
  "(\<exists>s'. fat16_get_cluster_for_offset (sample_ata sample_volume) TheDisk 2 512 sample_vfs = Some (3, s')) \<and>
   (\<exists>s'. fat16_get_cluster_for_offset (sample_ata sample_volume) TheDisk 2 1024 sample_vfs = Some (- EIO, s'))"
  using cluster_for_offset_eq_chain [OF sample_volume_ok TrueI sample_mounted, of 2 512]
    cluster_for_offset_eq_chain [OF sample_volume_ok TrueI sample_mounted, of 2 1024]
    sample_chain(2,3)
  by (auto simp: sample_geometry numeral_2_eq_2 simp del: fat_chain.simps)

text \<open>
  C35. Counting the items of a directory ends when the directory has a free entry, and the count is
  the number of entries before the first free one that are not deleted.
\<close>

theorem directory_count_terminates:
  assumes "ata_ok hw img idle xfer" and "idle (dev s)" and "fat_mounted p s"
    and "512 * sector + 32 * n + 32 \<le> 2147483647" and "dir_end img (512 * sector) n"
  shows "\<exists>s'. fat16_get_total_items_for_directory hw TheDisk (of_nat sector) s =
      Some (int (card {k. k < n \<and> img_byte img (512 * sector + 32 * k) \<noteq> 0xE5}), s') \<and>
    streamed p s s' \<and> idle (dev s')"
proof -
  have "dir_count img (512 * sector) n = card {k. k < n \<and> img_byte img (512 * sector + 32 * k) \<noteq> 0xE5}"
    by (simp add: dir_count_def length_filter_conv_card) (rule arg_cong [where f = card], auto)
  with total_items_ok [OF assms] show ?thesis by simp
qed

lemma directory_count_terminates_witness:
  "\<exists>s'. fat16_get_total_items_for_directory (sample_ata sample_volume) TheDisk 3 sample_vfs = Some (1, s')"
proof -
  have "{k. k < 2 \<and> img_byte sample_volume (512 * 3 + 32 * k) \<noteq> 0xE5} = {0}"
    by (auto simp: less_2_cases_iff img_byte_def sample_vol_def sample_root_def sample_item_def nth_append)
  then show ?thesis
    using directory_count_terminates [OF sample_volume_ok TrueI sample_mounted, of 3 2] sample_dir(1) by auto
qed

text \<open>
  C31. Start-up mounts the volume: \<^verbatim>\<open>fs_init\<close> and \<^verbatim>\<open>disk_search_and_init\<close> return with an empty
  descriptor table and the FAT16 driver on the disk, whose private data holds the disk's header and
  root directory and streams that are ready to read; no older object changes and the heap loses at
  most the blocks that were asked for.
\<close>

theorem boot_mounts_volume:
  fixes s :: "('d, 'a) vfsmem_scheme"
  assumes "ata_ok hw img idle xfer" and "idle (dev s)" and "kmem_inv s" and "volume_ok img n"
    and "mount_room img \<le> kroom s"
  shows "\<exists>p s'. do { s \<leftarrow> fs_init s; disk_search_and_init (\<lambda>_. fat16_fs hw) s } = Some s' \<and>
    volume_loaded img n p s' \<and> dk_filesystem (disk s') = Fat16Fs \<and> kmem_inv s' \<and> idle (dev s') \<and>
    filesystems s' = Fat16Fs # replicate 11 NullFs \<and> file_descriptors s' = replicate 512 0 \<and>
    (\<forall>q. objs s q \<noteq> None \<longrightarrow> objs s' q = objs s q) \<and> kroom s \<le> kroom s' + mount_room img"
  by (rule boot_mount_ok [OF assms]) blast

lemma sample_header_read: "img_bytes (sample_vol d) 0 62 = sample_header"
proof (rule nth_equalityI)
  have len: "length sample_header = 62" by (simp add: sample_header_def)
  then show "length (img_bytes (sample_vol d) 0 62) = length sample_header" by simp
  fix i assume "i < length (img_bytes (sample_vol d) 0 62)"
  then show "img_bytes (sample_vol d) 0 62 ! i = sample_header ! i"
    by (simp add: img_byte_def sample_vol_def nth_append len)
qed

lemma sample_root_fields: "root_sector sample_header = 3" "root_size sample_header = 512" "root_end sample_header = 4"
  by (simp_all add: root_sector_def root_size_def root_end_def sample_header_fields)

lemma sample_volume_room: "volume_ok (sample_vol d) 2" "mount_room (sample_vol d) = 6"
  using sample_dir(1)
  by (simp_all add: volume_ok_def mount_room_def sample_header_read sample_root_fields sample_header_fields
      blocks_for_small)

lemma boot_mounts_volume_witness:
  "\<exists>p s'. do { s \<leftarrow> fs_init (sample_vfs\<lparr>kernel_heap := sample_heap (replicate 8 Free), objs := Map.empty\<rparr>);
       disk_search_and_init (\<lambda>_. fat16_fs (sample_ata sample_volume)) s } = Some s' \<and>
     fat_mounted p s' \<and> fdir_total (root_directory p) = 1 \<and> ending_sector_pos (root_directory p) = 4"
proof -
  let ?s = "sample_vfs\<lparr>kernel_heap := sample_heap (replicate 8 Free), objs := Map.empty\<rparr>"
  have "kmem_inv ?s" "kroom ?s = 8"
    using sample_kmem_inv [of 8] sample_heap_inv [of "replicate 8 Free"]
    by (simp_all add: kmem_inv_def sample_kmem_def kroom_def)
  then obtain p s' where "do { s \<leftarrow> fs_init ?s; disk_search_and_init (\<lambda>_. fat16_fs (sample_ata sample_volume)) s } = Some s'"
    "volume_loaded sample_volume 2 p s'"
    using boot_mounts_volume [OF sample_volume_ok TrueI _ sample_volume_room(1), of ?s] sample_volume_room(2) by auto
  then show ?thesis
    by (intro exI [of _ p] exI [of _ s'])
      (auto simp: volume_loaded_def sample_header_read sample_root_fields sample_dir(2))
qed

end
