(* ===== verification/Path_Room.thy ===== *)
theory Path_Room
  imports Path_Parser Heap_Room
begin

text \<open>
  A parsed path as its users see it: the list of parts in memory spells the components of the
  path, parsing leaves every other object alone, and this is what it takes from the room at the
  end of the heap.
\<close>

section \<open>States with more objects\<close>

text \<open>Every object of \<open>s\<close> is as it was.\<close>

definition keeps :: "'a kmem_scheme \<Rightarrow> 'a kmem_scheme \<Rightarrow> bool" where
  "keeps s s' \<longleftrightarrow> (\<forall>q. objs s q \<noteq> None \<longrightarrow> objs s' q = objs s q)"

lemma keepsD: "keeps s s' \<Longrightarrow> objs s q = Some x \<Longrightarrow> objs s' q = Some x"
  by (simp add: keeps_def)

lemma keeps_refl: "keeps s s"
  by (simp add: keeps_def)

lemma keeps_trans: "keeps s t \<Longrightarrow> keeps t u \<Longrightarrow> keeps s u"
  by (simp add: keeps_def)

lemma keeps_upd: "objs s q = None \<Longrightarrow> objs s' = (objs s)(q \<mapsto> x) \<Longrightarrow> keeps s s'"
  by (auto simp: keeps_def)

section \<open>The room that parsing takes\<close>

text \<open>What parsing a path can take from the room of the heap.\<close>

lemma path_part_loop_charged:
  "path_part_loop q i path s = Some (j, r, s') \<Longrightarrow> charged 0 s s'"
proof (induction q i path s rule: path_part_loop.induct)
  case (2 q i c path s)
  show ?case
  proof (cases "c \<noteq> 47 \<and> c \<noteq> 0")
    case True
    with "2.prems" obtain b b' t where t: "deref as_bytes q s = Some b" "aset b i c = Some b'"
      "store q (OBytes b') s = Some t" "path_part_loop q (Suc i) path t = Some (j, r, s')"
      by (auto split: Option.bind_splits)
    from charged_trans [OF charged_store [OF t(3)] "2.IH" [OF True t(1-4)]] show ?thesis by simp
  next
    case False
    with "2.prems" show ?thesis by simp
  qed
qed simp

lemma get_path_part_charged:
  assumes inv: "kmem_inv s" and av: "0 < kavail s" and g: "pathparser_get_path_part path s = Some (x, r, s')"
  shows "charged 1 s s'"
proof -
  have sz: "(108 :: u32) \<noteq> 0" "unat (108 :: u32) \<le> 4096" by simp_all
  obtain q s1 where k: "alloc_as 108 (OBytes (replicate 108 0)) s = Some (q, s1)" "q \<noteq> 0" "grown s {q} s1"
    "objs s q = None" "objs s1 = (objs s)(q \<mapsto> OBytes (replicate 108 0))"
    by (rule grown_alloc [OF inv av sz])
  from g k(1) obtain i r' s2 where l: "path_part_loop q 0 path s1 = Some (i, r', s2)"
    and rest: "s' = s2 \<or> (i = 0 \<and> kfree q s2 = Some s')"
    by (auto simp: pathparser_get_path_part_def kzalloc_bytes split: Option.bind_splits if_splits)
  have c2: "charged (1 + 0) s s2" by (rule charged_trans [OF charged_page [OF k(1) sz] path_part_loop_charged [OF l]])
  from rest show ?thesis
  proof
    assume "s' = s2"
    with c2 show ?thesis by simp
  next
    assume f: "i = 0 \<and> kfree q s2 = Some s'"
    have "path_part_loop q n path s1 = Some (i, r', s2) \<Longrightarrow> objs s1 q \<noteq> None \<Longrightarrow> objs s2 q \<noteq> None" for n
      by (induction q n path s1 rule: path_part_loop.induct)
        (auto simp: store_def split: Option.bind_splits if_splits)
    with l k(5) have "objs s2 q \<noteq> None" by simp
    moreover have "kmem_inv s2" using c2 inv by (simp add: charged_def)
    ultimately have "charged 0 s2 s'" using charged_free f by blast
    from charged_trans [OF c2 this] show ?thesis by simp
  qed
qed

lemma parse_path_part_charged:
  assumes inv: "kmem_inv s" and av: "0 < kavail s" and g: "pathparser_parse_path_part l path s = Some (x, r, s')"
  shows "charged 2 s s'"
proof -
  obtain q s1 where q: "pathparser_get_path_part path s = Some (q, r, s1)"
    and rest: "s' = s1 \<or> (\<exists>p s2 s3 u. alloc_as 8 (OPathPart \<lparr>part = 0, next_part = 0\<rparr>) s1 = Some (p, s2) \<and>
      store p u s2 = Some s3 \<and> (s' = s3 \<or> (\<exists>w. store l w s3 = Some s')))"
    using g by (fastforce simp: pathparser_parse_path_part_def split: Option.bind_splits if_splits)
  have c1: "charged 1 s s1" by (rule get_path_part_charged [OF inv av q])
  from rest show ?thesis
  proof
    assume "s' = s1"
    with c1 show ?thesis by (auto simp: charged_def)
  next
    assume "\<exists>p s2 s3 u. alloc_as 8 (OPathPart \<lparr>part = 0, next_part = 0\<rparr>) s1 = Some (p, s2) \<and>
      store p u s2 = Some s3 \<and> (s' = s3 \<or> (\<exists>w. store l w s3 = Some s'))"
    then obtain p s2 s3 u where k: "alloc_as 8 (OPathPart \<lparr>part = 0, next_part = 0\<rparr>) s1 = Some (p, s2)"
      "store p u s2 = Some s3" and last: "s' = s3 \<or> (\<exists>w. store l w s3 = Some s')" by blast
    have "charged (1 + 0) s1 s3"
      by (rule charged_trans [OF charged_page [OF k(1)] charged_store [OF k(2)]]) simp_all
    moreover have "charged 0 s3 s'" using last charged_store by fastforce
    ultimately have "charged (1 + ((1 + 0) + 0)) s s'" by (rule charged_trans [OF c1 charged_trans])
    then show ?thesis by (simp add: numeral_2_eq_2)
  qed
qed

lemma path_part_loop_rest:
  "path_part_loop q i path s = Some (j, r, s') \<Longrightarrow> r = dropWhile in_part path \<and> j = i + length (takeWhile in_part path)"
  by (induction q i path s rule: path_part_loop.induct) (auto simp: in_part_def split: Option.bind_splits if_splits)

lemma get_path_part_rest:
  assumes "pathparser_get_path_part path s = Some (x, r, s')"
  shows "r = skip_sep (dropWhile in_part path) \<and> (takeWhile in_part path = [] \<longrightarrow> x = 0)"
  using assms
  by (auto simp: pathparser_get_path_part_def skip_sep_def aget_Some_iff hd_conv_nth drop_Suc
      dest!: path_part_loop_rest split: Option.bind_splits if_splits)

lemma parse_path_part_rest:
  assumes "pathparser_parse_path_part l path s = Some (x, r, s')"
  shows "r = skip_sep (dropWhile in_part path) \<and> (takeWhile in_part path = [] \<longrightarrow> x = 0)"
  using assms
  by (auto simp: pathparser_parse_path_part_def dest!: get_path_part_rest split: Option.bind_splits if_splits)

lemma charged_room: "charged n s s' \<Longrightarrow> kmem_inv s \<Longrightarrow> n < kroom s \<Longrightarrow> kmem_inv s' \<and> 0 < kavail s' \<and> kroom s \<le> kroom s' + n"
  using kroom_le_avail [of s'] by (auto simp: charged_def)

lemma parse_loop_charged:
  assumes "kmem_inv s" and "2 * length (parts_of path) + 2 < kroom s" and "pathparser_parse_loop p path s = Some s'"
  shows "charged (2 * length (parts_of path) + 2) s s'"
  using assms
proof (induction path arbitrary: p s rule: parts_of.induct)
  case (1 path)
  let ?c = "takeWhile in_part path" and ?r = "skip_sep (dropWhile in_part path)"
  show ?case
  proof (cases "p = 0")
    case True
    with 1(4) show ?thesis by (simp add: pathparser_parse_loop.simps)
  next
    case False
    with 1(4) obtain p1 r s1 where p: "pathparser_parse_path_part p path s = Some (p1, r, s1)"
      "pathparser_parse_loop p1 r s1 = Some s'"
      by (auto simp: pathparser_parse_loop.simps [of p] split: Option.bind_splits)
    have "0 < kavail s" using 1(3) kroom_le_avail [of s] by simp
    note c1 = parse_path_part_charged [OF 1(2) this p(1)]
    have r: "r = ?r" "?c = [] \<Longrightarrow> p1 = 0" using parse_path_part_rest [OF p(1)] by simp_all
    show ?thesis
    proof (cases "?c = []")
      case True
      then have "s' = s1" using p(2) r(2) by (simp add: pathparser_parse_loop.simps [of 0])
      with c1 show ?thesis by (auto simp: charged_def)
    next
      case c: False
      then have n: "length (parts_of path) = Suc (length (parts_of ?r))" by (simp add: parts_of.simps [of path])
      have "2 < kroom s" using 1(3) by simp
      from charged_room [OF c1 1(2) this] have s1: "kmem_inv s1" "kroom s \<le> kroom s1 + 2" by simp_all
      then have "charged (2 * length (parts_of ?r) + 2) s1 s'"
        using 1(1) [OF c s1(1), of p1] 1(3) p(2) unfolding n r(1) by simp
      from charged_trans [OF c1 this] show ?thesis by (simp add: n)
    qed
  qed
qed


lemma parse_charged:
  fixes s s' :: "'a kmem_scheme"
  assumes inv: "kmem_inv s" and ok: "0 \<in> set path" "path_ok path" and n: "n = length (parts_of (drop 3 path))"
    and room: "2 * n + 3 < kroom s" and g: "pathparser_parse path s = Some (root, s')"
  shows "charged (2 * n + 3) s s'"
proof -
  let ?r = "skip_sep (dropWhile in_part (drop 3 path))"
  have len: "length (cstr path) \<le> 108" using ok(2) by (simp add: path_ok_def)
  have drive: "pathparser_get_drive_by_path path = Some (drive_of path, drop 3 path)" "\<not> drive_of path < 0"
    using drive_by_path_eq [OF ok(1) len] ok(2) path_ok_drive(1) [OF ok(2)] by simp_all
  have sl: "strlen path = Some (int (length (cstr path)))" "\<not> int (length (cstr path)) > 108"
    using ok(1) len by (simp_all add: strlen_eq)
  obtain z t0 u t1 where c: "alloc_as 8 z s = Some (root, t0)" "store root u t0 = Some t1"
    and rest: "(root = 0 \<and> s' = t1) \<or> (\<exists>p2 r2 t2. pathparser_parse_path_part 0 (drop 3 path) t1 = Some (p2, r2, t2) \<and>
      ((p2 = 0 \<and> s' = t2) \<or> (\<exists>w t3 p3 r3 t4. p2 \<noteq> 0 \<and> store root w t2 = Some t3 \<and>
        pathparser_parse_path_part p2 r2 t3 = Some (p3, r3, t4) \<and> pathparser_parse_loop p3 r3 t4 = Some s')))"
    using g drive sl
    by (fastforce simp: pathparser_parse_def pathparser_create_root_def split: Option.bind_splits if_splits)
  have "charged (1 + 0) s t1" by (rule charged_trans [OF charged_page [OF c(1)] charged_store [OF c(2)]]) simp_all
  then have c1: "charged 1 s t1" by simp
  have s1: "kmem_inv t1" "0 < kavail t1" using charged_room [OF c1 inv] room by simp_all
  from rest show ?thesis
  proof (elim disjE exE conjE)
    assume "s' = t1"
    with c1 show ?thesis by (auto simp: charged_def)
  next
    fix p2 r2 t2 assume p: "pathparser_parse_path_part 0 (drop 3 path) t1 = Some (p2, r2, t2)" "s' = t2"
    from charged_trans [OF c1 parse_path_part_charged [OF s1 p(1)]] p(2) show ?thesis by (auto simp: charged_def)
  next
    fix p2 r2 t2 w t3 p3 r3 t4
    assume p: "pathparser_parse_path_part 0 (drop 3 path) t1 = Some (p2, r2, t2)" "p2 \<noteq> 0" "store root w t2 = Some t3"
      "pathparser_parse_path_part p2 r2 t3 = Some (p3, r3, t4)" "pathparser_parse_loop p3 r3 t4 = Some s'"
    have loop: "pathparser_parse_loop p2 r2 t3 = Some s'"
      using p(2,4,5) by (simp add: pathparser_parse_loop.simps [of p2])
    have "charged (1 + (2 + 0)) s t3"
      by (rule charged_trans [OF c1 charged_trans [OF parse_path_part_charged [OF s1 p(1)] charged_store [OF p(3)]]])
    then have c3: "charged 3 s t3" by (simp add: numeral_3_eq_3)
    have r2: "r2 = ?r" "takeWhile in_part (drop 3 path) \<noteq> []" using parse_path_part_rest [OF p(1)] p(2) by blast+
    then have m: "n = Suc (length (parts_of r2))" by (simp add: n parts_of.simps [of "drop 3 path"])
    have "kmem_inv t3" "2 * length (parts_of r2) + 2 < kroom t3" using charged_room [OF c3 inv] room by (simp_all add: m)
    from charged_trans [OF c3 parse_loop_charged [OF this loop]] show ?thesis by (simp add: m)
  qed
qed

section \<open>The parts in memory\<close>

text \<open>\<open>c\<close> is the text of one part; \<open>parts_at pt cs s\<close>: the list of parts from \<open>pt\<close> on spells \<open>cs\<close>.\<close>

definition part_text :: "u8 list \<Rightarrow> bool" where
  "part_text c \<longleftrightarrow> 0 \<notin> set c \<and> length c < 108"

fun parts_at :: "ptr \<Rightarrow> u8 list list \<Rightarrow> 'a kmem_scheme \<Rightarrow> bool" where
  "parts_at pt [] s \<longleftrightarrow> pt = 0"
| "parts_at pt (c # cs) s \<longleftrightarrow> pt \<noteq> 0 \<and> part_text c \<and> (\<exists>nm nx. objs s pt = Some (OPathPart \<lparr>part = nm, next_part = nx\<rparr>) \<and>
     objs s nm = Some (part_buffer c) \<and> parts_at nx cs s)"

lemma parts_at_keeps: "parts_at pt cs s \<Longrightarrow> keeps s s' \<Longrightarrow> parts_at pt cs s'"
  by (induction cs arbitrary: pt) (auto dest: keepsD)

lemma parts_of_text:
  assumes "length (cstr path) < 108" and "c \<in> set (parts_of path)"
  shows "part_text c"
  using assms
proof (induction path rule: parts_of.induct)
  case (1 path)
  show ?case
  proof (cases "takeWhile in_part path = []")
    case True
    with 1(3) show ?thesis by (simp add: parts_of.simps [of path])
  next
    case False
    with 1(3) have "c = takeWhile in_part path \<or> c \<in> set (parts_of (skip_sep (dropWhile in_part path)))"
      by (simp add: parts_of.simps [of path])
    moreover have "part_text (takeWhile in_part path)"
      using takeWhile_cstr [of path] 1(2) by (auto simp: part_text_def in_part_def dest: set_takeWhileD)
    ultimately show ?thesis using 1(1) [OF False] 1(2) cstr_skip_sep [of path] by fastforce
  qed
qed

lemma path_text:
  assumes "path_ok path" and "c \<in> set (parts_of (drop 3 path))"
  shows "part_text c"
proof (rule parts_of_text [OF _ assms(2)])
  have "3 \<le> length (cstr path)" "length (cstr path) \<le> 108" using assms(1) by (simp_all add: path_ok_def)
  then show "length (cstr (drop 3 path)) < 108" by (simp add: cstr_drop)
qed

lemma length_chain_ptrs: "length (chain_ptrs ns) = 2 * length ns"
  by (induction ns rule: chain_ptrs.induct) auto

lemma chain_parts_at:
  assumes "distinct (chain_ptrs ns)" and "0 \<notin> set (chain_ptrs ns)" and "\<forall>(n, q, c) \<in> set ns. part_text c"
    and "\<forall>p x. chain_objs ns p = Some x \<longrightarrow> objs s p = Some x"
  shows "parts_at (head_of ns) (map (\<lambda>(n, q, c). c) ns) s"
  using assms
proof (induction ns rule: chain_objs.induct)
  case (2 n q c ns)
  have o: "objs s n = Some (OPathPart \<lparr>part = q, next_part = head_of ns\<rparr>)" "objs s q = Some (part_buffer c)"
    using 2(2,5) by auto
  have "chain_objs ((n, q, c) # ns) p = Some x" if x: "chain_objs ns p = Some x" for p x
  proof -
    have "p \<in> set (chain_ptrs ns)" using x chain_objs_None [of ns p] by (cases "p \<in> set (chain_ptrs ns)") simp_all
    then show ?thesis using 2(2) x by auto
  qed
  then have "parts_at (head_of ns) (map (\<lambda>(n, q, c). c) ns) s" using 2 by auto
  then show ?case using o 2(3,4) by auto
qed simp

text \<open>Parsing a well-formed path.\<close>

lemma parse_path_ok:
  fixes s :: "'a kmem_scheme"
  assumes inv: "kmem_inv s" and ok: "0 \<in> set path" "path_ok path"
    and av: "2 * length (parts_of (drop 3 path)) + 1 < kavail s"
  obtains root ns and s1 :: "'a kmem_scheme" where "pathparser_parse path s = Some (root, s1)" "root \<noteq> 0"
    "map (\<lambda>(n, q, c). c) ns = parts_of (drop 3 path)" "distinct (root # chain_ptrs ns)"
    "objs s1 root = Some (OPathRoot \<lparr>drive_no = drive_of path, first_part = head_of ns\<rparr>)"
    "parts_at (head_of ns) (parts_of (drop 3 path)) s1" "grown s (set (root # chain_ptrs ns)) s1"
    "objs s1 = objs s ++ path_objs root (drive_of path) ns" "keeps s s1"
proof -
  from parse_ok [OF inv ok av] obtain root ns and s1 :: "'a kmem_scheme" where
    p: "pathparser_parse path s = Some (root, s1)" "root \<noteq> 0" "map (\<lambda>(n, q, c). c) ns = parts_of (drop 3 path)"
      "distinct (root # chain_ptrs ns)" "grown s (set (root # chain_ptrs ns)) s1"
      "objs s1 = objs s ++ path_objs root (drive_of path) ns"
    by (elim exE conjE) (rule that)
  have fr: "objs s q = None" "q \<noteq> 0" if "q \<in> set (root # chain_ptrs ns)" for q
    using grown_fresh [OF p(5) that] by simp_all
  have dom: "path_objs root (drive_of path) ns q = None" if "q \<notin> set (root # chain_ptrs ns)" for q
    using that by (simp add: path_objs_def chain_objs_None)
  have "keeps s s1"
    unfolding keeps_def p(6) using fr(1) dom by (metis map_add_def option.simps(4))
  moreover have "\<forall>q x. chain_objs ns q = Some x \<longrightarrow> objs s1 q = Some x"
  proof (intro allI impI)
    fix q x assume x: "chain_objs ns q = Some x"
    then have "q \<in> set (chain_ptrs ns)" using chain_objs_None [of ns q] by (cases "q \<in> set (chain_ptrs ns)") simp_all
    then have "q \<noteq> root" using p(4) by auto
    with x show "objs s1 q = Some x" by (simp add: p(6) path_objs_def)
  qed
  moreover have "\<forall>(n, q, c) \<in> set ns. part_text c"
  proof (intro ballI, clarify)
    fix n q c assume "(n, q, c) \<in> set ns"
    then have "c \<in> set (map (\<lambda>(n, q, c). c) ns)" by force
    then show "part_text c" unfolding p(3) by (rule path_text [OF ok(2)])
  qed
  moreover have "0 \<notin> set (chain_ptrs ns)" "distinct (chain_ptrs ns)" using fr(2) p(4) by auto
  moreover have "objs s1 root = Some (OPathRoot \<lparr>drive_no = drive_of path, first_part = head_of ns\<rparr>)"
    by (simp add: p(6) path_objs_def)
  ultimately show thesis using p chain_parts_at [of ns s1] by (intro that [of root s1 ns]) simp_all
qed

end
