(* ===== verification/Fat16_Lookup.thy ===== *)
theory Fat16_Lookup
  imports Fat16_Props Path_Room
begin

text \<open>
  Looking up files: the 8.3 names of directory entries, the search of a directory, and \<^verbatim>\<open>fopen\<close>
  of a file in the root directory, found and missing.
\<close>

section \<open>Short names\<close>

definition name_byte :: "u8 \<Rightarrow> bool" where
  "name_byte c \<longleftrightarrow> c \<noteq> 0x00 \<and> c \<noteq> 0x20"

text \<open>The name field up to its first space, and the extension after a dot if there is one.\<close>

definition short_name :: "fat_directory_item \<Rightarrow> u8 list" where
  "short_name item = takeWhile name_byte (take 8 item) @
     (if name_byte (item ! 8) then 46 # takeWhile name_byte (take 3 (drop 8 item)) else [])"

lemma proper_loop_ok:
  "\<lbrakk>i < sz; sz - i \<le> length inp; pos + (sz - i) \<le> length buf\<rbrakk> \<Longrightarrow>
   fat16_proper_loop inp sz i buf pos =
     (let w = takeWhile name_byte (take (sz - i) inp)
      in Some (take pos buf @ w @ drop (pos + length w) buf, pos + length w))"
proof (induction inp sz i buf pos rule: fat16_proper_loop.induct)
  case (1 sz i buf pos)
  then show ?case by simp
next
  case (2 c inp sz i buf pos)
  have tk: "take (sz - i) (c # inp) = c # take (sz - Suc i) inp"
    using "2.prems"(1) by (metis Suc_diff_Suc take_Suc_Cons)
  have pos: "pos < length buf" using "2.prems" by simp
  show ?case
  proof (cases "name_byte c")
    case False
    then show ?thesis unfolding tk by (auto simp: name_byte_def Let_def)
  next
    case True
    then have c: "c \<noteq> 0" "c \<noteq> 0x20" by (simp_all add: name_byte_def)
    have upd: "take (Suc pos) (buf[pos := c]) = take pos buf @ [c]" "drop (Suc pos + k) (buf[pos := c]) = drop (Suc pos + k) buf"
      for k
      using pos by (simp_all add: take_Suc_conv_app_nth)
    show ?thesis
    proof (cases "sz - 1 \<le> i")
      case stop: True
      then have "sz - Suc i = 0" by simp
      then show ?thesis
        unfolding tk using c True pos stop by (simp add: Let_def upd_conv_take_nth_drop)
    next
      case False
      then have "Suc i < sz" by simp
      have "fat16_proper_loop inp sz (i + 1) (buf[pos := c]) (pos + 1) =
        (let w = takeWhile name_byte (take (sz - (i + 1)) inp)
         in Some (take (pos + 1) (buf[pos := c]) @ w @ drop (pos + 1 + length w) (buf[pos := c]), pos + 1 + length w))"
        by (rule "2.IH") (use c pos False "2.prems" in \<open>simp_all add: aset_def\<close>)
      then show ?thesis
        unfolding tk using c True pos False upd by (simp add: Let_def)
    qed
  qed
qed

lemma proper_string_ok:
  assumes "0 < sz" and "sz \<le> length inp" and "pos + sz < length buf"
    and w: "w = takeWhile name_byte (take sz inp)"
  shows "fat16_to_proper_string inp sz buf pos =
    Some (take pos buf @ w @ 0 # drop (Suc (pos + length w)) buf, pos + length w)"
proof -
  have lw: "length w \<le> sz" unfolding w using length_takeWhile_le [of name_byte "take sz inp"] assms(2) by simp
  have "fat16_proper_loop inp sz 0 buf pos = Some (take pos buf @ w @ drop (pos + length w) buf, pos + length w)"
    using proper_loop_ok [of 0 sz inp pos buf] assms by (simp add: Let_def)
  moreover have "pos + length w < length buf" using lw assms(3) by simp
  moreover from this have "(take pos buf @ w @ drop (pos + length w) buf)[pos + length w := 0] =
      take pos buf @ w @ 0 # drop (Suc (pos + length w)) buf"
    by (simp add: list_update_append min_def Cons_nth_drop_Suc [symmetric])
  ultimately show ?thesis by (simp add: fat16_to_proper_string_def)
qed

lemma short_name_chars: "0 \<notin> set (short_name item)" and short_name_length: "length (short_name item) \<le> 12"
proof -
  have "0 \<notin> set (takeWhile name_byte xs)" for xs by (auto dest: set_takeWhileD simp: name_byte_def)
  then show "0 \<notin> set (short_name item)" by (simp add: short_name_def)
  have "length (takeWhile name_byte (take n xs)) \<le> n" for n xs
    using length_takeWhile_le [of name_byte "take n xs"] by simp
  from this [of 8 item] this [of 3 "drop 8 item"] show "length (short_name item) \<le> 12"
    by (simp add: short_name_def)
qed

lemma full_name_ok:
  assumes "11 \<le> length item"
  shows "fat16_get_full_relative_filename item (replicate 108 0) 108 =
    Some (short_name item @ replicate (108 - length (short_name item)) 0)"
proof -
  let ?b = "takeWhile name_byte (take 8 item)" and ?e = "takeWhile name_byte (take 3 (drop 8 item))"
  have lb: "length ?b \<le> 8" and le: "length ?e \<le> 3"
    using length_takeWhile_le [of name_byte "take 8 item"] length_takeWhile_le [of name_byte "take 3 (drop 8 item)"]
    by simp_all
  have z: "memset (replicate 108 0) 0 (u32_of_int 108) = Some (replicate 108 0)"
    by (subst memset_ok) simp_all
  have sb: "108 - length ?b = Suc (107 - length ?b)" using lb by simp
  have f: "fat16_to_proper_string item 8 (replicate 108 0) 0 = Some (?b @ replicate (108 - length ?b) 0, length ?b)"
    using proper_string_ok [of 8 item 0 "replicate 108 0" ?b] assms by (simp add: sb)
  show ?thesis
  proof (cases "name_byte (item ! 8)")
    case False
    then show ?thesis using f z by (auto simp: fat16_get_full_relative_filename_def short_name_def name_byte_def)
  next
    case True
    let ?buf = "?b @ 46 # replicate (107 - length ?b) 0"
    have s: "aset (?b @ replicate (108 - length ?b) 0) (length ?b) 46 = Some ?buf"
      unfolding sb replicate_Suc by simp
    have n: "short_name item = ?b @ 46 # ?e" using True by (simp add: short_name_def)
    have se: "108 - length (short_name item) = Suc (106 - length ?b - length ?e)" using lb le by (simp add: n)
    have "fat16_to_proper_string (drop 8 item) 3 ?buf (length ?b + 1) =
        Some (take (length ?b + 1) ?buf @ ?e @ 0 # drop (Suc (length ?b + 1 + length ?e)) ?buf, length ?b + 1 + length ?e)"
      using assms lb by (intro proper_string_ok) simp_all
    moreover have "take (length ?b + 1) ?buf @ ?e @ 0 # drop (Suc (length ?b + 1 + length ?e)) ?buf =
        short_name item @ replicate (108 - length (short_name item)) 0"
      unfolding se replicate_Suc by (simp add: n)
    ultimately have g: "fat16_to_proper_string (drop 8 item) 3 ?buf (length ?b + 1) =
        Some (short_name item @ replicate (108 - length (short_name item)) 0, length ?b + 1 + length ?e)" by (simp only:)
    have "item ! 8 \<noteq> 0" "item ! 8 \<noteq> 0x20" using True by (simp_all add: name_byte_def)
    then show ?thesis using f z s g by (simp add: fat16_get_full_relative_filename_def)
  qed
qed

section \<open>Searching a directory\<close>

definition same_name :: "u8 list \<Rightarrow> u8 list \<Rightarrow> bool" where
  "same_name a b \<longleftrightarrow> map tolower a = map tolower b"

lemma name_compare_ok:
  assumes "11 \<le> length item" and c: "0 \<notin> set c" "length c < 108"
  obtains buf r where "fat16_get_full_relative_filename item (replicate 108 0) 108 = Some buf"
    "istrncmp buf (c @ replicate (108 - length c) 0) 108 = Some r" "r = 0 \<longleftrightarrow> same_name (short_name item) c"
proof -
  let ?n = "short_name item"
  let ?buf = "?n @ replicate (108 - length ?n) 0" and ?c = "c @ replicate (108 - length c) 0"
  have z: "cstr (w @ replicate (108 - length w) 0) = w \<and> 0 \<in> set (w @ replicate (108 - length w) 0)"
    if "0 \<notin> set w" "length w < 108" for w
  proof -
    have "108 - length w = Suc (107 - length w)" using that(2) by simp
    then show ?thesis using that(1) by (simp only: replicate_Suc cstr_append_zero) simp
  qed
  have ln: "length ?n < 108" using short_name_length [of item] by simp
  obtain r where "istrncmp_loop ?buf ?c 108 = Some r"
    "r = 0 \<longleftrightarrow> map tolower (take 108 ?n) = map tolower (take 108 c)"
    using istrncmp_loop_spec [of ?buf ?c 108] z [OF short_name_chars ln] z [OF c] by auto
  then show thesis
    using full_name_ok [OF assms(1)] ln c(2) by (intro that) (simp_all add: istrncmp_def same_name_def)
qed

text \<open>A directory whose items are the bytes \<open>b\<close> and a name to look for.\<close>

definition find_ready :: "fat_directory \<Rightarrow> u8 list \<Rightarrow> ptr \<Rightarrow> u8 list \<Rightarrow> 'a kmem_scheme \<Rightarrow> bool" where
  "find_ready dir b name c s \<longleftrightarrow> objs s (fdir_item dir) = Some (OBytes b) \<and> objs s name = Some (part_buffer c) \<and>
     0 \<notin> set c \<and> length c < 108"

lemma find_step:
  assumes f: "find_ready dir b name c s" and i: "32 * i + 32 \<le> length b"
  shows "fat16_find_loop hw d dir name i (Suc n) f_item s =
    (if same_name (short_name (drop (32 * i) b)) c
     then do { (f_item, s) \<leftarrow> fat16_new_fat_item_for_directory_item hw d (drop (32 * i) b) s;
               fat16_find_loop hw d dir name (Suc i) n f_item s }
     else fat16_find_loop hw d dir name (Suc i) n f_item s)"
proof -
  have len: "11 \<le> length (drop (32 * i) b)" using i by simp
  have c: "0 \<notin> set c" "length c < 108" using f by (simp_all add: find_ready_def)
  obtain buf r where r: "fat16_get_full_relative_filename (drop (32 * i) b) (replicate 108 0) 108 = Some buf"
    "istrncmp buf (c @ replicate (108 - length c) 0) 108 = Some r"
    "r = 0 \<longleftrightarrow> same_name (short_name (drop (32 * i) b)) c"
    by (rule name_compare_ok [OF len c])
  have it: "item_at (fdir_item dir) i s = Some (drop (32 * i) b)"
    using f i by (simp add: item_at_def find_ready_def deref_def)
  have nm: "deref as_bytes name s = Some (c @ replicate (108 - length c) 0)"
    using f by (simp add: find_ready_def deref_def part_buffer_def)
  show ?thesis using r by (simp add: it nm)
qed

lemma find_none:
  assumes "find_ready dir b name c s"
  shows "\<lbrakk>32 * (i + n) \<le> length b; \<forall>j. i \<le> j \<longrightarrow> j < i + n \<longrightarrow> \<not> same_name (short_name (drop (32 * j) b)) c\<rbrakk> \<Longrightarrow>
    fat16_find_loop hw d dir name i n f_item s = Some (f_item, s)"
proof (induction n arbitrary: i)
  case (Suc n)
  have "32 * i + 32 \<le> length b" using Suc.prems(1) by simp
  moreover have "\<not> same_name (short_name (drop (32 * i) b)) c" using Suc.prems(2) by simp
  moreover have "fat16_find_loop hw d dir name (Suc i) n f_item s = Some (f_item, s)"
    using Suc.prems by (intro Suc.IH) simp_all
  ultimately show ?case by (simp only: find_step [OF assms] if_False)
qed simp

lemma find_loop_add:
  "fat16_find_loop hw d dir name i (m + n) f_item s = do {
     (f_item, s) \<leftarrow> fat16_find_loop hw d dir name i m f_item s;
     fat16_find_loop hw d dir name (i + m) n f_item s }"
proof (induction m arbitrary: i f_item s)
  case (Suc m)
  show ?case by (simp add: Suc.IH split: Option.bind_split)
qed simp

text \<open>The one entry with the name.\<close>

definition only_match :: "u8 list \<Rightarrow> nat \<Rightarrow> u8 list \<Rightarrow> nat \<Rightarrow> bool" where
  "only_match b n c k \<longleftrightarrow> 32 * n \<le> length b \<and> k < n \<and>
     (\<forall>j < n. same_name (short_name (drop (32 * j) b)) c \<longleftrightarrow> j = k)"

lemma find_one:
  assumes f: "find_ready dir b name c s" and k: "only_match b n c k"
    and new: "fat16_new_fat_item_for_directory_item hw d (drop (32 * k) b) s = Some (fi, s')"
    and f': "find_ready dir b name c s'" and n: "fdir_total dir = int n"
  shows "fat16_find_item_in_directory hw d dir name s = Some (fi, s')"
proof -
  have b: "32 * n \<le> length b" "k < n" "\<forall>j < n. same_name (short_name (drop (32 * j) b)) c \<longleftrightarrow> j = k"
    using k by (simp_all add: only_match_def)
  define m where "m = n - Suc k"
  have nm: "n = k + Suc m" using b(2) by (simp add: m_def)
  have "fat16_find_loop hw d dir name 0 k 0 s = Some (0, s)"
    by (rule find_none [OF f]) (use b nm in auto)
  moreover have "fat16_find_loop hw d dir name k (Suc m) 0 s = fat16_find_loop hw d dir name (Suc k) m fi s'"
    using b nm new by (subst find_step [OF f]) simp_all
  moreover have "fat16_find_loop hw d dir name (Suc k) m fi s' = Some (fi, s')"
    by (rule find_none [OF f']) (use b nm in auto)
  ultimately have "fat16_find_loop hw d dir name 0 (k + Suc m) 0 s = Some (fi, s')"
    unfolding find_loop_add [of hw d dir name 0 k "Suc m" 0 s] by simp
  moreover have "nat (fdir_total dir) = k + Suc m" using n nm by simp
  ultimately show ?thesis by (simp only: fat16_find_item_in_directory_def)
qed

lemma find_missing:
  assumes "find_ready dir b name c s" and "fdir_total dir = int n" and "32 * n \<le> length b"
    and "\<forall>j < n. \<not> same_name (short_name (drop (32 * j) b)) c"
  shows "fat16_find_item_in_directory hw d dir name s = Some (0, s)"
  using find_none [OF assms(1), of 0 n hw d 0] assms(2-4) by (simp add: fat16_find_item_in_directory_def)

text \<open>The item that is made for a file: a copy of its directory entry.\<close>

lemma charged_setobj:
  assumes "objs s p \<noteq> None"
  shows "charged 0 s (setobj p x s)"
  using charged_store [of p x s] assms by (auto simp: store_def setobj_def)

lemma charged_setobj2:
  assumes "objs s p \<noteq> None" and "objs s q \<noteq> None"
  shows "charged 0 s (setobj p x (setobj q y s))"
proof -
  have "objs (setobj q y s) p \<noteq> None" using assms(1) by simp
  from charged_trans [OF charged_setobj [OF assms(2)] charged_setobj [OF this]] show ?thesis by simp
qed

lemma new_item_ok:
  assumes inv: "kmem_inv s" and av: "2 \<le> kavail s" and len: "32 \<le> length item"
    and attr: "it_attribute item AND FAT_FILE_SUBDIRECTORY = 0"
  obtains fi cp s' where "fat16_new_fat_item_for_directory_item hw d item s = Some (fi, s')" "fi \<noteq> 0" "fi \<noteq> cp"
    "grown s {fi, cp} s'" "objs s' = (objs s)(fi \<mapsto> OFatItem \<lparr>fi_ptr = cp, fi_type = FAT_ITEM_TYPE_FILE\<rparr>, cp \<mapsto> OBytes (take 32 item))"
    "charged 2 s s'"
proof -
  have pos: "0 < kavail s" using av by simp
  have sz: "(8 :: u32) \<noteq> 0" "unat (8 :: u32) \<le> 4096" "(32 :: u32) \<noteq> 0" "unat (32 :: u32) \<le> 4096" by simp_all
  obtain fi s1 where a: "alloc_as 8 (OFatItem \<lparr>fi_ptr = 0, fi_type = 0\<rparr>) s = Some (fi, s1)" "fi \<noteq> 0" "grown s {fi} s1"
    "objs s fi = None" "objs s1 = (objs s)(fi \<mapsto> OFatItem \<lparr>fi_ptr = 0, fi_type = 0\<rparr>)"
    by (rule grown_alloc [OF inv pos sz(1,2)])
  have i1: "kmem_inv s1" "0 < kavail s1" using grownD [OF a(3)] av by simp_all
  obtain cp s2 where b: "alloc_as 32 (OBytes (replicate 32 0)) s1 = Some (cp, s2)" "cp \<noteq> 0" "grown s1 {cp} s2"
    "objs s1 cp = None" "objs s2 = (objs s1)(cp \<mapsto> OBytes (replicate 32 0))"
    by (rule grown_alloc [OF i1 sz(3,4)])
  have ne: "fi \<noteq> cp" using b(4) a(5) by auto
  let ?s3 = "setobj cp (OBytes (take 32 item)) s2"
  let ?s4 = "setobj fi (OFatItem \<lparr>fi_ptr = cp, fi_type = FAT_ITEM_TYPE_FILE\<rparr>) ?s3"
  have o2: "objs s2 cp = Some (OBytes (replicate 32 0))" by (simp add: b(5))
  have o3: "objs ?s3 fi = Some (OFatItem \<lparr>fi_ptr = 0, fi_type = 0\<rparr>)" using ne by (simp add: b(5) a(5))
  have g: "grown s {fi, cp} s2" using grown_trans(1) [OF a(3) b(3)] by (simp add: insert_commute)
  have cpy: "memcpy (replicate 32 0) item 32 = Some (take 32 item)"
    using memcpy_ok [of 32 "replicate 32 0" item] len by simp
  have "fat16_clone_directory_item item 32 s1 = Some (cp, ?s3)"
    using b(1,2) o2 cpy by (simp add: fat16_clone_directory_item_def kzalloc_bytes deref_def store_eq [OF o2])
  then have run: "fat16_new_fat_item_for_directory_item hw d item s = Some (fi, ?s4)"
    using a(1,2) attr by (simp add: fat16_new_fat_item_for_directory_item_def store_eq [OF o3])
  have "grown s {fi, cp} ?s4" using o2 o3 by (intro grown_update g) simp_all
  moreover have "objs ?s4 = (objs s)(fi \<mapsto> OFatItem \<lparr>fi_ptr = cp, fi_type = FAT_ITEM_TYPE_FILE\<rparr>, cp \<mapsto> OBytes (take 32 item))"
    using ne by (auto simp: b(5) a(5) fun_eq_iff)
  moreover have "charged (1 + (1 + 0)) s ?s4"
    by (rule charged_trans [OF charged_page [OF a(1) sz(1,2)]
          charged_trans [OF charged_page [OF b(1) sz(3,4)] charged_setobj2]]) (use o2 o3 ne in simp_all)
  ultimately show thesis by (intro that [OF run a(2) ne]) (simp_all add: numeral_2_eq_2)
qed

section \<open>Opening through the driver\<close>

lemma find_ready_keeps: "find_ready dir b name c s \<Longrightarrow> keeps s s' \<Longrightarrow> find_ready dir b name c s'"
  by (auto simp: find_ready_def dest: keepsD)

lemma volume_loaded_keeps:
  fixes s s' :: "('d, 'a) diskmem_scheme"
  assumes v: "volume_loaded img n p s" and k: "keeps s s'" and d: "disk s' = disk s"
  shows "volume_loaded img n p s'"
proof -
  have "fat_mounted p s'"
    using v keepsD [OF k] d unfolding volume_loaded_def fat_mounted_def by metis
  then show ?thesis using v k unfolding volume_loaded_def by (auto dest: keepsD)
qed

text \<open>The items of the root directory, and one of them.\<close>

definition root_bytes :: "(nat \<Rightarrow> u8 list) \<Rightarrow> u8 list" where
  "root_bytes img = (let h = img_bytes img 0 FAT_HEADER_SIZE in img_bytes img (512 * root_sector h) (root_size h))"

definition root_count :: "(nat \<Rightarrow> u8 list) \<Rightarrow> nat \<Rightarrow> nat" where
  "root_count img n = dir_count img (512 * root_sector (img_bytes img 0 FAT_HEADER_SIZE)) n"

definition root_item :: "(nat \<Rightarrow> u8 list) \<Rightarrow> nat \<Rightarrow> fat_directory_item" where
  "root_item img k = take FAT_ITEM_SIZE (drop (FAT_ITEM_SIZE * k) (root_bytes img))"

lemma volume_root:
  assumes "volume_loaded img n p s"
  shows "objs s (fdir_item (root_directory p)) = Some (OBytes (root_bytes img))"
    and "fdir_total (root_directory p) = int (root_count img n)" and "get_private TheDisk s = Some p"
  using assms mounted_private(1) [of p s]
  by (auto simp: volume_loaded_def root_bytes_def root_count_def Let_def)

text \<open>The part \<open>pt\<close> is the last of a path and spells \<open>c\<close>.\<close>

definition last_part :: "ptr \<Rightarrow> u8 list \<Rightarrow> 'a kmem_scheme \<Rightarrow> bool" where
  "last_part pt c s \<longleftrightarrow> (\<exists>nm. objs s pt = Some (OPathPart \<lparr>part = nm, next_part = 0\<rparr>) \<and>
     objs s nm = Some (part_buffer c)) \<and> 0 \<notin> set c \<and> length c < 108"

lemma last_part_keeps: "last_part pt c s \<Longrightarrow> keeps s s' \<Longrightarrow> last_part pt c s'"
  unfolding last_part_def by (blast dest: keepsD)

lemma entry_found:
  fixes s :: "('d, 'a) diskmem_scheme"
  assumes v: "volume_loaded img n p s" and inv: "kmem_inv s" and av: "2 \<le> kavail s" and l: "last_part pt c s"
    and k: "only_match (root_bytes img) (root_count img n) c k"
    and attr: "it_attribute (root_item img k) AND FAT_FILE_SUBDIRECTORY = 0"
  obtains fi cp s' where "fat16_get_directory_entry hw TheDisk pt s = Some (fi, s')" "fi \<noteq> 0" "fi \<noteq> cp" "grown s {fi, cp} s'"
    "objs s' = (objs s)(fi \<mapsto> OFatItem \<lparr>fi_ptr = cp, fi_type = FAT_ITEM_TYPE_FILE\<rparr>, cp \<mapsto> OBytes (root_item img k))"
    "charged 2 s s'"
proof -
  obtain nm where nm: "objs s pt = Some (OPathPart \<lparr>part = nm, next_part = 0\<rparr>)" "objs s nm = Some (part_buffer c)"
    "0 \<notin> set c" "length c < 108"
    using l unfolding last_part_def by blast
  have f: "find_ready (root_directory p) (root_bytes img) nm c s"
    using volume_root(1) [OF v] nm by (simp add: find_ready_def)
  let ?it = "drop (32 * k) (root_bytes img)"
  have b: "32 * root_count img n \<le> length (root_bytes img)" "k < root_count img n" using k by (simp_all add: only_match_def)
  then have len: "32 \<le> length ?it" by simp
  have at: "it_attribute ?it AND FAT_FILE_SUBDIRECTORY = 0"
    using attr len by (simp add: it_attribute_def root_item_def)
  obtain fi cp s' where r: "fat16_new_fat_item_for_directory_item hw TheDisk ?it s = Some (fi, s')" "fi \<noteq> 0" "fi \<noteq> cp"
    "grown s {fi, cp} s'"
    "objs s' = (objs s)(fi \<mapsto> OFatItem \<lparr>fi_ptr = cp, fi_type = FAT_ITEM_TYPE_FILE\<rparr>, cp \<mapsto> OBytes (take 32 ?it))"
    "charged 2 s s'"
    by (rule new_item_ok [OF inv av len at])
  have "keeps s s'" using grown_fresh [OF r(4)] by (auto simp: keeps_def r(5))
  then have f': "find_ready (root_directory p) (root_bytes img) nm c s'" by (rule find_ready_keeps [OF f])
  have "fat16_find_item_in_directory hw TheDisk (root_directory p) nm s = Some (fi, s')"
    by (rule find_one [OF f k r(1) f' volume_root(2) [OF v]])
  then have "fat16_get_directory_entry hw TheDisk pt s = Some (fi, s')"
    using nm(1) r(2) volume_root(3) [OF v]
    by (simp add: fat16_get_directory_entry_def deref_def fat16_walk_path.simps)
  then show thesis by (rule that [OF _ r(2-4) _ r(6)]) (simp add: r(5) root_item_def)
qed

lemma open_found:
  fixes s :: "('d, 'a) diskmem_scheme"
  assumes v: "volume_loaded img n p s" and inv: "kmem_inv s" and av: "3 \<le> kavail s" and l: "last_part pt c s"
    and k: "only_match (root_bytes img) (root_count img n) c k"
    and attr: "it_attribute (root_item img k) AND FAT_FILE_SUBDIRECTORY = 0"
  obtains D fi cp s' where "fat16_open hw TheDisk pt FILE_MODE_READ s = Some (D, s')" "grown s {D, fi, cp} s'"
    "card {D, fi, cp} = 3" "D \<noteq> 0" "charged 3 s s'"
    "objs s' = (objs s)(D \<mapsto> OFatFd \<lparr>ffd_item = fi, ffd_pos = 0\<rparr>,
       fi \<mapsto> OFatItem \<lparr>fi_ptr = cp, fi_type = FAT_ITEM_TYPE_FILE\<rparr>, cp \<mapsto> OBytes (root_item img k))"
proof -
  have pos: "0 < kavail s" using av by simp
  have sz: "(8 :: u32) \<noteq> 0" "unat (8 :: u32) \<le> 4096" by simp_all
  obtain D s1 where a: "alloc_as 8 (OFatFd \<lparr>ffd_item = 0, ffd_pos = 0\<rparr>) s = Some (D, s1)" "D \<noteq> 0" "grown s {D} s1"
    "objs s D = None" "objs s1 = (objs s)(D \<mapsto> OFatFd \<lparr>ffd_item = 0, ffd_pos = 0\<rparr>)"
    by (rule grown_alloc [OF inv pos sz])
  have ks: "keeps s s1" by (rule keeps_upd [OF a(4,5)])
  have v1: "volume_loaded img n p s1" by (rule volume_loaded_keeps [OF v ks more_disk(1) [OF grownD(3) [OF a(3)]]])
  have i1: "kmem_inv s1" "2 \<le> kavail s1" using grownD [OF a(3)] av by simp_all
  obtain fi cp s2 where b: "fat16_get_directory_entry hw TheDisk pt s1 = Some (fi, s2)" "fi \<noteq> 0" "fi \<noteq> cp" "grown s1 {fi, cp} s2"
    "objs s2 = (objs s1)(fi \<mapsto> OFatItem \<lparr>fi_ptr = cp, fi_type = FAT_ITEM_TYPE_FILE\<rparr>, cp \<mapsto> OBytes (root_item img k))"
    "charged 2 s1 s2"
    by (rule entry_found [OF v1 i1 last_part_keeps [OF l ks] k attr])
  have ne: "D \<noteq> fi" "D \<noteq> cp" using grown_trans(2) [OF a(3) b(4)] by auto
  have o2: "objs s2 D = Some (OFatFd \<lparr>ffd_item = 0, ffd_pos = 0\<rparr>)" using ne by (simp add: b(5) a(5))
  let ?s3 = "setobj D (OFatFd \<lparr>ffd_item = fi, ffd_pos = 0\<rparr>) s2"
  have o3: "objs ?s3 D = Some (OFatFd \<lparr>ffd_item = fi, ffd_pos = 0\<rparr>)" by simp
  have run: "fat16_open hw TheDisk pt FILE_MODE_READ s = Some (D, ?s3)"
    using a(1,2) b(1,2) o2
    by (simp add: fat16_open_def deref_def store_eq [OF o2] store_eq [OF o3] setobj_same [OF o3])
  have g: "grown s {D, fi, cp} ?s3"
    using grown_trans(1) [OF a(3) b(4)] o2 by (intro grown_update) (simp_all add: insert_commute)
  have o: "objs ?s3 = (objs s)(D \<mapsto> OFatFd \<lparr>ffd_item = fi, ffd_pos = 0\<rparr>,
       fi \<mapsto> OFatItem \<lparr>fi_ptr = cp, fi_type = FAT_ITEM_TYPE_FILE\<rparr>, cp \<mapsto> OBytes (root_item img k))"
    using ne by (auto simp: b(5) a(5) fun_eq_iff)
  have "card {D, fi, cp} = 3" using ne b(3) by simp
  moreover have "charged (1 + (2 + 0)) s ?s3"
    by (rule charged_trans [OF charged_page [OF a(1) sz] charged_trans [OF b(6) charged_setobj]]) (use o2 in simp_all)
  ultimately show thesis by (intro that [OF run g _ a(2) _ o]) (simp_all add: numeral_3_eq_3)
qed

text \<open>No entry has the name: the driver gives back its descriptor and returns an error code.\<close>

lemma open_missing:
  fixes s :: "('d, 'a) diskmem_scheme"
  assumes v: "volume_loaded img n p s" and inv: "kmem_inv s" and av: "0 < kavail s" and l: "last_part pt c s"
    and len: "32 * root_count img n \<le> length (root_bytes img)"
    and no: "\<forall>j < root_count img n. \<not> same_name (short_name (drop (32 * j) (root_bytes img))) c"
  obtains s' where "fat16_open hw TheDisk pt FILE_MODE_READ s = Some (ERROR (- EIO), s')" "grown s {} s'" "objs s' = objs s"
proof -
  have sz: "(8 :: u32) \<noteq> 0" "unat (8 :: u32) \<le> 4096" by simp_all
  obtain D s1 where a: "alloc_as 8 (OFatFd \<lparr>ffd_item = 0, ffd_pos = 0\<rparr>) s = Some (D, s1)" "D \<noteq> 0" "grown s {D} s1"
    "objs s D = None" "objs s1 = (objs s)(D \<mapsto> OFatFd \<lparr>ffd_item = 0, ffd_pos = 0\<rparr>)"
    by (rule grown_alloc [OF inv av sz])
  have ks: "keeps s s1" by (rule keeps_upd [OF a(4,5)])
  have v1: "volume_loaded img n p s1" by (rule volume_loaded_keeps [OF v ks more_disk(1) [OF grownD(3) [OF a(3)]]])
  obtain nm where nm: "objs s1 pt = Some (OPathPart \<lparr>part = nm, next_part = 0\<rparr>)" "objs s1 nm = Some (part_buffer c)"
    "0 \<notin> set c" "length c < 108"
    using last_part_keeps [OF l ks] unfolding last_part_def by blast
  have f: "find_ready (root_directory p) (root_bytes img) nm c s1"
    using volume_root(1) [OF v1] nm by (simp add: find_ready_def)
  have e: "fat16_get_directory_entry hw TheDisk pt s1 = Some (0, s1)"
    using find_missing [OF f volume_root(2) [OF v1] len no] nm(1) volume_root(3) [OF v1]
    by (simp add: fat16_get_directory_entry_def deref_def)
  have o1: "objs s1 D = Some (OFatFd \<lparr>ffd_item = 0, ffd_pos = 0\<rparr>)" by (simp add: a(5))
  obtain s2 where b: "kfree D s1 = Some s2" "grown s ({D} - {D}) s2" "objs s2 = (objs s1)(D := None)"
    by (rule grown_release [OF a(3)]) simp
  have "objs s2 = objs s" using a(4) by (simp add: b(3) a(5) fun_upd_idem)
  moreover have "fat16_open hw TheDisk pt FILE_MODE_READ s = Some (ERROR (- EIO), s2)"
    using a(1,2) e o1 b(1)
    by (simp add: fat16_open_def deref_def store_eq [OF o1] setobj_same [OF o1])
  ultimately show thesis using b(2) by (intro that [of s2]) simp_all
qed

section \<open>Opening a file of the root directory\<close>

lemma kmalloc_as: "kmalloc sz s = alloc_as sz (OUndef (unat sz)) s"
  by (simp add: kmalloc_eq alloc_as_eq alloc_with_def)

lemma heap_pointer_not_error:
  assumes "kmem_inv s" and "objs s p \<noteq> None"
  shows "\<not> ISERR p" and "0 \<le> int_of_u32 p"
proof -
  obtain k where "(p, k) \<in> klive s" using assms kmem_inv_live by blast
  moreover have "heap_inv (kernel_heap s)" using assms(1) by (simp add: kmem_inv_def)
  ultimately have "unat p < 2147483648" using heap_live_geometry(6) by fastforce
  then show "0 \<le> int_of_u32 p" by (simp add: sint_u32_small)
  then show "\<not> ISERR p" by (simp add: ISERR_def)
qed

text \<open>A path of drive 0 with the one component \<open>name\<close>.\<close>

definition root_path :: "u8 list \<Rightarrow> u8 list \<Rightarrow> bool" where
  "root_path path name \<longleftrightarrow> 0 \<in> set path \<and> path_ok path \<and> drive_of path = 0 \<and> parts_of (drop 3 path) = [name]"

lemma parse_root_charged:
  fixes s s' :: "'a kmem_scheme"
  assumes "kmem_inv s" and "root_path path name" and "6 \<le> kroom s" and "pathparser_parse path s = Some (root, s')"
  shows "charged 5 s s'"
  using parse_charged [of s path 1 root s'] assms by (simp add: root_path_def)

text \<open>\<^verbatim>\<open>fopen\<close> up to the call of the driver.\<close>

lemma parse_root_path:
  fixes s :: "('d, 'a) vfsmem_scheme"
  assumes inv: "kmem_inv s" and path: "root_path path name" and av: "3 < kavail s"
  obtains root pt nm s1 where "pathparser_parse path s = Some (root, s1)" "root \<noteq> 0" "pt \<noteq> 0"
    "objs s1 root = Some (OPathRoot \<lparr>drive_no = 0, first_part = pt\<rparr>)" "last_part pt name s1" "grown s {root, pt, nm} s1"
    "card {root, pt, nm} = 3" "objs s1 = objs s ++ path_objs root 0 [(pt, nm, name)]" "keeps s s1"
proof -
  have ok: "0 \<in> set path" "path_ok path" "drive_of path = 0" "parts_of (drop 3 path) = [name]"
    using path by (simp_all add: root_path_def)
  have av': "2 * length (parts_of (drop 3 path)) + 1 < kavail s" using av ok(4) by simp
  obtain root ns and s1 :: "('d, 'a) vfsmem_scheme" where p: "pathparser_parse path s = Some (root, s1)" "root \<noteq> 0"
    "map (\<lambda>(n, q, c). c) ns = [name]" "distinct (root # chain_ptrs ns)"
    "objs s1 root = Some (OPathRoot \<lparr>drive_no = 0, first_part = head_of ns\<rparr>)" "parts_at (head_of ns) [name] s1"
    "grown s (set (root # chain_ptrs ns)) s1" "objs s1 = objs s ++ path_objs root 0 ns" "keeps s s1"
    by (rule parse_path_ok [OF inv ok(1,2) av', unfolded ok(3,4)])
  from p(3) obtain pt nm where ns: "ns = [(pt, nm, name)]" by (auto simp: map_eq_Cons_conv)
  have "last_part pt name s1" "pt \<noteq> 0" using p(6) by (auto simp: ns last_part_def part_text_def)
  then show thesis using p by (intro that [of root s1 pt nm]) (simp_all add: ns)
qed

lemma mode_read: "file_get_mode_by_string (114 # m) = Some FILE_MODE_READ"
  by (simp add: file_get_mode_by_string_def strncmp_def numeral_eq_Suc)

lemma new_descriptor_ok:
  fixes s :: "('d, 'a) vfsmem_scheme"
  assumes inv: "kmem_inv s" and av: "0 < kavail s" and len: "length (file_descriptors s) = 512"
    and i: "free_slot 0 (file_descriptors s) 0 = Some i"
  obtains desc s' where "file_new_descriptor s = Some (0, desc, s'\<lparr>file_descriptors := (file_descriptors s)[i := desc]\<rparr>)"
    "desc \<noteq> 0" "grown s {desc} s'"
    "objs s' = (objs s)(desc \<mapsto> OFileDesc \<lparr>fd_index = int i + 1, fd_filesystem = NullFs, fd_private = 0, fd_disk = NullDisk\<rparr>)"
    "charged 1 s s'"
proof -
  let ?d = "\<lparr>fd_index = int i + 1, fd_filesystem = NullFs, fd_private = 0, fd_disk = NullDisk\<rparr>"
  have sz: "(16 :: u32) \<noteq> 0" "unat (16 :: u32) \<le> 4096" by simp_all
  obtain desc s1 where a: "alloc_as 16 (OUndef 16) s = Some (desc, s1)" "desc \<noteq> 0" "grown s {desc} s1" "objs s desc = None"
    "objs s1 = (objs s)(desc \<mapsto> OUndef 16)"
    by (rule grown_alloc [OF inv av sz])
  have o: "objs s1 desc = Some (OUndef 16)" by (simp add: a(5))
  let ?s2 = "setobj desc (OFileDesc ?d) s1"
  have "diskmem.more s1 = diskmem.more s" using more_disk(4) [OF grownD(3) [OF a(3)]] .
  then have fd: "file_descriptors ?s2 = file_descriptors s" using vfs_more_table(2) [of ?s2 s] by simp
  have il: "i < 512" using free_slot_Some [OF i] len by simp
  have "file_new_descriptor s = Some (0, desc, ?s2\<lparr>file_descriptors := (file_descriptors s)[i := desc]\<rparr>)"
    using i a(1) il len fd by (simp add: file_new_descriptor_def kmalloc_as store_eq [OF o])
  moreover have "grown s {desc} ?s2" using o by (intro grown_update a(3)) simp
  moreover have "charged (1 + 0) s ?s2"
    by (rule charged_trans [OF charged_page [OF a(1) sz] charged_setobj]) (use o in simp_all)
  ultimately show thesis using a(2,5) by (intro that [of desc ?s2]) simp_all
qed

lemma grown_vfs:
  fixes s s' :: "('d, 'a) vfsmem_scheme"
  assumes "grown s P s'"
  shows "disk s' = disk s" "dev s' = dev s" "file_descriptors s' = file_descriptors s"
  using more_disk [OF grownD(3) [OF assms]] vfs_more_table(2) by blast+

text \<open>\<^verbatim>\<open>fopen\<close> after the driver has opened the file, for any driver.\<close>

lemma fopen_opened:
  fixes s s1 s2 :: "('d, 'a) vfsmem_scheme"
  assumes p: "pathparser_parse path s = Some (root, s1)" "root \<noteq> 0" "pt \<noteq> 0"
      "objs s1 root = Some (OPathRoot \<lparr>drive_no = 0, first_part = pt\<rparr>)"
    and fs: "dk_filesystem (disk s1) = Fat16Fs" "disk s2 = disk s1"
    and o: "fs_open (fs Fat16Fs) TheDisk pt FILE_MODE_READ s1 = Some (D, s2)" "\<not> ISERR D"
    and inv: "kmem_inv s2" "0 < kavail s2" and len: "length (file_descriptors s2) = 512"
    and i: "free_slot 0 (file_descriptors s2) 0 = Some i"
  obtains desc s' where "fopen fs path (114 # m) s = Some (int i + 1, s')" "desc \<noteq> 0" "objs s2 desc = None"
    "objs s' = (objs s2)(desc \<mapsto> OFileDesc \<lparr>fd_index = int i + 1, fd_filesystem = Fat16Fs, fd_private = D, fd_disk = TheDisk\<rparr>)"
    "file_descriptors s' = (file_descriptors s2)[i := desc]" "kmem_inv s'" "kavail s2 = kavail s' + 1"
    "dev s' = dev s2" "disk s' = disk s2" "charged 1 s2 s'"
proof -
  let ?fresh = "\<lparr>fd_index = int i + 1, fd_filesystem = NullFs, fd_private = 0, fd_disk = NullDisk\<rparr>"
  let ?d = "\<lparr>fd_index = int i + 1, fd_filesystem = Fat16Fs, fd_private = D, fd_disk = TheDisk\<rparr>"
  obtain desc s3 where c: "file_new_descriptor s2 = Some (0, desc, s3\<lparr>file_descriptors := (file_descriptors s2)[i := desc]\<rparr>)"
    "desc \<noteq> 0" "grown s2 {desc} s3" "objs s3 = (objs s2)(desc \<mapsto> OFileDesc ?fresh)"
    "charged 1 s2 s3"
    by (rule new_descriptor_ok [OF inv len i])
  let ?s3 = "s3\<lparr>file_descriptors := (file_descriptors s2)[i := desc]\<rparr>"
  let ?s4 = "setobj desc (OFileDesc ?d) ?s3"
  have o3: "objs ?s3 desc = Some (OFileDesc ?fresh)" by (simp add: c(4))
  have dr: "deref as_file_desc desc ?s3 = Some ?fresh" using o3 by (simp add: deref_def)
  have t3: "disk s3 = disk s2" "dev s3 = dev s2" using grown_vfs [OF c(3)] by simp_all
  have "fopen fs path (114 # m) s = Some (int i + 1, ?s4)"
    using p c(1) t3 fs o by (simp add: fopen_def fopen_body_def deref_def [of as_path_root] disk_get_def mode_read fs_call_def dr store_eq [OF o3])
  moreover have "objs s2 desc = None" using grown_fresh [OF c(3)] by simp
  moreover have "kmem_inv ?s3" using grownD(2) [OF c(3)] by (simp add: kmem_inv_def)
  then have "kmem_inv ?s4" using o3 by (intro kmem_inv_setobj) simp_all
  moreover have "kavail s2 = kavail ?s4 + 1" using grownD(6) [OF c(3)] by (simp add: setobj_def)
  moreover have "charged 1 s2 ?s4"
    using c(5) \<open>kmem_inv ?s4\<close> by (simp add: charged_def kroom_def setobj_def)
  ultimately show thesis using c(2,4) t3 by (intro that [of ?s4 desc]) (simp_all add: setobj_def)
qed

text \<open>The objects behind a descriptor of an open file.\<close>

definition file_chain ::
  "ptr \<Rightarrow> ptr \<Rightarrow> ptr \<Rightarrow> ptr \<Rightarrow> int \<Rightarrow> u32 \<Rightarrow> fat_directory_item \<Rightarrow> 'a kmem_scheme \<Rightarrow> bool" where
  "file_chain desc D fi cp fd pos item s \<longleftrightarrow>
     objs s desc = Some (OFileDesc \<lparr>fd_index = fd, fd_filesystem = Fat16Fs, fd_private = D, fd_disk = TheDisk\<rparr>) \<and>
     objs s D = Some (OFatFd \<lparr>ffd_item = fi, ffd_pos = pos\<rparr>) \<and>
     objs s fi = Some (OFatItem \<lparr>fi_ptr = cp, fi_type = FAT_ITEM_TYPE_FILE\<rparr>) \<and>
     objs s cp = Some (OBytes item)"

lemma file_chain_open:
  "\<lbrakk>file_chain desc D fi cp fd pos item s; 1 \<le> fd; file_get_descriptor fd s = Some desc; desc \<noteq> 0\<rbrakk> \<Longrightarrow>
   open_file fd \<lparr>fd_index = fd, fd_filesystem = Fat16Fs, fd_private = D, fd_disk = TheDisk\<rparr>
     \<lparr>ffd_item = fi, ffd_pos = pos\<rparr> item s"
  unfolding file_chain_def open_file_def
  by (intro exI [of _ desc] exI [of _ "\<lparr>fi_ptr = cp, fi_type = FAT_ITEM_TYPE_FILE\<rparr>"]) simp

lemma fopen_found:
  fixes s :: "('d, 'a) vfsmem_scheme"
  assumes v: "volume_loaded img n p s" and fs: "dk_filesystem (disk s) = Fat16Fs" and inv: "kmem_inv s" and room: "9 \<le> kroom s"
    and path: "root_path path name" and k: "only_match (root_bytes img) (root_count img n) name k"
    and attr: "it_attribute (root_item img k) AND FAT_FILE_SUBDIRECTORY = 0"
    and len: "length (file_descriptors s) = 512" and i: "free_slot 0 (file_descriptors s) 0 = Some i"
  obtains desc D fi cp s' where "fopen (\<lambda>_. fat16_fs hw) path (114 # m) s = Some (int i + 1, s')" "desc \<noteq> 0"
    "file_chain desc D fi cp (int i + 1) 0 (root_item img k) s'" "\<forall>q \<in> {desc, D, fi, cp}. objs s q = None"
    "file_descriptors s' = (file_descriptors s)[i := desc]" "volume_loaded img n p s'" "keeps s s'"
    "kmem_inv s'" "kavail s = kavail s' + 7" "kroom s \<le> kroom s' + 9" "dev s' = dev s" "disk s' = disk s"
proof -
  have av: "9 \<le> kavail s" using room kroom_le_avail [of s] by simp
  then have av3: "3 < kavail s" by simp
  obtain root pt nm s1 where a: "pathparser_parse path s = Some (root, s1)" "root \<noteq> 0" "pt \<noteq> 0"
    "objs s1 root = Some (OPathRoot \<lparr>drive_no = 0, first_part = pt\<rparr>)" "last_part pt name s1" "grown s {root, pt, nm} s1"
    "card {root, pt, nm} = 3" "objs s1 = objs s ++ path_objs root 0 [(pt, nm, name)]" "keeps s s1"
    by (rule parse_root_path [OF inv path av3])
  have ch1: "charged 5 s s1" using room by (intro parse_root_charged [OF inv path _ a(1)]) simp
  have v1: "volume_loaded img n p s1" by (rule volume_loaded_keeps [OF v a(9) grown_vfs(1) [OF a(6)]])
  have i1: "kmem_inv s1" "3 \<le> kavail s1" "kavail s = kavail s1 + 3" using grownD [OF a(6)] a(7) av by simp_all
  obtain D fi cp s2 where b: "fat16_open hw TheDisk pt FILE_MODE_READ s1 = Some (D, s2)" "grown s1 {D, fi, cp} s2"
    "card {D, fi, cp} = 3" "D \<noteq> 0" "charged 3 s1 s2"
    "objs s2 = (objs s1)(D \<mapsto> OFatFd \<lparr>ffd_item = fi, ffd_pos = 0\<rparr>,
       fi \<mapsto> OFatItem \<lparr>fi_ptr = cp, fi_type = FAT_ITEM_TYPE_FILE\<rparr>, cp \<mapsto> OBytes (root_item img k))"
    by (rule open_found [OF v1 i1(1,2) a(5) k attr])
  have k2: "keeps s1 s2" using grown_fresh [OF b(2)] by (auto simp: keeps_def b(6))
  have i2: "kmem_inv s2" "0 < kavail s2" "kavail s1 = kavail s2 + 3" using grownD [OF b(2)] b(3) i1 av by simp_all
  have t2: "file_descriptors s2 = file_descriptors s" "disk s2 = disk s1" "dev s2 = dev s" "disk s1 = disk s"
    using grown_vfs [OF a(6)] grown_vfs [OF b(2)] by simp_all
  have ne: "\<not> ISERR D" by (rule heap_pointer_not_error(1) [OF i2(1)]) (simp add: b(6))
  have fs1: "dk_filesystem (disk s1) = Fat16Fs" and len2: "length (file_descriptors s2) = 512"
    and fr2: "free_slot 0 (file_descriptors s2) 0 = Some i"
    and op: "fs_open ((\<lambda>_. fat16_fs hw) Fat16Fs) TheDisk pt FILE_MODE_READ s1 = Some (D, s2)"
    using len i fs b(1) by (simp_all add: t2 fat16_fs_def)
  obtain desc s4 where c: "fopen (\<lambda>_. fat16_fs hw) path (114 # m) s = Some (int i + 1, s4)" "desc \<noteq> 0" "objs s2 desc = None"
    "objs s4 = (objs s2)(desc \<mapsto> OFileDesc \<lparr>fd_index = int i + 1, fd_filesystem = Fat16Fs, fd_private = D, fd_disk = TheDisk\<rparr>)"
    "file_descriptors s4 = (file_descriptors s2)[i := desc]" "kmem_inv s4"
    "kavail s2 = kavail s4 + 1" "dev s4 = dev s2" "disk s4 = disk s2" "charged 1 s2 s4"
    by (rule fopen_opened [where fs = "\<lambda>_. fat16_fs hw" and m = m, OF a(1-4) fs1 t2(2) op ne i2(1,2) len2 fr2])
  have k4: "keeps s2 s4" by (rule keeps_upd [OF c(3,4)])
  have ks: "keeps s s4" using keeps_trans [OF keeps_trans [OF a(9) k2] k4] .
  have ks2: "keeps s s2" using keeps_trans [OF a(9) k2] .
  have dk4: "disk s4 = disk s" "dev s4 = dev s" using c(8,9) t2 by simp_all
  have dne: "D \<noteq> fi" "D \<noteq> cp" "fi \<noteq> cp" using b(3) by (auto simp: card_insert_if split: if_splits)
  have o2: "objs s2 D = Some (OFatFd \<lparr>ffd_item = fi, ffd_pos = 0\<rparr>)"
    "objs s2 fi = Some (OFatItem \<lparr>fi_ptr = cp, fi_type = FAT_ITEM_TYPE_FILE\<rparr>)" "objs s2 cp = Some (OBytes (root_item img k))"
    using dne by (simp_all add: b(6))
  have chain: "file_chain desc D fi cp (int i + 1) 0 (root_item img k) s4"
    using c(4) keepsD [OF k4 o2(1)] keepsD [OF k4 o2(2)] keepsD [OF k4 o2(3)] by (simp add: file_chain_def)
  have "objs s q = None" if "objs s1 q = None" for q using that a(9) by (auto simp: keeps_def)
  moreover have "objs s desc = None" using ks2 c(3) by (auto simp: keeps_def)
  ultimately have fresh: "\<forall>q \<in> {desc, D, fi, cp}. objs s q = None" using grown_fresh [OF b(2)] by auto
  have kav: "kavail s = kavail s4 + 7" using i1(3) i2(3) c(7) by simp
  have tab: "file_descriptors s4 = (file_descriptors s)[i := desc]" using t2 c(5) by simp
  have "charged (5 + (3 + 1)) s s4" by (rule charged_trans [OF ch1 charged_trans [OF b(5) c(10)]])
  then have kr: "kroom s \<le> kroom s4 + 9" using inv by (simp add: charged_def)
  show thesis
    by (rule that [OF c(1,2) chain fresh tab volume_loaded_keeps [OF v ks dk4(1)] ks c(6) kav kr dk4(2,1)])
qed

text \<open>A path of the root directory that no entry has the name of.\<close>

lemma fopen_missing:
  fixes s :: "('d, 'a) vfsmem_scheme"
  assumes v: "volume_loaded img n p s" and fs: "dk_filesystem (disk s) = Fat16Fs" and inv: "kmem_inv s" and av: "4 \<le> kavail s"
    and path: "root_path path name" and len: "32 * root_count img n \<le> length (root_bytes img)"
    and no: "\<forall>j < root_count img n. \<not> same_name (short_name (drop (32 * j) (root_bytes img))) name"
  shows "fopen (\<lambda>_. fat16_fs hw) path (114 # m) s = None"
proof -
  have av3: "3 < kavail s" using av by simp
  obtain root pt nm s1 where a: "pathparser_parse path s = Some (root, s1)" "root \<noteq> 0" "pt \<noteq> 0"
    "objs s1 root = Some (OPathRoot \<lparr>drive_no = 0, first_part = pt\<rparr>)" "last_part pt name s1" "grown s {root, pt, nm} s1"
    "card {root, pt, nm} = 3" "objs s1 = objs s ++ path_objs root 0 [(pt, nm, name)]" "keeps s s1"
    by (rule parse_root_path [OF inv path av3])
  have v1: "volume_loaded img n p s1" by (rule volume_loaded_keeps [OF v a(9) grown_vfs(1) [OF a(6)]])
  have i1: "kmem_inv s1" "0 < kavail s1" using grownD [OF a(6)] a(7) av by simp_all
  obtain s2 where b: "fat16_open hw TheDisk pt FILE_MODE_READ s1 = Some (ERROR (- EIO), s2)" "grown s1 {} s2" "objs s2 = objs s1"
    by (rule open_missing [OF v1 i1 a(5) len no])
  have ne: "distinct (root # chain_ptrs [(pt, nm, name)])" using a(7) by (auto simp: card_insert_if split: if_splits)
  have g2: "grown s (set (root # chain_ptrs [(pt, nm, name)])) s2" using grown_trans(1) [OF a(6) b(2)] by simp
  have o2: "objs s2 = objs s ++ path_objs root 0 [(pt, nm, name)]" using b(3) a(8) by simp
  obtain s3 where c: "pathparser_free root s2 = Some s3" "grown s {} s3" "objs s3 = objs s"
    using path_free_ok [OF g2 ne o2] by blast
  have "objs s3 (ERROR (- EIO)) = None"
    using heap_pointer_not_error(2) [OF grownD(2) [OF c(2)], of "ERROR (- EIO)"] by (cases "objs s3 (ERROR (- EIO))") (simp_all add: ERROR_def)
  then have cl: "fat16_close (ERROR (- EIO)) s3 = None"
    by (simp add: fat16_close_def fat16_free_file_descriptor_def deref_def)
  have d: "disk s1 = disk s" "disk s2 = disk s" "disk s3 = disk s"
    using grown_vfs(1) [OF a(6)] grown_vfs(1) [OF b(2)] grown_vfs(1) [OF c(2)] by simp_all
  have er: "ISERR (ERROR (- EIO))" "ERROR (- EIO) \<noteq> 0" "int_of_u32 (ERROR (- EIO)) = - EIO"
    by (simp_all add: ISERR_def ERROR_def)
  show ?thesis
    using a(1-4) b(1) c(1) cl d fs er
    by (simp add: fopen_def fopen_body_def deref_def [of as_path_root] disk_get_def mode_read fs_call_def fat16_fs_def)
qed

section \<open>Properties\<close>

lemma sample_name: "short_name sample_item = [72, 69, 76, 76, 79, 46, 84, 88, 84]"
  by (simp add: short_name_def sample_item_def name_byte_def)

text \<open>The path \<open>0:/hello.txt\<close> on the sample volume.\<close>

definition sample_file :: "u8 list" where
  "sample_file = [48, 58, 47, 104, 101, 108, 108, 111, 46, 116, 120, 116, 0]"

lemma sample_file_path: "root_path sample_file [104, 101, 108, 108, 111, 46, 116, 120, 116]"
proof -
  have "parts_of (drop 3 sample_file) = [[104, 101, 108, 108, 111, 46, 116, 120, 116]]" by code_simp
  then show ?thesis
    by (simp add: root_path_def sample_file_def path_ok_def isdigit_def drive_of_def tonumericdigit_def cstr_def)
qed

lemma sample_root_bytes: "root_bytes (sample_vol d) = sample_root" "root_count (sample_vol d) 2 = 1"
proof -
  have len: "length sample_root = 512" by (simp add: sample_root_def sample_item_def)
  have "img_bytes (sample_vol d) 1536 512 = sample_root"
  proof (rule nth_equalityI)
    fix i assume "i < length (img_bytes (sample_vol d) 1536 512)"
    then have i: "i < 512" by simp
    then have "(1536 + i) div 512 = 3" "(1536 + i) mod 512 = i" using sector_split [of i 3] by simp_all
    with i show "img_bytes (sample_vol d) 1536 512 ! i = sample_root ! i" by (simp add: img_byte_def sample_vol_def)
  qed (simp add: len)
  then show "root_bytes (sample_vol d) = sample_root"
    by (simp add: root_bytes_def sample_header_read sample_root_fields)
  show "root_count (sample_vol d) 2 = 1"
    by (simp add: root_count_def sample_header_read sample_root_fields sample_dir(2))
qed

lemma sample_root_item: "root_item (sample_vol d) 0 = sample_item"
  by (simp add: root_item_def sample_root_bytes sample_root_def sample_item_def)

lemma short_name_take: "11 \<le> length xs \<Longrightarrow> short_name (xs @ ys) = short_name xs"
  by (simp add: short_name_def nth_append drop_append take_append)

lemma sample_match:
  "only_match (root_bytes (sample_vol d)) (root_count (sample_vol d) 2) [104, 101, 108, 108, 111, 46, 116, 120, 116] 0"
proof -
  have "short_name sample_root = short_name sample_item"
    unfolding sample_root_def by (rule short_name_take) (simp add: sample_item_def)
  moreover have "same_name [72, 69, 76, 76, 79, 46, 84, 88, 84] [104, 101, 108, 108, 111, 46, 116, 120, 116]"
    by (simp add: same_name_def tolower_def)
  moreover have "32 \<le> length sample_root" by (simp add: sample_root_def sample_item_def)
  ultimately show ?thesis by (simp add: only_match_def sample_root_bytes sample_name)
qed

text \<open>A machine that has just mounted a volume, with a heap of 100 blocks before that.\<close>

lemma image_booted:
  assumes hw: "ata_ok (sample_ata img) img (\<lambda>_. True) xfer" and v: "volume_ok img n" and room: "mount_room img \<le> 6"
  obtains p and s :: "(sample_dev, unit) vfsmem_scheme" where "volume_loaded img n p s" "dk_filesystem (disk s) = Fat16Fs"
    "kmem_inv s" "94 \<le> kroom s" "file_descriptors s = replicate 512 0"
proof -
  let ?s = "sample_vfs\<lparr>kernel_heap := sample_heap (replicate 100 Free), objs := Map.empty\<rparr>"
  have pre: "kmem_inv ?s" "mount_room img \<le> kroom ?s" "kroom ?s = 100"
    using sample_kmem_inv [of 100] sample_heap_inv [of "replicate 100 Free"] room
    by (simp_all add: kmem_inv_def sample_kmem_def kroom_def)
  obtain p and s' :: "(sample_dev, unit) vfsmem_scheme" where s: "volume_loaded img n p s'"
    "dk_filesystem (disk s') = Fat16Fs" "kmem_inv s'" "file_descriptors s' = replicate 512 0"
    "kroom ?s \<le> kroom s' + mount_room img"
    by (rule boot_mount_ok [OF hw TrueI pre(1) v pre(2)])
  have "94 \<le> kroom s'" using s(5) pre(3) room by simp
  with s(1-4) show thesis by (intro that)
qed

lemma sample_booted:
  assumes "length d = 512"
  obtains p and s :: "(sample_dev, unit) vfsmem_scheme" where "volume_loaded (sample_vol d) 2 p s" "dk_filesystem (disk s) = Fat16Fs"
    "kmem_inv s" "94 \<le> kroom s" "file_descriptors s = replicate 512 0"
  using image_booted [OF sample_vol_ok [OF assms] sample_volume_room(1)] sample_volume_room(2) [of d] by auto

lemma free_slot_replicate: "free_slot 0 (replicate (Suc n) 0) k = Some k"
  by simp

text \<open>
  C38. \<^verbatim>\<open>fopen\<close> of a path of the root directory that names no entry is undefined: the error code that
  the driver returns in place of a pointer is passed to the driver's \<^verbatim>\<open>close\<close>, which reads through
  it.
\<close>

theorem fopen_missing_undefined:
  fixes s :: "('d, 'a) vfsmem_scheme"
  assumes "volume_loaded img n p s" and "dk_filesystem (disk s) = Fat16Fs" and "kmem_inv s" and "4 \<le> kavail s"
    and "root_path path name" and "32 * root_count img n \<le> length (root_bytes img)"
    and "\<forall>j < root_count img n. \<not> same_name (short_name (drop (32 * j) (root_bytes img))) name"
  shows "fopen (\<lambda>_. fat16_fs hw) path (114 # m) s = None"
  by (rule fopen_missing [OF assms])

text \<open>The path \<open>0:/no\<close>.\<close>

lemma sample_missing_path: "root_path [48, 58, 47, 110, 111, 0] [110, 111]"
proof -
  have "parts_of (drop 3 [48, 58, 47, 110, 111, 0]) = [[110, 111]]" by code_simp
  then show ?thesis
    by (simp add: root_path_def path_ok_def isdigit_def drive_of_def tonumericdigit_def cstr_def)
qed

lemma fopen_missing_undefined_witness:
  "\<exists>s :: (sample_dev, unit) vfsmem_scheme. kmem_inv s \<and> dk_filesystem (disk s) = Fat16Fs \<and>
     fopen (\<lambda>_. fat16_fs (sample_ata sample_volume)) [48, 58, 47, 110, 111, 0] [114, 0] s = None"
proof -
  obtain p s where s: "volume_loaded sample_volume 2 p s" "dk_filesystem (disk s) = Fat16Fs"
    "kmem_inv (s :: (sample_dev, unit) vfsmem_scheme)" "94 \<le> kroom s" "file_descriptors s = replicate 512 0"
    by (rule sample_booted [OF length_replicate])
  have "short_name sample_root = short_name sample_item"
    unfolding sample_root_def by (rule short_name_take) (simp add: sample_item_def)
  then have "\<forall>j < root_count sample_volume 2. \<not> same_name (short_name (drop (32 * j) (root_bytes sample_volume))) [110, 111]"
    by (simp add: sample_root_bytes sample_name same_name_def)
  moreover have "32 * root_count sample_volume 2 \<le> length (root_bytes sample_volume)"
    by (simp add: sample_root_bytes sample_root_def)
  moreover have "4 \<le> kavail s" using s(4) kroom_le_avail [of s] by simp
  ultimately have "fopen (\<lambda>_. fat16_fs (sample_ata sample_volume)) [48, 58, 47, 110, 111, 0] [114, 0] s = None"
    by (intro fopen_missing_undefined [OF s(1-3) _ sample_missing_path])
  with s(2,3) show ?thesis by blast
qed

end
