(* ===== verification/File_Driver.thy ===== *)
theory File_Driver
  imports Fat16_Lookup
begin

text \<open>
  The interface between the file layer and a filesystem driver: what \<^verbatim>\<open>file.c\<close> relies on when it calls
  through \<^verbatim>\<open>struct filesystem\<close> on a descriptor of an open file. The lemmas on \<^verbatim>\<open>fstat\<close>, \<^verbatim>\<open>fseek\<close> and
  \<^verbatim>\<open>fclose\<close> are proved from the contract, and the FAT16 driver is shown to keep it.
\<close>

section \<open>The contract of a driver\<close>

text \<open>
  \<open>handle p h s\<close>: the pointer \<open>p\<close> is what the driver's \<^verbatim>\<open>open\<close> returned for a file, \<open>h\<close> is what it stands
  for. \<open>owned p s\<close> are the heap objects that \<^verbatim>\<open>close\<close> gives back.
\<close>

locale file_driver =
  fixes drv :: "('d, 'a) vfsmem_scheme filesystem"
    and handle :: "ptr \<Rightarrow> 'h \<Rightarrow> ('d, 'a) vfsmem_scheme \<Rightarrow> bool"
    and filesize :: "'h \<Rightarrow> u32"
    and moved :: "u32 \<Rightarrow> 'h \<Rightarrow> 'h"
    and owned :: "ptr \<Rightarrow> ('d, 'a) vfsmem_scheme \<Rightarrow> ptr set"
  assumes stat_size: "handle p h s \<Longrightarrow>
      \<exists>st'. fs_stat drv TheDisk p st s = Some (0, st', s) \<and> st_filesize st' = filesize h"
    and seek_inside: "handle p h s \<Longrightarrow> off < filesize h \<Longrightarrow>
      \<exists>s'. fs_seek drv p off SEEK_SET s = Some (0, s') \<and> handle p (moved off h) s' \<and>
        (\<forall>q. q \<noteq> p \<longrightarrow> objs s' q = objs s q) \<and> file_descriptors s' = file_descriptors s"
    and seek_outside: "handle p h s \<Longrightarrow> filesize h \<le> off \<Longrightarrow> fs_seek drv p off w s = Some (- EIO, s)"
    and not_descriptor: "handle p h s \<Longrightarrow> objs s q = Some (OFileDesc d) \<Longrightarrow> q \<notin> insert p (owned p s)"
    and close_releases: "handle p h s \<Longrightarrow> kmem_inv s \<Longrightarrow>
      \<exists>s'. fs_close drv p s = Some (0, s') \<and> objs s' = objs s |` (- owned p s) \<and> kmem_inv s' \<and>
        kroom s \<le> kroom s' \<and> kmem.more s' = kmem.more s"

text \<open>The descriptor \<open>fd\<close> is open with the driver's pointer \<open>p\<close>.\<close>

definition descriptor :: "int \<Rightarrow> ptr \<Rightarrow> ptr \<Rightarrow> ('d, 'a) vfsmem_scheme \<Rightarrow> bool" where
  "descriptor fd desc p s \<longleftrightarrow> 1 \<le> fd \<and> file_get_descriptor fd s = Some desc \<and> desc \<noteq> 0 \<and>
     objs s desc = Some (OFileDesc \<lparr>fd_index = fd, fd_filesystem = Fat16Fs, fd_private = p, fd_disk = TheDisk\<rparr>)"

lemma descriptor_slot:
  assumes "descriptor fd desc p s"
  shows "0 \<le> fd - 1" "nat (fd - 1) < length (file_descriptors s)" "file_descriptors s ! nat (fd - 1) = desc"
  using assms
  by (auto simp: descriptor_def file_get_descriptor_def aget_i_def aget_Some_iff split: if_splits)

lemma vfs_more_more:
  fixes s s' :: "('d, 'a) vfsmem_scheme"
  assumes "diskmem.more s' = diskmem.more s"
  shows "vfsmem.more s' = vfsmem.more s"
proof -
  have *: "s' = s\<lparr>kernel_heap := kernel_heap s', objs := objs s', current_directory := current_directory s',
      cr3 := cr3 s', cr0 := cr0 s', disk := disk s', dev := dev s'\<rparr>"
    using assms by (intro diskmem.equality) simp_all
  show ?thesis by (subst *) simp
qed

context file_driver
begin

lemma fstat_open:
  assumes "descriptor fd desc p s" and "handle p h s"
  shows "\<exists>st'. fstat (\<lambda>_. drv) fd st s = Some (0, st', s) \<and> st_filesize st' = filesize h"
  using assms stat_size [OF assms(2), of st] by (auto simp: fstat_def descriptor_def deref_def fs_call_def)

lemma fseek_open:
  assumes d: "descriptor fd desc p s" and h: "handle p h s"
  shows "if u32_of_int off < filesize h
    then \<exists>s'. fseek (\<lambda>_. drv) fd off SEEK_SET s = Some (0, s') \<and> handle p (moved (u32_of_int off) h) s' \<and>
      descriptor fd desc p s' \<and> (\<forall>q. q \<noteq> p \<longrightarrow> objs s' q = objs s q)
    else fseek (\<lambda>_. drv) fd off w s = Some (- EIO, s)"
proof -
  have call: "fseek (\<lambda>_. drv) fd off w s = fs_seek drv p (u32_of_int off) w s" for w
    using d by (simp add: fseek_def descriptor_def deref_def fs_call_def)
  show ?thesis
  proof (cases "u32_of_int off < filesize h")
    case True
    from seek_inside [OF h this] obtain s' where s': "fs_seek drv p (u32_of_int off) SEEK_SET s = Some (0, s')"
      "handle p (moved (u32_of_int off) h) s'" "\<forall>q. q \<noteq> p \<longrightarrow> objs s' q = objs s q"
      "file_descriptors s' = file_descriptors s" by blast
    have "desc \<noteq> p" using not_descriptor [OF h] d unfolding descriptor_def by blast
    then have "descriptor fd desc p s'"
      using d s'(3) file_get_descriptor_cong [OF s'(4)] by (simp add: descriptor_def)
    with True s' call show ?thesis by auto
  next
    case False
    then show ?thesis using seek_outside [OF h] call by simp
  qed
qed

lemma fclose_open:
  assumes d: "descriptor fd desc p s" and h: "handle p h s" and inv: "kmem_inv s"
  shows "\<exists>s'. fclose (\<lambda>_. drv) fd s = Some (0, s') \<and>
    objs s' = objs s |` (- insert desc (owned p s)) \<and> file_descriptors s' = (file_descriptors s)[nat (fd - 1) := 0] \<and>
    kmem_inv s' \<and> kroom s \<le> kroom s' \<and> vfsmem.more s' = vfsmem.more s \<and> disk s' = disk s \<and> dev s' = dev s"
proof -
  obtain s1 where c: "fs_close drv p s = Some (0, s1)" "objs s1 = objs s |` (- owned p s)" "kmem_inv s1"
    "kroom s \<le> kroom s1" "kmem.more s1 = kmem.more s"
    using close_releases [OF h inv] by blast
  let ?d = "\<lparr>fd_index = fd, fd_filesystem = Fat16Fs, fd_private = p, fd_disk = TheDisk\<rparr>"
  have od: "objs s desc = Some (OFileDesc ?d)" using d by (simp add: descriptor_def)
  then have o1: "objs s1 desc = Some (OFileDesc ?d)" using not_descriptor [OF h od] by (simp add: c(2))
  have t1: "file_descriptors s1 = file_descriptors s" using vfs_more_table(2) [OF more_disk(4) [OF c(5)]] .
  let ?l = "(file_descriptors s)[nat (fd - 1) := 0]"
  let ?s1 = "s1\<lparr>file_descriptors := ?l\<rparr>"
  have set: "aset_i (file_descriptors s1) (fd - 1) 0 = Some ?l" using descriptor_slot [OF d] by (simp add: aset_i_def t1)
  have i1: "kmem_inv ?s1" "objs ?s1 desc \<noteq> None" using c(3) o1 by (simp_all add: kmem_inv_def)
  obtain s2 where f: "kfree desc ?s1 = Some s2" "kmem_inv s2" "objs s2 = (objs ?s1)(desc := None)"
    "kmem.more s2 = kmem.more ?s1" "kroom ?s1 \<le> kroom s2"
    by (rule kfree_present [OF i1])
  have run: "fclose (\<lambda>_. drv) fd s = Some (0, s2)"
    using d c(1) o1 set f(1) od by (simp add: fclose_def file_free_descriptor_def descriptor_def deref_def fs_call_def)
  have "objs s2 = objs s |` (- insert desc (owned p s))"
    unfolding f(3) by (auto simp: c(2) fun_eq_iff restrict_map_def)
  moreover have "kroom s \<le> kroom s2" using c(4) f(5) by (simp add: kroom_def)
  moreover have "file_descriptors s2 = ?l" "vfsmem.more s2 = vfsmem.more s"
    using vfs_more_table(2) [OF more_disk(4) [OF f(4)]] vfs_more_more [OF more_disk(4) [OF f(4)]]
      vfs_more_more [OF more_disk(4) [OF c(5)]] by simp_all
  moreover have "disk s2 = disk s" "dev s2 = dev s" using more_disk [OF f(4)] more_disk [OF c(5)] by simp_all
  ultimately show ?thesis using run f(2) by blast
qed

end

section \<open>The FAT16 driver\<close>

text \<open>A handle is the directory entry and the position; \<^verbatim>\<open>close\<close> releases the three objects behind it.\<close>

definition fat_handle :: "ptr \<Rightarrow> fat_directory_item \<times> u32 \<Rightarrow> 'a kmem_scheme \<Rightarrow> bool" where
  "fat_handle p h s \<longleftrightarrow> (\<exists>fi cp. objs s p = Some (OFatFd \<lparr>ffd_item = fi, ffd_pos = snd h\<rparr>) \<and>
     objs s fi = Some (OFatItem \<lparr>fi_ptr = cp, fi_type = FAT_ITEM_TYPE_FILE\<rparr>) \<and> objs s cp = Some (OBytes (fst h)))"

definition fat_owned :: "ptr \<Rightarrow> 'a kmem_scheme \<Rightarrow> ptr set" where
  "fat_owned p s = (case objs s p of
     Some (OFatFd f) \<Rightarrow> insert p (case objs s (ffd_item f) of
        Some (OFatItem i) \<Rightarrow> {ffd_item f, fi_ptr i} | _ \<Rightarrow> {})
   | _ \<Rightarrow> {})"

lemma fat_owned_eq:
  "\<lbrakk>objs s p = Some (OFatFd \<lparr>ffd_item = fi, ffd_pos = pos\<rparr>);
    objs s fi = Some (OFatItem \<lparr>fi_ptr = cp, fi_type = t\<rparr>)\<rbrakk> \<Longrightarrow> fat_owned p s = {p, fi, cp}"
  by (simp add: fat_owned_def)

lemma fat_close_ok:
  fixes s :: "'a kmem_scheme"
  assumes "fat_handle p h s" and inv: "kmem_inv s"
  shows "\<exists>s'. fat16_close p s = Some (0, s') \<and> objs s' = objs s |` (- fat_owned p s) \<and> kmem_inv s' \<and>
    kroom s \<le> kroom s' \<and> kmem.more s' = kmem.more s"
proof -
  obtain fi cp where o: "objs s p = Some (OFatFd \<lparr>ffd_item = fi, ffd_pos = snd h\<rparr>)"
    "objs s fi = Some (OFatItem \<lparr>fi_ptr = cp, fi_type = FAT_ITEM_TYPE_FILE\<rparr>)" "objs s cp = Some (OBytes (fst h))"
    using assms(1) unfolding fat_handle_def by blast
  have ne: "p \<noteq> fi" "p \<noteq> cp" "fi \<noteq> cp" using o by auto
  have p0: "objs s cp \<noteq> None" using o by simp
  obtain s1 where f1: "kfree cp s = Some s1" "kmem_inv s1" "objs s1 = (objs s)(cp := None)" "kmem.more s1 = kmem.more s"
    "kroom s \<le> kroom s1"
    by (rule kfree_present [OF inv p0])
  have p1: "objs s1 fi \<noteq> None" using o ne by (simp add: f1(3))
  obtain s2 where f2: "kfree fi s1 = Some s2" "kmem_inv s2" "objs s2 = (objs s1)(fi := None)" "kmem.more s2 = kmem.more s1"
    "kroom s1 \<le> kroom s2"
    by (rule kfree_present [OF f1(2) p1])
  have p2: "objs s2 p \<noteq> None" using o ne by (simp add: f1(3) f2(3))
  obtain s3 where f3: "kfree p s2 = Some s3" "kmem_inv s3" "objs s3 = (objs s2)(p := None)" "kmem.more s3 = kmem.more s2"
    "kroom s2 \<le> kroom s3"
    by (rule kfree_present [OF f2(2) p2])
  have "fat16_close p s = Some (0, s3)"
    using o(1,2) f1(1) f2(1) f3(1)
    by (simp add: fat16_close_def fat16_free_file_descriptor_def fat16_fat_item_free_def deref_def)
  moreover have "objs s3 = objs s |` (- fat_owned p s)"
    by (auto simp: fat_owned_eq [OF o(1,2)] f1(3) f2(3) f3(3) fun_eq_iff restrict_map_def)
  ultimately show ?thesis using f1(4,5) f2(4,5) f3(2,4,5) by auto
qed

lemma fat_seek_ok:
  fixes s :: "('d, 'a) vfsmem_scheme"
  assumes "fat_handle p h s" and "off < it_filesize (fst h)"
  shows "\<exists>s'. fat16_seek p off SEEK_SET s = Some (0, s') \<and> fat_handle p (fst h, off) s' \<and>
    (\<forall>q. q \<noteq> p \<longrightarrow> objs s' q = objs s q) \<and> file_descriptors s' = file_descriptors s"
proof -
  obtain fi cp where o: "objs s p = Some (OFatFd \<lparr>ffd_item = fi, ffd_pos = snd h\<rparr>)"
    "objs s fi = Some (OFatItem \<lparr>fi_ptr = cp, fi_type = FAT_ITEM_TYPE_FILE\<rparr>)" "objs s cp = Some (OBytes (fst h))"
    using assms(1) unfolding fat_handle_def by blast
  have ne: "p \<noteq> fi" "p \<noteq> cp" using o by auto
  let ?s' = "setobj p (OFatFd \<lparr>ffd_item = fi, ffd_pos = off\<rparr>) s"
  have "fat16_seek p off SEEK_SET s = Some (0, ?s')"
    using o assms(2) by (simp add: fat16_seek_def deref_def store_eq [OF o(1)] not_le)
  moreover have "fat_handle p (fst h, off) ?s'" using o ne by (auto simp: fat_handle_def)
  moreover have "file_descriptors ?s' = file_descriptors s" by (simp add: setobj_def)
  ultimately show ?thesis by (intro exI [of _ ?s']) simp
qed

interpretation fat: file_driver "fat16_fs hw" fat_handle "\<lambda>h. it_filesize (fst h)" "\<lambda>off h. (fst h, off)" fat_owned
  for hw :: "'d ata"
proof unfold_locales
  fix p h and s :: "('d, 'a) vfsmem_scheme" and st off w q d
  assume h: "fat_handle p h s"
  then obtain fi cp where o: "objs s p = Some (OFatFd \<lparr>ffd_item = fi, ffd_pos = snd h\<rparr>)"
    "objs s fi = Some (OFatItem \<lparr>fi_ptr = cp, fi_type = FAT_ITEM_TYPE_FILE\<rparr>)" "objs s cp = Some (OBytes (fst h))"
    unfolding fat_handle_def by blast
  show "\<exists>st'. fs_stat (fat16_fs hw) TheDisk p st s = Some (0, st', s) \<and> st_filesize st' = it_filesize (fst h)"
    using o by (simp add: fat16_fs_def fat16_stat_def deref_def)
  show "\<exists>s'. fs_seek (fat16_fs hw) p off SEEK_SET s = Some (0, s') \<and> fat_handle p (fst h, off) s' \<and>
      (\<forall>q. q \<noteq> p \<longrightarrow> objs s' q = objs s q) \<and> file_descriptors s' = file_descriptors s"
    if "off < it_filesize (fst h)" using fat_seek_ok [OF h that] by (simp add: fat16_fs_def)
  show "fs_seek (fat16_fs hw) p off w s = Some (- EIO, s)" if "it_filesize (fst h) \<le> off"
    using o that by (simp add: fat16_fs_def fat16_seek_def deref_def)
  show "q \<notin> insert p (fat_owned p s)" if "objs s q = Some (OFileDesc d)"
    using o that by (auto simp: fat_owned_eq [OF o(1,2)])
  show "\<exists>s'. fs_close (fat16_fs hw) p s = Some (0, s') \<and> objs s' = objs s |` (- fat_owned p s) \<and> kmem_inv s' \<and>
      kroom s \<le> kroom s' \<and> kmem.more s' = kmem.more s" if "kmem_inv s"
    using fat_close_ok [OF h that] by (simp add: fat16_fs_def)
qed

end
