(* ===== verification/Program_Load.thy ===== *)
theory Program_Load
  imports File_Driver Process_Props
begin

text \<open>
  Loading a program: \<^verbatim>\<open>process_load_binary\<close> of \<^verbatim>\<open>src/src/task/process.c\<close> on a mounted volume, through
  \<^verbatim>\<open>fopen\<close>, \<^verbatim>\<open>fstat\<close>, \<^verbatim>\<open>fread\<close> and \<^verbatim>\<open>fclose\<close> down to the disk.
\<close>

section \<open>An open file while other objects change\<close>

lemma moved_keeps:
  assumes "moved_file p D s s'" and "fat_mounted p s" and "objs s q = Some x" and "q \<noteq> D" and "\<And>st. x \<noteq> OStream st"
  shows "objs s' q = Some x"
proof -
  have "q \<notin> fat_streams p" using assms(2,3,5) unfolding fat_mounted_def by (metis option.inject)
  with assms(1,3,4) show ?thesis by (simp add: moved_file_def)
qed

lemma moved_inv:
  assumes m: "moved_file p D s s'" and "fat_mounted p s" and "objs s D \<noteq> None" and "objs s' D \<noteq> None" and "kmem_inv s"
  shows "kmem_inv s'" and "kroom s' = kroom s"
proof -
  have h: "kernel_heap s' = kernel_heap s" using m by (simp add: moved_file_def)
  have "objs s' q = None \<longleftrightarrow> objs s q = None" for q
  proof (cases "q \<in> fat_streams p")
    case True
    have "fat_mounted p s'" using m by (simp add: moved_file_def)
    with assms(2) True show ?thesis unfolding fat_mounted_def by fastforce
  next
    case False
    show ?thesis
    proof (cases "q = D")
      case True
      then show ?thesis using assms(3,4) by auto
    next
      case ne: False
      then show ?thesis using m False by (simp add: moved_file_def)
    qed
  qed
  with h assms(5) show "kmem_inv s'" "kroom s' = kroom s" by (simp_all add: kmem_inv_def kroom_def)
qed

lemma file_chain_handle: "file_chain desc D fi cp fd pos item s \<Longrightarrow> fat_handle D (item, pos) s"
  by (auto simp: file_chain_def fat_handle_def)

lemma file_chain_descriptor:
  "\<lbrakk>file_chain desc D fi cp fd pos item s; 1 \<le> fd; file_get_descriptor fd s = Some desc; desc \<noteq> 0\<rbrakk> \<Longrightarrow> descriptor fd desc D s"
  by (simp add: file_chain_def descriptor_def)

lemma file_chain_keeps: "file_chain desc D fi cp fd pos item s \<Longrightarrow> keeps s s' \<Longrightarrow> file_chain desc D fi cp fd pos item s'"
  unfolding file_chain_def by (blast dest: keepsD)

lemma file_chain_setobj:
  "file_chain desc D fi cp fd pos item s \<Longrightarrow> q \<notin> {desc, D, fi, cp} \<Longrightarrow> file_chain desc D fi cp fd pos item (setobj q x s)"
  by (auto simp: file_chain_def)

lemma file_chain_moved:
  assumes c: "file_chain desc D fi cp fd pos item s" and m: "moved_file p D s s'" "fat_mounted p s"
    and D: "objs s' D = Some (OFatFd \<lparr>ffd_item = fi, ffd_pos = pos'\<rparr>)"
  shows "file_chain desc D fi cp fd pos' item s'"
proof -
  have ne: "desc \<noteq> D" "fi \<noteq> D" "cp \<noteq> D" using c by (auto simp: file_chain_def)
  note k = moved_keeps [OF m]
  have "objs s' desc = Some (OFileDesc \<lparr>fd_index = fd, fd_filesystem = Fat16Fs, fd_private = D, fd_disk = TheDisk\<rparr>)"
    by (rule k) (use c ne in \<open>simp_all add: file_chain_def\<close>)
  moreover have "objs s' fi = Some (OFatItem \<lparr>fi_ptr = cp, fi_type = FAT_ITEM_TYPE_FILE\<rparr>)"
    by (rule k) (use c ne in \<open>simp_all add: file_chain_def\<close>)
  moreover have "objs s' cp = Some (OBytes item)"
    by (rule k) (use c ne in \<open>simp_all add: file_chain_def\<close>)
  ultimately show ?thesis using D by (simp add: file_chain_def)
qed

lemma fat_mounted_setobj:
  assumes m: "fat_mounted p s" and q: "objs s q = Some x" and "\<And>st. x \<noteq> OStream st" and "\<And>fp. x \<noteq> OFatPrivate fp"
  shows "fat_mounted p (setobj q y s)"
proof -
  have "q \<notin> fat_streams p" using m q assms(3) unfolding fat_mounted_def by (metis option.inject)
  moreover have "q \<noteq> dk_fs_private (disk s)" using m q assms(4) unfolding fat_mounted_def by (metis option.inject)
  ultimately show ?thesis using m unfolding fat_mounted_def by (auto simp: setobj_disk)
qed

section \<open>Closing a file\<close>

lemma fclose_chain:
  fixes s :: "('d, 'a) vfsmem_scheme"
  assumes chain: "file_chain desc D fi cp fd pos item s" and fd: "1 \<le> fd" "file_get_descriptor fd s = Some desc" "desc \<noteq> 0"
    and inv: "kmem_inv s"
  obtains s' where "fclose (\<lambda>_. fat16_fs hw) fd s = Some (0, s')" "objs s' = objs s |` (- {desc, D, fi, cp})"
    "file_descriptors s' = (file_descriptors s)[nat (fd - 1) := 0]" "kmem_inv s'" "disk s' = disk s" "dev s' = dev s"
proof -
  have own: "fat_owned D s = {D, fi, cp}" using chain by (intro fat_owned_eq) (auto simp: file_chain_def)
  from fat.fclose_open [OF file_chain_descriptor [OF chain fd] file_chain_handle [OF chain] inv, of hw]
  show thesis unfolding own by (elim exE conjE) (rule that, assumption, simp_all)
qed

lemma fat_mounted_restrict:
  assumes "fat_mounted p s" and "objs s' = objs s |` (- A)" and "disk s' = disk s"
    and "A \<inter> insert (dk_fs_private (disk s)) (fat_streams p) = {}"
  shows "fat_mounted p s'"
proof -
  have "objs s' q = objs s q" if "q \<in> insert (dk_fs_private (disk s)) (fat_streams p)" for q
    using that assms(2,4) by (auto simp: restrict_map_def)
  then show ?thesis using assms(1,3) unfolding fat_mounted_def by (metis insertCI)
qed

lemma fat_mounted_objs:
  "fat_mounted p s \<Longrightarrow> q \<in> insert (dk_fs_private (disk s)) (fat_streams p) \<Longrightarrow> objs s q \<noteq> None"
  by (auto simp: fat_mounted_def)

section \<open>Reading the program\<close>

lemma fread_whole:
  fixes s :: "('d, 'a) vfsmem_scheme"
  assumes hw: "ata_ok hw img idle xfer" and idle: "idle (dev s)" and m: "fat_mounted p s" and b: "0 < cluster_bytes p"
    and chain: "file_chain desc D fi cp fd 0 item s" and fd: "1 \<le> fd" "file_get_descriptor fd s = Some desc" "desc \<noteq> 0"
    and inv: "kmem_inv s"
    and c: "unat (fat16_get_first_cluster item) < 65536" and n: "0 < n" "n \<le> 2147483647"
    and e: "file_extent_ok img p (unat (fat16_get_first_cluster item)) n"
  obtains s' where "fread (\<lambda>_. fat16_fs hw) (replicate n 0) (of_nat n) 1 fd s =
      Some (1, file_bytes img p (unat (fat16_get_first_cluster item)) 0 n, s')"
    "file_chain desc D fi cp fd (of_nat n) item s'" "moved_file p D s s'" "idle (dev s')" "kmem_inv s'" "kroom s' = kroom s"
proof -
  let ?c = "unat (fat16_get_first_cluster item)"
  let ?d = "\<lparr>fd_index = fd, fd_filesystem = Fat16Fs, fd_private = D, fd_disk = TheDisk\<rparr>"
  let ?f = "\<lparr>ffd_item = fi, ffd_pos = 0 :: u32\<rparr>"
  have op: "open_file fd ?d ?f item s" by (rule file_chain_open [OF chain fd])
  have pre: "n \<le> length (replicate n (0 :: u8))" "unat (ffd_pos ?f) + n \<le> 2147483647"
    "file_extent_ok img p ?c (unat (ffd_pos ?f) + n)"
    "unat (ffd_pos ?f) mod cluster_bytes p = 0 \<or> unat (ffd_pos ?f) mod 512 + n \<le> 512"
    using n e by simp_all
  from fread_ok [OF hw idle m b op c n(1) pre] obtain s' where
    s': "fread (\<lambda>_. fat16_fs hw) (replicate n 0) (of_nat n) 1 fd s = Some (1, file_bytes img p ?c 0 n, s')"
      "open_file fd ?d (?f\<lparr>ffd_pos := of_nat n\<rparr>) item s'" "moved_file p D s s'" "idle (dev s')" by auto
  have D: "objs s' D = Some (OFatFd \<lparr>ffd_item = fi, ffd_pos = of_nat n\<rparr>)" using s'(2) by (auto simp: open_file_def)
  have D0: "objs s D \<noteq> None" using chain by (simp add: file_chain_def)
  show thesis
    by (rule that [OF s'(1) file_chain_moved [OF chain s'(3) m D] s'(3,4) moved_inv [OF s'(3) m D0 _ inv]])
      (simp_all add: D)
qed

text \<open>The buffer that a loader allocates for the file leaves the open file as it is.\<close>

lemma buffer_ok:
  fixes s :: "('d, 'a) vfsmem_scheme"
  assumes idle: "idle (dev s)" and m: "fat_mounted p s"
    and chain: "file_chain desc D fi cp fd pos item s" and get: "file_get_descriptor fd s = Some desc"
    and inv: "kmem_inv s" and room: "blocks_for sz \<le> kroom s" and n: "n = unat sz" "0 < n" "n \<le> 2147483647"
  obtains ptr s' where "kzalloc sz s = Some (ptr, s')" "kmem_inv s'" "ptr \<noteq> 0" "objs s ptr = None"
    "objs s' = (objs s)(ptr \<mapsto> OBytes (replicate n 0))" "kroom s \<le> kroom s' + blocks_for sz" "keeps s s'"
    "fat_mounted p s'" "file_chain desc D fi cp fd pos item s'" "file_get_descriptor fd s' = Some desc" "idle (dev s')"
    "disk s' = disk s" "file_descriptors s' = file_descriptors s"
proof -
  have sz: "sz \<noteq> 0" "unat sz \<le> 4294963200" using n by auto
  obtain ptr s2 where a: "alloc_as sz (OBytes (replicate n 0)) s = Some (ptr, s2)" "kmem_inv s2" "ptr \<noteq> 0" "objs s ptr = None"
    "objs s2 = (objs s)(ptr \<mapsto> OBytes (replicate n 0))" "kroom s \<le> kroom s2 + blocks_for sz" "kmem.more s2 = kmem.more s"
    by (rule alloc_in_room [OF inv sz room])
  have ks: "keeps s s2" by (rule keeps_upd [OF a(4,5)])
  have d: "disk s2 = disk s" "dev s2 = dev s" "file_descriptors s2 = file_descriptors s"
    using more_disk [OF a(7)] vfs_more_table(2) by blast+
  have "fat_mounted p s2" using m keepsD [OF ks] d(1) unfolding fat_mounted_def by metis
  moreover have "kzalloc sz s = Some (ptr, s2)" using a(1) n(1) by (simp add: kzalloc_bytes)
  ultimately show thesis
    using idle d get file_get_descriptor_cong [OF d(3)]
    by (intro that [OF _ a(2-6) ks _ file_chain_keeps [OF chain ks]]) simp_all
qed

text \<open>The part of \<^verbatim>\<open>process_load_binary\<close> after \<^verbatim>\<open>fopen\<close>.\<close>

lemma load_body_ok:
  fixes s :: "('d, 'a) procmem_scheme"
  assumes hw: "ata_ok hw img idle xfer" and idle: "idle (dev s)" and m: "fat_mounted p s" and b: "0 < cluster_bytes p"
    and chain: "file_chain desc D fi cp fd 0 item s" and fd: "1 \<le> fd" "file_get_descriptor fd s = Some desc" "desc \<noteq> 0"
    and inv: "kmem_inv s" and room: "blocks_for (it_filesize item) \<le> kroom s"
    and c: "unat (fat16_get_first_cluster item) < 65536"
    and n: "n = unat (it_filesize item)" "0 < n" "n \<le> 2147483647"
    and e: "file_extent_ok img p (unat (fat16_get_first_cluster item)) n"
    and pr: "objs s proc = Some (OProcess pr)"
  obtains ptr s' where "process_load_binary_body (\<lambda>_. fat16_fs hw) fd proc s = Some (0, ptr, s')" "objs s ptr = None"
    "objs s' ptr = Some (OBytes (file_bytes img p (unat (fat16_get_first_cluster item)) 0 n))"
    "objs s' proc = Some (OProcess (pr\<lparr>pr_filetype := PROCESS_FILETYPE_BINARY, pr_ptr := ptr, pr_size := it_filesize item\<rparr>))"
    "file_chain desc D fi cp fd (of_nat n) item s'" "file_descriptors s' = file_descriptors s" "kmem_inv s'" "idle (dev s')"
    "fat_mounted p s'" "disk s' = disk s"
    "\<forall>q. q \<notin> fat_streams p \<longrightarrow> q \<notin> {D, proc, ptr} \<longrightarrow> objs s' q = objs s q"
    "kroom s \<le> kroom s' + blocks_for (it_filesize item)"
proof -
  let ?sz = "it_filesize item"
  have szn: "?sz = of_nat n" using n(1) by simp
  obtain ptr s2 where a: "kzalloc ?sz s = Some (ptr, s2)" "kmem_inv s2" "ptr \<noteq> 0" "objs s ptr = None"
    "objs s2 = (objs s)(ptr \<mapsto> OBytes (replicate n 0))" "kroom s \<le> kroom s2 + blocks_for ?sz" "keeps s s2"
    "fat_mounted p s2" "file_chain desc D fi cp fd 0 item s2" "file_get_descriptor fd s2 = Some desc" "idle (dev s2)"
    "disk s2 = disk s" "file_descriptors s2 = file_descriptors s"
    by (rule buffer_ok [where idle = idle, OF idle m chain fd(2) inv room n])
  obtain s3 where r: "fread (\<lambda>_. fat16_fs hw) (replicate n 0) (of_nat n) 1 fd s2 =
      Some (1, file_bytes img p (unat (fat16_get_first_cluster item)) 0 n, s3)"
    "file_chain desc D fi cp fd (of_nat n) item s3" "moved_file p D s2 s3" "idle (dev s3)" "kmem_inv s3" "kroom s3 = kroom s2"
    by (rule fread_whole [OF hw a(11,8) b a(9) fd(1) a(10) fd(3) a(2) c n(2,3) e])
  have D: "objs s D \<noteq> None" "objs s desc \<noteq> None" "objs s fi \<noteq> None" "objs s cp \<noteq> None"
    using chain by (simp_all add: file_chain_def)
  have pne: "ptr \<noteq> D" "ptr \<noteq> proc" using D a(4) pr by auto
  have "proc \<noteq> D" using chain pr by (auto simp: file_chain_def)
  note k3 = moved_keeps [OF r(3) a(8)]
  let ?buf = "OBytes (file_bytes img p (unat (fat16_get_first_cluster item)) 0 n)"
  let ?p = "OProcess (pr\<lparr>pr_filetype := PROCESS_FILETYPE_BINARY, pr_ptr := ptr, pr_size := ?sz\<rparr>)"
  have o3: "objs s3 ptr = Some (OBytes (replicate n 0))" "objs s3 proc = Some (OProcess pr)"
    by (rule k3; use a(5) pne pr \<open>proc \<noteq> D\<close> in simp)+
  let ?s4 = "setobj ptr ?buf s3"
  let ?s5 = "setobj proc ?p ?s4"
  have o4: "objs ?s4 proc = Some (OProcess pr)" using o3 pne by simp
  obtain st' where st: "fstat (\<lambda>_. fat16_fs hw) fd \<lparr>st_flags = 0, st_filesize = 0\<rparr> s = Some (0, st', s)" "st_filesize st' = ?sz"
    using fat.fstat_open [OF file_chain_descriptor [OF chain fd] file_chain_handle [OF chain]] by auto
  have run: "process_load_binary_body (\<lambda>_. fat16_fs hw) fd proc s = Some (0, ptr, ?s5)"
    using fd(1) st a(1,3,5) r(1) o4
    by (simp add: process_load_binary_body_def deref_def szn [symmetric] store_eq [OF o3(1)] store_eq [OF o4])
  have t3: "fat_mounted p s3" "disk s3 = disk s" "file_descriptors s3 = file_descriptors s"
    "\<forall>q. q \<notin> fat_streams p \<longrightarrow> q \<noteq> D \<longrightarrow> objs s3 q = objs s2 q"
    using r(3) a(12,13) by (simp_all add: moved_file_def)
  have "ptr \<notin> {desc, D, fi, cp}" "proc \<notin> {desc, D, fi, cp}" using D a(4) chain pr by (auto simp: file_chain_def)
  then have chain5: "file_chain desc D fi cp fd (of_nat n) item ?s5" by (intro file_chain_setobj r(2))
  have "fat_mounted p ?s5"
    by (rule fat_mounted_setobj [OF fat_mounted_setobj [OF t3(1) o3(1)] o4]) simp_all
  moreover have "kmem_inv ?s5" using kmem_inv_setobj [OF kmem_inv_setobj [OF r(5)]] o3 o4 by simp
  moreover have "\<forall>q. q \<notin> fat_streams p \<longrightarrow> q \<notin> {D, proc, ptr} \<longrightarrow> objs ?s5 q = objs s q"
    using t3(4) by (simp add: a(5))
  moreover have "kroom s \<le> kroom ?s5 + blocks_for ?sz" using a(6) r(6) by simp
  moreover have "objs ?s5 ptr = Some ?buf" "objs ?s5 proc = Some ?p" using pne by simp_all
  moreover have "file_descriptors ?s5 = file_descriptors s" using t3(3) by (simp add: setobj_def)
  ultimately show thesis using t3(2) r(4) by (intro that [OF run a(4) _ _ chain5]) simp_all
qed

section \<open>Loading a program\<close>

lemma volume_loaded_frame:
  assumes v: "volume_loaded img n p s" and m: "fat_mounted p s'"
    and k: "\<And>q x. objs s q = Some x \<Longrightarrow> q \<notin> fat_streams p \<Longrightarrow> (\<And>pr. x \<noteq> OProcess pr) \<Longrightarrow> objs s' q = Some x"
  shows "volume_loaded img n p s'"
proof -
  obtain dir where d: "root_directory p = \<lparr>fdir_item = dir,
      fdir_total = int (dir_count img (512 * root_sector (fp_header p)) n),
      sector_pos = int (root_sector (fp_header p)), ending_sector_pos = int (root_end (fp_header p))\<rparr>"
    "objs s dir = Some (OBytes (img_bytes img (512 * root_sector (fp_header p)) (root_size (fp_header p))))"
    "fat_mounted p s" "fp_header p = img_bytes img 0 FAT_HEADER_SIZE"
    using v unfolding volume_loaded_def by blast
  have "dir \<notin> fat_streams p" using d(2,3) unfolding fat_mounted_def by force
  then have "objs s' dir = objs s dir" using k [OF d(2)] d(2) by simp
  with d m show ?thesis unfolding volume_loaded_def by (intro conjI exI [of _ dir]) simp_all
qed

text \<open>
  C37. On a mounted volume \<^verbatim>\<open>process_load_binary\<close> of a file of the root directory returns 0 with the
  process's memory holding exactly the file: as many bytes as the directory entry says, from the
  clusters that the allocation table chains. The descriptor is closed again, the volume stays mounted
  and no other object changes.
\<close>

theorem process_load_binary_loads:
  fixes s :: "('d, 'a) procmem_scheme"
  assumes hw: "ata_ok hw img idle xfer" and idle: "idle (dev s)" and v: "volume_loaded img n p s" and b: "0 < cluster_bytes p"
    and fs: "dk_filesystem (disk s) = Fat16Fs" and inv: "kmem_inv s"
    and path: "root_path path name" and k: "only_match (root_bytes img) (root_count img n) name k"
    and item: "item = root_item img k" and attr: "it_attribute item AND FAT_FILE_SUBDIRECTORY = 0"
    and c: "unat (fat16_get_first_cluster item) < 65536" and sz: "0 < it_filesize item" "unat (it_filesize item) \<le> 2147483647"
    and e: "file_extent_ok img p (unat (fat16_get_first_cluster item)) (unat (it_filesize item))"
    and room: "9 + blocks_for (it_filesize item) \<le> kroom s"
    and len: "length (file_descriptors s) = 512" and i: "free_slot 0 (file_descriptors s) 0 = Some i" "i < 511"
    and pr: "objs s proc = Some (OProcess pr)"
  shows "\<exists>ptr s'. process_load_binary (\<lambda>_. fat16_fs hw) path proc s = Some (0, s') \<and> objs s ptr = None \<and>
    objs s' ptr = Some (OBytes (file_bytes img p (unat (fat16_get_first_cluster item)) 0 (unat (it_filesize item)))) \<and>
    objs s' proc = Some (OProcess (pr\<lparr>pr_filetype := PROCESS_FILETYPE_BINARY, pr_ptr := ptr, pr_size := it_filesize item\<rparr>)) \<and>
    file_descriptors s' = file_descriptors s \<and> volume_loaded img n p s' \<and> kmem_inv s' \<and> idle (dev s') \<and>
    (\<forall>q. objs s q \<noteq> None \<longrightarrow> q \<noteq> proc \<longrightarrow> q \<notin> fat_streams p \<longrightarrow> objs s' q = objs s q)"
proof -
  have r9: "9 \<le> kroom s" using room by simp
  obtain desc D fi cp s1 where f: "fopen (\<lambda>_. fat16_fs hw) path (114 # [0]) s = Some (int i + 1, s1)" "desc \<noteq> 0"
    "file_chain desc D fi cp (int i + 1) 0 item s1" "\<forall>q \<in> {desc, D, fi, cp}. objs s q = None"
    "file_descriptors s1 = (file_descriptors s)[i := desc]" "volume_loaded img n p s1" "keeps s s1"
    "kmem_inv s1" "kavail s = kavail s1 + 7" "kroom s \<le> kroom s1 + 9" "dev s1 = dev s" "disk s1 = disk s"
    unfolding item by (rule fopen_found [OF v fs inv r9 path k attr [unfolded item] len i(1), where m = "[0]"])
  have get: "file_get_descriptor (int i + 1) s1 = Some desc" using f(5) len i(2) by (simp add: file_get_descriptor_def)
  have id1: "idle (dev s1)" and m1: "fat_mounted p s1" and fd: "1 \<le> int i + 1"
    and room1: "blocks_for (it_filesize item) \<le> kroom s1" and sz0: "0 < unat (it_filesize item)"
    using idle f(6,10,11) room sz(1) by (simp_all add: volume_loaded_def unat_gt_0)
  obtain ptr s2 where r: "process_load_binary_body (\<lambda>_. fat16_fs hw) (int i + 1) proc s1 = Some (0, ptr, s2)" "objs s1 ptr = None"
    "objs s2 ptr = Some (OBytes (file_bytes img p (unat (fat16_get_first_cluster item)) 0 (unat (it_filesize item))))"
    "objs s2 proc = Some (OProcess (pr\<lparr>pr_filetype := PROCESS_FILETYPE_BINARY, pr_ptr := ptr, pr_size := it_filesize item\<rparr>))"
    "file_chain desc D fi cp (int i + 1) (of_nat (unat (it_filesize item))) item s2" "file_descriptors s2 = file_descriptors s1"
    "kmem_inv s2" "idle (dev s2)" "fat_mounted p s2" "disk s2 = disk s1"
    "\<forall>q. q \<notin> fat_streams p \<longrightarrow> q \<notin> {D, proc, ptr} \<longrightarrow> objs s2 q = objs s1 q"
    "kroom s1 \<le> kroom s2 + blocks_for (it_filesize item)"
    by (rule load_body_ok [OF hw id1 m1 b f(3) fd get f(2,8) room1 c refl sz0 sz(2) e keepsD [OF f(7) pr]])
  have get2: "file_get_descriptor (int i + 1) s2 = Some desc" using get file_get_descriptor_cong [OF r(6)] by simp
  obtain s3 where cl: "fclose (\<lambda>_. fat16_fs hw) (int i + 1) s2 = Some (0, s3)"
    "objs s3 = objs s2 |` (- {desc, D, fi, cp})" "file_descriptors s3 = (file_descriptors s2)[nat (int i + 1 - 1) := 0]"
    "kmem_inv s3" "disk s3 = disk s2" "dev s3 = dev s2"
    by (rule fclose_chain [OF r(5) fd get2 f(2) r(7)])
  have tab: "file_descriptors s3 = file_descriptors s"
    using cl(3) r(6) f(5) free_slot_Some [OF i(1)] by (simp add: list_update_same_conv)
  have ptr: "objs s ptr = None" using r(2) f(7) by (auto simp: keeps_def)
  have own: "ptr \<notin> {desc, D, fi, cp}" "proc \<notin> {desc, D, fi, cp}"
    using r(2) f(3,4) pr by (auto simp: file_chain_def)
  have frame: "objs s3 q = objs s q" if q: "objs s q \<noteq> None" "q \<noteq> proc" "q \<notin> fat_streams p" for q
  proof -
    have "q \<notin> {desc, D, fi, cp, ptr}" using q(1) f(4) ptr by auto
    then show ?thesis using q r(11) f(7) by (simp add: cl(2) keeps_def)
  qed
  have "{desc, D, fi, cp} \<inter> insert (dk_fs_private (disk s2)) (fat_streams p) = {}"
    using fat_mounted_objs [of p s] v f(4,12) r(10) by (fastforce simp: volume_loaded_def)
  then have "fat_mounted p s3" by (rule fat_mounted_restrict [OF r(9) cl(2,5)])
  then have "volume_loaded img n p s3"
    by (rule volume_loaded_frame [OF v]) (use frame pr in fastforce)
  moreover have "process_load_binary (\<lambda>_. fat16_fs hw) path proc s = Some (0, s3)"
    using f(1) r(1) cl(1) by (simp add: process_load_binary_def)
  moreover have "idle (dev s3)" using cl(6) r(8) by simp
  ultimately show ?thesis
    using ptr tab cl(4) frame own r(3,4) by (intro exI [of _ ptr] exI [of _ s3]) (simp add: cl(2))
qed

text \<open>The sample volume just mounted, and a process.\<close>

definition sample_process :: process where
  "sample_process = \<lparr>pr_id = 0, pr_filename = [], pr_task = 0, pr_filetype = 0, pr_ptr = 0, pr_stack = 0, pr_size = 0\<rparr>"

lemma sample_process_booted:
  assumes "length d = 512"
  obtains p proc and s :: "(sample_dev, unit) procmem_scheme" where "volume_loaded (sample_vol d) 2 p s"
    "dk_filesystem (disk s) = Fat16Fs" "kmem_inv s" "90 \<le> kroom s" "file_descriptors s = replicate 512 0"
    "objs s proc = Some (OProcess sample_process)"
proof -
  let ?s = "sample_procmem sample_device 100 []"
  have s0: "kmem_inv ?s" "kroom ?s = 100" by (rule sample_procmem_ok, simp)+
  then have room: "mount_room (sample_vol d) \<le> kroom ?s" using sample_volume_room(2) by simp
  obtain p and s1 :: "(sample_dev, unit) procmem_scheme" where s: "volume_loaded (sample_vol d) 2 p s1"
    "dk_filesystem (disk s1) = Fat16Fs" "kmem_inv s1" "file_descriptors s1 = replicate 512 0"
    "kroom ?s \<le> kroom s1 + mount_room (sample_vol d)"
    by (rule boot_mount_ok [OF sample_vol_ok [OF assms] TrueI s0(1) sample_volume_room(1) room])
  have r1: "94 \<le> kroom s1" using s(5) s0(2) sample_volume_room(2) by simp
  have sz: "(8 :: u32) \<noteq> 0" "unat (8 :: u32) \<le> 4096" and av: "0 < kavail s1" using r1 kroom_le_avail [of s1] by simp_all
  obtain proc s2 where a: "alloc_as 8 (OProcess sample_process) s1 = Some (proc, s2)" "proc \<noteq> 0" "grown s1 {proc} s2"
    "objs s1 proc = None" "objs s2 = (objs s1)(proc \<mapsto> OProcess sample_process)"
    by (rule grown_alloc [OF s(3) av sz])
  have "volume_loaded (sample_vol d) 2 p s2"
    by (rule volume_loaded_keeps [OF s(1) keeps_upd [OF a(4,5)] grown_vfs(1) [OF a(3)]])
  moreover have "90 \<le> kroom s2" using charged_page [OF a(1) sz] s(3) r1 by (simp add: charged_def)
  ultimately show thesis
    using grownD(2) [OF a(3)] grown_vfs [OF a(3)] s(2,4) by (intro that [of p s2 proc]) (simp_all add: a(5))
qed

lemma loaded_geometry:
  assumes "volume_loaded (sample_vol d) 2 p s"
  shows "cluster_bytes p = cluster_bytes sample_private" and "cluster_pos p = cluster_pos sample_private"
    and "fat_entry (sample_vol d) p = fat_entry (sample_vol d) sample_private"
    and "file_bytes (sample_vol d) p = file_bytes (sample_vol d) sample_private"
    and "file_extent_ok (sample_vol d) p = file_extent_ok (sample_vol d) sample_private"
proof -
  have h: "fp_header p = sample_header" "ending_sector_pos (root_directory p) = 4"
    using assms by (auto simp: volume_loaded_def sample_header_read sample_root_fields)
  then show 1: "cluster_bytes p = cluster_bytes sample_private" and 2: "cluster_pos p = cluster_pos sample_private"
    and 3: "fat_entry (sample_vol d) p = fat_entry (sample_vol d) sample_private"
    by (auto simp: cluster_bytes_def cluster_pos_def fat16_cluster_to_sector_def fat_entry_def sample_private_def)
  have "file_byte (sample_vol d) p = file_byte (sample_vol d) sample_private"
    by (intro ext) (simp only: file_byte_def 1 2 3)
  then show "file_bytes (sample_vol d) p = file_bytes (sample_vol d) sample_private"
    by (intro ext) (simp only: file_bytes_def)
  show "file_extent_ok (sample_vol d) p = file_extent_ok (sample_vol d) sample_private"
    by (intro ext) (simp only: file_extent_ok_def 1 2 3)
qed

lemma process_load_binary_loads_witness:
  "\<exists>(s :: (sample_dev, unit) procmem_scheme) proc ptr s'.
     process_load_binary (\<lambda>_. fat16_fs (sample_ata sample_volume)) sample_file proc s = Some (0, s') \<and>
     objs s' ptr = Some (OBytes (replicate 512 4 @ replicate 88 5)) \<and> objs s ptr = None"
proof -
  obtain p proc and s :: "(sample_dev, unit) procmem_scheme" where s: "volume_loaded sample_volume 2 p s"
    "dk_filesystem (disk s) = Fat16Fs" "kmem_inv s" "90 \<le> kroom s" "file_descriptors s = replicate 512 0"
    "objs s proc = Some (OProcess sample_process)"
    by (rule sample_process_booted [OF length_replicate])
  note g = loaded_geometry [OF s(1)]
  have sz: "it_filesize sample_item = 600" by (simp add: it_filesize_def le32_def le16_def sample_item_def)
  have room: "9 + blocks_for (it_filesize sample_item) \<le> kroom s" using s(4) by (simp add: sz blocks_for_small)
  have "replicate 512 (0 :: ptr) = replicate (Suc 511) 0" by simp
  then have fr: "free_slot 0 (file_descriptors s) 0 = Some 0" unfolding s(5) by (simp only: free_slot_replicate)
  have attr: "it_attribute sample_item AND FAT_FILE_SUBDIRECTORY = 0" by (simp add: it_attribute_def sample_item_def)
  have e: "file_extent_ok sample_volume p (unat (fat16_get_first_cluster sample_item)) (unat (it_filesize sample_item))"
    using sample_extent by (simp add: g(5) sample_cluster sz)
  have b: "0 < cluster_bytes p" by (simp add: g(1) sample_geometry)
  show ?thesis
    using process_load_binary_loads [OF sample_volume_ok TrueI s(1) b s(2,3) sample_file_path sample_match
        sample_root_item [symmetric] attr _ _ _ e room _ fr _ s(6)] s(5)
    by (simp add: sample_cluster sz g(4) sample_file_bytes) blast
qed

end
