(* ===== verification/Elf_Props.thy ===== *)
theory Elf_Props
  imports Elf
begin

text \<open>
  What the ELF loader computes from a loaded file: which files it accepts, and the address range
  that it takes from the program headers.
\<close>

section \<open>The headers of a file\<close>

text \<open>The program headers of the file \<open>b\<close>, and whether they lie in it.\<close>

definition phdr_offset :: "u8 list \<Rightarrow> nat \<Rightarrow> nat" where
  "phdr_offset b i = unat (le32 b 28) + 32 * i"

definition file_phdrs :: "u8 list \<Rightarrow> elf32_phdr list" where
  "file_phdrs b = map (\<lambda>i. decode_phdr (take 32 (drop (phdr_offset b i) b))) [0..<unat (le16 b 44)]"

definition phdrs_inside :: "u8 list \<Rightarrow> bool" where
  "phdrs_inside b \<longleftrightarrow> 52 \<le> length b \<and> phdr_offset b (unat (le16 b 44)) \<le> length b \<and> length b < 4294967296"

text \<open>
  A header that passes the validation of \<^verbatim>\<open>elf_validate_loaded\<close>: the signature, class 1 (32-bit) or 0
  (none), data 1 (little-endian) or 0 (none), an executable with its entry point at or above 0x400000
  and an offset of program headers.
\<close>

definition elf_acceptable :: "u8 list \<Rightarrow> bool" where
  "elf_acceptable b \<longleftrightarrow> take 4 b = [0x7f, 69, 76, 70] \<and> b ! 4 \<in> {0, 1} \<and> b ! 5 \<in> {0, 1} \<and>
     le32 b 28 \<noteq> 0 \<and> le16 b 16 = 2 \<and> 0x400000 \<le> le32 b 24"

lemma le16_take: "i + 2 \<le> n \<Longrightarrow> le16 (take n b) i = le16 b i"
  by (simp add: le16_def)

lemma le32_take: "i + 4 \<le> n \<Longrightarrow> le32 (take n b) i = le32 b i"
  by (simp add: le32_def le16_take)

lemma get_field_ok:
  assumes "objs s header = Some (OBytes b)" and "n \<le> length b"
  shows "get_field header f n s = Some (f (decode_header (take n b)))"
  using assms by (simp add: get_field_def bytes_at_def deref_def)

lemma elf_validate_eq:
  assumes b: "objs s header = Some (OBytes b)" and len: "52 \<le> length b"
  shows "elf_validate_loaded header s = Some (if elf_acceptable b then 0 else - EINFORMAT)"
proof -
  obtain r where r: "memcmp b elf_signature 4 = Some r"
    using memcmp_loop_total [of 4 b elf_signature] len by (auto simp: memcmp_def elf_signature_def)
  have "(memcmp b elf_signature 4 = Some 0) = (take 4 b = take 4 elf_signature)"
    using len by (subst memcmp_zero_iff) (simp_all add: elf_signature_def)
  then have sig: "elf_valid_signature header s = Some (take 4 b = [0x7f, 69, 76, 70])"
    using b r by (simp add: elf_valid_signature_def deref_def elf_signature_def)
  have id: "e_ident_at header i s = Some (b ! i)" if "i < 16" for i
    using b len that by (simp add: e_ident_at_def deref_def)
  have cls: "elf_valid_class header s = Some (b ! 4 \<in> {0, 1})"
    and enc: "elf_valid_encoding header s = Some (b ! 5 \<in> {0, 1})"
    by (simp_all add: elf_valid_class_def elf_valid_encoding_def id)
  have ph: "elf_has_program_header header s = Some (le32 b 28 \<noteq> 0)"
    using len by (simp add: elf_has_program_header_def get_field_ok [OF b] decode_header_def le32_take)
  have ex: "elf_is_executable header s = Some (le16 b 16 = 2 \<and> 0x400000 \<le> le32 b 24)"
    using len by (simp add: elf_is_executable_def get_field_ok [OF b] decode_header_def le32_take
        le16_take and_then_def)
  show ?thesis
    by (simp add: elf_validate_loaded_def sig cls enc ph ex and_then_def elf_acceptable_def)
qed

section \<open>The loop over the program headers\<close>

definition pt_load :: "elf32_phdr \<Rightarrow> elf_file \<Rightarrow> elf_file" where
  "pt_load ph f = pt_load_end ph (pt_load_base ph f)"

definition load_phdr :: "elf32_phdr \<Rightarrow> elf_file \<Rightarrow> elf_file" where
  "load_phdr ph f = (if p_type ph = PT_LOAD then pt_load ph f else f)"

lemma load_phdr_mem [simp]: "elf_mem (load_phdr ph f) = elf_mem f"
  by (simp add: load_phdr_def pt_load_def pt_load_end_def pt_load_base_def Let_def)

lemma phdr_bytes:
  assumes b: "objs s header = Some (OBytes b)" and ins: "phdrs_inside b" and nz: "le32 b 28 \<noteq> 0"
    and i: "i < unat (le16 b 44)"
  shows "elf_program_header header (int i) s = Some (header + le32 b 28 + of_nat (32 * i))"
    and "bytes_at header (header + le32 b 28 + of_nat (32 * i)) 32 s = Some (take 32 (drop (phdr_offset b i) b))"
proof -
  have len: "52 \<le> length b" "phdr_offset b i + 32 \<le> length b" "length b < 4294967296"
    using ins i by (simp_all add: phdrs_inside_def phdr_offset_def)
  have "get_field header e_phoff 32 s = Some (le32 b 28)"
    using len(1) by (simp add: get_field_ok [OF b] decode_header_def le32_take)
  then show "elf_program_header header (int i) s = Some (header + le32 b 28 + of_nat (32 * i))"
    using nz by (simp add: elf_program_header_def elf_pheader_def mult.commute)
  have "unat (of_nat (32 * i) :: u32) = 32 * i"
    using len by (intro unat_of_nat_u32) (simp add: phdr_offset_def)
  then have "unat (header + le32 b 28 + of_nat (32 * i) - header) = phdr_offset b i"
    using len by (simp add: phdr_offset_def unat_word_ariths del: of_nat_mult)
  then show "bytes_at header (header + le32 b 28 + of_nat (32 * i)) 32 s = Some (take 32 (drop (phdr_offset b i) b))"
    using b len(2) by (simp add: bytes_at_def deref_def del: of_nat_mult)
qed

lemma pheader_step:
  assumes "objs s file = Some (OElfFile f)"
  shows "elf_process_pheader file ph s = Some (0, setobj file (OElfFile (load_phdr ph f)) s)"
  using assms by (simp add: elf_process_pheader_def elf_process_phdr_pt_load_def deref_def store_eq
      load_phdr_def pt_load_def setobj_same)

lemma pheaders_loop:
  assumes "objs s header = Some (OBytes b)" and "phdrs_inside b" and "le32 b 28 \<noteq> 0"
    and "objs s file = Some (OElfFile f)" and "i + n = unat (le16 b 44)"
  shows "elf_pheaders_loop file header i n 0 s =
    Some (0, setobj file (OElfFile (fold load_phdr (drop i (file_phdrs b)) f)) s)"
  using assms
proof (induction n arbitrary: i s f)
  case 0
  then show ?case by (simp add: file_phdrs_def setobj_same)
next
  case (Suc n)
  have i: "i < unat (le16 b 44)" using Suc.prems(5) by simp
  have ne: "file \<noteq> header" using Suc.prems(1,4) by auto
  let ?ph = "decode_phdr (take 32 (drop (phdr_offset b i) b))"
  let ?s = "setobj file (OElfFile (load_phdr ?ph f)) s"
  have "drop i (file_phdrs b) = ?ph # drop (Suc i) (file_phdrs b)"
    using i by (simp add: file_phdrs_def Cons_nth_drop_Suc [symmetric])
  moreover have "elf_pheaders_loop file header (Suc i) n 0 ?s =
      Some (0, setobj file (OElfFile (fold load_phdr (drop (Suc i) (file_phdrs b)) (load_phdr ?ph f))) ?s)"
    using Suc.prems ne by (intro Suc.IH) simp_all
  ultimately show ?case
    using phdr_bytes [OF Suc.prems(1-3) i] pheader_step [OF Suc.prems(4), of ?ph] by simp
qed

section \<open>The address range\<close>

definition p_end :: "elf32_phdr \<Rightarrow> u32" where
  "p_end ph = p_vaddr ph + p_filesz ph"

definition loads :: "elf32_phdr list \<Rightarrow> elf32_phdr list" where
  "loads phs = filter (\<lambda>ph. p_type ph = PT_LOAD) phs"

text \<open>
  The range of a file with loadable segments: the lowest address of a segment and the highest end
  of one, and where in the loaded file these two segments are.
\<close>

definition covers :: "elf32_phdr list \<Rightarrow> elf_file \<Rightarrow> bool" where
  "covers L f \<longleftrightarrow> virtual_base_address f = Min (p_vaddr ` set L) \<and> virtual_end_address f = Max (p_end ` set L) \<and>
     (\<exists>ph \<in> set L. p_vaddr ph = virtual_base_address f \<and> physical_base_address f = elf_mem f + p_offset ph) \<and>
     (\<exists>ph \<in> set L. p_end ph = virtual_end_address f \<and>
        physical_end_address f = elf_mem f + p_offset ph + p_filesz ph)"

lemma fold_load: "fold load_phdr phs f = fold pt_load (loads phs) f"
  by (induction phs arbitrary: f) (simp_all add: loads_def load_phdr_def)

lemma pt_load_fields:
  "elf_mem (pt_load ph f) = elf_mem f"
  "virtual_base_address (pt_load ph f) =
     (if p_vaddr ph \<le> virtual_base_address f \<or> virtual_base_address f = 0 then p_vaddr ph else virtual_base_address f)"
  "physical_base_address (pt_load ph f) =
     (if p_vaddr ph \<le> virtual_base_address f \<or> virtual_base_address f = 0 then elf_mem f + p_offset ph
      else physical_base_address f)"
  "virtual_end_address (pt_load ph f) =
     (if virtual_end_address f \<le> p_end ph then p_end ph else virtual_end_address f)"
  "physical_end_address (pt_load ph f) =
     (if virtual_end_address f \<le> p_end ph then elf_mem f + p_offset ph + p_filesz ph else physical_end_address f)"
  by (auto simp: pt_load_def pt_load_end_def pt_load_base_def p_end_def Let_def)

lemma fold_covers:
  assumes "L \<noteq> []" and "\<forall>ph \<in> set L. p_vaddr ph \<noteq> 0"
    and "virtual_base_address f = 0" and "virtual_end_address f = 0"
  shows "covers L (fold pt_load L f) \<and>
    elf_mem (fold pt_load L f) = elf_mem f"
  using assms
proof (induction L rule: rev_nonempty_induct)
  case (single ph)
  then show ?case by (simp add: covers_def pt_load_fields)
next
  case (snoc ph L)
  let ?f = "fold pt_load L f"
  have IH: "covers L ?f" "elf_mem ?f = elf_mem f" using snoc by simp_all
  then have nz: "virtual_base_address ?f \<noteq> 0" using snoc.prems(1) by (auto simp: covers_def)
  have fin: "finite (p_vaddr ` set L)" "p_vaddr ` set L \<noteq> {}" "finite (p_end ` set L)" "p_end ` set L \<noteq> {}"
    using snoc.hyps by auto
  show ?case
    using IH nz Min_insert [OF fin(1,2), of "p_vaddr ph"] Max_insert [OF fin(3,4), of "p_end ph"]
    by (auto simp: covers_def pt_load_fields min_def max_def)
qed

section \<open>Loaded files\<close>

text \<open>A file that the loader rejects, or whose headers lie in it and whose loadable segments have addresses.\<close>

definition elf_sound :: "u8 list \<Rightarrow> bool" where
  "elf_sound b \<longleftrightarrow> 52 \<le> length b \<and> (elf_acceptable b \<longrightarrow> phdrs_inside b \<and> loads (file_phdrs b) \<noteq> [] \<and>
     (\<forall>ph \<in> set (loads (file_phdrs b)). p_vaddr ph \<noteq> 0))"

lemma elf_process_loaded_result:
  assumes fl: "objs s file = Some (OElfFile f)" and b: "objs s (elf_mem f) = Some (OBytes b)"
    and sound: "elf_sound b" and new: "virtual_base_address f = 0" "virtual_end_address f = 0"
  obtains f' where
    "elf_process_loaded file s = Some (if elf_acceptable b then 0 else - EINFORMAT, setobj file (OElfFile f') s)"
    "elf_mem f' = elf_mem f" "elf_acceptable b \<Longrightarrow> covers (loads (file_phdrs b)) f'" "\<not> elf_acceptable b \<Longrightarrow> f' = f"
proof -
  have len: "52 \<le> length b" using sound by (simp add: elf_sound_def)
  have hd: "elf_header_of file s = Some (elf_mem f)" using fl by (simp add: elf_header_of_def deref_def)
  note val = elf_validate_eq [OF b len]
  show thesis
  proof (cases "elf_acceptable b")
    case True
    then have nz: "le32 b 28 \<noteq> 0" and ins: "phdrs_inside b" and segs: "loads (file_phdrs b) \<noteq> []"
      "\<forall>ph \<in> set (loads (file_phdrs b)). p_vaddr ph \<noteq> 0"
      using sound by (simp_all add: elf_acceptable_def elf_sound_def)
    have n: "get_field (elf_mem f) e_phnum 46 s = Some (le16 b 44)"
      using len by (simp add: get_field_ok [OF b] decode_header_def le16_take)
    have "elf_process_loaded file s = Some (0, setobj file (OElfFile (fold load_phdr (file_phdrs b) f)) s)"
      using True hd val n pheaders_loop [OF b ins nz fl, of 0 "unat (le16 b 44)"]
      by (simp add: elf_process_loaded_def elf_process_pheaders_def)
    with True fold_covers [OF segs new] show thesis
      by (intro that [of "fold load_phdr (file_phdrs b) f"]) (simp_all add: fold_load)
  next
    case False
    then show thesis using hd val fl by (intro that [of f]) (simp_all add: elf_process_loaded_def setobj_same)
  qed
qed

text \<open>
  \<^verbatim>\<open>elf_process_loaded\<close> accepts exactly the 32-bit little-endian executables that are linked at or
  above 0x400000 and have program headers; for an accepted file whose headers lie in the file and
  whose loadable segments have non-zero addresses, it records the lowest address and the highest
  end of the segments and where they are in memory, and changes nothing else.
\<close>

theorem elf_process_loaded_range:
  assumes "objs s file = Some (OElfFile f)" and "objs s (elf_mem f) = Some (OBytes b)"
    and "phdrs_inside b" and "virtual_base_address f = 0" and "virtual_end_address f = 0"
    and "loads (file_phdrs b) \<noteq> []" and "\<forall>ph \<in> set (loads (file_phdrs b)). p_vaddr ph \<noteq> 0"
  shows "if elf_acceptable b
    then \<exists>f'. elf_process_loaded file s = Some (0, setobj file (OElfFile f') s) \<and> elf_mem f' = elf_mem f \<and>
      covers (loads (file_phdrs b)) f'
    else elf_process_loaded file s = Some (- EINFORMAT, s)"
proof -
  have "elf_sound b" using assms(3,6,7) by (simp add: elf_sound_def phdrs_inside_def)
  from elf_process_loaded_result [OF assms(1,2) this assms(4,5)] show ?thesis
    using setobj_same [OF assms(1)] by (metis (full_types))
qed

text \<open>A file of two loadable segments, at 0x400000 and 0x401000, for the witness.\<close>

definition sample_elf :: "u8 list" where
  "sample_elf = [
     127, 69, 76, 70, 1, 1, 1, 0, 0, 0, 0, 0, 0, 0, 0, 0, 2, 0, 3, 0, 1, 0, 0, 0, 0, 0, 64, 0,
     52, 0, 0, 0, 0, 0, 0, 0, 0, 0, 0, 0, 52, 0, 32, 0, 2, 0, 40, 0, 0, 0, 0, 0, 1, 0, 0, 0,
     116, 0, 0, 0, 0, 16, 64, 0, 0, 16, 64, 0, 16, 0, 0, 0, 16, 0, 0, 0, 5, 0, 0, 0, 0, 16, 0,
     0, 1, 0, 0, 0, 132, 0, 0, 0, 0, 0, 64, 0, 0, 0, 64, 0, 32, 0, 0, 0, 32, 0, 0, 0, 5, 0, 0,
     0, 0, 16, 0, 0]"

definition sample_elf_state :: kmem where
  "sample_elf_state = \<lparr>kernel_heap = \<lparr>hp_table = \<lparr>ht_entries = [], ht_total = 0\<rparr>, hp_saddr = 0\<rparr>,
     objs = [0x1000 \<mapsto> OElfFile (zero_elf_file\<lparr>elf_mem := 0x2000\<rparr>), 0x2000 \<mapsto> OBytes sample_elf]\<rparr>"

text \<open>Whatever follows the segments in the file.\<close>

lemma sample_elf_facts:
  assumes b: "b = sample_elf @ ys" and len: "length b < 4294967296"
  shows "elf_acceptable b" "phdrs_inside b" "loads (file_phdrs b) \<noteq> []" "\<forall>ph \<in> set (loads (file_phdrs b)). p_vaddr ph \<noteq> 0"
    and "covers (loads (file_phdrs b)) f \<Longrightarrow> virtual_base_address f = 0x400000 \<and> virtual_end_address f = 0x401010"
proof -
  note ev = le32_def le16_def sample_elf_def phdr_offset_def
  show acc: "elf_acceptable b" by (simp add: elf_acceptable_def b ev)
  show ins: "phdrs_inside b" using len by (simp add: phdrs_inside_def b ev)
  have va: "map p_vaddr (loads (file_phdrs b)) = [0x401000, 0x400000]"
    by (simp add: loads_def file_phdrs_def decode_phdr_def b ev upt_rec)
  have en: "map p_end (loads (file_phdrs b)) = [0x401010, 0x400020]"
    by (simp add: p_end_def loads_def file_phdrs_def decode_phdr_def b ev upt_rec)
  define L where "L = loads (file_phdrs b)"
  have img: "p_vaddr ` set L = {0x401000, 0x400000}" "p_end ` set L = {0x401010, 0x400020}"
    unfolding L_def set_map [symmetric] va en by simp_all
  show "loads (file_phdrs b) \<noteq> []" using va by auto
  show "\<forall>ph \<in> set (loads (file_phdrs b)). p_vaddr ph \<noteq> 0"
  proof
    fix ph assume "ph \<in> set (loads (file_phdrs b))"
    then have "p_vaddr ph \<in> {0x401000, 0x400000}" using img(1) unfolding L_def by blast
    then show "p_vaddr ph \<noteq> 0" by auto
  qed
  show "virtual_base_address f = 0x400000 \<and> virtual_end_address f = 0x401010" if "covers (loads (file_phdrs b)) f"
    using that img unfolding L_def by (simp add: covers_def)
qed

lemma elf_process_loaded_range_witness:
  "\<exists>f'. elf_process_loaded 0x1000 sample_elf_state = Some (0, setobj 0x1000 (OElfFile f') sample_elf_state) \<and>
     virtual_base_address f' = 0x400000 \<and> virtual_end_address f' = 0x401010"
proof -
  have "sample_elf = sample_elf @ []" "length sample_elf < 4294967296" by (simp_all add: sample_elf_def)
  note ev = sample_elf_facts [OF this]
  let ?f = "zero_elf_file\<lparr>elf_mem := 0x2000\<rparr>"
  have "objs sample_elf_state 0x1000 = Some (OElfFile ?f)" "objs sample_elf_state (elf_mem ?f) = Some (OBytes sample_elf)"
    by (simp_all add: sample_elf_state_def)
  from elf_process_loaded_range [OF this ev(2) _ _ ev(3,4)] ev(1)
  obtain f' where "elf_process_loaded 0x1000 sample_elf_state = Some (0, setobj 0x1000 (OElfFile f') sample_elf_state)"
    "covers (loads (file_phdrs sample_elf)) f'" by auto
  with ev(5) show ?thesis by blast
qed

end
