(* ===== verification/Elf_Load.thy ===== *)
theory Elf_Load
  imports Program_Load Elf_Props
begin

text \<open>
  \<^verbatim>\<open>elf_load\<close> and \<^verbatim>\<open>elf_close\<close> of \<^verbatim>\<open>src/src/loader/formats/elfloader.c\<close> on a mounted volume: the file is
  opened, read and checked, and what the loader keeps of it is given back by \<^verbatim>\<open>elf_close\<close>.
\<close>

section \<open>Reading and checking the file\<close>

lemma setobj_table [simp]: "file_descriptors (setobj p x s) = file_descriptors s"
  by (simp add: setobj_def)

text \<open>The calls of \<^verbatim>\<open>elf_load\<close> up to \<^verbatim>\<open>fread\<close>: the buffer behind the new object holds the file.\<close>

lemma elf_buffer_ok:
  fixes s :: "('d, 'a) vfsmem_scheme"
  assumes hw: "ata_ok hw img idle xfer" and idle: "idle (dev s)" and m: "fat_mounted p s" and b: "0 < cluster_bytes p"
    and chain: "file_chain desc D fi cp fd 0 item s" and fd: "1 \<le> fd" "file_get_descriptor fd s = Some desc" "desc \<noteq> 0"
    and inv: "kmem_inv s" and room: "blocks_for (it_filesize item) \<le> kroom s"
    and c: "unat (fat16_get_first_cluster item) < 65536"
    and n: "n = unat (it_filesize item)" "0 < n" "n \<le> 2147483647"
    and e: "file_extent_ok img p (unat (fat16_get_first_cluster item)) n"
    and bs: "bs = file_bytes img p (unat (fat16_get_first_cluster item)) 0 n"
    and fl: "objs s file = Some (OElfFile f)"
  obtains ptr s2 s3 where "kzalloc (it_filesize item) s = Some (ptr, s2)" "ptr \<noteq> 0" "objs s ptr = None"
    "objs s2 = (objs s)(ptr \<mapsto> OBytes (replicate n 0))"
    "fread (\<lambda>_. fat16_fs hw) (replicate n 0) (it_filesize item) 1 fd (setobj file (OElfFile (f\<lparr>elf_mem := ptr\<rparr>)) s2) =
       Some (1, bs, s3)"
    "objs s3 file = Some (OElfFile (f\<lparr>elf_mem := ptr\<rparr>))" "objs s3 ptr = Some (OBytes (replicate n 0))"
    "file_chain desc D fi cp fd (of_nat n) item s3" "file_descriptors s3 = file_descriptors s" "kmem_inv s3"
    "idle (dev s3)" "fat_mounted p s3" "disk s3 = disk s" "kroom s \<le> kroom s3 + blocks_for (it_filesize item)"
    "\<forall>q. q \<notin> fat_streams p \<longrightarrow> q \<notin> {D, file, ptr} \<longrightarrow> objs s3 q = objs s q"
proof -
  let ?sz = "it_filesize item"
  have szn: "?sz = of_nat n" using n(1) by simp
  obtain ptr s2 where a: "kzalloc ?sz s = Some (ptr, s2)" "kmem_inv s2" "ptr \<noteq> 0" "objs s ptr = None"
    "objs s2 = (objs s)(ptr \<mapsto> OBytes (replicate n 0))" "kroom s \<le> kroom s2 + blocks_for ?sz" "keeps s s2"
    "fat_mounted p s2" "file_chain desc D fi cp fd 0 item s2" "file_get_descriptor fd s2 = Some desc" "idle (dev s2)"
    "disk s2 = disk s" "file_descriptors s2 = file_descriptors s"
    by (rule buffer_ok [where idle = idle, OF idle m chain fd(2) inv room n])
  let ?s = "setobj file (OElfFile (f\<lparr>elf_mem := ptr\<rparr>)) s2"
  have f2: "objs s2 file = Some (OElfFile f)" and pne: "ptr \<noteq> file" using a(4,5) fl by auto
  have m2: "fat_mounted p ?s" by (rule fat_mounted_setobj [OF a(8) f2]) simp_all
  have "file \<notin> {desc, D, fi, cp}" using chain fl by (auto simp: file_chain_def)
  then have ch2: "file_chain desc D fi cp fd 0 item ?s" by (intro file_chain_setobj a(9))
  have id2: "idle (dev ?s)" and get2: "file_get_descriptor fd ?s = Some desc"
    using a(10,11) file_get_descriptor_cong [of ?s s2] by simp_all
  have inv2: "kmem_inv ?s" using kmem_inv_setobj [OF a(2)] f2 by simp
  obtain s3 where r: "fread (\<lambda>_. fat16_fs hw) (replicate n 0) (of_nat n) 1 fd ?s =
      Some (1, file_bytes img p (unat (fat16_get_first_cluster item)) 0 n, s3)"
    "file_chain desc D fi cp fd (of_nat n) item s3" "moved_file p D ?s s3" "idle (dev s3)" "kmem_inv s3" "kroom s3 = kroom ?s"
    by (rule fread_whole [OF hw id2 m2 b ch2 fd(1) get2 fd(3) inv2 c n(2,3) e])
  have D: "objs s D \<noteq> None" "file \<noteq> D" using chain fl by (auto simp: file_chain_def)
  have "ptr \<noteq> D" using a(4) D by auto
  note k3 = moved_keeps [OF r(3) m2]
  have "objs s3 file = Some (OElfFile (f\<lparr>elf_mem := ptr\<rparr>))" "objs s3 ptr = Some (OBytes (replicate n 0))"
    by (rule k3; use D(2) pne \<open>ptr \<noteq> D\<close> in \<open>simp add: a(5)\<close>)+
  moreover have "fat_mounted p s3" "disk s3 = disk s" "file_descriptors s3 = file_descriptors s"
    "\<forall>q. q \<notin> fat_streams p \<longrightarrow> q \<notin> {D, file, ptr} \<longrightarrow> objs s3 q = objs s q"
    using r(3) a(12,13) by (simp_all add: moved_file_def a(5))
  moreover have "kroom s \<le> kroom s3 + blocks_for ?sz" using a(6) r(6) by simp
  ultimately show thesis using r(1,2,4,5) szn by (intro that [OF a(1,3,4,5)]) (simp_all add: bs)
qed

text \<open>The part of \<^verbatim>\<open>elf_load\<close> after \<^verbatim>\<open>fopen\<close>, for a new object.\<close>

definition elf_code :: "u8 list \<Rightarrow> int" where
  "elf_code b = (if elf_acceptable b then 0 else - EINFORMAT)"

lemma elf_code_less: "elf_code b < 0 \<longleftrightarrow> \<not> elf_acceptable b"
  by (simp add: elf_code_def)

lemma elf_load_body_ok:
  fixes s :: "('d, 'a) vfsmem_scheme"
  assumes hw: "ata_ok hw img idle xfer" and idle: "idle (dev s)" and m: "fat_mounted p s" and b: "0 < cluster_bytes p"
    and chain: "file_chain desc D fi cp fd 0 item s" and fd: "1 \<le> fd" "file_get_descriptor fd s = Some desc" "desc \<noteq> 0"
    and inv: "kmem_inv s" and room: "blocks_for (it_filesize item) \<le> kroom s"
    and c: "unat (fat16_get_first_cluster item) < 65536"
    and n: "n = unat (it_filesize item)" "0 < n" "n \<le> 2147483647"
    and e: "file_extent_ok img p (unat (fat16_get_first_cluster item)) n"
    and bs: "bs = file_bytes img p (unat (fat16_get_first_cluster item)) 0 n" and sound: "elf_sound bs"
    and fl: "objs s file = Some (OElfFile zero_elf_file)"
  obtains f s' where "elf_load_body (\<lambda>_. fat16_fs hw) fd file out s =
      Some (elf_code bs, if elf_acceptable bs then file else out, s')"
    "elf_mem f \<noteq> 0" "objs s (elf_mem f) = None" "elf_acceptable bs \<longrightarrow> covers (loads (file_phdrs bs)) f"
    "objs s' file = Some (OElfFile f)" "objs s' (elf_mem f) = Some (OBytes bs)"
    "file_chain desc D fi cp fd (of_nat n) item s'" "file_descriptors s' = file_descriptors s" "kmem_inv s'"
    "idle (dev s')" "fat_mounted p s'" "disk s' = disk s"
    "\<forall>q. q \<notin> fat_streams p \<longrightarrow> q \<notin> {D, file, elf_mem f} \<longrightarrow> objs s' q = objs s q"
proof -
  let ?f = "zero_elf_file"
  obtain ptr s2 s3 where r: "kzalloc (it_filesize item) s = Some (ptr, s2)" "ptr \<noteq> 0" "objs s ptr = None"
    "objs s2 = (objs s)(ptr \<mapsto> OBytes (replicate n 0))"
    "fread (\<lambda>_. fat16_fs hw) (replicate n 0) (it_filesize item) 1 fd (setobj file (OElfFile (?f\<lparr>elf_mem := ptr\<rparr>)) s2) =
       Some (1, bs, s3)"
    "objs s3 file = Some (OElfFile (?f\<lparr>elf_mem := ptr\<rparr>))" "objs s3 ptr = Some (OBytes (replicate n 0))"
    "file_chain desc D fi cp fd (of_nat n) item s3" "file_descriptors s3 = file_descriptors s" "kmem_inv s3"
    "idle (dev s3)" "fat_mounted p s3" "disk s3 = disk s" "kroom s \<le> kroom s3 + blocks_for (it_filesize item)"
    "\<forall>q. q \<notin> fat_streams p \<longrightarrow> q \<notin> {D, file, ptr} \<longrightarrow> objs s3 q = objs s q"
    by (rule elf_buffer_ok [OF hw idle m b chain fd inv room c n e bs fl])
  have ne: "ptr \<noteq> file" using r(3) fl by auto
  let ?s4 = "setobj ptr (OBytes bs) s3"
  have o4: "objs ?s4 file = Some (OElfFile (?f\<lparr>elf_mem := ptr\<rparr>))" "objs ?s4 (elf_mem (?f\<lparr>elf_mem := ptr\<rparr>)) = Some (OBytes bs)"
    "virtual_base_address (?f\<lparr>elf_mem := ptr\<rparr>) = 0" "virtual_end_address (?f\<lparr>elf_mem := ptr\<rparr>) = 0"
    using r(6) ne by simp_all
  obtain f where f: "elf_process_loaded file ?s4 = Some (if elf_acceptable bs then 0 else - EINFORMAT, setobj file (OElfFile f) ?s4)"
    "elf_mem f = ptr" "elf_acceptable bs \<Longrightarrow> covers (loads (file_phdrs bs)) f"
    by (rule elf_process_loaded_result [OF o4(1,2) sound o4(3,4)]) simp
  let ?s5 = "setobj file (OElfFile f) ?s4"
  obtain st' where st: "fstat (\<lambda>_. fat16_fs hw) fd \<lparr>st_flags = 0, st_filesize = 0\<rparr> s = Some (0, st', s)"
    "st_filesize st' = it_filesize item"
    using fat.fstat_open [OF file_chain_descriptor [OF chain fd] file_chain_handle [OF chain]] by auto
  have o2: "objs s2 file = Some (OElfFile ?f)" "objs s2 ptr = Some (OBytes (replicate n 0))" using r(4) fl ne by simp_all
  have run: "elf_load_body (\<lambda>_. fat16_fs hw) fd file out s = Some (elf_code bs, if elf_acceptable bs then file else out, ?s5)"
    using st r(1,2,5) o2 ne f(1)
    by (simp add: elf_load_body_def deref_def store_eq [OF o2(1)] store_eq [OF r(7)] elf_code_def)
  have "ptr \<notin> {desc, D, fi, cp}" "file \<notin> {desc, D, fi, cp}" using r(3) chain fl by (auto simp: file_chain_def)
  then have chain5: "file_chain desc D fi cp fd (of_nat n) item ?s5" by (intro file_chain_setobj r(8))
  have "fat_mounted p ?s5"
    by (rule fat_mounted_setobj [OF fat_mounted_setobj [OF r(12,7)] o4(1)]) simp_all
  moreover have "kmem_inv ?s5" using kmem_inv_setobj [OF kmem_inv_setobj [OF r(10)]] r(6,7) by simp
  ultimately show thesis
    using r(2,3,9,11,13,15) f(3) ne by (intro that [where f = f, OF run _ _ _ _ _ chain5]) (simp_all add: f(2))
qed

section \<open>Giving the file back\<close>

lemma elf_close_ok:
  fixes s :: "('d, 'a) vfsmem_scheme"
  assumes inv: "kmem_inv s" and fl: "objs s file = Some (OElfFile f)" and b: "objs s (elf_mem f) = Some (OBytes bs)"
    and nz: "file \<noteq> 0" "elf_mem f \<noteq> 0"
  obtains s' where "elf_close file s = Some s'" "elf_file_free file s = Some s'" "kmem_inv s'"
    "objs s' = objs s |` (- {file, elf_mem f})" "disk s' = disk s" "dev s' = dev s" "file_descriptors s' = file_descriptors s"
proof -
  have "objs s (elf_mem f) \<noteq> None" using b by simp
  then obtain s1 where a: "kfree (elf_mem f) s = Some s1" "kmem_inv s1" "objs s1 = (objs s)(elf_mem f := None)"
    "kmem.more s1 = kmem.more s" "kroom s \<le> kroom s1"
    by (rule kfree_present [OF inv])
  have "elf_mem f \<noteq> file" using fl b by auto
  then have "objs s1 file \<noteq> None" using fl by (simp add: a(3))
  then obtain s2 where c: "kfree file s1 = Some s2" "kmem_inv s2" "objs s2 = (objs s1)(file := None)"
    "kmem.more s2 = kmem.more s1" "kroom s1 \<le> kroom s2"
    by (rule kfree_present [OF a(2)])
  have more: "kmem.more s2 = kmem.more s" using a(4) c(4) by simp
  have "objs s2 = objs s |` (- {file, elf_mem f})" by (auto simp: a(3) c(3) fun_eq_iff restrict_map_def)
  moreover have "elf_close file s = Some s2" "elf_file_free file s = Some s2"
    using a(1) c(1) fl nz by (simp_all add: elf_close_def elf_file_free_def deref_def)
  ultimately show thesis
    using that c(2) more_disk [OF more] vfs_more_table(2) [OF more_disk(4) [OF more]] by blast
qed

section \<open>Loading a file\<close>

lemma elf_open_ok:
  fixes s :: "('d, 'a) vfsmem_scheme"
  assumes v: "volume_loaded img n p s" and fs: "dk_filesystem (disk s) = Fat16Fs" and inv: "kmem_inv s" and room: "10 \<le> kroom s"
    and path: "root_path path name" and k: "only_match (root_bytes img) (root_count img n) name k"
    and attr: "it_attribute (root_item img k) AND FAT_FILE_SUBDIRECTORY = 0"
    and len: "length (file_descriptors s) = 512" and i: "free_slot 0 (file_descriptors s) 0 = Some i" "i < 511"
  obtains ef desc D fi cp s1 s2 where "elf_file_new s = Some (ef, s1)"
    "fopen (\<lambda>_. fat16_fs hw) path [114, 0] s1 = Some (int i + 1, s2)" "ef \<noteq> 0" "objs s ef = None"
    "objs s2 ef = Some (OElfFile zero_elf_file)" "desc \<noteq> 0" "file_get_descriptor (int i + 1) s2 = Some desc"
    "file_chain desc D fi cp (int i + 1) 0 (root_item img k) s2" "\<forall>q \<in> {desc, D, fi, cp}. objs s q = None"
    "file_descriptors s2 = (file_descriptors s)[i := desc]" "volume_loaded img n p s2" "keeps s s2" "kmem_inv s2"
    "kroom s \<le> kroom s2 + 10" "dev s2 = dev s" "disk s2 = disk s"
proof -
  have b: "blocks_for 132 = 1" by (simp add: blocks_for_small)
  then have r1: "blocks_for 132 \<le> kroom s" using room by simp
  obtain ef s1 where a: "elf_file_new s = Some (ef, s1)" "kmem_inv s1" "ef \<noteq> 0" "objs s ef = None"
    "objs s1 = (objs s)(ef \<mapsto> OElfFile zero_elf_file)" "kroom s \<le> kroom s1 + 1" "kmem.more s1 = kmem.more s"
    unfolding elf_file_new_def by (rule alloc_in_room [OF inv _ _ r1, of "OElfFile zero_elf_file"]) (simp_all add: b)
  note d = more_disk [OF a(7)] vfs_more_table(2) [OF more_disk(4) [OF a(7)]]
  have k1: "keeps s s1" by (rule keeps_upd [OF a(4,5)])
  have v1: "volume_loaded img n p s1" by (rule volume_loaded_keeps [OF v k1 d(1)])
  have pre: "dk_filesystem (disk s1) = Fat16Fs" "9 \<le> kroom s1" "length (file_descriptors s1) = 512"
    "free_slot 0 (file_descriptors s1) 0 = Some i" using fs room a(6) len i d by simp_all
  obtain desc D fi cp s2 where f: "fopen (\<lambda>_. fat16_fs hw) path (114 # [0]) s1 = Some (int i + 1, s2)" "desc \<noteq> 0"
    "file_chain desc D fi cp (int i + 1) 0 (root_item img k) s2" "\<forall>q \<in> {desc, D, fi, cp}. objs s1 q = None"
    "file_descriptors s2 = (file_descriptors s1)[i := desc]" "volume_loaded img n p s2" "keeps s1 s2"
    "kmem_inv s2" "kavail s1 = kavail s2 + 7" "kroom s1 \<le> kroom s2 + 9" "dev s2 = dev s1" "disk s2 = disk s1"
    by (rule fopen_found [OF v1 pre(1) a(2) pre(2) path k attr pre(3,4), where m = "[0]"])
  have "objs s2 ef = Some (OElfFile zero_elf_file)" by (rule keepsD [OF f(7)]) (simp add: a(5))
  moreover have "file_get_descriptor (int i + 1) s2 = Some desc" using f(5) pre(3) i(2) by (simp add: file_get_descriptor_def)
  moreover have "\<forall>q \<in> {desc, D, fi, cp}. objs s q = None" using f(4) k1 by (auto simp: keeps_def)
  moreover have "keeps s s2" using k1 f(7) by (auto simp: keeps_def)
  moreover have "fopen (\<lambda>_. fat16_fs hw) path [114, 0] s1 = Some (int i + 1, s2)" using f(1) by simp
  ultimately show thesis
    using f(2,3,5,6,8,10-12) d(1,2,5) a(6) by (intro that [OF a(1) _ a(3,4)]) (assumption | simp)+
qed

text \<open>After the label \<^verbatim>\<open>out\<close>: a rejected file is released, and the descriptor is closed.\<close>

definition elf_dropped :: "u8 list \<Rightarrow> ptr \<Rightarrow> elf_file \<Rightarrow> ptr set" where
  "elf_dropped bs ef f = (if elf_acceptable bs then {} else {ef, elf_mem f})"

lemma elf_out_ok:
  fixes s :: "('d, 'a) vfsmem_scheme"
  assumes chain: "file_chain desc D fi cp fd pos item s" and fd: "1 \<le> fd" "file_get_descriptor fd s = Some desc" "desc \<noteq> 0"
    and inv: "kmem_inv s" and fl: "objs s ef = Some (OElfFile f)" "objs s (elf_mem f) = Some (OBytes bs)"
    and nz: "ef \<noteq> 0" "elf_mem f \<noteq> 0" and own: "ef \<notin> {desc, D, fi, cp}" "elf_mem f \<notin> {desc, D, fi, cp}"
  obtains s1 s2 where "(if elf_code bs < 0 then elf_file_free ef s else Some s) = Some s1"
    "fclose (\<lambda>_. fat16_fs hw) fd s1 = Some (0, s2)" "objs s2 = objs s |` (- ({desc, D, fi, cp} \<union> elf_dropped bs ef f))"
    "file_descriptors s2 = (file_descriptors s)[nat (fd - 1) := 0]" "kmem_inv s2" "disk s2 = disk s" "dev s2 = dev s"
proof -
  obtain s1 where a: "(if elf_code bs < 0 then elf_file_free ef s else Some s) = Some s1"
    "objs s1 = objs s |` (- elf_dropped bs ef f)" "file_descriptors s1 = file_descriptors s" "kmem_inv s1"
    "disk s1 = disk s" "dev s1 = dev s"
  proof (cases "elf_acceptable bs")
    case True
    with inv show thesis by (intro that [of s]) (simp_all add: elf_code_less elf_dropped_def restrict_map_def)
  next
    case False
    obtain s1 where "elf_close ef s = Some s1" "elf_file_free ef s = Some s1" "kmem_inv s1"
      "objs s1 = objs s |` (- {ef, elf_mem f})" "disk s1 = disk s" "dev s1 = dev s" "file_descriptors s1 = file_descriptors s"
      by (rule elf_close_ok [OF inv fl nz])
    with False show thesis by (intro that [of s1]) (simp_all add: elf_code_less elf_dropped_def)
  qed
  have ch1: "file_chain desc D fi cp fd pos item s1"
    using chain own by (auto simp: file_chain_def a(2) elf_dropped_def)
  have get1: "file_get_descriptor fd s1 = Some desc" using fd(2) file_get_descriptor_cong [OF a(3)] by simp
  obtain s2 where c: "fclose (\<lambda>_. fat16_fs hw) fd s1 = Some (0, s2)" "objs s2 = objs s1 |` (- {desc, D, fi, cp})"
    "file_descriptors s2 = (file_descriptors s1)[nat (fd - 1) := 0]" "kmem_inv s2" "disk s2 = disk s1" "dev s2 = dev s1"
    by (rule fclose_chain [OF ch1 fd(1) get1 fd(3) a(4)])
  have "objs s2 = objs s |` (- ({desc, D, fi, cp} \<union> elf_dropped bs ef f))"
    by (auto simp: a(2) c(2) fun_eq_iff restrict_map_def)
  then show thesis using a c by (intro that [OF a(1) c(1)]) simp_all
qed

text \<open>\<^verbatim>\<open>elf_load\<close> from the first call to the last.\<close>

lemma elf_load_run:
  fixes s :: "('d, 'a) vfsmem_scheme"
  assumes hw: "ata_ok hw img idle xfer" and idle: "idle (dev s)" and v: "volume_loaded img n p s" and b: "0 < cluster_bytes p"
    and fs: "dk_filesystem (disk s) = Fat16Fs" and inv: "kmem_inv s"
    and path: "root_path path name" and k: "only_match (root_bytes img) (root_count img n) name k"
    and item: "item = root_item img k" and attr: "it_attribute item AND FAT_FILE_SUBDIRECTORY = 0"
    and c: "unat (fat16_get_first_cluster item) < 65536" and sz: "0 < it_filesize item" "unat (it_filesize item) \<le> 2147483647"
    and e: "file_extent_ok img p (unat (fat16_get_first_cluster item)) (unat (it_filesize item))"
    and bs: "bs = file_bytes img p (unat (fat16_get_first_cluster item)) 0 (unat (it_filesize item))" and sound: "elf_sound bs"
    and room: "10 + blocks_for (it_filesize item) \<le> kroom s"
    and len: "length (file_descriptors s) = 512" and i: "free_slot 0 (file_descriptors s) 0 = Some i" "i < 511"
  obtains ef f s' where "elf_load (\<lambda>_. fat16_fs hw) path out s = Some (elf_code bs, if elf_acceptable bs then ef else out, s')"
    "ef \<noteq> 0" "elf_mem f \<noteq> 0" "objs s ef = None" "objs s (elf_mem f) = None"
    "elf_acceptable bs \<longrightarrow> covers (loads (file_phdrs bs)) f \<and> objs s' ef = Some (OElfFile f) \<and> objs s' (elf_mem f) = Some (OBytes bs)"
    "file_descriptors s' = file_descriptors s" "fat_mounted p s'" "kmem_inv s'" "idle (dev s')"
    "\<forall>q. objs s q \<noteq> None \<longrightarrow> q \<notin> fat_streams p \<longrightarrow> objs s' q = objs s q"
proof -
  have r10: "10 \<le> kroom s" using room by simp
  obtain ef desc D fi cp s1 s2 where o: "elf_file_new s = Some (ef, s1)"
    "fopen (\<lambda>_. fat16_fs hw) path [114, 0] s1 = Some (int i + 1, s2)" "ef \<noteq> 0" "objs s ef = None"
    "objs s2 ef = Some (OElfFile zero_elf_file)" "desc \<noteq> 0" "file_get_descriptor (int i + 1) s2 = Some desc"
    "file_chain desc D fi cp (int i + 1) 0 item s2" "\<forall>q \<in> {desc, D, fi, cp}. objs s q = None"
    "file_descriptors s2 = (file_descriptors s)[i := desc]" "volume_loaded img n p s2" "keeps s s2" "kmem_inv s2"
    "kroom s \<le> kroom s2 + 10" "dev s2 = dev s" "disk s2 = disk s"
    unfolding item by (rule elf_open_ok [OF v fs inv r10 path k attr [unfolded item] len i])
  have id2: "idle (dev s2)" and m2: "fat_mounted p s2" and fd: "1 \<le> int i + 1"
    and room2: "blocks_for (it_filesize item) \<le> kroom s2" and sz0: "0 < unat (it_filesize item)"
    using idle o(11,14,15) room sz(1) by (simp_all add: volume_loaded_def unat_gt_0)
  obtain f s3 where r: "elf_load_body (\<lambda>_. fat16_fs hw) (int i + 1) ef out s2 =
      Some (elf_code bs, if elf_acceptable bs then ef else out, s3)"
    "elf_mem f \<noteq> 0" "objs s2 (elf_mem f) = None" "elf_acceptable bs \<longrightarrow> covers (loads (file_phdrs bs)) f"
    "objs s3 ef = Some (OElfFile f)" "objs s3 (elf_mem f) = Some (OBytes bs)"
    "file_chain desc D fi cp (int i + 1) (of_nat (unat (it_filesize item))) item s3" "file_descriptors s3 = file_descriptors s2"
    "kmem_inv s3" "idle (dev s3)" "fat_mounted p s3" "disk s3 = disk s2"
    "\<forall>q. q \<notin> fat_streams p \<longrightarrow> q \<notin> {D, ef, elf_mem f} \<longrightarrow> objs s3 q = objs s2 q"
    by (rule elf_load_body_ok [OF hw id2 m2 b o(8) fd o(7,6,13) room2 c refl sz0 sz(2) e bs sound o(5), where out = out])
  have get3: "file_get_descriptor (int i + 1) s3 = Some desc" using o(7) file_get_descriptor_cong [OF r(8)] by simp
  have own: "ef \<notin> {desc, D, fi, cp}" "elf_mem f \<notin> {desc, D, fi, cp}" using o(5,8) r(3) by (auto simp: file_chain_def)
  obtain s4 s5 where cl: "(if elf_code bs < 0 then elf_file_free ef s3 else Some s3) = Some s4"
    "fclose (\<lambda>_. fat16_fs hw) (int i + 1) s4 = Some (0, s5)" "objs s5 = objs s3 |` (- ({desc, D, fi, cp} \<union> elf_dropped bs ef f))"
    "file_descriptors s5 = (file_descriptors s3)[nat (int i + 1 - 1) := 0]" "kmem_inv s5" "disk s5 = disk s3" "dev s5 = dev s3"
    by (rule elf_out_ok [OF r(7) fd get3 o(6) r(9,5,6) o(3) r(2) own])
  have new: "\<forall>q \<in> {desc, D, fi, cp} \<union> {ef, elf_mem f}. objs s q = None" using o(4,9,12) r(3) by (auto simp: keeps_def)
  have drop: "elf_dropped bs ef f \<subseteq> {ef, elf_mem f}" by (simp add: elf_dropped_def)
  have frame: "objs s5 q = objs s q" if q: "objs s q \<noteq> None" "q \<notin> fat_streams p" for q
  proof -
    have "q \<notin> {desc, D, fi, cp} \<union> {ef, elf_mem f}" using q(1) by (rule contrapos_nn) (rule bspec [OF new])
    then show ?thesis using q r(13) o(12) drop by (auto simp: cl(3) keeps_def restrict_map_def)
  qed
  have "({desc, D, fi, cp} \<union> elf_dropped bs ef f) \<inter> insert (dk_fs_private (disk s3)) (fat_streams p) = {}"
    using fat_mounted_objs [of p s] v new drop o(16) r(12) by (fastforce simp: volume_loaded_def)
  then have "fat_mounted p s5" by (rule fat_mounted_restrict [OF r(11) cl(3,6)])
  moreover have "elf_load (\<lambda>_. fat16_fs hw) path out s = Some (elf_code bs, if elf_acceptable bs then ef else out, s5)"
    using o(1,2) r(1) cl(1,2) by (simp add: elf_load_def)
  moreover have "file_descriptors s5 = file_descriptors s"
    using cl(4) r(8) o(10) free_slot_Some [OF i(1)] by (simp add: list_update_same_conv)
  moreover have "objs s5 ef = Some (OElfFile f) \<and> objs s5 (elf_mem f) = Some (OBytes bs)" if "elf_acceptable bs"
    using r(5,6) own that by (simp add: cl(3) elf_dropped_def)
  moreover have "objs s (elf_mem f) = None" "idle (dev s5)" using new cl(7) r(10) by simp_all
  ultimately show thesis using o(3,4) r(2,4) cl(5) frame by (intro that [where ef = ef and f = f and s' = s5]) simp_all
qed

section \<open>Properties\<close>

text \<open>
  What \<^verbatim>\<open>elf_load\<close> hands to its caller for a file with the bytes \<open>bs\<close>: a new object and a buffer with
  the file, with the range of its loadable segments, both of which \<^verbatim>\<open>elf_close\<close> releases.
\<close>

definition elf_image :: "u8 list \<Rightarrow> ptr \<Rightarrow> 'a kmem_scheme \<Rightarrow> 'a kmem_scheme \<Rightarrow> bool" where
  "elf_image bs ef s s' \<longleftrightarrow> (\<exists>f. objs s ef = None \<and> objs s (elf_mem f) = None \<and> objs s' ef = Some (OElfFile f) \<and>
     objs s' (elf_mem f) = Some (OBytes bs) \<and> covers (loads (file_phdrs bs)) f \<and>
     (\<exists>s''. elf_close ef s' = Some s'' \<and> kmem_inv s'' \<and> objs s'' = objs s' |` (- {ef, elf_mem f})))"

text \<open>
  C30. \<^verbatim>\<open>elf_load\<close> of a file of the root directory of a mounted volume reads the whole file through the
  file layer and the disk. The file is not empty and \<open>elf_sound\<close>: it holds the 52 bytes of the header
  and, if the header passes the validation, the program headers, one of them loadable and none of the
  loadable ones at address 0; the code tests none of this. If the header passes (class and data may
  also be 0, none) the call returns 0 and a new object with the file's bytes, the lowest address
  and the highest end of its loadable segments and where they are in memory, and \<^verbatim>\<open>elf_close\<close> releases
  the object and the bytes. If not, the file is refused with \<open>-EINFORMAT\<close>, \<^verbatim>\<open>*file_out\<close> untouched. In
  both cases the descriptor is closed, the volume stays mounted and no other object changes.
\<close>

theorem elf_load_ok:
  fixes s :: "('d, 'a) vfsmem_scheme"
  assumes hw: "ata_ok hw img idle xfer" and idle: "idle (dev s)" and v: "volume_loaded img n p s" and b: "0 < cluster_bytes p"
    and fs: "dk_filesystem (disk s) = Fat16Fs" and inv: "kmem_inv s"
    and path: "root_path path name" and k: "only_match (root_bytes img) (root_count img n) name k"
    and item: "item = root_item img k" and attr: "it_attribute item AND FAT_FILE_SUBDIRECTORY = 0"
    and c: "unat (fat16_get_first_cluster item) < 65536" and sz: "0 < it_filesize item" "unat (it_filesize item) \<le> 2147483647"
    and e: "file_extent_ok img p (unat (fat16_get_first_cluster item)) (unat (it_filesize item))"
    and bs: "bs = file_bytes img p (unat (fat16_get_first_cluster item)) 0 (unat (it_filesize item))" and sound: "elf_sound bs"
    and room: "10 + blocks_for (it_filesize item) \<le> kroom s"
    and len: "length (file_descriptors s) = 512" and i: "free_slot 0 (file_descriptors s) 0 = Some i" "i < 511"
  shows "\<exists>ef s'. elf_load (\<lambda>_. fat16_fs hw) path out s =
      Some (if elf_acceptable bs then 0 else - EINFORMAT, if elf_acceptable bs then ef else out, s') \<and>
    (elf_acceptable bs \<longrightarrow> elf_image bs ef s s') \<and> file_descriptors s' = file_descriptors s \<and>
    volume_loaded img n p s' \<and> kmem_inv s' \<and> idle (dev s') \<and>
    (\<forall>q. objs s q \<noteq> None \<longrightarrow> q \<notin> fat_streams p \<longrightarrow> objs s' q = objs s q)"
proof -
  obtain ef f s' where r: "elf_load (\<lambda>_. fat16_fs hw) path out s = Some (elf_code bs, if elf_acceptable bs then ef else out, s')"
    "ef \<noteq> 0" "elf_mem f \<noteq> 0" "objs s ef = None" "objs s (elf_mem f) = None"
    "elf_acceptable bs \<longrightarrow> covers (loads (file_phdrs bs)) f \<and> objs s' ef = Some (OElfFile f) \<and> objs s' (elf_mem f) = Some (OBytes bs)"
    "file_descriptors s' = file_descriptors s" "fat_mounted p s'" "kmem_inv s'" "idle (dev s')"
    "\<forall>q. objs s q \<noteq> None \<longrightarrow> q \<notin> fat_streams p \<longrightarrow> objs s' q = objs s q"
    by (rule elf_load_run [OF assms, where out = out])
  have "volume_loaded img n p s'" by (rule volume_loaded_frame [OF v r(8)]) (use r(11) in fastforce)
  moreover have "elf_image bs ef s s'" if "elf_acceptable bs"
  proof -
    note ob = r(6) [rule_format, OF that]
    obtain s2 where "elf_close ef s' = Some s2" "elf_file_free ef s' = Some s2" "kmem_inv s2"
      "objs s2 = objs s' |` (- {ef, elf_mem f})" "disk s2 = disk s'" "dev s2 = dev s'" "file_descriptors s2 = file_descriptors s'"
      by (rule elf_close_ok [OF r(9) _ _ r(2,3)]) (use ob in auto)
    with ob r(4,5) show ?thesis by (auto simp: elf_image_def)
  qed
  ultimately show ?thesis using r by (intro exI [of _ ef] exI [of _ s']) (simp add: elf_code_def)
qed

text \<open>The sample volume with an ELF program in the first cluster of its file.\<close>

definition elf_sector :: "u8 list" where
  "elf_sector = sample_elf @ replicate 396 0"

lemma elf_sector_file: "file_bytes (sample_vol elf_sector) sample_private 2 0 600 = sample_elf @ (replicate 396 0 @ replicate 88 5)"
  and elf_sector_length: "length elf_sector = 512"
proof -
  show len: "length elf_sector = 512" by (simp add: elf_sector_def sample_elf_def)
  show "file_bytes (sample_vol elf_sector) sample_private 2 0 600 = sample_elf @ (replicate 396 0 @ replicate 88 5)"
    unfolding sample_file_bytes [OF len] by (simp only: elf_sector_def append_assoc)
qed

lemma elf_load_ok_witness:
  "\<exists>(s :: (sample_dev, unit) vfsmem_scheme) ef s' f.
     elf_load (\<lambda>_. fat16_fs (sample_ata (sample_vol elf_sector))) sample_file 0 s = Some (0, ef, s') \<and>
     objs s' ef = Some (OElfFile f) \<and> virtual_base_address f = 0x400000 \<and> virtual_end_address f = 0x401010"
proof -
  obtain p and s :: "(sample_dev, unit) vfsmem_scheme" where s: "volume_loaded (sample_vol elf_sector) 2 p s"
    "dk_filesystem (disk s) = Fat16Fs" "kmem_inv s" "94 \<le> kroom s" "file_descriptors s = replicate 512 0"
    by (rule sample_booted [OF elf_sector_length])
  note g = loaded_geometry [OF s(1)]
  define bs where "bs = sample_elf @ (replicate 396 0 @ replicate 88 5)"
  have "length bs < 4294967296" by (simp add: bs_def sample_elf_def)
  note ev = sample_elf_facts [OF bs_def this]
  have sz: "it_filesize sample_item = 600" by (simp add: it_filesize_def le32_def le16_def sample_item_def)
  have room: "10 + blocks_for (it_filesize sample_item) \<le> kroom s" using s(4) by (simp add: sz blocks_for_small)
  have "replicate 512 (0 :: ptr) = replicate (Suc 511) 0" by simp
  then have fr: "free_slot 0 (file_descriptors s) 0 = Some 0" unfolding s(5) by (simp only: free_slot_replicate)
  have attr: "it_attribute sample_item AND FAT_FILE_SUBDIRECTORY = 0" by (simp add: it_attribute_def sample_item_def)
  have e: "file_extent_ok (sample_vol elf_sector) p (unat (fat16_get_first_cluster sample_item)) (unat (it_filesize sample_item))"
    using sample_extent by (simp add: g(5) sample_cluster sz)
  have b: "0 < cluster_bytes p" by (simp add: g(1) sample_geometry)
  have bs: "bs = file_bytes (sample_vol elf_sector) p (unat (fat16_get_first_cluster sample_item)) 0 (unat (it_filesize sample_item))"
    by (simp only: g(4) sample_cluster sz) (simp add: elf_sector_file bs_def)
  have "elf_sound bs" using ev(1-4) by (simp add: elf_sound_def bs_def sample_elf_def)
  from elf_load_ok [OF sample_vol_ok [OF elf_sector_length] TrueI s(1) b s(2,3) sample_file_path sample_match
      sample_root_item [symmetric] attr _ _ _ e bs this room _ fr, of 0] s(5) ev(1)
  obtain ef s' where "elf_load (\<lambda>_. fat16_fs (sample_ata (sample_vol elf_sector))) sample_file 0 s = Some (0, ef, s')"
    "elf_image bs ef s s'" by (auto simp: sample_cluster sz)
  with ev(5) show ?thesis unfolding elf_image_def by blast
qed

end
