(* ===== verification/Fat16_Directories.thy ===== *)
theory Fat16_Directories
  imports Fat16_Lookup
begin

text \<open>
  Paths through directories: a directory is loaded from the clusters of the disk when the lookup
  enters it and given back when the lookup leaves it. The reference is the directory tree on the
  disk, read as a relation between a path and the entry of the file it names.
\<close>

section \<open>Objects that a lookup holds\<close>

text \<open>
  \<open>held p B s s'\<close>: of the objects that were made since \<open>s\<close>, those of the blocks \<open>B\<close> are left; the
  streams of the driver may be elsewhere, everything else is as in \<open>s\<close>.
\<close>

definition held :: "fat_private \<Rightarrow> (ptr \<times> nat) set \<Rightarrow> ('d, 'a) diskmem_scheme \<Rightarrow> ('d, 'a) diskmem_scheme \<Rightarrow> bool" where
  "held p B s s' \<longleftrightarrow> kmem_inv s \<and> kmem_inv s' \<and> fat_mounted p s \<and> fat_mounted p s' \<and>
     disk s' = disk s \<and> diskmem.more s' = diskmem.more s \<and> finite B \<and> (\<forall>(q, k) \<in> B. objs s q = None) \<and>
     klive s' = klive s \<union> B \<and> kavail s = kavail s' + sum snd B \<and>
     (\<forall>q. q \<notin> fat_streams p \<longrightarrow> q \<notin> fst ` B \<longrightarrow> objs s' q = objs s q)"

lemma heldD:
  assumes "held p B s s'"
  shows "kmem_inv s'" "fat_mounted p s'" "disk s' = disk s" "diskmem.more s' = diskmem.more s" "kavail s = kavail s' + sum snd B"
    "klive s' = klive s \<union> B" "finite B"
  using assms by (simp_all add: held_def)

lemma held_refl: "kmem_inv s \<Longrightarrow> fat_mounted p s \<Longrightarrow> held p {} s s"
  by (simp add: held_def)

lemma streamed_heap: "streamed p s s' \<Longrightarrow> kernel_heap s' = kernel_heap s"
proof -
  assume "streamed p s s'"
  then have "s' = s\<lparr>dev := dev s', objs := objs s'\<rparr>" by (simp add: streamed_def)
  then have "kernel_heap s' = kernel_heap (s\<lparr>dev := dev s', objs := objs s'\<rparr>)" by (rule arg_cong)
  then show ?thesis by simp
qed

lemma held_streamed:
  assumes "streamed p s s'" and "fat_mounted p s" and "kmem_inv s"
  shows "held p {} s s'"
  using assms streamed_inv [OF assms] streamed_heap [OF assms(1)]
  by (simp add: held_def streamed_mounted streamed_disk streamed_more) (simp add: streamed_def)

lemma held_present:
  assumes "held p B s s'" and "(q, k) \<in> B"
  shows "objs s q = None" and "objs s' q \<noteq> None" and "q \<noteq> 0" and "q \<notin> fat_streams p"
proof -
  show n: "objs s q = None" using assms by (auto simp: held_def)
  have "(q, k) \<in> klive s'" using assms by (simp add: held_def)
  then show o: "objs s' q \<noteq> None" using kmem_inv_live [OF heldD(1) [OF assms(1)]] by blast
  then show "q \<noteq> 0" using kmem_inv_null [OF heldD(1) [OF assms(1)]] by auto
  show "q \<notin> fat_streams p" using n assms(1) unfolding held_def fat_mounted_def by fastforce
qed

lemma held_old:
  assumes h: "held p B s s'" and x: "objs s q = Some x"
  shows "q \<notin> fst ` B" and "objs s' q \<noteq> None" and "(\<And>st. x \<noteq> OStream st) \<Longrightarrow> objs s' q = Some x"
proof -
  show n: "q \<notin> fst ` B" using h x by (auto simp: held_def)
  obtain k where "(q, k) \<in> klive s" using h x kmem_inv_live [of s q] by (auto simp: held_def)
  then have "(q, k) \<in> klive s'" using h by (simp add: held_def)
  then show "objs s' q \<noteq> None" using kmem_inv_live [OF heldD(1) [OF h]] by blast
  assume "\<And>st. x \<noteq> OStream st"
  then have "q \<notin> fat_streams p" using h x unfolding held_def fat_mounted_def by fastforce
  with n h x show "objs s' q = Some x" by (simp add: held_def)
qed

lemma held_trans:
  assumes a: "held p B s t" and b: "held p C t u"
  shows "held p (B \<union> C) s u" and "fst ` B \<inter> fst ` C = {}"
proof -
  show disj: "fst ` B \<inter> fst ` C = {}" using held_present [OF a] held_present [OF b] by fastforce
  then have "B \<inter> C = {}" by blast
  moreover have "objs s q = None" if "(q, k) \<in> C" for q k
    using held_old(2) [OF a, of q] held_present(1) [OF b that] by (cases "objs s q") auto
  ultimately show "held p (B \<union> C) s u"
    using a b by (auto simp: held_def sum.union_disjoint image_Un)
qed

lemma held_store: "held p B s s' \<Longrightarrow> (q, k) \<in> B \<Longrightarrow> held p B s (setobj q x s')"
proof -
  assume h: "held p B s s'" and q: "(q, k) \<in> B"
  have "q \<in> fst ` B" using q by force
  moreover have "fat_mounted p (setobj q x s')"
  proof -
    have "objs s (dk_fs_private (disk s)) \<noteq> None" using h by (simp add: held_def fat_mounted_def)
    then have "q \<noteq> dk_fs_private (disk s)" using held_present(1) [OF h q] by auto
    then show ?thesis
      using h held_present(4) [OF h q] by (auto simp: held_def fat_mounted_def setobj_def)
  qed
  ultimately show ?thesis
    using h kmem_inv_setobj [OF heldD(1) [OF h] held_present(2) [OF h q]] by (auto simp: held_def setobj_def)
qed

lemma held_alloc:
  assumes inv: "kmem_inv s" and m: "fat_mounted p s" and sz: "sz \<noteq> 0" "unat sz \<le> 4294963200" and fits: "blocks_for sz \<le> kroom s"
  obtains q s' where "alloc_as sz z s = Some (q, s')" "held p {(q, blocks_for sz)} s s'" "objs s' q = Some z"
    "kroom s \<le> kroom s' + blocks_for sz" "dev s' = dev s"
proof -
  obtain q s' where a: "alloc_as sz z s = Some (q, s')" "kmem_inv s'" "q \<noteq> 0" "objs s q = None"
    "objs s' = (objs s)(q \<mapsto> z)" "klive s' = insert (q, blocks_for sz) (klive s)"
    "kavail s = kavail s' + blocks_for sz" "kroom s \<le> kroom s' + blocks_for sz" "kmem.more s' = kmem.more s"
    by (rule alloc_in_room [OF inv sz fits])
  have d: "disk s' = disk s" "dev s' = dev s" "diskmem.more s' = diskmem.more s" using more_disk [OF a(9)] by simp_all
  have "q \<noteq> dk_fs_private (disk s)" "q \<notin> fat_streams p" using a(4) m by (auto simp: fat_mounted_def)
  then have "fat_mounted p s'" using m unfolding fat_mounted_def d by (auto simp: a(5))
  then have "held p {(q, blocks_for sz)} s s'"
    using a(2,4,5,6,7) d inv m by (simp add: held_def)
  then show thesis by (rule that [OF a(1)]) (simp_all add: a(5,8) d)
qed

lemma held_grown:
  assumes g: "grown s P s'" and m: "fat_mounted p s" and o: "\<forall>q. q \<notin> P \<longrightarrow> objs s' q = objs s q"
  shows "held p ((\<lambda>q. (q, 1)) ` P) s s'"
proof -
  have d: "disk s' = disk s" "diskmem.more s' = diskmem.more s" using more_disk [OF grownD(3) [OF g]] by simp_all
  have old: "objs s' q = objs s q" if "objs s q \<noteq> None" for q using grown_old [OF g that] o by blast
  have "fat_mounted p s'"
    using m old unfolding fat_mounted_def d by (metis option.distinct(1))
  moreover have "sum snd ((\<lambda>q. (q, 1 :: nat)) ` P) = card P"
    by (subst sum.reindex) (simp_all add: inj_on_def)
  moreover have "fst ` (\<lambda>q. (q, 1 :: nat)) ` P = P" by force
  ultimately show ?thesis
    using grownD [OF g] grown_fresh [OF g] m d o by (auto simp: held_def)
qed

lemma held_free:
  assumes h: "held p B s t" and q: "(q, k) \<in> B"
  obtains u where "kfree q t = Some u" "held p (B - {(q, k)}) s u" "objs u = (objs t)(q := None)" "kroom t \<le> kroom u"
    "dev u = dev t"
proof -
  have live: "(q, k) \<in> klive t" using h q by (simp add: held_def)
  obtain u where u: "kfree q t = Some u" "kmem_inv u" "objs u = (objs t)(q := None)"
    "klive u = klive t - {(q, k)}" "kavail u = kavail t + k" "kmem.more u = kmem.more t"
    by (rule kfree_live [OF heldD(1) [OF h] live])
  have d: "disk u = disk t" "dev u = dev t" "diskmem.more u = diskmem.more t" using more_disk [OF u(6)] by simp_all
  have room: "kroom t \<le> kroom u"
    using charged_free [OF heldD(1) [OF h] held_present(2) [OF h q] u(1)] heldD(1) [OF h] by (simp add: charged_def)
  have n: "objs s q = None" by (rule held_present(1) [OF h q])
  then have "(q, k) \<notin> klive s" using h kmem_inv_live [of s q] by (auto simp: held_def)
  then have kl: "klive u = klive s \<union> (B - {(q, k)})" using u(4) heldD(6) [OF h] by blast
  have "objs s (dk_fs_private (disk s)) \<noteq> None" using h by (simp add: held_def fat_mounted_def)
  then have "q \<noteq> dk_fs_private (disk t)" using n heldD(3) [OF h] by auto
  then have m: "fat_mounted p u"
    using heldD(2) [OF h] held_present(4) [OF h q] unfolding fat_mounted_def d by (auto simp: u(3))
  have "sum snd B = k + sum snd (B - {(q, k)})" using sum.remove [OF heldD(7) [OF h] q, of snd] by simp
  moreover have "objs u x = objs s x" if x: "x \<notin> fat_streams p" "x \<notin> fst ` (B - {(q, k)})" for x
  proof (cases "x = q")
    case False
    then have "x \<notin> fst ` B" using x(2) by force
    with False x(1) h show ?thesis by (simp add: held_def u(3))
  qed (simp add: n u(3))
  ultimately have "held p (B - {(q, k)}) s u"
    using h u(2,5) kl m d by (simp add: held_def)
  then show thesis by (rule that [OF u(1) _ u(3) room d(2)])
qed

section \<open>Directories on the disk\<close>

definition entry_cluster :: "fat_directory_item \<Rightarrow> nat" where
  "entry_cluster item = unat (fat16_get_first_cluster item)"

text \<open>
  The entry \<open>item\<close> is a directory of \<open>n\<close> entries. The entries are counted in the sectors from its
  first cluster on, and read from its chain of clusters.
\<close>

definition directory_entries :: "(nat \<Rightarrow> u8 list) \<Rightarrow> fat_private \<Rightarrow> fat_directory_item \<Rightarrow> nat \<Rightarrow> bool" where
  "directory_entries img p item n \<longleftrightarrow> (let c = entry_cluster item; pos = nat (cluster_pos p c) in
     it_attribute item AND FAT_FILE_SUBDIRECTORY \<noteq> 0 \<and> c < 65536 \<and> 0 < cluster_bytes p \<and> 0 \<le> cluster_pos p c \<and> 0 < n \<and>
     (\<exists>e. dir_end img pos e \<and> pos + 32 * e + 32 \<le> 2147483647 \<and> n = dir_count img pos e) \<and>
     file_extent_ok img p c (32 * n))"

definition directory_bytes :: "(nat \<Rightarrow> u8 list) \<Rightarrow> fat_private \<Rightarrow> fat_directory_item \<Rightarrow> nat \<Rightarrow> u8 list" where
  "directory_bytes img p item n = file_bytes img p (entry_cluster item) 0 (32 * n)"

text \<open>The blocks of the heap that the entries take.\<close>

definition directory_blocks :: "nat \<Rightarrow> nat" where
  "directory_blocks n = blocks_for (of_nat (32 * n))"

text \<open>The fields of an entry do not depend on the bytes after it.\<close>

lemma item_fields_take:
  assumes "32 \<le> length b"
  shows "it_attribute (take 32 b) = it_attribute b" "fat16_get_first_cluster (take 32 b) = fat16_get_first_cluster b"
  using assms
  by (simp_all add: it_attribute_def fat16_get_first_cluster_def it_high_cluster_def it_low_cluster_def le16_def)

lemma dir_count_le: "dir_count img pos n \<le> n"
proof -
  have "dir_count img pos n \<le> length [0..<n]" unfolding dir_count_def by (rule length_filter_le)
  then show ?thesis by simp
qed

text \<open>The directory at \<open>d\<close> has the entries \<open>b\<close>, \<open>n\<close> of them, in the buffer \<open>it\<close>.\<close>

definition directory_at :: "ptr \<Rightarrow> ptr \<Rightarrow> u8 list \<Rightarrow> nat \<Rightarrow> 'a kmem_scheme \<Rightarrow> bool" where
  "directory_at d it b n s \<longleftrightarrow> objs s d = Some (OFatDir (zero_directory\<lparr>fdir_total := int n, fdir_item := it\<rparr>)) \<and>
     objs s it = Some (OBytes b)"

lemma directory_entriesD:
  assumes "directory_entries img p item n"
  obtains sec e where "it_attribute item AND FAT_FILE_SUBDIRECTORY \<noteq> 0" "entry_cluster item < 65536" "0 < cluster_bytes p"
    "int_of_u32 (fat16_get_first_cluster item) = int (entry_cluster item)"
    "fat16_cluster_to_sector p (int (entry_cluster item)) = int sec"
    "dir_end img (512 * sec) e" "512 * sec + 32 * e + 32 \<le> 2147483647" "n = dir_count img (512 * sec) e"
    "0 < n" "32 * n < 2147483647" "file_extent_ok img p (entry_cluster item) (32 * n)"
proof -
  let ?c = "entry_cluster item"
  define sec where "sec = nat (fat16_cluster_to_sector p (int ?c))"
  obtain e where d: "it_attribute item AND FAT_FILE_SUBDIRECTORY \<noteq> 0" "?c < 65536" "0 < cluster_bytes p"
    "0 \<le> cluster_pos p ?c" "0 < n" "dir_end img (nat (cluster_pos p ?c)) e"
    "nat (cluster_pos p ?c) + 32 * e + 32 \<le> 2147483647" "n = dir_count img (nat (cluster_pos p ?c)) e"
    "file_extent_ok img p ?c (32 * n)"
    using assms unfolding directory_entries_def Let_def by blast
  have "fat16_cluster_to_sector p (int ?c) = int sec" and pos: "nat (cluster_pos p ?c) = 512 * sec"
    using d(4) by (simp_all add: sec_def cluster_pos_def nat_mult_distrib mult.commute)
  moreover have "32 * n < 2147483647" using d(7,8) dir_count_le [of img "nat (cluster_pos p ?c)" e] by linarith
  moreover have "int_of_u32 (fat16_get_first_cluster item) = int ?c"
    using d(2) unfolding entry_cluster_def by (simp add: sint_u32_small)
  ultimately show thesis using d by (intro that [of sec e]) (simp_all add: pos)
qed

text \<open>The directory is allocated, its entries are counted and their buffer is allocated.\<close>

lemma directory_buffer_ok:
  fixes s :: "('d, 'a) diskmem_scheme"
  assumes hw: "ata_ok hw img idle xfer" and idle: "idle (dev s)" and m: "fat_mounted p s" and inv: "kmem_inv s"
    and e: "512 * sec + 32 * e + 32 \<le> 2147483647" "dir_end img (512 * sec) e" "n = dir_count img (512 * sec) e"
    and n: "0 < n" "32 * n < 2147483647" and room: "1 + directory_blocks n \<le> kroom s"
  obtains d it s1 s2 s3 where "alloc_as 16 (OFatDir zero_directory) s = Some (d, s1)"
    "fat16_get_total_items_for_directory hw TheDisk (of_nat sec) s1 = Some (int n, s2)" "objs s2 d = Some (OFatDir zero_directory)"
    "kzalloc (of_nat (32 * n)) s2 = Some (it, s3)" "held p {(d, 1), (it, directory_blocks n)} s s3" "d \<noteq> it" "idle (dev s3)"
    "objs s3 d = Some (OFatDir zero_directory)" "objs s3 it = Some (OBytes (replicate (32 * n) 0))"
    "kroom s \<le> kroom s3 + (1 + directory_blocks n)"
proof -
  let ?sz = "of_nat (32 * n) :: u32"
  have un: "unat ?sz = 32 * n" using n(2) by (intro unat_of_nat_u32) simp
  have sz: "(16 :: u32) \<noteq> 0" "unat (16 :: u32) \<le> 4294963200" "blocks_for 16 = 1" by (simp_all add: blocks_for_small)
  have szn: "?sz \<noteq> 0" "unat ?sz \<le> 4294963200"
    using of_nat_u32_nonzero [of "32 * n"] n unfolding un by simp_all
  have r1: "blocks_for 16 \<le> kroom s" using room by (simp add: sz(3))
  obtain d s1 where s1: "alloc_as 16 (OFatDir zero_directory) s = Some (d, s1)" "held p {(d, blocks_for 16)} s s1"
    "objs s1 d = Some (OFatDir zero_directory)" "kroom s \<le> kroom s1 + blocks_for 16" "dev s1 = dev s"
    by (rule held_alloc [OF inv m sz(1,2) r1])
  have id1: "idle (dev s1)" using idle s1(5) by simp
  obtain s2 where s2: "fat16_get_total_items_for_directory hw TheDisk (of_nat sec) s1 = Some (int n, s2)"
    "streamed p s1 s2" "idle (dev s2)"
    using total_items_ok [OF hw id1 heldD(2) [OF s1(2)] e(1,2)] unfolding e(3) [symmetric] by blast
  have h2: "held p {(d, 1)} s s2"
    using held_trans(1) [OF s1(2) held_streamed [OF s2(2) heldD(2,1) [OF s1(2)]]] by (simp add: sz(3))
  have o2: "objs s2 d = Some (OFatDir zero_directory)"
    by (rule streamed_objs [OF s2(2) heldD(2) [OF s1(2)] s1(3)]) simp
  have r2: "blocks_for ?sz \<le> kroom s2" "kroom s \<le> kroom s2 + 1"
    using s1(4) room streamed_inv(2) [OF s2(2) heldD(2,1) [OF s1(2)]] by (simp_all add: sz(3) directory_blocks_def)
  obtain it s3 where s3: "alloc_as ?sz (OBytes (replicate (32 * n) 0)) s2 = Some (it, s3)"
    "held p {(it, directory_blocks n)} s2 s3" "objs s3 it = Some (OBytes (replicate (32 * n) 0))"
    "kroom s2 \<le> kroom s3 + directory_blocks n" "dev s3 = dev s2"
    unfolding directory_blocks_def by (rule held_alloc [OF heldD(1,2) [OF h2] szn r2(1)])
  have h3: "held p {(d, 1), (it, directory_blocks n)} s s3" and ne: "d \<noteq> it"
    using held_trans [OF h2 s3(2)] by (simp_all add: insert_commute)
  have o3: "objs s3 d = Some (OFatDir zero_directory)" by (rule held_old(3) [OF s3(2) o2]) simp
  have alloc: "kzalloc ?sz s2 = Some (it, s3)" using s3(1) by (simp only: kzalloc_bytes un)
  show thesis
    using r2(2) s3(4,5) s2(3) by (intro that [OF s1(1) s2(1) o2 alloc h3 ne _ o3 s3(3)]) simp_all
qed

lemma load_directory_ok:
  fixes s :: "('d, 'a) diskmem_scheme"
  assumes hw: "ata_ok hw img idle xfer" and idle: "idle (dev s)" and m: "fat_mounted p s" and inv: "kmem_inv s"
    and dir: "directory_entries img p item n" and room: "1 + directory_blocks n \<le> kroom s"
  obtains d it s' where "fat16_load_fat_directory hw TheDisk item s = Some (d, s')" "d \<noteq> it" "idle (dev s')"
    "held p {(d, 1), (it, directory_blocks n)} s s'" "directory_at d it (directory_bytes img p item n) n s'"
    "kroom s \<le> kroom s' + (1 + directory_blocks n)"
proof -
  let ?c = "entry_cluster item" and ?b = "directory_bytes img p item n"
  obtain sec e where f: "it_attribute item AND FAT_FILE_SUBDIRECTORY \<noteq> 0" "?c < 65536" "0 < cluster_bytes p"
    "int_of_u32 (fat16_get_first_cluster item) = int ?c" "fat16_cluster_to_sector p (int ?c) = int sec"
    "dir_end img (512 * sec) e" "512 * sec + 32 * e + 32 \<le> 2147483647" "n = dir_count img (512 * sec) e"
    "0 < n" "32 * n < 2147483647" "file_extent_ok img p ?c (32 * n)"
    by (rule directory_entriesD [OF dir])
  obtain d it s1 s2 s3 where s: "alloc_as 16 (OFatDir zero_directory) s = Some (d, s1)"
    "fat16_get_total_items_for_directory hw TheDisk (of_nat sec) s1 = Some (int n, s2)" "objs s2 d = Some (OFatDir zero_directory)"
    "kzalloc (of_nat (32 * n)) s2 = Some (it, s3)" "held p {(d, 1), (it, directory_blocks n)} s s3" "d \<noteq> it" "idle (dev s3)"
    "objs s3 d = Some (OFatDir zero_directory)" "objs s3 it = Some (OBytes (replicate (32 * n) 0))"
    "kroom s \<le> kroom s3 + (1 + directory_blocks n)"
    by (rule directory_buffer_ok [where idle = idle, OF hw idle m inv f(7,6,8,9,10) room])
  let ?D = "zero_directory\<lparr>fdir_total := int n, fdir_item := it\<rparr>"
  let ?s4 = "setobj d (OFatDir ?D) s3"
  have h4: "held p {(d, 1), (it, directory_blocks n)} s ?s4" by (rule held_store [OF s(5), where k = 1]) simp
  note m4 = heldD(2) [OF h4]
  have id4: "idle (dev ?s4)" using s(7) by (simp add: setobj_def)
  have q: "cluster_read_stream p \<in> fat_streams p" by (simp add: fat_streams_def)
  obtain s5 where s5: "fat16_read_internal_from_stream hw TheDisk (cluster_read_stream p) (int ?c) 0 (int (32 * n))
      (replicate (32 * n) 0) ?s4 = Some (0, ?b, s5)" "streamed p ?s4 s5" "idle (dev s5)"
    using read_internal_ok [OF hw f(2,3) q id4 m4, of 0 "32 * n" "replicate (32 * n) 0"] f(9,11)
    by (auto simp: directory_bytes_def)
  let ?s6 = "setobj it (OBytes ?b) s5"
  have "held p ({(d, 1), (it, directory_blocks n)} \<union> {}) s s5"
    by (rule held_trans(1) [OF h4 held_streamed [OF s5(2) heldD(2,1) [OF h4]]])
  then have h6: "held p {(d, 1), (it, directory_blocks n)} s ?s6"
    by (intro held_store [where k = "directory_blocks n"]) simp_all
  have o5: "objs s5 d = Some (OFatDir ?D)" "objs s5 it = Some (OBytes (replicate (32 * n) 0))"
    by (rule streamed_objs [OF s5(2) m4]; use s(6,9) in simp)+
  have nz: "it \<noteq> 0" "d \<noteq> 0" using held_present(3) [OF s(5)] by blast+
  have un: "unat (of_nat (32 * n) :: u32) = 32 * n" using f(10) by (intro unat_of_nat_u32) simp
  have w: "word_of_nat n * 32 = (32 * word_of_nat n :: u32)" by (simp add: mult.commute)
  have sn: "sint (32 * word_of_nat n :: u32) = 32 * int n"
  proof -
    have "sint (of_nat (32 * n) :: u32) = int (32 * n)"
      using f(10) by (subst sint_u32_small) (simp_all add: un del: of_nat_mult)
    then show ?thesis by simp
  qed
  have rd: "fat16_read_internal hw TheDisk (int ?c) 0 (int (32 * n)) (replicate (32 * n) 0) ?s4 = Some (0, ?b, s5)"
    using s5(1) by (simp only: fat16_read_internal_def mounted_private(1) [OF m4] Option.bind.simps)
  have run: "fat16_load_fat_directory hw TheDisk item s = Some (d, ?s6)"
    unfolding fat16_load_fat_directory_def Let_def f(4) mounted_private(1) [OF m] Option.bind.simps f(5)
    using f(1) s nz rd o5 by (simp add: deref_def w sn store_eq [OF s(8)] store_eq [OF o5(2)])
  have "directory_at d it ?b n ?s6" using o5 s(6) by (simp add: directory_at_def)
  moreover have "kroom s \<le> kroom ?s6 + (1 + directory_blocks n)"
    using s(10) streamed_inv(2) [OF s5(2) heldD(2,1) [OF h4]] by simp
  ultimately show thesis using s5(3) by (intro that [OF run s(6) _ h6]) (simp_all add: setobj_def)
qed

section \<open>Entries\<close>

text \<open>Entry \<open>k\<close> of the directory bytes \<open>b\<close>, and the two kinds of item that the driver makes of an entry.\<close>

definition entry_of :: "u8 list \<Rightarrow> nat \<Rightarrow> fat_directory_item" where
  "entry_of b k = take FAT_ITEM_SIZE (drop (FAT_ITEM_SIZE * k) b)"

abbreviation (input) directory_item :: "ptr \<Rightarrow> obj" where
  "directory_item d \<equiv> OFatItem \<lparr>fi_ptr = d, fi_type = FAT_ITEM_TYPE_DIRECTORY\<rparr>"

abbreviation (input) file_item :: "ptr \<Rightarrow> obj" where
  "file_item cp \<equiv> OFatItem \<lparr>fi_ptr = cp, fi_type = FAT_ITEM_TYPE_FILE\<rparr>"

lemma match_entry:
  assumes "only_match b n c k"
  shows "32 \<le> length (drop (32 * k) b)" and "it_attribute (drop (32 * k) b) = it_attribute (entry_of b k)"
    and "directory_entries img p (drop (32 * k) b) m \<longleftrightarrow> directory_entries img p (entry_of b k) m"
    and "directory_bytes img p (drop (32 * k) b) m = directory_bytes img p (entry_of b k) m"
proof -
  have "32 * n \<le> length b" "k < n" using assms by (simp_all add: only_match_def)
  then show l: "32 \<le> length (drop (32 * k) b)" by simp
  show "it_attribute (drop (32 * k) b) = it_attribute (entry_of b k)"
    and "directory_entries img p (drop (32 * k) b) m \<longleftrightarrow> directory_entries img p (entry_of b k) m"
    and "directory_bytes img p (drop (32 * k) b) m = directory_bytes img p (entry_of b k) m"
    using item_fields_take [OF l] by (simp_all add: entry_of_def directory_entries_def directory_bytes_def entry_cluster_def)
qed

lemma new_directory_item_ok:
  fixes s :: "('d, 'a) diskmem_scheme"
  assumes hw: "ata_ok hw img idle xfer" and idle: "idle (dev s)" and m: "fat_mounted p s" and inv: "kmem_inv s"
    and dir: "directory_entries img p item n" and room: "2 + directory_blocks n \<le> kroom s"
  obtains fi d it s' where "fat16_new_fat_item_for_directory_item hw TheDisk item s = Some (fi, s')"
    "distinct [fi, d, it]" "idle (dev s')" "held p {(fi, 1), (d, 1), (it, directory_blocks n)} s s'"
    "objs s' fi = Some (directory_item d)" "directory_at d it (directory_bytes img p item n) n s'"
    "kroom s \<le> kroom s' + (2 + directory_blocks n)"
proof -
  have sz: "(8 :: u32) \<noteq> 0" "unat (8 :: u32) \<le> 4294963200" "blocks_for 8 = 1" by (simp_all add: blocks_for_small)
  have r1: "blocks_for 8 \<le> kroom s" using room by (simp add: sz(3))
  obtain fi s1 where s1: "alloc_as 8 (OFatItem \<lparr>fi_ptr = 0, fi_type = 0\<rparr>) s = Some (fi, s1)"
    "held p {(fi, blocks_for 8)} s s1" "objs s1 fi = Some (OFatItem \<lparr>fi_ptr = 0, fi_type = 0\<rparr>)"
    "kroom s \<le> kroom s1 + blocks_for 8" "dev s1 = dev s"
    by (rule held_alloc [OF inv m sz(1,2) r1])
  have id1: "idle (dev s1)" and r2: "1 + directory_blocks n \<le> kroom s1" using idle s1(4,5) room by (simp_all add: sz(3))
  obtain d it s2 where s2: "fat16_load_fat_directory hw TheDisk item s1 = Some (d, s2)" "d \<noteq> it" "idle (dev s2)"
    "held p {(d, 1), (it, directory_blocks n)} s1 s2" "directory_at d it (directory_bytes img p item n) n s2"
    "kroom s1 \<le> kroom s2 + (1 + directory_blocks n)"
    by (rule load_directory_ok [where idle = idle, OF hw id1 heldD(2,1) [OF s1(2)] dir r2])
  have h2: "held p {(fi, 1), (d, 1), (it, directory_blocks n)} s s2" and ne: "distinct [fi, d, it]"
    using held_trans [OF s1(2) s2(4)] s2(2) by (auto simp: sz(3) insert_commute)
  have o2: "objs s2 fi = Some (OFatItem \<lparr>fi_ptr = 0, fi_type = 0\<rparr>)" by (rule held_old(3) [OF s2(4) s1(3)]) simp
  let ?s3 = "setobj fi (directory_item d) s2"
  have h3: "held p {(fi, 1), (d, 1), (it, directory_blocks n)} s ?s3" by (rule held_store [OF h2, where k = 1]) simp
  have at: "it_attribute item AND FAT_FILE_SUBDIRECTORY \<noteq> 0" using dir by (simp add: directory_entries_def Let_def)
  have run: "fat16_new_fat_item_for_directory_item hw TheDisk item s = Some (fi, ?s3)"
    using s1(1) at s2(1) held_present(3) [OF s1(2)]
    by (simp add: fat16_new_fat_item_for_directory_item_def store_eq [OF o2])
  have "directory_at d it (directory_bytes img p item n) n ?s3" using s2(5) ne by (auto simp: directory_at_def)
  moreover have "kroom s \<le> kroom ?s3 + (2 + directory_blocks n)" using s1(4) s2(6) by (simp add: sz(3))
  ultimately show thesis using s2(3) by (intro that [OF run ne _ h3]) (simp_all add: setobj_def)
qed

lemma new_file_item_ok:
  fixes s :: "('d, 'a) diskmem_scheme"
  assumes inv: "kmem_inv s" and m: "fat_mounted p s" and room: "2 \<le> kroom s" and len: "32 \<le> length item"
    and attr: "it_attribute item AND FAT_FILE_SUBDIRECTORY = 0"
  obtains fi cp s' where "fat16_new_fat_item_for_directory_item hw TheDisk item s = Some (fi, s')" "fi \<noteq> cp"
    "held p {(fi, 1), (cp, 1)} s s'" "objs s' fi = Some (file_item cp)" "objs s' cp = Some (OBytes (take 32 item))"
    "kroom s \<le> kroom s' + 2" "dev s' = dev s"
proof -
  have av: "2 \<le> kavail s" using room kroom_le_avail [of s] by simp
  obtain fi cp s' where n: "fat16_new_fat_item_for_directory_item hw TheDisk item s = Some (fi, s')" "fi \<noteq> 0" "fi \<noteq> cp"
    "grown s {fi, cp} s'" "objs s' = (objs s)(fi \<mapsto> file_item cp, cp \<mapsto> OBytes (take 32 item))" "charged 2 s s'"
    by (rule new_item_ok [OF inv av len attr])
  have "held p ((\<lambda>q. (q, 1)) ` {fi, cp}) s s'" by (rule held_grown [OF n(4) m]) (simp add: n(5))
  moreover have "dev s' = dev s" using more_disk [OF grownD(3) [OF n(4)]] by simp
  ultimately show thesis using n(3,6) inv by (intro that [OF n(1,3)]) (simp_all add: n(5) charged_def)
qed

text \<open>Looking for a name leaves what it reads.\<close>

lemma find_ready_held:
  assumes "find_ready dir b nm c s" and "held p B s s'"
  shows "find_ready dir b nm c s'"
  using assms held_old(3) [OF assms(2)] by (simp add: find_ready_def part_buffer_def)

lemma find_directory_ok:
  fixes s :: "('d, 'a) diskmem_scheme"
  assumes hw: "ata_ok hw img idle xfer" and idle: "idle (dev s)" and m: "fat_mounted p s" and inv: "kmem_inv s"
    and f: "find_ready dir b nm c s" "fdir_total dir = int n" and k: "only_match b n c k"
    and d: "directory_entries img p (entry_of b k) n'" and room: "2 + directory_blocks n' \<le> kroom s"
  obtains fi d it s' where "fat16_find_item_in_directory hw TheDisk dir nm s = Some (fi, s')"
    "distinct [fi, d, it]" "idle (dev s')" "held p {(fi, 1), (d, 1), (it, directory_blocks n')} s s'"
    "objs s' fi = Some (directory_item d)" "directory_at d it (directory_bytes img p (entry_of b k) n') n' s'"
    "kroom s \<le> kroom s' + (2 + directory_blocks n')"
proof -
  obtain fi d it s' where n: "fat16_new_fat_item_for_directory_item hw TheDisk (drop (32 * k) b) s = Some (fi, s')"
    "distinct [fi, d, it]" "idle (dev s')" "held p {(fi, 1), (d, 1), (it, directory_blocks n')} s s'"
    "objs s' fi = Some (directory_item d)" "directory_at d it (directory_bytes img p (drop (32 * k) b) n') n' s'"
    "kroom s \<le> kroom s' + (2 + directory_blocks n')"
    by (rule new_directory_item_ok [where idle = idle, OF hw idle m inv d [folded match_entry(3) [OF k]] room])
  from find_one [OF f(1) k n(1) find_ready_held [OF f(1) n(4)] f(2)] show thesis
    using n(6) match_entry(4) [OF k] by (intro that [OF _ n(2-5) _ n(7)]) simp_all
qed

lemma find_file_ok:
  fixes s :: "('d, 'a) diskmem_scheme"
  assumes m: "fat_mounted p s" and inv: "kmem_inv s"
    and f: "find_ready dir b nm c s" "fdir_total dir = int n" and k: "only_match b n c k"
    and at: "it_attribute (entry_of b k) AND FAT_FILE_SUBDIRECTORY = 0" and room: "2 \<le> kroom s"
  obtains fi cp s' where "fat16_find_item_in_directory hw TheDisk dir nm s = Some (fi, s')" "fi \<noteq> cp"
    "held p {(fi, 1), (cp, 1)} s s'" "objs s' fi = Some (file_item cp)" "objs s' cp = Some (OBytes (entry_of b k))"
    "kroom s \<le> kroom s' + 2" "dev s' = dev s"
proof -
  obtain fi cp s' where n: "fat16_new_fat_item_for_directory_item hw TheDisk (drop (32 * k) b) s = Some (fi, s')" "fi \<noteq> cp"
    "held p {(fi, 1), (cp, 1)} s s'" "objs s' fi = Some (file_item cp)" "objs s' cp = Some (OBytes (take 32 (drop (32 * k) b)))"
    "kroom s \<le> kroom s' + 2" "dev s' = dev s"
    by (rule new_file_item_ok [OF inv m room match_entry(1) [OF k]]) (use at match_entry(2) [OF k] in simp)
  from find_one [OF f(1) k n(1) find_ready_held [OF f(1) n(3)] f(2)] show thesis
    using n(5) by (intro that [OF _ n(2-4) _ n(6,7)]) (simp_all add: entry_of_def)
qed

section \<open>Paths\<close>

text \<open>
  \<open>names_file img p b n cs item r\<close>: from the directory whose \<open>n\<close> entries are the bytes \<open>b\<close>, the
  names \<open>cs\<close> lead through directories of the disk to the entry \<open>item\<close> of a file. \<open>r\<close> is the sum of
  the blocks of all items and directories on the way.
\<close>

inductive names_file ::
  "(nat \<Rightarrow> u8 list) \<Rightarrow> fat_private \<Rightarrow> u8 list \<Rightarrow> nat \<Rightarrow> u8 list list \<Rightarrow> fat_directory_item \<Rightarrow> nat \<Rightarrow> bool"
  for img p where
  here: "\<lbrakk>only_match b n c k; it_attribute (entry_of b k) AND FAT_FILE_SUBDIRECTORY = 0\<rbrakk> \<Longrightarrow>
    names_file img p b n [c] (entry_of b k) 2"
| below: "\<lbrakk>only_match b n c k; directory_entries img p (entry_of b k) n';
    names_file img p (directory_bytes img p (entry_of b k) n') n' cs item r\<rbrakk> \<Longrightarrow>
    names_file img p b n (c # cs) item (2 + directory_blocks n' + r)"

lemma names_file_cons: "names_file img p b n cs item r \<Longrightarrow> cs \<noteq> []"
  by (induction rule: names_file.induct) simp_all

text \<open>A path names at most one entry.\<close>

lemma dir_end_unique: "dir_end img pos e \<Longrightarrow> dir_end img pos e' \<Longrightarrow> e = e'"
  unfolding dir_end_def by (metis linorder_neqE_nat)

lemma directory_entries_unique: "directory_entries img p item n \<Longrightarrow> directory_entries img p item n' \<Longrightarrow> n = n'"
  unfolding directory_entries_def Let_def using dir_end_unique by blast

inductive_cases names_fileE: "names_file img p b n (c # cs) item r"

lemma names_file_unique:
  "names_file img p b n cs item r \<Longrightarrow> names_file img p b n cs item' r' \<Longrightarrow> item = item' \<and> r = r'"
proof (induction arbitrary: item' r' rule: names_file.induct)
  case (here b n c k)
  from here(3) show ?case
    by (rule names_fileE) (use here(1,2) names_file_cons in \<open>fastforce simp: only_match_def\<close>)+
next
  case (below b n c k n' cs item r)
  obtain k1 n1 r1 where l: "only_match b n c k1" "directory_entries img p (entry_of b k1) n1"
    "names_file img p (directory_bytes img p (entry_of b k1) n1) n1 cs item' r1" "r' = 2 + directory_blocks n1 + r1"
    by (rule names_fileE [OF below(5)]) (use names_file_cons [OF below(3)] in auto)
  have "k1 = k" using l(1) below(1) by (auto simp: only_match_def)
  moreover from this have "n1 = n'" using l(2) directory_entries_unique [OF below(2)] by simp
  ultimately show ?case using below(4) l(3,4) by simp
qed

text \<open>The item of a directory is given back with the directory and its entries.\<close>

lemma directory_item_free_ok:
  assumes h: "held p B s t" and B: "(cur, 1) \<in> B" "(d, 1) \<in> B" "(it, k) \<in> B" and ne: "distinct [cur, d, it]"
    and o: "objs t cur = Some (directory_item d)" "directory_at d it b n t"
  obtains u where "fat16_fat_item_free cur t = Some u" "held p (B - {(cur, 1), (d, 1), (it, k)}) s u"
    "objs u = (objs t)(it := None, d := None, cur := None)" "kroom t \<le> kroom u" "dev u = dev t"
proof -
  have od: "objs t d = Some (OFatDir (zero_directory\<lparr>fdir_total := int n, fdir_item := it\<rparr>))"
    using o(2) by (simp add: directory_at_def)
  obtain t1 where t1: "kfree it t = Some t1" "held p (B - {(it, k)}) s t1" "objs t1 = (objs t)(it := None)"
    "kroom t \<le> kroom t1" "dev t1 = dev t"
    by (rule held_free [OF h B(3)])
  have "(d, 1) \<in> B - {(it, k)}" using B(2) ne by auto
  then obtain t2 where t2: "kfree d t1 = Some t2" "held p (B - {(it, k)} - {(d, 1)}) s t2" "objs t2 = (objs t1)(d := None)"
    "kroom t1 \<le> kroom t2" "dev t2 = dev t1"
    by (rule held_free [OF t1(2)])
  have "(cur, 1) \<in> B - {(it, k)} - {(d, 1)}" using B(1) ne by auto
  then obtain t3 where t3: "kfree cur t2 = Some t3" "held p (B - {(it, k)} - {(d, 1)} - {(cur, 1)}) s t3"
    "objs t3 = (objs t2)(cur := None)" "kroom t2 \<le> kroom t3" "dev t3 = dev t2"
    by (rule held_free [OF t2(2)])
  have nz: "it \<noteq> 0" "d \<noteq> 0" using held_present(3) [OF h B(3)] held_present(3) [OF h B(2)] by simp_all
  have "fat16_fat_item_free cur t = Some t3"
    using o(1) od nz t1(1) t2(1) t3(1) by (simp add: fat16_fat_item_free_def fat16_free_directory_def deref_def)
  moreover have "B - {(it, k)} - {(d, 1)} - {(cur, 1)} = B - {(cur, 1), (d, 1), (it, k)}" by blast
  ultimately show thesis
    using t1(3-5) t2(3-5) t3(2-5) by (intro that [of t3]) simp_all
qed

lemma free_held_before:
  assumes "held p B s0 s" and "held p C s s1" and "held p ((B \<union> C) - B) s0 s2"
  shows "held p C s0 s2"
proof -
  have "B \<inter> C = {}" using held_trans(2) [OF assms(1,2)] by blast
  then have "(B \<union> C) - B = C" by blast
  with assms(3) show ?thesis by simp
qed

lemma parts_at_next:
  assumes "parts_at nxt (c # cs) s0" and "held p B s0 s"
  obtains nm nx where "nxt \<noteq> 0" "deref as_path_part nxt s = Some \<lparr>part = nm, next_part = nx\<rparr>" "part_text c"
    "objs s nm = Some (part_buffer c)" "parts_at nx cs s0"
proof -
  obtain nm nx where o: "nxt \<noteq> 0" "part_text c" "objs s0 nxt = Some (OPathPart \<lparr>part = nm, next_part = nx\<rparr>)"
    "objs s0 nm = Some (part_buffer c)" "parts_at nx cs s0"
    using assms(1) by auto
  have "objs s nxt = Some (OPathPart \<lparr>part = nm, next_part = nx\<rparr>)" "objs s nm = Some (part_buffer c)"
    using held_old(3) [OF assms(2) o(3)] held_old(3) [OF assms(2) o(4)] by (simp_all add: part_buffer_def)
  then show thesis using o(1,2,5) by (intro that [of nm nx]) (simp_all add: deref_def)
qed

lemma directory_ready:
  assumes "directory_at d it b n s" and "objs s nm = Some (part_buffer c)" and "part_text c"
  shows "find_ready (zero_directory\<lparr>fdir_total := int n, fdir_item := it\<rparr>) b nm c s"
  using assms by (simp add: find_ready_def directory_at_def part_text_def)

text \<open>The walk from an item of a directory on; nothing is left of the directories.\<close>

lemma walk_path_ok:
  fixes s0 :: "('d, 'a) diskmem_scheme"
  assumes hw: "ata_ok hw img idle xfer"
  shows "names_file img p b n cs item r \<Longrightarrow> held p {(cur, 1), (d, 1), (it, k)} s0 s \<Longrightarrow> distinct [cur, d, it] \<Longrightarrow>
    idle (dev s) \<Longrightarrow> objs s cur = Some (directory_item d) \<Longrightarrow> directory_at d it b n s \<Longrightarrow> parts_at nxt cs s0 \<Longrightarrow> r \<le> kroom s \<Longrightarrow>
    \<exists>fi cp s'. fat16_walk_path hw TheDisk cur nxt s = Some (fi, s') \<and> fi \<noteq> cp \<and> idle (dev s') \<and>
      held p {(fi, 1), (cp, 1)} s0 s' \<and> objs s' fi = Some (file_item cp) \<and> objs s' cp = Some (OBytes item) \<and>
      kroom s \<le> kroom s' + r"
proof (induction arbitrary: cur d it k s nxt rule: names_file.induct)
  case (here b n c j cur d it k s nxt)
  let ?B = "{(cur, 1), (d, 1), (it, k)}" and ?D = "zero_directory\<lparr>fdir_total := int n, fdir_item := it\<rparr>"
  obtain nm nx where pt: "nxt \<noteq> 0" "deref as_path_part nxt s = Some \<lparr>part = nm, next_part = nx\<rparr>" "part_text c"
    "objs s nm = Some (part_buffer c)" "parts_at nx [] s0"
    by (rule parts_at_next [OF here(8,3)])
  have D: "deref as_fat_dir d s = Some ?D" using here(7) by (simp add: directory_at_def deref_def)
  have tot: "fdir_total ?D = int n" by simp
  obtain fi cp s1 where f: "fat16_find_item_in_directory hw TheDisk ?D nm s = Some (fi, s1)" "fi \<noteq> cp"
    "held p {(fi, 1), (cp, 1)} s s1" "objs s1 fi = Some (file_item cp)" "objs s1 cp = Some (OBytes (entry_of b j))"
    "kroom s \<le> kroom s1 + 2" "dev s1 = dev s"
    by (rule find_file_ok [OF heldD(2,1) [OF here(3)] directory_ready [OF here(7) pt(4,3)] tot here(1,2,9)])
  note h1 = held_trans(1) [OF here(3) f(3)] and disj = held_trans(2) [OF here(3) f(3)]
  have o1: "objs s1 cur = Some (directory_item d)" "directory_at d it b n s1"
    using here(6,7) held_old(3) [OF f(3)] by (simp_all add: directory_at_def)
  obtain s2 where s2: "fat16_fat_item_free cur s1 = Some s2" "held p (?B \<union> {(fi, 1), (cp, 1)} - ?B) s0 s2"
    "objs s2 = (objs s1)(it := None, d := None, cur := None)" "kroom s1 \<le> kroom s2" "dev s2 = dev s1"
    by (rule directory_item_free_ok [OF h1 _ _ _ here(4) o1, where k = k]) simp_all
  have "fat16_walk_path hw TheDisk cur nxt s = Some (fi, s2)"
    using pt(1,2,5) here(6) D f(1) s2(1)
    by (simp add: fat16_walk_path.simps [of _ _ cur] fat16_walk_path.simps [of _ _ _ 0] deref_def [of as_fat_item])
  then show ?case
    using f(2,4-7) s2(3-5) here(5) disj free_held_before [OF here(3) f(3) s2(2)]
    by (intro exI [of _ fi] exI [of _ cp] exI [of _ s2]) auto
next
  case (below b n c j n' cs item r cur d it k s nxt)
  let ?B = "{(cur, 1), (d, 1), (it, k)}" and ?D = "zero_directory\<lparr>fdir_total := int n, fdir_item := it\<rparr>"
  obtain nm nx where pt: "nxt \<noteq> 0" "deref as_path_part nxt s = Some \<lparr>part = nm, next_part = nx\<rparr>" "part_text c"
    "objs s nm = Some (part_buffer c)" "parts_at nx cs s0"
    by (rule parts_at_next [OF below(10,5)])
  have D: "deref as_fat_dir d s = Some ?D" using below(9) by (simp add: directory_at_def deref_def)
  have tot: "fdir_total ?D = int n" by simp
  have room: "2 + directory_blocks n' \<le> kroom s" using below(11) by simp
  obtain cur' d' it' s1 where f: "fat16_find_item_in_directory hw TheDisk ?D nm s = Some (cur', s1)"
    "distinct [cur', d', it']" "idle (dev s1)" "held p {(cur', 1), (d', 1), (it', directory_blocks n')} s s1"
    "objs s1 cur' = Some (directory_item d')" "directory_at d' it' (directory_bytes img p (entry_of b j) n') n' s1"
    "kroom s \<le> kroom s1 + (2 + directory_blocks n')"
    by (rule find_directory_ok [where idle = idle, OF hw below(7) heldD(2,1) [OF below(5)] directory_ready [OF below(9) pt(4,3)]
          tot below(1,2) room])
  note h1 = held_trans(1) [OF below(5) f(4)] and disj = held_trans(2) [OF below(5) f(4)]
  have o1: "objs s1 cur = Some (directory_item d)" "directory_at d it b n s1"
    using below(8,9) held_old(3) [OF f(4)] by (simp_all add: directory_at_def)
  obtain s2 where s2: "fat16_fat_item_free cur s1 = Some s2"
    "held p (?B \<union> {(cur', 1), (d', 1), (it', directory_blocks n')} - ?B) s0 s2"
    "objs s2 = (objs s1)(it := None, d := None, cur := None)" "kroom s1 \<le> kroom s2" "dev s2 = dev s1"
    by (rule directory_item_free_ok [OF h1 _ _ _ below(6) o1, where k = k]) simp_all
  have o2: "objs s2 cur' = Some (directory_item d')" "directory_at d' it' (directory_bytes img p (entry_of b j) n') n' s2"
    using f(5,6) disj by (auto simp: directory_at_def s2(3))
  have r2: "r \<le> kroom s2" and id2: "idle (dev s2)" using below(11) f(3,7) s2(4,5) by simp_all
  have "fat16_walk_path hw TheDisk cur nxt s = fat16_walk_path hw TheDisk cur' nx s2"
    using pt(1,2) below(8) D f(1) s2(1)
    by (simp add: fat16_walk_path.simps [of _ _ cur nxt] deref_def [of as_fat_item])
  then show ?case
    using below(4) [OF free_held_before [OF below(5) f(4) s2(2)] f(2) id2 o2 pt(5) r2] f(7) s2(4) by fastforce
qed

section \<open>Opening a file\<close>

lemma volume_loaded_held:
  assumes v: "volume_loaded img n p s" and h: "held p B s s'"
  shows "volume_loaded img n p s'"
  using v heldD(2) [OF h] held_old(3) [OF h] unfolding volume_loaded_def by blast

lemma parts_at_held: "parts_at pt cs s \<Longrightarrow> held p B s s' \<Longrightarrow> parts_at pt cs s'"
proof (induction cs arbitrary: pt)
  case (Cons c cs)
  then obtain nm nx where o: "pt \<noteq> 0" "part_text c" "objs s pt = Some (OPathPart \<lparr>part = nm, next_part = nx\<rparr>)"
    "objs s nm = Some (part_buffer c)" "parts_at nx cs s"
    by auto
  have "objs s' pt = Some (OPathPart \<lparr>part = nm, next_part = nx\<rparr>)" "objs s' nm = Some (part_buffer c)"
    using held_old(3) [OF Cons.prems(2) o(3)] held_old(3) [OF Cons.prems(2) o(4)] by (simp_all add: part_buffer_def)
  then show ?case using o(1,2) Cons.IH [OF o(5) Cons.prems(2)] by auto
qed simp

lemma directory_entry_ok:
  fixes s :: "('d, 'a) diskmem_scheme"
  assumes hw: "ata_ok hw img idle xfer" and idle: "idle (dev s)" and v: "volume_loaded img n p s" and inv: "kmem_inv s"
    and names: "names_file img p (root_bytes img) (root_count img n) cs item r" and pt: "parts_at pt cs s" and room: "r \<le> kroom s"
  obtains fi cp s' where "fat16_get_directory_entry hw TheDisk pt s = Some (fi, s')" "fi \<noteq> cp" "idle (dev s')"
    "held p {(fi, 1), (cp, 1)} s s'" "objs s' fi = Some (file_item cp)" "objs s' cp = Some (OBytes item)" "kroom s \<le> kroom s' + r"
proof -
  have m: "fat_mounted p s" using v by (simp add: volume_loaded_def)
  note root = volume_root [OF v]
  obtain c cs' where cs: "cs = c # cs'" using names_file_cons [OF names] by (cases cs) auto
  obtain nm nx where o: "deref as_path_part pt s = Some \<lparr>part = nm, next_part = nx\<rparr>" "part_text c"
    "objs s nm = Some (part_buffer c)" "parts_at nx cs' s"
    using parts_at_next [OF pt [unfolded cs] held_refl [OF inv m]] by blast
  have f: "find_ready (root_directory p) (root_bytes img) nm c s"
    using root(1) o(2,3) by (simp add: find_ready_def part_text_def)
  from names show thesis
  proof cases
    case (here c0 k)
    then have k: "only_match (root_bytes img) (root_count img n) c k" and nx: "nx = 0" using o(4) by (simp_all add: cs)
    have r2: "2 \<le> kroom s" using room here(3) by simp
    obtain fi cp s' where e: "fat16_find_item_in_directory hw TheDisk (root_directory p) nm s = Some (fi, s')" "fi \<noteq> cp"
      "held p {(fi, 1), (cp, 1)} s s'" "objs s' fi = Some (file_item cp)" "objs s' cp = Some (OBytes (entry_of (root_bytes img) k))"
      "kroom s \<le> kroom s' + 2" "dev s' = dev s"
      by (rule find_file_ok [OF m inv f root(2) k here(5) r2])
    have "fi \<noteq> 0" using held_present(3) [OF e(3)] by blast
    then have "fat16_get_directory_entry hw TheDisk pt s = Some (fi, s')"
      using o(1) e(1) root(3) nx by (simp add: fat16_get_directory_entry_def fat16_walk_path.simps)
    then show thesis using e idle here(2,3) by (intro that) simp_all
  next
    case (below c0 k n' cs0 r')
    then have k: "only_match (root_bytes img) (root_count img n) c k" and cs': "cs' = cs0" by (simp_all add: cs)
    have r2: "2 + directory_blocks n' \<le> kroom s" using room below(2) by simp
    obtain cur d it s1 where e: "fat16_find_item_in_directory hw TheDisk (root_directory p) nm s = Some (cur, s1)"
      "distinct [cur, d, it]" "idle (dev s1)" "held p {(cur, 1), (d, 1), (it, directory_blocks n')} s s1"
      "objs s1 cur = Some (directory_item d)" "directory_at d it (directory_bytes img p (entry_of (root_bytes img) k) n') n' s1"
      "kroom s \<le> kroom s1 + (2 + directory_blocks n')"
      by (rule find_directory_ok [where idle = idle, OF hw idle m inv f root(2) k below(4) r2])
    have r1: "r' \<le> kroom s1" using room below(2) e(7) by simp
    obtain fi cp s' where w: "fat16_walk_path hw TheDisk cur nx s1 = Some (fi, s')" "fi \<noteq> cp" "idle (dev s')"
      "held p {(fi, 1), (cp, 1)} s s'" "objs s' fi = Some (file_item cp)" "objs s' cp = Some (OBytes item)" "kroom s1 \<le> kroom s' + r'"
      using walk_path_ok [OF hw below(5) e(4,2,3,5,6) o(4) [unfolded cs'] r1] by blast
    have "cur \<noteq> 0" using held_present(3) [OF e(4)] by blast
    then have "fat16_get_directory_entry hw TheDisk pt s = Some (fi, s')"
      using o(1) e(1) root(3) w(1) by (simp add: fat16_get_directory_entry_def)
    moreover have "kroom s \<le> kroom s' + r" using w(7) e(7) below(2) by linarith
    ultimately show thesis using w(2-6) by (intro that) simp_all
  qed
qed

lemma open_path_ok:
  fixes s :: "('d, 'a) diskmem_scheme"
  assumes hw: "ata_ok hw img idle xfer" and idle: "idle (dev s)" and v: "volume_loaded img n p s" and inv: "kmem_inv s"
    and names: "names_file img p (root_bytes img) (root_count img n) cs item r" and pt: "parts_at pt cs s"
    and room: "1 + r \<le> kroom s"
  obtains D fi cp s' where "fat16_open hw TheDisk pt FILE_MODE_READ s = Some (D, s')" "distinct [D, fi, cp]" "idle (dev s')"
    "held p {(D, 1), (fi, 1), (cp, 1)} s s'" "objs s' D = Some (OFatFd \<lparr>ffd_item = fi, ffd_pos = 0\<rparr>)"
    "objs s' fi = Some (file_item cp)" "objs s' cp = Some (OBytes item)" "kroom s \<le> kroom s' + (1 + r)"
proof -
  have m: "fat_mounted p s" using v by (simp add: volume_loaded_def)
  have sz: "(8 :: u32) \<noteq> 0" "unat (8 :: u32) \<le> 4294963200" "blocks_for 8 = 1" by (simp_all add: blocks_for_small)
  have r1: "blocks_for 8 \<le> kroom s" using room by (simp add: sz(3))
  obtain D s1 where a: "alloc_as 8 (OFatFd \<lparr>ffd_item = 0, ffd_pos = 0\<rparr>) s = Some (D, s1)"
    "held p {(D, blocks_for 8)} s s1" "objs s1 D = Some (OFatFd \<lparr>ffd_item = 0, ffd_pos = 0\<rparr>)"
    "kroom s \<le> kroom s1 + blocks_for 8" "dev s1 = dev s"
    by (rule held_alloc [OF inv m sz(1,2) r1])
  have id1: "idle (dev s1)" and r2: "r \<le> kroom s1" using idle a(4,5) room by (simp_all add: sz(3))
  obtain fi cp s2 where b: "fat16_get_directory_entry hw TheDisk pt s1 = Some (fi, s2)" "fi \<noteq> cp" "idle (dev s2)"
    "held p {(fi, 1), (cp, 1)} s1 s2" "objs s2 fi = Some (file_item cp)" "objs s2 cp = Some (OBytes item)" "kroom s1 \<le> kroom s2 + r"
    by (rule directory_entry_ok [where idle = idle, OF hw id1 volume_loaded_held [OF v a(2)] heldD(1) [OF a(2)] names
          parts_at_held [OF pt a(2)] r2])
  have h2: "held p {(D, 1), (fi, 1), (cp, 1)} s s2" and ne: "distinct [D, fi, cp]"
    using held_trans [OF a(2) b(4)] b(2) by (auto simp: sz(3) insert_commute)
  have o2: "objs s2 D = Some (OFatFd \<lparr>ffd_item = 0, ffd_pos = 0\<rparr>)" by (rule held_old(3) [OF b(4) a(3)]) simp
  let ?s3 = "setobj D (OFatFd \<lparr>ffd_item = fi, ffd_pos = 0\<rparr>) s2"
  have h3: "held p {(D, 1), (fi, 1), (cp, 1)} s ?s3" by (rule held_store [OF h2, where k = 1]) simp
  have o3: "objs ?s3 D = Some (OFatFd \<lparr>ffd_item = fi, ffd_pos = 0\<rparr>)" by simp
  have nz: "D \<noteq> 0" "fi \<noteq> 0" using held_present(3) [OF h2] by blast+
  have run: "fat16_open hw TheDisk pt FILE_MODE_READ s = Some (D, ?s3)"
    using a(1) b(1) nz o2 by (simp add: fat16_open_def deref_def store_eq [OF o2] store_eq [OF o3] setobj_same [OF o3])
  have "idle (dev ?s3)" using b(3) by (simp add: setobj_def)
  moreover have "kroom s \<le> kroom ?s3 + (1 + r)" using a(4) b(7) by (simp add: sz(3))
  ultimately show thesis using b(5,6) ne by (intro that [OF run ne _ h3 o3]) auto
qed

text \<open>The path is parsed on a mounted volume.\<close>

lemma parse_on_volume:
  fixes s :: "('d, 'a) vfsmem_scheme"
  assumes v: "volume_loaded img n p s" and inv: "kmem_inv s" and path: "0 \<in> set path" "path_ok path" "drive_of path = 0"
    and cs: "cs = parts_of (drop 3 path)" "cs \<noteq> []" and room: "2 * length cs + 3 < kroom s"
  obtains root pt s1 where "pathparser_parse path s = Some (root, s1)" "root \<noteq> 0" "pt \<noteq> 0"
    "objs s1 root = Some (OPathRoot \<lparr>drive_no = 0, first_part = pt\<rparr>)" "parts_at pt cs s1" "keeps s s1"
    "kmem_inv s1" "kavail s = kavail s1 + (2 * length cs + 1)" "kroom s \<le> kroom s1 + (2 * length cs + 3)"
    "disk s1 = disk s" "dev s1 = dev s" "file_descriptors s1 = file_descriptors s" "volume_loaded img n p s1"
proof -
  have av: "2 * length (parts_of (drop 3 path)) + 1 < kavail s" using room kroom_le_avail [of s] by (simp add: cs(1))
  obtain root ns and s1 :: "('d, 'a) vfsmem_scheme" where a: "pathparser_parse path s = Some (root, s1)" "root \<noteq> 0"
    "map (\<lambda>(n, q, c). c) ns = cs" "distinct (root # chain_ptrs ns)"
    "objs s1 root = Some (OPathRoot \<lparr>drive_no = 0, first_part = head_of ns\<rparr>)"
    "parts_at (head_of ns) cs s1" "grown s (set (root # chain_ptrs ns)) s1"
    "objs s1 = objs s ++ path_objs root 0 ns" "keeps s s1"
    by (rule parse_path_ok [OF inv path(1,2) av, unfolded path(3), folded cs(1)])
  have "length ns = length cs" using a(3) by (metis length_map)
  then have "card (set (root # chain_ptrs ns)) = 2 * length cs + 1" using distinct_card [OF a(4)] by (simp add: length_chain_ptrs)
  then have k: "kavail s = kavail s1 + (2 * length cs + 1)" using grownD(6) [OF a(7)] by simp
  have "charged (2 * length cs + 3) s s1"
    by (rule parse_charged [OF inv path(1,2) _ _ a(1)]) (use room in \<open>simp_all add: cs(1)\<close>)
  then have r: "kroom s \<le> kroom s1 + (2 * length cs + 3)" using inv by (simp add: charged_def)
  have t: "disk s1 = disk s" "dev s1 = dev s" "file_descriptors s1 = file_descriptors s" using grown_vfs [OF a(7)] by simp_all
  have "head_of ns \<noteq> 0" using a(6) cs(2) by (cases cs) auto
  then show thesis
    by (rule that [OF a(1,2) _ a(5,6,9) grownD(2) [OF a(7)] k r t volume_loaded_keeps [OF v a(9) t(1)]])
qed

lemma fopen_path_ok:
  fixes s :: "('d, 'a) vfsmem_scheme"
  assumes hw: "ata_ok hw img idle xfer" and idle: "idle (dev s)" and v: "volume_loaded img n p s"
    and fs: "dk_filesystem (disk s) = Fat16Fs" and inv: "kmem_inv s"
    and path: "0 \<in> set path" "path_ok path" "drive_of path = 0"
    and names: "names_file img p (root_bytes img) (root_count img n) (parts_of (drop 3 path)) item r"
    and room: "2 * length (parts_of (drop 3 path)) + r + 5 \<le> kroom s"
    and len: "length (file_descriptors s) = 512" and i: "free_slot 0 (file_descriptors s) 0 = Some i"
  obtains desc D fi cp s' where "fopen (\<lambda>_. fat16_fs hw) path (114 # m) s = Some (int i + 1, s')" "desc \<noteq> 0"
    "file_chain desc D fi cp (int i + 1) 0 item s'" "file_descriptors s' = (file_descriptors s)[i := desc]"
    "volume_loaded img n p s'" "\<forall>q. objs s q \<noteq> None \<longrightarrow> q \<notin> fat_streams p \<longrightarrow> objs s' q = objs s q"
    "kmem_inv s'" "idle (dev s')" "kavail s = kavail s' + 2 * length (parts_of (drop 3 path)) + 5"
proof -
  let ?cs = "parts_of (drop 3 path)"
  have rm: "2 * length ?cs + 3 < kroom s" using room by simp
  obtain root pt and s1 :: "('d, 'a) vfsmem_scheme" where a: "pathparser_parse path s = Some (root, s1)" "root \<noteq> 0" "pt \<noteq> 0"
    "objs s1 root = Some (OPathRoot \<lparr>drive_no = 0, first_part = pt\<rparr>)" "parts_at pt ?cs s1" "keeps s s1"
    "kmem_inv s1" "kavail s = kavail s1 + (2 * length ?cs + 1)" "kroom s \<le> kroom s1 + (2 * length ?cs + 3)"
    "disk s1 = disk s" "dev s1 = dev s" "file_descriptors s1 = file_descriptors s" "volume_loaded img n p s1"
    by (rule parse_on_volume [OF v inv path refl names_file_cons [OF names] rm])
  have id1: "idle (dev s1)" and r1: "1 + r \<le> kroom s1" "1 + r < kroom s1" using idle room a(9,11) by simp_all
  obtain D fi cp s2 where b: "fat16_open hw TheDisk pt FILE_MODE_READ s1 = Some (D, s2)" "distinct [D, fi, cp]"
    "idle (dev s2)" "held p {(D, 1), (fi, 1), (cp, 1)} s1 s2" "objs s2 D = Some (OFatFd \<lparr>ffd_item = fi, ffd_pos = 0\<rparr>)"
    "objs s2 fi = Some (file_item cp)" "objs s2 cp = Some (OBytes item)" "kroom s1 \<le> kroom s2 + (1 + r)"
    by (rule open_path_ok [where idle = idle, OF hw id1 a(13,7) names a(5) r1(1)])
  have i2: "kmem_inv s2" "0 < kavail s2" using heldD(1) [OF b(4)] r1(2) b(8) kroom_le_avail [of s2] by simp_all
  have t2: "disk s2 = disk s1" "file_descriptors s2 = file_descriptors s"
    using heldD(3,4) [OF b(4)] vfs_more_table(2) [of s2 s1] a(12) by simp_all
  have k2: "kavail s1 = kavail s2 + 3" using heldD(5) [OF b(4)] b(2) by simp
  have ne: "\<not> ISERR D" by (rule heap_pointer_not_error(1) [OF i2(1)]) (simp add: b(5))
  have fs1: "dk_filesystem (disk s1) = Fat16Fs" and len2: "length (file_descriptors s2) = 512"
    and fr2: "free_slot 0 (file_descriptors s2) 0 = Some i"
    and op: "fs_open ((\<lambda>_. fat16_fs hw) Fat16Fs) TheDisk pt FILE_MODE_READ s1 = Some (D, s2)"
    using len i fs b(1) by (simp_all add: a(10) t2 fat16_fs_def)
  obtain desc s4 where c: "fopen (\<lambda>_. fat16_fs hw) path (114 # m) s = Some (int i + 1, s4)" "desc \<noteq> 0" "objs s2 desc = None"
    "objs s4 = (objs s2)(desc \<mapsto> OFileDesc \<lparr>fd_index = int i + 1, fd_filesystem = Fat16Fs, fd_private = D, fd_disk = TheDisk\<rparr>)"
    "file_descriptors s4 = (file_descriptors s2)[i := desc]" "kmem_inv s4"
    "kavail s2 = kavail s4 + 1" "dev s4 = dev s2" "disk s4 = disk s2" "charged 1 s2 s4"
    by (rule fopen_opened [where fs = "\<lambda>_. fat16_fs hw" and m = m, OF a(1-4) fs1 t2(1) op ne i2(1,2) len2 fr2])
  have k4: "keeps s2 s4" by (rule keeps_upd [OF c(3,4)])
  have chain: "file_chain desc D fi cp (int i + 1) 0 item s4"
    using c(4) keepsD [OF k4 b(5)] keepsD [OF k4 b(6)] keepsD [OF k4 b(7)] by (simp add: file_chain_def)
  have v4: "volume_loaded img n p s4" by (rule volume_loaded_keeps [OF volume_loaded_held [OF a(13) b(4)] k4 c(9)])
  have "objs s4 q = objs s q" if q: "objs s q \<noteq> None" "q \<notin> fat_streams p" for q
  proof -
    have o1: "objs s1 q = objs s q" using a(6) q(1) by (simp add: keeps_def)
    then have "q \<notin> fst ` {(D, 1), (fi, 1), (cp, 1 :: nat)}" using held_present(1) [OF b(4)] q(1) by fastforce
    then have "objs s2 q = objs s q" using b(4) q(2) o1 by (simp add: held_def)
    then show ?thesis using k4 q(1) by (simp add: keeps_def)
  qed
  then show thesis
    using c t2(2) b(3) a(8) k2 v4 chain by (intro that [OF c(1,2) chain]) simp_all
qed

section \<open>Properties\<close>

text \<open>
  C36. \<^verbatim>\<open>fopen\<close> of a path through any number of directories, in any case of letters, takes the first
  free descriptor; it is open at position 0 on the entry of the file that the path names in the
  directory tree on the disk. The volume stays mounted and no older object but the streams of the
  driver changes. Every directory loaded on the way is given back: the file takes four blocks, and
  the parsed path, which is never given back, one and two more for each of its parts.
\<close>

theorem fopen_opens_file:
  fixes s :: "('d, 'a) vfsmem_scheme"
  assumes "ata_ok hw img idle xfer" and "idle (dev s)" and "volume_loaded img n p s"
    and "dk_filesystem (disk s) = Fat16Fs" and "kmem_inv s"
    and "0 \<in> set path" and "path_ok path" and "drive_of path = 0"
    and "names_file img p (root_bytes img) (root_count img n) (parts_of (drop 3 path)) item r"
    and "2 * length (parts_of (drop 3 path)) + r + 5 \<le> kroom s"
    and "length (file_descriptors s) = 512" and "free_slot 0 (file_descriptors s) 0 = Some i" and "i < 511"
  shows "\<exists>d fi s'. fopen (\<lambda>_. fat16_fs hw) path (114 # m) s = Some (int i + 1, s') \<and>
    open_file (int i + 1) d \<lparr>ffd_item = fi, ffd_pos = 0\<rparr> item s' \<and> volume_loaded img n p s' \<and> idle (dev s') \<and>
    (\<forall>q. objs s q \<noteq> None \<longrightarrow> q \<notin> fat_streams p \<longrightarrow> objs s' q = objs s q) \<and> kmem_inv s' \<and>
    kavail s = kavail s' + 2 * length (parts_of (drop 3 path)) + 5"
proof -
  obtain desc D fi cp s' where f: "fopen (\<lambda>_. fat16_fs hw) path (114 # m) s = Some (int i + 1, s')" "desc \<noteq> 0"
    "file_chain desc D fi cp (int i + 1) 0 item s'" "file_descriptors s' = (file_descriptors s)[i := desc]"
    "volume_loaded img n p s'" "\<forall>q. objs s q \<noteq> None \<longrightarrow> q \<notin> fat_streams p \<longrightarrow> objs s' q = objs s q"
    "kmem_inv s'" "idle (dev s')" "kavail s = kavail s' + 2 * length (parts_of (drop 3 path)) + 5"
    by (rule fopen_path_ok [where m = m and idle = idle, OF assms(1-12)])
  have "file_get_descriptor (int i + 1) s' = Some desc"
    using assms(11,13) f(4) by (simp add: file_get_descriptor_def)
  from file_chain_open [OF f(3) _ this f(2)] f(1,5-9) show ?thesis
    by (intro exI conjI) (assumption | simp)+
qed

text \<open>
  The sample volume with the directory \<open>BIN\<close> in its root, in the sector 6, and the file
  \<open>HELLO.TXT\<close> in that directory.
\<close>

definition tree_item :: "u8 list" where
  "tree_item = [66, 73, 78, 32, 32, 32, 32, 32, 32, 32, 32, 0x10] @ replicate 14 0 @ [4, 0, 0, 0, 0, 0]"

definition dots_items :: "u8 list" where
  "dots_items = [46, 32, 32, 32, 32, 32, 32, 32, 32, 32, 32, 0x10] @ replicate 14 0 @ [4, 0, 0, 0, 0, 0] @
     [46, 46, 32, 32, 32, 32, 32, 32, 32, 32, 32, 0x10] @ replicate 20 0"

definition tree_vol :: "nat \<Rightarrow> u8 list" where
  "tree_vol lba = (if lba = 3 then tree_item @ replicate 480 0
     else if lba = 6 then dots_items @ sample_item @ replicate 416 0
     else sample_vol (replicate 512 4) lba)"

lemma tree_vol_ok: "ata_ok (sample_ata tree_vol) tree_vol (\<lambda>_. True) (\<lambda>d lba n. sd_queue d = sample_words tree_vol lba n)"
  by (rule sample_ata_ok)
    (simp add: tree_vol_def tree_item_def dots_items_def sample_vol_def sample_header_def sample_fat_def sample_root_def sample_item_def)

lemma tree_header: "img_bytes tree_vol 0 62 = sample_header"
proof -
  have "img_bytes tree_vol 0 62 = img_bytes sample_volume 0 62"
    by (rule nth_equalityI) (simp_all add: img_byte_def tree_vol_def)
  then show ?thesis by (simp add: sample_header_read)
qed

lemma tree_sector:
  assumes "n \<le> 512" and "length (tree_vol k) = 512"
  shows "img_bytes tree_vol (512 * k) n = take n (tree_vol k)"
proof (rule nth_equalityI)
  fix i assume "i < length (img_bytes tree_vol (512 * k) n)"
  then have "i < 512" "i < n" using assms by simp_all
  then show "img_bytes tree_vol (512 * k) n ! i = take n (tree_vol k) ! i"
    using sector_split [of i k] by (simp add: img_byte_def)
qed (use assms in simp)

lemma tree_sectors: "tree_vol 3 = tree_item @ replicate 480 0" "tree_vol 6 = dots_items @ sample_item @ replicate 416 0"
  "length (tree_vol 3) = 512" "length (tree_vol 6) = 512"
  by (simp_all add: tree_vol_def tree_item_def dots_items_def sample_item_def)

lemma tree_dirs:
  "dir_end tree_vol 1536 1" "dir_count tree_vol 1536 1 = 1" "dir_end tree_vol 3072 3" "dir_count tree_vol 3072 3 = 3"
proof -
  have "img_byte tree_vol 1536 = 66" "img_byte tree_vol 1568 = 0" "img_byte tree_vol 3072 = 46" "img_byte tree_vol 3104 = 46"
    "img_byte tree_vol 3136 = 72" "img_byte tree_vol 3168 = 0"
    by (simp_all add: img_byte_def tree_vol_def tree_item_def dots_items_def sample_item_def nth_append)
  moreover have "\<And>P. (\<forall>k < 3 :: nat. P k) \<longleftrightarrow> P 0 \<and> P 1 \<and> P 2" by (auto simp: numeral_3_eq_3 less_Suc_eq numeral_2_eq_2)
  moreover have "[0..<3] = [0, 1, 2 :: nat]" "[0..<1] = [0 :: nat]" by (simp_all add: upt_rec)
  ultimately show "dir_end tree_vol 1536 1" "dir_count tree_vol 1536 1 = 1" "dir_end tree_vol 3072 3" "dir_count tree_vol 3072 3 = 3"
    by (simp_all add: dir_end_def dir_count_def)
qed

lemma tree_root: "root_bytes tree_vol = tree_item @ replicate 480 0" "root_count tree_vol 1 = 1"
  using tree_sector [of 512 3] tree_sectors
  by (simp_all add: root_bytes_def root_count_def tree_header sample_root_fields tree_dirs del: One_nat_def)

lemma tree_entries:
  "entry_of (tree_item @ b) 0 = tree_item" "entry_of (dots_items @ sample_item) 2 = sample_item"
  "short_name (tree_item @ b) = [66, 73, 78]" "short_name (dots_items @ b) = [46]"
  "short_name (drop 32 (dots_items @ b)) = [46, 46]" "short_name (drop 64 (dots_items @ sample_item)) = [72, 69, 76, 76, 79, 46, 84, 88, 84]"
  by (simp_all add: entry_of_def short_name_def name_byte_def tree_item_def dots_items_def sample_item_def)

text \<open>The path \<open>0:/bin/hello.txt\<close>.\<close>

definition tree_file :: "u8 list" where
  "tree_file = [48, 58, 47, 98, 105, 110, 47] @ drop 3 sample_file"

abbreviation (input) hello_name :: "u8 list" where
  "hello_name \<equiv> [104, 101, 108, 108, 111, 46, 116, 120, 116]"

lemma tree_path: "0 \<in> set tree_file" "path_ok tree_file" "drive_of tree_file = 0"
  "parts_of (drop 3 tree_file) = [[98, 105, 110], hello_name]"
proof -
  show "parts_of (drop 3 tree_file) = [[98, 105, 110], hello_name]" by code_simp
qed (simp_all add: tree_file_def sample_file_def path_ok_def isdigit_def drive_of_def tonumericdigit_def cstr_def)

lemma tree_names:
  assumes "volume_loaded tree_vol 1 p s"
  shows "names_file tree_vol p (root_bytes tree_vol) (root_count tree_vol 1) (parts_of (drop 3 tree_file)) sample_item 5"
proof -
  have h: "fp_header p = sample_header" "ending_sector_pos (root_directory p) = 4"
    using assms by (auto simp: volume_loaded_def tree_header sample_root_fields)
  have cb: "cluster_bytes p = 512" and cp: "cluster_pos p 4 = 3072"
    by (simp_all add: cluster_bytes_def cluster_pos_def fat16_cluster_to_sector_def h sample_header_fields)
  have c4: "entry_cluster tree_item = 4"
    by (simp add: entry_cluster_def fat16_get_first_cluster_def it_high_cluster_def it_low_cluster_def le16_def tree_item_def nth_append)
  have ch: "fat_chain (fat_entry tree_vol p) 0 4 = Some 4" by simp
  have at: "it_attribute tree_item AND FAT_FILE_SUBDIRECTORY \<noteq> 0" "it_attribute sample_item AND FAT_FILE_SUBDIRECTORY = 0"
    by (simp_all add: it_attribute_def tree_item_def sample_item_def)
  have ext: "file_extent_ok tree_vol p 4 (32 * 3)" by (simp add: file_extent_ok_def cb cp)
  have d: "directory_entries tree_vol p tree_item 3"
    using at(1) ext tree_dirs(3,4) by (auto simp: directory_entries_def Let_def c4 cb cp intro!: exI [of _ 3])
  have "directory_bytes tree_vol p tree_item 3 = img_bytes tree_vol (512 * 6) 96"
    unfolding directory_bytes_def c4 by (subst file_bytes_in_cluster [of _ _ _ _ 4]) (simp_all add: cb cp)
  also have "\<dots> = dots_items @ sample_item"
    using tree_sector [of 96 6] tree_sectors by (simp add: dots_items_def sample_item_def)
  finally have b: "directory_bytes tree_vol p tree_item 3 = dots_items @ sample_item" .
  have m1: "only_match (tree_item @ replicate 480 0) 1 [98, 105, 110] 0"
    by (simp add: only_match_def tree_entries(3) same_name_def tolower_def)
  have "same_name (short_name (drop (32 * j) (dots_items @ sample_item))) hello_name \<longleftrightarrow> j = 2" if "j < 3" for j
  proof -
    have "j = 0 \<or> j = 1 \<or> j = 2" using that by auto
    then show ?thesis
      by (elim disjE) (simp_all add: tree_entries same_name_def tolower_def del: drop_append)
  qed
  then have m2: "only_match (dots_items @ sample_item) 3 hello_name 2"
    by (simp add: only_match_def) (simp add: dots_items_def sample_item_def)
  have "names_file tree_vol p (dots_items @ sample_item) 3 [hello_name] sample_item 2"
    using names_file.here [OF m2] at(2) by (simp add: tree_entries(2))
  then have "names_file tree_vol p (directory_bytes tree_vol p (entry_of (tree_item @ replicate 480 0) 0) 3) 3 [hello_name]
      sample_item 2"
    by (simp only: tree_entries(1) b)
  from names_file.below [OF m1 _ this] d
  have "names_file tree_vol p (tree_item @ replicate 480 0) 1 [[98, 105, 110], hello_name] sample_item
      (2 + directory_blocks 3 + 2)"
    by (simp only: tree_entries(1))
  moreover have "directory_blocks 3 = 1" by (simp add: directory_blocks_def blocks_for_small)
  ultimately show ?thesis by (simp add: tree_root tree_path(4) del: One_nat_def)
qed

lemma fopen_opens_file_witness:
  "\<exists>s d fi s'. fopen (\<lambda>_. fat16_fs (sample_ata tree_vol)) tree_file [114, 0] (s :: (sample_dev, unit) vfsmem_scheme) =
       Some (1, s') \<and> open_file 1 d \<lparr>ffd_item = fi, ffd_pos = 0\<rparr> sample_item s'"
proof -
  have v: "volume_ok tree_vol 1" "mount_room tree_vol \<le> 6"
    using tree_dirs(1)
    by (simp_all add: volume_ok_def mount_room_def tree_header sample_root_fields sample_header_fields blocks_for_small)
  obtain p s where s: "volume_loaded tree_vol 1 p s" "dk_filesystem (disk s) = Fat16Fs"
    "kmem_inv (s :: (sample_dev, unit) vfsmem_scheme)" "94 \<le> kroom s" "file_descriptors s = replicate 512 0"
    by (rule image_booted [OF tree_vol_ok v])
  have "replicate 512 (0 :: ptr) = replicate (Suc 511) 0" by simp
  then have fr: "free_slot 0 (file_descriptors s) 0 = Some 0" unfolding s(5) by (simp only: free_slot_replicate)
  from fopen_opens_file [OF tree_vol_ok TrueI s(1-3) tree_path(1-3) tree_names [OF s(1)] _ _ fr, of "[0]"] s(4,5)
  show ?thesis by (auto simp: tree_path(4))
qed

end
