(* ===== verification/Kernel_Boot.thy ===== *)
theory Kernel_Boot
  imports Kernel Idt_Props Program_Load
begin

text \<open>
  The whole of \<^verbatim>\<open>kernel_main\<close> of \<^verbatim>\<open>src/src/kernel.c\<close>: every component starts in turn, a FAT16 disk
  is mounted, the first process is loaded and its task enters user mode.
\<close>

section \<open>Printing\<close>

definition boot_text :: "u8 list" where
  "boot_text = [72, 101, 108, 108, 111, 32, 87, 111, 114, 108, 100, 33, 10, 84, 101, 115, 116, 10]"

definition load_text :: "u8 list" where
  "load_text = [112, 114, 111, 99, 101, 115, 115, 32, 108, 111, 97, 100, 32,
     115, 117, 99, 99, 101, 115, 115, 102, 117, 108, 108, 10]"

lemma kernel_texts:
  "c_string (''Hello World!'' @ [CHR 10] @ ''Test'' @ [CHR 10]) = boot_text @ [0]"
  "c_string (''process load successfull'' @ [CHR 10]) = load_text @ [0]"
  by code_simp+

lemma kernel_texts_cstr: "cstr (boot_text @ [0]) = boot_text" "cstr (load_text @ [0]) = load_text"
  by (simp_all add: cstr_def boot_text_def load_text_def)

lemma print_s_ok:
  assumes "terminal_inv (screen s)" and "cstr (cs @ [0]) = cs" and "length cs < 4000"
    and "fits cs (snd (screen_of (screen s))) (length (vga (screen s)))"
  obtains t where "print_s (cs @ [0]) s = Some (s\<lparr>screen := t\<rparr>)" "terminal_inv t"
    "screen_of t = fold screen_put cs (screen_of (screen s))"
proof -
  have "0 \<in> set (cs @ [0])" "length (cs @ [0]) < 4294967296" using assms(3) by simp_all
  from print_ok [OF assms(1) this] assms(2,4) obtain t where "print (cs @ [0]) (screen s) = Some t" "terminal_inv t"
    "screen_of t = fold screen_put cs (screen_of (screen s))" by auto
  then show thesis by (intro that [of t]) (simp_all add: print_s_def)
qed

text \<open>The screen after the first message.\<close>

definition boot_screen :: "u16 list \<Rightarrow> screen" where
  "boot_screen cells = fold screen_put boot_text (replicate 1600 0x20 @ drop 1600 cells, 0)"

lemma boot_screen_pos: "snd (boot_screen cells) = 160"
  by (simp add: boot_screen_def boot_text_def)

lemma fits_less: "fits cs p n \<Longrightarrow> n \<le> m \<Longrightarrow> fits cs p m"
  by (induction cs arbitrary: p) (auto split: if_splits)

lemma load_fits: "fits load_text (snd (boot_screen cells)) 1600"
  by (simp add: boot_screen_pos load_text_def)

lemma screen_put_length: "length (fst (fold screen_put cs p)) = length (fst p)"
  by (induction cs arbitrary: p) (simp_all split: prod.splits, auto)

lemma boot_screen_length: "1600 \<le> length cells \<Longrightarrow> length (fst (boot_screen cells)) = length cells"
  by (simp add: boot_screen_def screen_put_length)

lemma boot_print_ok:
  assumes "1600 \<le> length (vga (screen s))" and "length (vga (screen s)) \<le> 16384"
  obtains t0 t where "terminal_initialize (screen s) = Some t0"
    "print_s (boot_text @ [0]) (s\<lparr>screen := t0\<rparr>) = Some (s\<lparr>screen := t\<rparr>)" "terminal_inv t"
    "screen_of t = boot_screen (vga (screen s))"
proof -
  let ?t = "(screen s)\<lparr>video_mem := 0xB8000, terminal_row := 0, terminal_col := 0,
    vga := replicate 1600 0x20 @ drop 1600 (vga (screen s))\<rparr>"
  let ?s = "s\<lparr>screen := ?t\<rparr>"
  have ne: "vga (screen s) \<noteq> []" using assms(1) by auto
  have i: "terminal_initialize (screen s) = Some ?t" by (rule terminal_initialize_eq [OF assms(1)])
  have p: "terminal_inv (screen ?s)" "length boot_text < 4000"
    "fits boot_text (snd (screen_of (screen ?s))) (length (vga (screen ?s)))"
    using assms ne by (simp_all add: terminal_inv_def boot_text_def screen_of_def)
  obtain t where t: "print_s (boot_text @ [0]) ?s = Some (?s\<lparr>screen := t\<rparr>)" "terminal_inv t"
    "screen_of t = fold screen_put boot_text (screen_of (screen ?s))"
    by (rule print_s_ok [OF p(1) kernel_texts_cstr(1) p(2,3)])
  show thesis by (rule that [OF i, of t]) (use t in \<open>simp_all add: boot_screen_def screen_of_def\<close>)
qed

section \<open>Up to paging\<close>

lemma more_boot_fields:
  assumes "vfsmem.more s' = vfsmem.more s"
  shows "processes s' = processes s" "screen s' = screen s" "interrupt_callbacks s' = interrupt_callbacks s"
    "gdt_real s' = gdt_real s" "gdtr s' = gdtr s" "task_head s' = task_head s" "task_tail s' = task_tail s"
    "current_task s' = current_task s" "isr80h_commands s' = isr80h_commands s"
  using assms by (cases s; cases s'; simp)+

lemma more_kernel_fields:
  assumes "kmem.more s' = kmem.more s"
  shows "processes s' = processes s" "screen s' = screen s" "interrupt_callbacks s' = interrupt_callbacks s"
    "gdt_real s' = gdt_real s" "gdtr s' = gdtr s" "task_head s' = task_head s" "task_tail s' = task_tail s"
    "current_task s' = current_task s" "idtr s' = idtr s" "idt_descriptors s' = idt_descriptors s"
    "the_tss s' = the_tss s" "tr s' = tr s" "disk s' = disk s" "dev s' = dev s" "cr0 s' = cr0 s"
    "isr80h_commands s' = isr80h_commands s"
  using assms by (cases s; cases s'; simp)+

text \<open>\<^verbatim>\<open>paging_new_4gb\<close> for the kernel, with the room it leaves.\<close>

lemma kernel_chunk_ok:
  assumes inv: "kmem_inv s" and room: "1026 \<le> kroom s"
  obtains chunk directory s' where
    "paging_new_4gb (PAGING_IS_WRITEABLE OR PAGING_IS_PRESENT OR PAGING_ACCESS_FROM_ALL) s = Some (chunk, s')"
    "kmem_inv s'" "kmem.more s' = kmem.more s" "objs s' chunk = Some (OChunk \<lparr>directory_entry = directory\<rparr>)"
    "\<forall>v. v mod 4096 = 0 \<longrightarrow> paging_get directory v s' = Some (v OR 7)"
    "\<forall>q. objs s q \<noteq> None \<longrightarrow> objs s' q = objs s q" "kroom s \<le> kroom s' + 1026"
proof -
  let ?fl = "PAGING_IS_WRITEABLE OR PAGING_IS_PRESENT OR PAGING_ACCESS_FROM_ALL"
  have av: "1026 \<le> kavail s" using room kroom_le_avail [of s] by simp
  obtain chunk directory ts s' where
    new: "paging_new_4gb ?fl s = Some (chunk, s')" "kmem_inv s'" "length ts = 1024" "distinct (chunk # directory # ts)"
    and fresh: "\<forall>t \<in> {chunk, directory} \<union> set ts. t \<noteq> 0 \<and> t mod 4096 = 0 \<and> objs s t = None"
    and ob: "objs s' = (objs s ++ table_objs ?fl ts)(directory \<mapsto> OWords (map (dir_entry ?fl) ts),
       chunk \<mapsto> OChunk \<lparr>directory_entry = directory\<rparr>)"
    and more: "kmem.more s' = kmem.more s"
    by (rule new_4gb_ok [OF inv av, of ?fl])
  have al: "\<forall>t \<in> set ts. t mod 4096 = 0" using fresh by blast
  have get: "\<forall>v. v mod 4096 = 0 \<longrightarrow> paging_get directory v s' = Some (v OR 7)"
    using new_4gb_chunk(2) [OF new(3,4) al ob] by simp
  have old: "objs s' q = objs s q" if "objs s q \<noteq> None" for q
  proof -
    have "q \<noteq> chunk" "q \<noteq> directory" "q \<notin> set ts" using that fresh by auto
    then show ?thesis by (simp add: ob map_add_def table_objs_None [THEN iffD2])
  qed
  show thesis
    by (rule that [OF new(1,2) more _ get]) (use ob old new_4gb_charged [OF new(1)] inv in \<open>auto simp: charged_def\<close>)
qed

text \<open>A volume survives what keeps every object and the disk.\<close>

lemma volume_loaded_kept:
  assumes "volume_loaded img n p s" and "disk s' = disk s" and "\<forall>q x. objs s q = Some x \<longrightarrow> (\<forall>ws. x \<noteq> OWords ws) \<longrightarrow> objs s' q = Some x"
  shows "volume_loaded img n p s'"
proof -
  have "fat_mounted p s" using assms(1) by (simp add: volume_loaded_def)
  then have "fat_mounted p s'" using assms(2,3) by (fastforce simp: fat_mounted_def)
  moreover have "objs s' q = Some (OBytes bs)" if "objs s q = Some (OBytes bs)" for q bs using assms(3) that by blast
  ultimately show ?thesis using assms(1) by (auto simp: volume_loaded_def)
qed

text \<open>The heap that \<^verbatim>\<open>kheap_init\<close> leaves.\<close>

lemma fresh_heap_ok:
  assumes "length raw = 25600" and "objs s = Map.empty"
  obtains h where "kheap_init raw s = Some (0, s\<lparr>kernel_heap := h\<rparr>)" "kmem_inv (s\<lparr>kernel_heap := h\<rparr>)"
    "kroom (s\<lparr>kernel_heap := h\<rparr>) = 25600"
proof -
  let ?h = "\<lparr>hp_table = \<lparr>ht_entries = replicate 25600 0, ht_total = 25600\<rparr>, hp_saddr = 0x01000000\<rparr>"
  have rep: "heap_rep ?h (replicate 25600 Free)" by (rule heap_rep_all_free) simp_all
  have "heap_live ?h = {}" using heap_rep_segs [OF rep] by (simp add: heap_live_def)
  then show thesis
    using rep heap_rep_segs [OF rep] assms(2)
    by (intro that [OF kheap_init_eq [OF assms(1)]]) (auto simp: kmem_inv_def heap_inv_def kroom_def)
qed

text \<open>A system-call table in which nothing is registered.\<close>

definition no_commands :: "nat list \<Rightarrow> bool" where
  "no_commands cs \<longleftrightarrow> length cs = 1024 \<and> (\<forall>k < 1024. cs ! k = 0)"

text \<open>The memory, screen and hardware tables that \<^verbatim>\<open>kernel_main\<close> starts from.\<close>

definition power_on :: "image \<Rightarrow> u8 list \<Rightarrow> ('d, 'a) kernelmem_scheme \<Rightarrow> bool" where
  "power_on im raw s \<longleftrightarrow> length raw = 25600 \<and> objs s = Map.empty \<and> 1600 \<le> length (vga (screen s)) \<and>
     length (vga (screen s)) \<le> 16384 \<and> length (interrupt_pointer_table im) = 512 \<and>
     length (interrupt_callbacks s) = 512 \<and> processes s = replicate 12 0 \<and>
     task_head s = 0 \<and> task_tail s = 0 \<and> current_task s = 0 \<and> no_commands (isr80h_commands s)"

definition segments_loaded :: "image \<Rightarrow> ('d, 'a) kernelmem_scheme \<Rightarrow> bool" where
  "segments_loaded im s \<longleftrightarrow> map decode_desc (gdt_real s) = gdt_structured_table (addr_tss im) \<and>
     gdtr s = Some (addr_gdt_real im, 48) \<and> tr s = Some 0x28 \<and>
     the_tss s = zero_tss\<lparr>esp0 := 0x600000, ss0 := KERNEL_DATA_SELECTOR\<rparr>"

definition gates_loaded :: "image \<Rightarrow> ('d, 'a) idtmem_scheme \<Rightarrow> bool" where
  "gates_loaded im s \<longleftrightarrow> idtr s = Some \<lparr>idtr_limit = 4095, idtr_base = addr_idt_descriptors im\<rparr> \<and>
     idt_descriptors s = (map gate (interrupt_pointer_table im))[0 := gate (addr_idt_zero im),
       0x80 := gate (addr_isr80h_wrapper im)] \<and>
     (\<forall>i \<le> 32. interrupt_callbacks s ! i = (if i < 32 then Idt_handle_exception else Idt_clock)) \<and>
     length (interrupt_callbacks s) = 512"

text \<open>The state in which paging has just been enabled.\<close>

definition kernel_ready ::
  "image \<Rightarrow> (nat \<Rightarrow> u8 list) \<Rightarrow> nat \<Rightarrow> fat_private \<Rightarrow> ('d, 'a) kernelmem_scheme \<Rightarrow> ('d, 'a) kernelmem_scheme \<Rightarrow> bool" where
  "kernel_ready im img n p s s' \<longleftrightarrow> kmem_inv s' \<and> 25600 \<le> kroom s' + mount_room img + 1026 \<and>
     volume_loaded img n p s' \<and> segments_loaded im s' \<and> gates_loaded im s' \<and>
     terminal_inv (screen s') \<and> screen_of (screen s') = boot_screen (vga (screen s)) \<and>
     (\<exists>directory. objs s' (kernel_chunk s') = Some (OChunk \<lparr>directory_entry = directory\<rparr>) \<and>
        cr3 s' = directory \<and> current_directory s' = directory \<and>
        (\<forall>v. v mod 4096 = 0 \<longrightarrow> paging_get directory v s' = Some (v OR 7))) \<and>
     cr0 s' AND 0x80000000 \<noteq> 0 \<and> processes s' = replicate 12 0 \<and> task_list [] s' \<and>
     no_commands (isr80h_commands s')"

lemma paging_on: "(c OR 0x80000000) AND 0x80000000 \<noteq> (0 :: u32)"
proof
  assume "(c OR 0x80000000) AND 0x80000000 = (0 :: u32)"
  then have "bit ((c OR 0x80000000) AND 0x80000000) 31 = bit (0 :: u32) 31" by simp
  moreover have "bit (0x80000000 :: u32) 31" by simp
  ultimately show False by (simp add: bit_simps)
qed

lemma idt_ready_gates:
  assumes "length (interrupt_pointer_table im) = 512" and "length (interrupt_callbacks s) = 512"
  shows "gates_loaded im (idt_ready im s)"
  using assms by (auto simp: gates_loaded_def idt_ready_def nth_append)

lemma kernel_start_ok:
  fixes s :: "('d, 'a) kernelmem_scheme"
  assumes hw: "ata_ok hw img idle xfer" and idle: "idle (dev s)" and v: "volume_ok img n"
    and room: "mount_room img + 1026 \<le> 25600" and on: "power_on im raw s"
  obtains p s' where "kernel_start hw im raw s = Some s'" "kernel_ready im img n p s s'"
proof -
  note on' = on [unfolded power_on_def]
  obtain t0 t where t: "terminal_initialize (screen s) = Some t0"
    "print_s (boot_text @ [0]) (s\<lparr>screen := t0\<rparr>) = Some (s\<lparr>screen := t\<rparr>)" "terminal_inv t"
    "screen_of t = boot_screen (vga (screen s))"
    by (rule boot_print_ok [of s]) (use on' in simp_all)
  obtain g where g: "gdt_structured_to_gdt (replicate 6 (replicate 8 0)) (gdt_structured_table (addr_tss im)) 6 = Some g"
    "map decode_desc g = gdt_structured_table (addr_tss im)"
    using kernel_gdt_encodes [of "addr_tss im"] by blast
  let ?s1 = "s\<lparr>screen := t, gdt_real := g, gdtr := Some (addr_gdt_real im, 48)\<rparr>"
  obtain h where h: "kheap_init raw ?s1 = Some (0, ?s1\<lparr>kernel_heap := h\<rparr>)" "kmem_inv (?s1\<lparr>kernel_heap := h\<rparr>)"
    "kroom (?s1\<lparr>kernel_heap := h\<rparr>) = 25600"
    by (rule fresh_heap_ok [of raw ?s1]) (use on' in simp_all)
  let ?s2 = "?s1\<lparr>kernel_heap := h\<rparr>"
  have pre: "idle (dev ?s2)" "mount_room img \<le> kroom ?s2" using idle room h(3) by simp_all
  obtain p and s3 :: "('d, 'a) kernelmem_scheme" where
    m: "do { s \<leftarrow> fs_init ?s2; disk_search_and_init (\<lambda>_. fat16_fs hw) s } = Some s3" "volume_loaded img n p s3"
    "kmem_inv s3" "kroom ?s2 \<le> kroom s3 + mount_room img" "vfsmem.more s3 = vfsmem.more ?s2"
    by (rule boot_mount_ok [OF hw pre(1) h(2) v pre(2)])
  obtain sf where sf: "fs_init ?s2 = Some sf" "disk_search_and_init (\<lambda>_. fat16_fs hw) sf = Some s3"
    using m(1) by (cases "fs_init ?s2") simp_all
  note f3 = more_boot_fields [OF m(5)]
  have i: "idt_init im s3 = Some (idt_ready im s3)" using on' f3(3) by (intro idt_init_eq) simp_all
  let ?s4 = "(idt_ready im s3)\<lparr>the_tss := zero_tss\<lparr>esp0 := 0x600000, ss0 := KERNEL_DATA_SELECTOR\<rparr>, tr := Some 0x28\<rparr>"
  have inv4: "kmem_inv ?s4" "1026 \<le> kroom ?s4" using m(3,4) h(3) room by (simp_all add: kmem_inv_def kroom_def idt_ready_def)
  obtain chunk directory s5 where
    c: "paging_new_4gb (PAGING_IS_WRITEABLE OR PAGING_IS_PRESENT OR PAGING_ACCESS_FROM_ALL) ?s4 = Some (chunk, s5)"
    "kmem_inv s5" "kmem.more s5 = kmem.more ?s4" "objs s5 chunk = Some (OChunk \<lparr>directory_entry = directory\<rparr>)"
    "\<forall>v. v mod 4096 = 0 \<longrightarrow> paging_get directory v s5 = Some (v OR 7)"
    "\<forall>q. objs ?s4 q \<noteq> None \<longrightarrow> objs s5 q = objs ?s4 q" "kroom ?s4 \<le> kroom s5 + 1026"
    by (rule kernel_chunk_ok [OF inv4])
  note f5 = more_kernel_fields [OF c(3)]
  let ?s6 = "s5\<lparr>kernel_chunk := chunk, cr3 := directory, current_directory := directory, cr0 := cr0 s5 OR 0x80000000\<rparr>"
  have "kernel_start hw im raw s = Some ?s6"
    unfolding kernel_start_def kernel_texts
    using t(1,2) g(1) h(1) sf i c(1,4)
    by (simp add: gdt_load_def tss_load_def paging_switch_def deref_def paging_load_directory_def enable_paging_def)
  moreover have "kernel_ready im img n p s ?s6"
  proof -
    have "kmem_inv ?s6" "25600 \<le> kroom ?s6 + mount_room img + 1026"
      using c(2,7) m(4) h(3) by (simp_all add: kmem_inv_def kroom_def idt_ready_def)
    moreover have "volume_loaded img n p ?s6"
      by (rule volume_loaded_kept [OF m(2)]) (use c(6) f5(13) in \<open>auto simp: idt_ready_def\<close>)
    moreover have "segments_loaded im ?s6" using f3 f5 g(2) by (simp add: segments_loaded_def idt_ready_def)
    moreover have "gates_loaded im ?s6"
      using idt_ready_gates [of im s3] f3(3) f5 on' by (simp add: gates_loaded_def)
    moreover have "\<forall>v. v mod 4096 = 0 \<longrightarrow> paging_get directory v ?s6 = Some (v OR 7)"
      using c(5) by (simp add: paging_get_def deref_def)
    ultimately show ?thesis
      unfolding kernel_ready_def using f3 f5 t(3,4) on' c(4) paging_on [of "cr0 s5"]
      by (simp add: idt_ready_def task_list_def)
  qed
  ultimately show thesis by (rule that)
qed

section \<open>The first process\<close>

lemma more_loaded_fields:
  assumes "procmem.more s' = procmem.more s"
  shows "screen s' = screen s" "interrupt_callbacks s' = interrupt_callbacks s" "gdt_real s' = gdt_real s"
    "gdtr s' = gdtr s" "idtr s' = idtr s" "idt_descriptors s' = idt_descriptors s" "the_tss s' = the_tss s" "tr s' = tr s"
    "isr80h_commands s' = isr80h_commands s"
  using assms by (cases s; cases s'; simp)+

lemma first_task_ok:
  assumes "task_list [tsk] s" and "objs s tsk = Some (OTask t)" and "current_task s = tsk"
    and "objs s (page_directory t) = Some (OChunk c)"
  shows "task_run_first_ever_task s = Some (resumed (task_registers t),
    s\<lparr>current_directory := directory_entry c, cr3 := directory_entry c, data_segments := r_ss (task_registers t)\<rparr>)"
  using assms
  by (simp add: task_run_first_ever_task_def task_list_def task_switch_def task_return_def resumed_def
      paging_switch_def paging_load_directory_def deref_def)

lemma resumed_fields [simp]:
  "r_ip (resumed r) = r_ip r" "r_cs (resumed r) = r_cs r" "r_esp (resumed r) = r_esp r" "r_ss (resumed r) = r_ss r"
  "r_flags (resumed r) = r_flags r OR 0x200"
  by (simp_all add: resumed_def)

lemma interrupts_on: "(c OR 0x200) AND 0x200 \<noteq> (0 :: u32)"
proof
  assume "(c OR 0x200) AND 0x200 = (0 :: u32)"
  then have "bit ((c OR 0x200) AND 0x200) 9 = bit (0 :: u32) 9" by simp
  moreover have "bit (0x200 :: u32) 9" by simp
  ultimately show False by (simp add: bit_simps)
qed

text \<open>
  The machine when the first task enters user mode: the task is alone in the task list and runs on
  the address space of its process, and every interrupt finds its tables.
\<close>

definition first_process_runs ::
  "registers \<Rightarrow> ptr \<Rightarrow> ptr \<Rightarrow> ('d, 'a) idtmem_scheme \<Rightarrow> bool" where
  "first_process_runs regs proc tsk s \<longleftrightarrow>
     r_ip regs = 0x400000 \<and> r_cs regs = 0x1b \<and> r_esp regs = 0x3FF000 \<and> r_ss regs = 0x23 \<and>
     r_flags regs AND 0x200 \<noteq> 0 \<and> sched_ok [tsk] s \<and> current_task s = tsk \<and>
     processes s = proc # replicate 11 0 \<and>
     (\<exists>p t. objs s proc = Some (OProcess p) \<and> pr_id p = 0 \<and> pr_task p = tsk \<and>
        objs s tsk = Some (OTask t) \<and> task_process t = proc \<and> stack_mapped (cr3 s) (pr_stack p) s) \<and>
     current_directory s = cr3 s \<and> no_commands (isr80h_commands s)"

lemma first_process_ok:
  fixes s :: "('d, 'a) kernelmem_scheme"
  assumes r: "kernel_ready im img n p s0 s" and room: "1034 \<le> kroom s"
  obtains proc tsk s1 regs s2 where
    "process_load (\<lambda>_. fat16_fs hw) (c_string ''0:/blank.bin'') 0 s = Some (0, proc, s1)"
    "procmem.more s1 = procmem.more s" "volume_loaded img n p s1"
    "\<forall>t. task_run_first_ever_task (s1\<lparr>screen := t\<rparr>) = Some (regs, s2\<lparr>screen := t\<rparr>)"
    "\<forall>t. first_process_runs regs proc tsk (s2\<lparr>screen := t\<rparr>)"
    "procmem.more s2 = procmem.more s" "disk s2 = disk s1" "objs s2 = objs s1" "cr0 s2 = cr0 s"
proof -
  note r' = r [unfolded kernel_ready_def]
  have slot: "free_slot 0 (processes s) 0 = Some 0" using r' by (simp add: numeral_eq_Suc)
  have "0 \<in> set (c_string ''0:/blank.bin'')" "length (processes s) = 12" "task_list [] s" "kmem_inv s"
    using r' by (simp_all add: c_string_def)
  from process_load_ok [OF this(3,4) room this(2,1) slot, of "\<lambda>_. fat16_fs hw" 0] obtain proc and s1 :: "('d, 'a) kernelmem_scheme" where
    l: "process_load (\<lambda>_. fat16_fs hw) (c_string ''0:/blank.bin'') 0 s = Some (0, proc, s1)"
    "loaded [] 0 (c_string ''0:/blank.bin'') proc s s1" by blast
  obtain tsk t stack directory where
    p: "objs s1 proc = Some (OProcess (new_process 0 (stored_name (c_string ''0:/blank.bin'')) stack\<lparr>pr_task := tsk\<rparr>))"
      "stack_mapped directory stack s1"
    and t: "task_list [tsk] s1" "objs s1 tsk = Some (OTask t)" "current_task s1 = tsk"
      "task_process t = proc"
      "objs s1 (page_directory t) = Some (OChunk \<lparr>directory_entry = directory\<rparr>)"
    and regs: "r_ip (task_registers t) = 0x400000" "r_esp (task_registers t) = 0x3FF000"
      "r_ss (task_registers t) = 0x23" "r_cs (task_registers t) = 0x1b"
    and rest: "processes s1 = (processes s)[0 := proc]" "kernel_chunk s1 = kernel_chunk s" "disk s1 = disk s \<and> cr0 s1 = cr0 s"
      "procmem.more s1 = procmem.more s"
    and keep: "\<forall>q x. objs s q = Some x \<longrightarrow> (\<forall>ws. x \<noteq> OWords ws) \<longrightarrow> objs s1 q = Some x"
    using l(2) unfolding loaded_def by auto
  let ?s2 = "s1\<lparr>current_directory := directory, cr3 := directory, data_segments := 0x23\<rparr>"
  note f = more_loaded_fields [OF rest(4)]
  have kc: "\<exists>c. objs s1 (kernel_chunk s1) = Some (OChunk c)" using r' keep rest(2) by auto
  have pr: "processes s1 = proc # replicate 11 0" using r' rest(1) by (simp add: numeral_eq_Suc)
  have cb: "0x20 < length (interrupt_callbacks s1)" "interrupt_callbacks s1 ! 0x20 = Idt_clock"
    using r' f(2) by (simp_all add: gates_loaded_def)
  have tl: "task_list [tsk] (s1\<lparr>screen := x\<rparr>)" for x using t(1) by (simp add: task_list_def task_node_def)
  have run: "task_run_first_ever_task (s1\<lparr>screen := x\<rparr>) = Some (resumed (task_registers t), ?s2\<lparr>screen := x\<rparr>)" for x
    using first_task_ok [OF tl [of x], of t "\<lparr>directory_entry = directory\<rparr>"] t(2,3,5) regs(3) by simp
  have "first_process_runs (resumed (task_registers t)) proc tsk (?s2\<lparr>screen := x\<rparr>)" for x
    using regs interrupts_on [of "r_flags (task_registers t)"] tl [of x] kc cb t(2-4) pr p f(9) r'
    by (simp add: first_process_runs_def sched_ok_def stack_mapped_def paging_get_def deref_def new_process_def
        kernel_ready_def task_list_def task_node_def)
  moreover have "volume_loaded img n p s1"
    by (rule volume_loaded_kept [OF _ rest(3) [THEN conjunct1] keep]) (use r' in simp)
  ultimately show thesis using run rest(3,4) by (intro that [OF l(1) rest(4), of "resumed (task_registers t)" ?s2 tsk]) simp_all
qed

lemma kernel_main_ok:
  fixes s :: "('d, 'a) kernelmem_scheme"
  assumes "ata_ok hw img idle xfer" and "idle (dev s)" and "volume_ok img n"
    and "mount_room img + 2060 \<le> 25600" and "power_on im raw s"
  shows "\<exists>regs proc tsk p s'. kernel_main hw im raw s = Some (regs, s') \<and> first_process_runs regs proc tsk s' \<and>
    segments_loaded im s' \<and> gates_loaded im s' \<and> cr0 s' AND 0x80000000 \<noteq> 0 \<and> volume_loaded img n p s' \<and>
    screen_of (screen s') = fold screen_put load_text (boot_screen (vga (screen s)))"
proof -
  have room: "mount_room img + 1026 \<le> 25600" using assms(4) by simp
  obtain p and s1 :: "('d, 'a) kernelmem_scheme" where s1: "kernel_start hw im raw s = Some s1" "kernel_ready im img n p s s1"
    by (rule kernel_start_ok [OF assms(1-3) room assms(5)])
  note r = s1(2) [unfolded kernel_ready_def]
  have room1: "1034 \<le> kroom s1" using r assms(4) by simp
  obtain proc tsk regs and s2 s3 :: "('d, 'a) kernelmem_scheme" where
    l: "process_load (\<lambda>_. fat16_fs hw) (c_string ''0:/blank.bin'') 0 s1 = Some (0, proc, s2)"
    "procmem.more s2 = procmem.more s1" "volume_loaded img n p s2"
    and t: "\<forall>t. task_run_first_ever_task (s2\<lparr>screen := t\<rparr>) = Some (regs, s3\<lparr>screen := t\<rparr>)"
    "\<forall>t. first_process_runs regs proc tsk (s3\<lparr>screen := t\<rparr>)"
    and rest: "procmem.more s3 = procmem.more s1" "disk s3 = disk s2" "objs s3 = objs s2" "cr0 s3 = cr0 s1"
    by (rule first_process_ok [OF s1(2) room1, of hw])
  note f2 = more_loaded_fields [OF l(2)] and f3 = more_loaded_fields [OF rest(1)]
  have sc: "screen_of (screen s2) = boot_screen (vga (screen s))" using r f2(1) by simp
  have "length (fst (screen_of (screen s2))) = length (vga (screen s))"
    using assms(5) by (simp only: sc boot_screen_length power_on_def)
  then have "1600 \<le> length (vga (screen s2))" using assms(5) by (simp add: screen_of_def power_on_def)
  then have lt: "length load_text < 4000" "fits load_text (snd (screen_of (screen s2))) (length (vga (screen s2)))"
    unfolding sc by (simp add: load_text_def, blast intro: fits_less [OF load_fits])
  obtain t where p: "print_s (load_text @ [0]) s2 = Some (s2\<lparr>screen := t\<rparr>)" "terminal_inv t"
    "screen_of t = fold screen_put load_text (screen_of (screen s2))"
    by (rule print_s_ok [OF _ kernel_texts_cstr(2) lt]) (use r f2(1) in simp)
  have "kernel_main hw im raw s = Some (regs, s3\<lparr>screen := t\<rparr>)"
    unfolding kernel_main_def kernel_texts using s1(1) l(1) p(1) t(1) [rule_format, of t] by simp
  moreover have "segments_loaded im (s3\<lparr>screen := t\<rparr>)" "gates_loaded im (s3\<lparr>screen := t\<rparr>)"
    using r f3 by (simp_all add: segments_loaded_def gates_loaded_def)
  moreover have "volume_loaded img n p (s3\<lparr>screen := t\<rparr>)"
    by (rule volume_loaded_kept [OF l(3)]) (use rest in simp_all)
  moreover have "screen_of t = fold screen_put load_text (boot_screen (vga (screen s)))" using p(3) sc by simp
  ultimately show ?thesis using t(2) [rule_format, of t] r rest(4)
    by (intro exI [of _ regs] exI [of _ proc] exI [of _ tsk] exI [of _ p] exI [of _ "s3\<lparr>screen := t\<rparr>"]) simp
qed

section \<open>Properties\<close>

text \<open>
  On a machine whose disk holds a FAT16 volume that fits the heap, \<^verbatim>\<open>kernel_main\<close> neither panics nor
  stops: it prints its messages, the processor holds the kernel's segments, task segment and
  interrupt gates, paging is on, the volume is mounted, and the processor is left in user mode at
  0x400000, with interrupts enabled, in the only task of the only process, on an address space with
  the stack of that process. Every clock interrupt from here on finds a task to run.
\<close>

theorem kernel_main_boots:
  fixes s :: "('d, 'a) kernelmem_scheme"
  assumes "ata_ok hw img idle xfer" and "idle (dev s)" and "volume_ok img n"
    and "mount_room img + 2060 \<le> 25600" and "power_on im raw s"
  shows "\<exists>regs proc tsk p s'. kernel_main hw im raw s = Some (regs, s') \<and> first_process_runs regs proc tsk s' \<and>
    segments_loaded im s' \<and> gates_loaded im s' \<and> cr0 s' AND 0x80000000 \<noteq> 0 \<and> volume_loaded img n p s' \<and>
    screen_of (screen s') = fold screen_put load_text (boot_screen (vga (screen s)))"
  by (rule kernel_main_ok [OF assms])

definition sample_kernel :: "(sample_dev, unit) kernelmem_scheme" where
  "sample_kernel = idtmem.extend (procmem.extend (sample_procmem sample_device 10 (replicate 12 0))
     \<lparr>idt_descriptors = [], idtr_descriptor = \<lparr>idtr_limit = 0, idtr_base = 0\<rparr>, idtr = None,
        interrupt_callbacks = replicate 512 NullCallback, isr80h_commands = replicate 1024 0,
        screen = \<lparr>vga = replicate 2000 0xFFFF, video_mem = 0, terminal_row = 7, terminal_col = 9\<rparr>\<rparr>)
     \<lparr>gdt_real = [], gdtr = None, the_tss = zero_tss, tr = None\<rparr>"

lemma sample_kernel_on: "power_on sample_image (replicate 25600 0xAA) sample_kernel" "dev sample_kernel = sample_device"
  by (simp_all add: power_on_def no_commands_def sample_kernel_def sample_image_def idtmem.extend_def procmem.extend_def
      sample_procmem_def taskmem.extend_def sample_taskmem_def)

lemma kernel_main_boots_witness:
  "\<exists>regs proc tsk p s'. kernel_main (sample_ata sample_volume) sample_image (replicate 25600 0xAA) sample_kernel = Some (regs, s') \<and>
     first_process_runs regs proc tsk s' \<and> fdir_total (root_directory p) = 1 \<and> volume_loaded sample_volume 2 p s'"
proof -
  have "mount_room sample_volume + 2060 \<le> 25600" using sample_volume_room(2) by simp
  from kernel_main_boots [OF sample_volume_ok TrueI sample_volume_room(1) this sample_kernel_on(1)]
  obtain regs proc tsk p s' where *:
    "kernel_main (sample_ata sample_volume) sample_image (replicate 25600 0xAA) sample_kernel = Some (regs, s')"
    "first_process_runs regs proc tsk s'" "volume_loaded sample_volume 2 p s'" by blast
  have "fdir_total (root_directory p) = 1"
    using *(3) by (auto simp: volume_loaded_def sample_header_read sample_root_fields sample_dir(2))
  with * show ?thesis by blast
qed

end
