(* ===== verification/Interrupt_Entry.thy ===== *)
theory Interrupt_Entry
  imports Scheduler
begin

text \<open>
  The entry stubs of \<^verbatim>\<open>src/src/idt/idt.asm\<close>. The processor enters a stub with the words it has pushed
  on the kernel stack; the stub pushes the general registers on top, so that the stack holds an
  \<^verbatim>\<open>interrupt_frame\<close>, calls the handler and leaves with \<^verbatim>\<open>popad\<close> and \<^verbatim>\<open>iret\<close>. A stack is the list of
  its words from the top; \<open>kesp\<close> is the stack pointer that \<^verbatim>\<open>pushad\<close> saves.
\<close>

section \<open>Stubs\<close>

definition pushad :: "registers \<Rightarrow> u32 \<Rightarrow> u32 list" where
  "pushad r kesp = [r_edi r, r_esi r, r_ebp r, kesp, r_ebx r, r_edx r, r_ecx r, r_eax r]"

text \<open>The frame at the top of a stack.\<close>

fun frame_at :: "u32 list \<Rightarrow> interrupt_frame option" where
  "frame_at (edi # esi # ebp # reserved # ebx # edx # ecx # eax # ip # cs # fl # sp # ss # st) =
     Some \<lparr>if_edi = edi, if_esi = esi, if_ebp = ebp, if_reserved = reserved, if_ebx = ebx, if_edx = edx,
       if_ecx = ecx, if_eax = eax, if_ip = ip, if_cs = cs, if_flags = fl, if_esp = sp, if_ss = ss\<rparr>"
| "frame_at st = None"

text \<open>The stack after its top is written as the frame \<open>f\<close>.\<close>

definition put_frame :: "interrupt_frame \<Rightarrow> u32 list \<Rightarrow> u32 list" where
  "put_frame f st = [if_edi f, if_esi f, if_ebp f, if_reserved f, if_ebx f, if_edx f, if_ecx f, if_eax f,
     if_ip f, if_cs f, if_flags f, if_esp f, if_ss f] @ drop 13 st"

text \<open>\<^verbatim>\<open>popad\<close>, which skips the saved stack pointer, and \<^verbatim>\<open>iret\<close> to user mode.\<close>

definition popad_iret :: "u32 list \<Rightarrow> registers option" where
  "popad_iret st = map_option frame_registers (frame_at st)"

definition int_stub ::
  "'d ata \<Rightarrow> nat \<Rightarrow> registers \<Rightarrow> u32 \<Rightarrow> u32 list \<Rightarrow> ('d, 'a) idtmem_scheme \<Rightarrow> (registers \<times> ('d, 'a) idtmem_scheme) option" where
  "int_stub hw n r kesp st s = do {
     st \<leftarrow> Some (pushad r kesp @ st);
     frame \<leftarrow> frame_at st;
     out \<leftarrow> interrupt_handler hw (int n) frame s;
     (case out of
        UserMode regs s \<Rightarrow> Some (regs, s)
      | Returned s \<Rightarrow> do { regs \<leftarrow> popad_iret st; Some (regs, s) }) }"

text \<open>The handler works on the frame in place, so \<^verbatim>\<open>popad\<close> and \<^verbatim>\<open>iretd\<close> read what it leaves there.\<close>

definition isr80h_wrapper ::
  "('d, 'a) idtmem_scheme commands \<Rightarrow> registers \<Rightarrow> u32 \<Rightarrow> u32 list \<Rightarrow> ('d, 'a) idtmem_scheme \<Rightarrow>
   (registers \<times> ('d, 'a) idtmem_scheme) option" where
  "isr80h_wrapper cmd r kesp st s = do {
     st \<leftarrow> Some (pushad r kesp @ st);
     frame \<leftarrow> frame_at st;
     (tmp_res, frame, s) \<leftarrow> isr80h_handler cmd (int_of_u32 (r_eax r)) frame s;
     regs \<leftarrow> popad_iret (put_frame frame st);
     Some (regs\<lparr>r_eax := tmp_res\<rparr>, s) }"

definition no_interrupt ::
  "'d ata \<Rightarrow> registers \<Rightarrow> u32 \<Rightarrow> u32 list \<Rightarrow> ('d, 'a) idtmem_scheme \<Rightarrow> (registers \<times> ('d, 'a) idtmem_scheme) option" where
  "no_interrupt hw r kesp st s = do {
     s \<leftarrow> Some (no_interrupt_handler hw s);
     regs \<leftarrow> popad_iret (pushad r kesp @ st);
     Some (regs, s) }"

section \<open>Frames\<close>

text \<open>The words that the processor pushes when it leaves user mode.\<close>

definition user_frame :: "registers \<Rightarrow> u32 list" where
  "user_frame r = [r_ip r, r_cs r, r_flags r, r_esp r, r_ss r]"

lemma frame_pushed:
  obtains f where "frame_at (pushad r kesp @ user_frame r) = Some f" "frame_registers f = r"
  by (rule that) (simp add: pushad_def user_frame_def, cases r, simp add: frame_registers_def)

lemma popad_put_frame [simp]: "popad_iret (put_frame f st) = Some (frame_registers f)"
  by (cases f) (simp add: popad_iret_def put_frame_def)

text \<open>With an error code below them every word is read one place too low.\<close>

definition skewed :: "u32 \<Rightarrow> registers \<Rightarrow> registers" where
  "skewed err r = r\<lparr>r_ip := err, r_cs := r_ip r, r_flags := r_cs r, r_esp := r_flags r, r_ss := r_esp r\<rparr>"

lemma frame_pushed_error:
  obtains f where "frame_at (pushad r kesp @ err # user_frame r) = Some f" "frame_registers f = skewed err r"
  by (rule that) (simp add: pushad_def user_frame_def, cases r, simp add: frame_registers_def skewed_def)

text \<open>
  The vectors that have an entry stub (vector 0 leads to \<^verbatim>\<open>idt_zero\<close>) and for which the processor
  pushes no error code.
\<close>

definition plain_vector :: "nat \<Rightarrow> bool" where
  "plain_vector n \<longleftrightarrow> 0 < n \<and> n < 512 \<and> n \<noteq> 0x80 \<and> n \<notin> {8, 10, 11, 12, 13, 14, 17}"

section \<open>Handlers from their stubs\<close>

lemma task_page_ok:
  assumes "task_list ts s" and "ts \<noteq> []"
  obtains t c s' where "task_page s = Some (0, s')" "objs s (current_task s) = Some (OTask t)"
    "objs s (page_directory t) = Some (OChunk c)"
    "s' = s\<lparr>data_segments := 0x23, current_directory := directory_entry c, cr3 := directory_entry c\<rparr>"
proof -
  have l: "task_list ts (user_registers s)" using assms(1) by (simp add: user_registers_def)
  obtain j where j: "j < length ts" "current_task (user_registers s) = ts ! j"
    using l assms(2) by (auto simp: task_list_def in_set_conv_nth)
  obtain t c where "objs (user_registers s) (ts ! j) = Some (OTask t)"
    "objs (user_registers s) (page_directory t) = Some (OChunk c)"
    "task_switch (ts ! j) (user_registers s) = Some (0, (user_registers s)\<lparr>current_task := ts ! j,
       current_directory := directory_entry c, cr3 := directory_entry c\<rparr>)"
    by (rule task_switch_ok [OF l j(1)])
  then show thesis using j(2) by (intro that) (simp_all add: task_page_def user_registers_def)
qed

text \<open>
  What a registered command may do: given the task list and the running task, it returns and keeps
  both. \<open>cs\<close> is the table of commands.
\<close>

definition command_safe ::
  "('d, 'a) idtmem_scheme commands \<Rightarrow> nat list \<Rightarrow> ptr list \<Rightarrow> ptr \<Rightarrow> bool" where
  "command_safe cmd cs ts cur \<longleftrightarrow> (\<forall>k \<in> set cs. k \<noteq> 0 \<longrightarrow> (\<forall>f s. task_list ts s \<longrightarrow> current_task s = cur \<longrightarrow>
     (\<exists>v f' s'. cmd k f s = Some (v, f', s') \<and> task_list ts s' \<and> current_task s' = cur)))"

lemma isr80h_handle_command_ok:
  fixes s :: "('d, 'a) idtmem_scheme"
  assumes "command_safe cmd (isr80h_commands s) ts (current_task s)" and "task_list ts s" and "length (isr80h_commands s) = 1024"
  obtains v f' s' where "isr80h_handle_command cmd n frame s = Some (v, f', s')" "task_list ts s'" "current_task s' = current_task s"
    "if 0 \<le> n \<and> n < 1024 \<and> isr80h_commands s ! nat n \<noteq> 0
     then cmd (isr80h_commands s ! nat n) frame s = Some (v, f', s') else v = 0 \<and> f' = frame \<and> s' = s"
proof (cases "0 \<le> n \<and> n < 1024 \<and> isr80h_commands s ! nat n \<noteq> 0")
  case True
  have n: "nat n < length (isr80h_commands s)" using True assms(3) by linarith
  then obtain v f' s' where "cmd (isr80h_commands s ! nat n) frame s = Some (v, f', s')" "task_list ts s'" "current_task s' = current_task s"
    using assms(1,2) True nth_mem [OF n] unfolding command_safe_def by blast
  moreover from n have "aget_i (isr80h_commands s) n = Some (isr80h_commands s ! nat n)"
    using True by (simp add: aget_i_def)
  ultimately show thesis using True by (intro that) (simp_all add: isr80h_handle_command_def)
next
  case False
  then have "isr80h_handle_command cmd n frame s = Some (0, frame, s)"
    using assms(3) by (auto simp: isr80h_handle_command_def aget_i_def)
  then show thesis using assms(2) by (rule that) (use False in \<open>simp_all only: if_False simp_thms\<close>)
qed

lemma system_call_ok:
  fixes s :: "('d, 'a) idtmem_scheme"
  assumes list: "task_list ts s" "ts \<noteq> []" and c: "objs s (kernel_chunk s) = Some (OChunk c)"
    and cmd: "command_safe cmd (isr80h_commands s) ts (current_task s)" and len: "length (isr80h_commands s) = 1024"
  obtains f f' v t s1 s2 s' where "isr80h_wrapper cmd r kesp (user_frame r) s = Some ((frame_registers f')\<lparr>r_eax := v\<rparr>, s')"
    "frame_registers f = r" "task_list ts s'" "current_task s' = current_task s" "data_segments s' = 0x23"
    "objs s (current_task s) = Some (OTask t)" "objs s1 = (objs s)(current_task s \<mapsto> OTask (t\<lparr>task_registers := r\<rparr>))"
    "kernel_chunk s1 = kernel_chunk s" "taskmem.more s1 = taskmem.more s" "isr80h_commands s1 = isr80h_commands s"
    "\<exists>d. s' = s2\<lparr>data_segments := 0x23, current_directory := d, cr3 := d\<rparr>"
    "if 0 \<le> int_of_u32 (r_eax r) \<and> int_of_u32 (r_eax r) < 1024 \<and> isr80h_commands s ! nat (int_of_u32 (r_eax r)) \<noteq> 0
     then cmd (isr80h_commands s ! nat (int_of_u32 (r_eax r))) f s1 = Some (v, f', s2) else v = 0 \<and> f' = f \<and> s2 = s1"
proof -
  let ?s1 = "s\<lparr>data_segments := 0x10, cr3 := directory_entry c, current_directory := directory_entry c\<rparr>"
  obtain f where f: "frame_at (pushad r kesp @ user_frame r) = Some f" "frame_registers f = r" by (rule frame_pushed)
  have l1: "task_list ts ?s1" using list(1) by simp
  obtain t where t: "objs ?s1 (current_task ?s1) = Some (OTask t)"
    "task_current_save_state f ?s1 = Some (setobj (current_task ?s1) (OTask (t\<lparr>task_registers := frame_registers f\<rparr>)) ?s1)"
    "task_list ts (setobj (current_task ?s1) (OTask (t\<lparr>task_registers := frame_registers f\<rparr>)) ?s1)"
    by (rule task_current_save_ok [OF l1 list(2)])
  define s1 where "s1 = setobj (current_task ?s1) (OTask (t\<lparr>task_registers := frame_registers f\<rparr>)) ?s1"
  have "kmem.more s1 = kmem.more ?s1" by (simp add: s1_def)
  note m = more_task_fields [OF this]
  have cur1: "current_task s1 = current_task s" using m(3) by simp
  have cm: "isr80h_commands s1 = isr80h_commands s" using m(5) by (cases s; cases s1; simp)
  have pre: "command_safe cmd (isr80h_commands s1) ts (current_task s1)" "task_list ts s1" "length (isr80h_commands s1) = 1024"
    using cmd cur1 t(3) cm len by (simp_all add: s1_def)
  obtain v f' s2 where h: "isr80h_handle_command cmd (int_of_u32 (r_eax r)) f s1 = Some (v, f', s2)" "task_list ts s2"
    "current_task s2 = current_task s1"
    "if 0 \<le> int_of_u32 (r_eax r) \<and> int_of_u32 (r_eax r) < 1024 \<and> isr80h_commands s1 ! nat (int_of_u32 (r_eax r)) \<noteq> 0
     then cmd (isr80h_commands s1 ! nat (int_of_u32 (r_eax r))) f s1 = Some (v, f', s2) else v = 0 \<and> f' = f \<and> s2 = s1"
    by (rule isr80h_handle_command_ok [OF pre])
  obtain u d s' where p: "task_page s2 = Some (0, s')" "objs s2 (current_task s2) = Some (OTask u)"
    "objs s2 (page_directory u) = Some (OChunk d)"
    "s' = s2\<lparr>data_segments := 0x23, current_directory := directory_entry d, cr3 := directory_entry d\<rparr>"
    by (rule task_page_ok [OF h(2) list(2)])
  have "isr80h_handler cmd (int_of_u32 (r_eax r)) f s = Some (v, f', s')"
    using t(2) h(1) p(1) by (simp add: isr80h_handler_def kernel_page_ok [OF c] s1_def)
  then have "isr80h_wrapper cmd r kesp (user_frame r) s = Some ((frame_registers f')\<lparr>r_eax := v\<rparr>, s')"
    using f(1) by (simp add: isr80h_wrapper_def)
  moreover have "objs s (current_task s) = Some (OTask t)"
    "objs s1 = (objs s)(current_task s \<mapsto> OTask (t\<lparr>task_registers := r\<rparr>))"
    using t(1) f(2) by (simp_all add: s1_def)
  moreover have "\<exists>d. s' = s2\<lparr>data_segments := 0x23, current_directory := d, cr3 := d\<rparr>" using p(4) by blast
  ultimately show thesis
    using h(1-3) h(4) [unfolded cm] p(4) cur1 cm f(2) m(4,5) by (intro that [of v f' s' f t s1 s2]) (assumption | simp)+
qed

section \<open>Properties\<close>

text \<open>
  C39. A system call returns with the registers that its command leaves in the caller's frame on the
  stack, except that eax holds the result. The command is called with the frame of the caller's
  registers, which are also saved in its task. For a number that is out of range or not registered
  the result is 0, every other register is as it was, and no object but that task changes. The caller
  is still the running task.
\<close>

theorem system_call_returns:
  fixes s :: "('d, 'a) idtmem_scheme"
  assumes "task_list ts s" and "ts \<noteq> []" and "objs s (kernel_chunk s) = Some (OChunk c)"
    and "command_safe cmd (isr80h_commands s) ts (current_task s)" and "length (isr80h_commands s) = 1024"
    and "n = int_of_u32 (r_eax r)"
  shows "\<exists>f f' v t s1 s2 s'. isr80h_wrapper cmd r kesp (user_frame r) s = Some ((frame_registers f')\<lparr>r_eax := v\<rparr>, s') \<and>
    task_list ts s' \<and> current_task s' = current_task s \<and> data_segments s' = USER_DATA_SEGMENT \<and>
    frame_registers f = r \<and> objs s (current_task s) = Some (OTask t) \<and>
    objs s1 = (objs s)(current_task s \<mapsto> OTask (t\<lparr>task_registers := r\<rparr>)) \<and> objs s' = objs s2 \<and>
    (if 0 \<le> n \<and> n < 1024 \<and> isr80h_commands s ! nat n \<noteq> 0
     then cmd (isr80h_commands s ! nat n) f s1 = Some (v, f', s2) else v = 0 \<and> f' = f \<and> s2 = s1)"
  by (rule system_call_ok [OF assms(1-5), of r kesp]) (unfold assms(6), fastforce)

text \<open>A command that returns the caller's ebx and sets its ecx through the frame.\<close>

definition sample_command :: "(unit, unit) idtmem_scheme commands" where
  "sample_command k f s = Some (if_ebx f, f\<lparr>if_ecx := 7\<rparr>, s)"

lemma system_call_returns_witness:
  "\<exists>s'. isr80h_wrapper sample_command (zero_registers\<lparr>r_eax := 3, r_ebx := 42, r_ip := 0x400010\<rparr>) 0x5FFFEC
      (user_frame (zero_registers\<lparr>r_eax := 3, r_ebx := 42, r_ip := 0x400010\<rparr>))
      ((sample_sched [0x1000])\<lparr>isr80h_commands := (replicate 1024 0)[3 := 9]\<rparr>) =
    Some (zero_registers\<lparr>r_eax := 42, r_ebx := 42, r_ecx := 7, r_ip := 0x400010\<rparr>, s')"
proof -
  let ?s = "(sample_sched [0x1000])\<lparr>isr80h_commands := (replicate 1024 0)[3 := 9]\<rparr>"
  let ?r = "zero_registers\<lparr>r_eax := 3, r_ebx := 42, r_ip := 0x400010\<rparr>"
  have "task_list [0x1000] ?s" using sample_sched_one by (simp add: task_list_def task_node_def)
  moreover have "objs ?s (kernel_chunk ?s) = Some (OChunk \<lparr>directory_entry = 0x7000\<rparr>)" by (simp add: sample_sched_def)
  moreover have "command_safe sample_command (isr80h_commands ?s) [0x1000] (current_task ?s)" by (simp add: command_safe_def sample_command_def)
  ultimately obtain f f' v s' where *: "isr80h_wrapper sample_command ?r 0x5FFFEC (user_frame ?r) ?s =
      Some ((frame_registers f')\<lparr>r_eax := v\<rparr>, s')"
    "frame_registers f = ?r" "v = if_ebx f" "f' = f\<lparr>if_ecx := 7\<rparr>"
    using system_call_returns [of "[0x1000]" ?s "\<lparr>directory_entry = 0x7000\<rparr>" sample_command 3 ?r "0x5FFFEC"]
    by (auto simp: sample_command_def)
  then show ?thesis by (auto simp: frame_registers_def)
qed

text \<open>
  C27. An exception for which the processor pushes no error code takes the process out of the table and
  does not stop it: its task stays in the ring with the faulting registers saved, so the clock comes
  back to it; a process that is alone re-enters user mode at once, at the instruction that faulted
  and with the registers it had, interrupts enabled.
\<close>

theorem exception_keeps_task_running:
  assumes "plain_vector n"
    and "task_list ts s" and "current_task s = ts ! i" and "i < length ts"
    and "objs s (kernel_chunk s) = Some (OChunk c)"
    and "interrupt_callbacks s ! n = Idt_handle_exception" and "n < length (interrupt_callbacks s)"
    and "objs s (ts ! i) = Some (OTask t)" and "objs s (task_process t) = Some (OProcess p)"
    and "unat (pr_id p) < 12" and "length (processes s) = 12"
  shows "\<exists>regs s'. int_stub hw n r kesp (user_frame r) s = Some (regs, s') \<and>
    processes s' = (processes s)[unat (pr_id p) := 0] \<and> task_list ts s' \<and> regs_of s' (ts ! i) = Some r \<and>
    (length ts = 1 \<longrightarrow> regs = r\<lparr>r_flags := r_flags r OR 0x200\<rparr> \<and> current_task s' = current_task s)"
proof -
  obtain f where f: "frame_at (pushad r kesp @ user_frame r) = Some f" "frame_registers f = r" by (rule frame_pushed)
  obtain regs s' where "interrupt_handler hw (int n) f s = Some (UserMode regs s')"
    "processes s' = (processes s)[unat (pr_id p) := 0]" "task_list ts s'" "regs_of s' (ts ! i) = Some r"
    "length ts = 1 \<longrightarrow> regs = resumed r \<and> current_task s' = current_task s"
    using exception_interrupt [OF assms(2-11), of hw f] f(2) by auto
  then show ?thesis using f(1)
    by (intro exI [of _ regs] exI [of _ s']) (simp add: int_stub_def resumed_def)
qed

text \<open>An invalid instruction, vector 6, at 0x400010.\<close>

lemma exception_keeps_task_running_witness:
  "\<exists>s'. int_stub null_ata 6 (zero_registers\<lparr>r_ebx := 5, r_ip := 0x400010, r_cs := 0x1b, r_esp := 0x3FEFF0, r_ss := 0x23\<rparr>) 0x5FFFEC
      (user_frame (zero_registers\<lparr>r_ebx := 5, r_ip := 0x400010, r_cs := 0x1b, r_esp := 0x3FEFF0, r_ss := 0x23\<rparr>))
      (sample_sched [0x1000]) =
    Some (zero_registers\<lparr>r_ebx := 5, r_ip := 0x400010, r_cs := 0x1b, r_flags := 0x200, r_esp := 0x3FEFF0, r_ss := 0x23\<rparr>, s') \<and>
    processes s' = 0 # 0 # replicate 10 0"
  using exception_keeps_task_running [OF _ sample_sched_one, where i = 0 and n = 6 and p = zero_process and
      c = "\<lparr>directory_entry = 0x7000\<rparr>" and t = "sample_task 0x3000 0x5000 0 0" and hw = null_ata and kesp = "0x5FFFEC" and
      r = "zero_registers\<lparr>r_ebx := 5, r_ip := 0x400010, r_cs := 0x1b, r_esp := 0x3FEFF0, r_ss := 0x23\<rparr>"]
  by (auto simp: plain_vector_def sample_sched_def sample_task_def fresh_task_def zero_process_def link_def nth_append)

text \<open>
  C40. For the exceptions with which the processor pushes an error code (page and protection faults
  among them) the entry stub, which expects none, hands the handler a frame that is off by one
  word: the registers saved for the task have the error code as instruction pointer and the faulting
  instruction as code segment. A process that is alone is resumed with them at once.
\<close>

theorem error_code_skews_registers:
  assumes "task_list ts s" and "current_task s = ts ! i" and "i < length ts"
    and "objs s (kernel_chunk s) = Some (OChunk c)"
    and "interrupt_callbacks s ! n = Idt_handle_exception" and "n < length (interrupt_callbacks s)"
    and "objs s (ts ! i) = Some (OTask t)" and "objs s (task_process t) = Some (OProcess p)"
    and "unat (pr_id p) < 12" and "length (processes s) = 12"
    and "skew = r\<lparr>r_ip := err, r_cs := r_ip r, r_flags := r_cs r, r_esp := r_flags r, r_ss := r_esp r\<rparr>"
  shows "\<exists>regs s'. int_stub hw n r kesp (err # user_frame r) s = Some (regs, s') \<and>
    regs_of s' (ts ! i) = Some skew \<and>
    (length ts = 1 \<longrightarrow> regs = skew\<lparr>r_flags := r_cs r OR 0x200\<rparr> \<and> current_task s' = current_task s)"
proof -
  obtain f where f: "frame_at (pushad r kesp @ err # user_frame r) = Some f" "frame_registers f = skewed err r"
    by (rule frame_pushed_error)
  obtain regs s' where "interrupt_handler hw (int n) f s = Some (UserMode regs s')"
    "regs_of s' (ts ! i) = Some (skewed err r)"
    "length ts = 1 \<longrightarrow> regs = resumed (skewed err r) \<and> current_task s' = current_task s"
    using exception_interrupt [OF assms(1-10), of hw f] f(2) by auto
  moreover have "skew = skewed err r" by (simp add: assms(11) skewed_def)
  ultimately show ?thesis using f(1)
    by (intro exI [of _ regs] exI [of _ s']) (simp add: int_stub_def resumed_def, simp add: skewed_def)
qed

text \<open>A page fault of a user-mode read, error code 4, at 0x400010.\<close>

lemma error_code_skews_registers_witness:
  "\<exists>s'. int_stub null_ata 14 (zero_registers\<lparr>r_ip := 0x400010, r_cs := 0x1b, r_esp := 0x3FEFF0, r_ss := 0x23\<rparr>) 0x5FFFE8
      (4 # user_frame (zero_registers\<lparr>r_ip := 0x400010, r_cs := 0x1b, r_esp := 0x3FEFF0, r_ss := 0x23\<rparr>))
      (sample_sched [0x1000]) =
    Some (zero_registers\<lparr>r_ip := 4, r_cs := 0x400010, r_flags := 0x21b, r_ss := 0x3FEFF0\<rparr>, s')"
  using error_code_skews_registers [OF sample_sched_one, where i = 0 and n = 14 and p = zero_process and
      c = "\<lparr>directory_entry = 0x7000\<rparr>" and t = "sample_task 0x3000 0x5000 0 0" and hw = null_ata and err = 4 and kesp = "0x5FFFE8" and
      r = "zero_registers\<lparr>r_ip := 0x400010, r_cs := 0x1b, r_esp := 0x3FEFF0, r_ss := 0x23\<rparr>", OF _ _ _ _ _ _ _ _ _ refl]
  by (auto simp: sample_sched_def sample_task_def fresh_task_def zero_process_def link_def nth_append)

end
