(* ===== verification/Kernel_Running.thy ===== *)
theory Kernel_Running
  imports Kernel_Boot Interrupt_Entry
begin

text \<open>
  The kernel after start-up, as the machine that its interrupts drive: between two interrupts the
  running task does what it likes to its registers, an interrupt enters the kernel through its
  stub and leaves it with the registers of some task. The invariant types the objects that the
  handlers follow, and every handler keeps it.
\<close>

section \<open>Events\<close>

text \<open>
  An interrupt of user mode with the registers at that moment: a vector of the table without an
  error code, or the system call.
\<close>

datatype event = Vector nat registers | Syscall registers

fun event_ok :: "event \<Rightarrow> bool" where
  "event_ok (Vector n r) = plain_vector n"
| "event_ok (Syscall r) = True"

fun kernel_event ::
  "'d ata \<Rightarrow> ('d, 'a) idtmem_scheme commands \<Rightarrow> u32 \<Rightarrow> event \<Rightarrow> ('d, 'a) idtmem_scheme \<Rightarrow>
   (registers \<times> ('d, 'a) idtmem_scheme) option" where
  "kernel_event hw cmd kesp (Vector n r) s = int_stub hw n r kesp (user_frame r) s"
| "kernel_event hw cmd kesp (Syscall r) s = isr80h_wrapper cmd r kesp (user_frame r) s"

fun run_kernel ::
  "'d ata \<Rightarrow> ('d, 'a) idtmem_scheme commands \<Rightarrow> u32 \<Rightarrow> event list \<Rightarrow> registers \<times> ('d, 'a) idtmem_scheme \<Rightarrow>
   (registers \<times> ('d, 'a) idtmem_scheme) option" where
  "run_kernel hw cmd kesp [] (r, s) = Some (r, s)"
| "run_kernel hw cmd kesp (e # es) (r, s) = do {
     (r, s) \<leftarrow> kernel_event hw cmd kesp e s;
     run_kernel hw cmd kesp es (r, s) }"

section \<open>The invariant\<close>

definition task_typed :: "('d, 'a) procmem_scheme \<Rightarrow> ptr \<Rightarrow> bool" where
  "task_typed s q \<longleftrightarrow> (\<exists>t p. objs s q = Some (OTask t) \<and> objs s (task_process t) = Some (OProcess p) \<and>
     unat (pr_id p) < 12)"

definition machine_ok :: "ptr list \<Rightarrow> ('d, 'a) idtmem_scheme \<Rightarrow> bool" where
  "machine_ok ts s \<longleftrightarrow> sched_ok ts s \<and> (\<forall>q \<in> set ts. task_typed s q) \<and> length (processes s) = 12 \<and>
     length (interrupt_callbacks s) = 512 \<and> no_commands (isr80h_commands s)"

lemma more_idt_proc:
  assumes "procmem.more s' = procmem.more s"
  shows "interrupt_callbacks s' = interrupt_callbacks s" and "isr80h_commands s' = isr80h_commands s"
  using assms by (cases s; cases s'; simp)+

lemma more_task_proc:
  fixes s s' :: "('d, 'a) procmem_scheme"
  assumes "taskmem.more s' = taskmem.more s"
  shows "procmem.more s' = procmem.more s" and "processes s' = processes s"
proof -
  have *: "s' = s\<lparr>kernel_heap := kernel_heap s', objs := objs s', current_directory := current_directory s',
      cr3 := cr3 s', cr0 := cr0 s', disk := disk s', dev := dev s', filesystems := filesystems s',
      file_descriptors := file_descriptors s', current_task := current_task s', task_tail := task_tail s',
      task_head := task_head s', kernel_chunk := kernel_chunk s', data_segments := data_segments s'\<rparr>"
    using assms by (intro taskmem.equality) simp_all
  show "procmem.more s' = procmem.more s" by (subst *) simp
  show "processes s' = processes s" by (subst *) simp
qed

text \<open>Saving registers in the running task keeps every type.\<close>

lemma machine_ok_saved:
  assumes m: "machine_ok ts s" and t: "objs s q = Some (OTask t)"
    and o: "objs s' = (objs s)(q \<mapsto> OTask (t\<lparr>task_registers := r\<rparr>))"
    and l: "task_list ts s'" and k: "kernel_chunk s' = kernel_chunk s" "procmem.more s' = procmem.more s"
    and p: "length (processes s') = 12"
  shows "machine_ok ts s'"
proof -
  obtain c where c: "objs s (kernel_chunk s) = Some (OChunk c)" using m by (auto simp: machine_ok_def sched_ok_def)
  have typed: "\<forall>q \<in> set ts. task_typed s q" and ts: "ts \<noteq> []"
    and cb: "length (interrupt_callbacks s) = 512" "interrupt_callbacks s ! 0x20 = Idt_clock"
    and cm: "no_commands (isr80h_commands s)"
    using m unfolding machine_ok_def sched_ok_def by blast+
  have "kernel_chunk s \<noteq> q" using c t by auto
  then have c': "objs s' (kernel_chunk s') = Some (OChunk c)" using c by (simp add: o k(1))
  have typed': "task_typed s' x" if x: "x \<in> set ts" for x
  proof -
    obtain u v where u: "objs s x = Some (OTask u)" "objs s (task_process u) = Some (OProcess v)" "unat (pr_id v) < 12"
      using typed x unfolding task_typed_def by blast
    then have "task_process u \<noteq> q" using t by auto
    with u t show ?thesis by (cases "x = q") (simp_all add: task_typed_def o)
  qed
  show ?thesis
    unfolding machine_ok_def sched_ok_def more_idt_proc [OF k(2)] using l ts c' cb typed' p cm by simp
qed

lemma machine_ok_same:
  assumes "machine_ok ts s" and "objs s' = objs s" and "task_list ts s'" and "kernel_chunk s' = kernel_chunk s"
    and "procmem.more s' = procmem.more s" and "length (processes s') = 12"
  shows "machine_ok ts s'"
  using assms unfolding machine_ok_def sched_ok_def task_typed_def more_idt_proc [OF assms(5)] by simp

section \<open>Every event\<close>

text \<open>The clock and the exceptions: some task goes on.\<close>

lemma callback_ok:
  assumes m: "machine_ok ts s" and cb: "interrupt_callbacks s ! n \<noteq> NullCallback" and n: "n < 512"
  obtains r s' where "interrupt_handler hw (int n) frame s = Some (UserMode r s')" "machine_ok ts s'"
proof -
  obtain c where c: "objs s (kernel_chunk s) = Some (OChunk c)" and list: "task_list ts s" "ts \<noteq> []"
    and len: "length (interrupt_callbacks s) = 512" "length (processes s) = 12"
    and typed: "\<forall>q \<in> set ts. task_typed s q"
    using m unfolding machine_ok_def sched_ok_def by blast
  let ?cb = "interrupt_callbacks s ! n"
  have a: "aget_i (interrupt_callbacks s) (int n) = Some ?cb" using n len(1) by simp
  obtain t s2 where h: "interrupt_handler hw (int n) frame s = map_option (\<lambda>(r, s). UserMode r s) (run_callback hw ?cb s2)"
    and t: "objs s (current_task s) = Some (OTask t)" and l2: "task_list ts s2" "current_task s2 = current_task s"
    and o2: "objs s2 = (objs s)(current_task s \<mapsto> OTask (t\<lparr>task_registers := frame_registers frame\<rparr>))"
    and k2: "kernel_chunk s2 = kernel_chunk s" "taskmem.more s2 = taskmem.more s"
    by (rule interrupt_saved [OF list c a cb])
  note p2 = more_task_proc [OF k2(2)]
  have m2: "machine_ok ts s2" by (rule machine_ok_saved [OF m t o2 l2(1) k2(1) p2(1)]) (simp add: p2(2) len(2))
  have ct: "current_task s \<in> set ts" using list by (simp add: task_list_def split: if_splits)
  then obtain i where i: "i < length ts" "current_task s2 = ts ! i" using l2(2) by (metis in_set_conv_nth)
  have "\<exists>r s'. run_callback hw ?cb s2 = Some (r, s') \<and> machine_ok ts s'"
  proof (cases ?cb)
    case NullCallback
    with cb show ?thesis by simp
  next
    case Idt_clock
    let ?s = "outb hw 0x20 0x20 s2"
    have l: "task_list ts ?s" "current_task ?s = ts ! i" using l2(1) i(2) by (simp_all add: outb_def)
    obtain regs s' where nx: "task_next ?s = Some (resumed regs, s')" "task_list ts s'" "objs s' = objs ?s"
      "kernel_chunk s' = kernel_chunk ?s" "taskmem.more s' = taskmem.more ?s"
      by (rule task_next_ok [OF l(1) i(1) l(2)])
    note p' = more_task_proc [OF nx(5)]
    have "machine_ok ts s'"
      by (rule machine_ok_same [OF m2 _ nx(2)]) (use nx(3,4) p' p2(2) len(2) in \<open>simp_all add: outb_def\<close>)
    with nx(1) Idt_clock show ?thesis by (simp add: idt_clock_def)
  next
    case Idt_handle_exception
    obtain u p where u: "objs s2 (ts ! i) = Some (OTask u)" "objs s2 (task_process u) = Some (OProcess p)" "unat (pr_id p) < 12"
      using m2 i(1) unfolding machine_ok_def task_typed_def by (metis nth_mem)
    have pl: "length (processes s2) = 12" by (simp add: p2(2) len(2))
    obtain regs s' where e: "idt_handle_exception s2 = Some (resumed regs, s')" "task_list ts s'" "objs s' = objs s2"
      "processes s' = (processes s2)[unat (pr_id p) := 0]" "kernel_chunk s' = kernel_chunk s2" "procmem.more s' = procmem.more s2"
      by (rule exception_ok [OF l2(1) i u pl])
    have "machine_ok ts s'" by (rule machine_ok_same [OF m2 e(3,2,5,6)]) (simp add: e(4) pl)
    with e(1) Idt_handle_exception show ?thesis by simp
  qed
  with h show thesis by (auto intro: that)
qed

text \<open>A vector without a callback: the interrupted task goes on with the registers it had.\<close>

lemma no_callback_ok:
  assumes m: "machine_ok ts s" and cb: "interrupt_callbacks s ! n = NullCallback" and n: "n < 512"
  obtains s' where "interrupt_handler hw (int n) frame s = Some (Returned s')" "machine_ok ts s'"
    "objs s' = objs s" "current_task s' = current_task s"
proof -
  obtain c where c: "objs s (kernel_chunk s) = Some (OChunk c)" and list: "task_list ts s" "ts \<noteq> []"
    and len: "length (interrupt_callbacks s) = 512" "length (processes s) = 12"
    using m unfolding machine_ok_def sched_ok_def by blast
  let ?s1 = "s\<lparr>data_segments := 0x10, cr3 := directory_entry c, current_directory := directory_entry c\<rparr>"
  have l1: "task_list ts ?s1" using list(1) by simp
  obtain u d s2 where p: "task_page ?s1 = Some (0, s2)" "objs ?s1 (current_task ?s1) = Some (OTask u)"
    "objs ?s1 (page_directory u) = Some (OChunk d)"
    "s2 = ?s1\<lparr>data_segments := 0x23, current_directory := directory_entry d, cr3 := directory_entry d\<rparr>"
    by (rule task_page_ok [OF l1 list(2)])
  let ?s' = "outb hw 0x20 0x20 s2"
  have "aget_i (interrupt_callbacks ?s1) (int n) = Some NullCallback" using n len(1) cb by simp
  then have "interrupt_handler hw (int n) frame s = Some (Returned ?s')"
    using p(1) by (simp add: interrupt_handler_def kernel_page_ok [OF c])
  moreover have "machine_ok ts ?s'"
    by (rule machine_ok_same [OF m]) (use list(1) len(2) in \<open>simp_all add: p(4) outb_def\<close>)
  ultimately show thesis by (rule that) (simp_all add: p(4) outb_def)
qed

lemma vector_ok:
  assumes m: "machine_ok ts s" and n: "n < 512"
  obtains r' s' where "int_stub hw n r kesp (user_frame r) s = Some (r', s')" "machine_ok ts s'"
    "interrupt_callbacks s ! n = NullCallback \<Longrightarrow> r' = r \<and> objs s' = objs s \<and> current_task s' = current_task s"
proof (cases "interrupt_callbacks s ! n = NullCallback")
  case True
  obtain f where f: "frame_at (pushad r kesp @ user_frame r) = Some f" "frame_registers f = r" by (rule frame_pushed)
  obtain s' where h: "interrupt_handler hw (int n) f s = Some (Returned s')" "machine_ok ts s'"
    "objs s' = objs s" "current_task s' = current_task s"
    by (rule no_callback_ok [OF m True n])
  have "int_stub hw n r kesp (user_frame r) s = Some (r, s')"
    using f h(1) by (simp add: int_stub_def popad_iret_def)
  then show thesis by (rule that [OF _ h(2)]) (simp add: h(3,4))
next
  case False
  obtain f where f: "frame_at (pushad r kesp @ user_frame r) = Some f" "frame_registers f = r" by (rule frame_pushed)
  obtain r' s' where h: "interrupt_handler hw (int n) f s = Some (UserMode r' s')" "machine_ok ts s'"
    by (rule callback_ok [OF m False n])
  have "int_stub hw n r kesp (user_frame r) s = Some (r', s')" using f h(1) by (simp add: int_stub_def)
  then show thesis by (rule that [OF _ h(2)]) (simp add: False)
qed

lemma syscall_event_ok:
  assumes m: "machine_ok ts s"
  obtains s' where "isr80h_wrapper cmd r kesp (user_frame r) s = Some (r\<lparr>r_eax := 0\<rparr>, s')" "machine_ok ts s'"
proof -
  obtain c where c: "objs s (kernel_chunk s) = Some (OChunk c)" and list: "task_list ts s" "ts \<noteq> []"
    and len: "length (processes s) = 12" and no: "no_commands (isr80h_commands s)"
    using m unfolding machine_ok_def sched_ok_def by blast
  have z: "isr80h_commands s ! k = 0" if "k < 1024" for k using no that by (simp add: no_commands_def)
  have "\<forall>k \<in> set (isr80h_commands s). k = 0" using no by (auto simp: no_commands_def in_set_conv_nth)
  then have safe: "command_safe cmd (isr80h_commands s) ts (current_task s)" by (auto simp: command_safe_def)
  have l: "length (isr80h_commands s) = 1024" using no by (simp add: no_commands_def)
  obtain f f' v t s1 s2 s' where w: "isr80h_wrapper cmd r kesp (user_frame r) s = Some ((frame_registers f')\<lparr>r_eax := v\<rparr>, s')"
    "frame_registers f = r"
    "task_list ts s'" "objs s (current_task s) = Some (OTask t)"
    "objs s1 = (objs s)(current_task s \<mapsto> OTask (t\<lparr>task_registers := r\<rparr>))"
    "kernel_chunk s1 = kernel_chunk s" "taskmem.more s1 = taskmem.more s"
    "\<exists>d. s' = s2\<lparr>data_segments := 0x23, current_directory := d, cr3 := d\<rparr>"
    "if 0 \<le> int_of_u32 (r_eax r) \<and> int_of_u32 (r_eax r) < 1024 \<and> isr80h_commands s ! nat (int_of_u32 (r_eax r)) \<noteq> 0
     then cmd (isr80h_commands s ! nat (int_of_u32 (r_eax r))) f s1 = Some (v, f', s2) else v = 0 \<and> f' = f \<and> s2 = s1"
    by (rule system_call_ok [OF list c safe l])
  have v: "v = 0" "f' = f" "s2 = s1" using w(9) z by (auto split: if_splits)
  obtain d where s': "s' = s1\<lparr>data_segments := 0x23, current_directory := d, cr3 := d\<rparr>" using w(8) v(3) by blast
  note p1 = more_task_proc [OF w(7)]
  have "machine_ok ts s'"
    by (rule machine_ok_saved [OF m w(4) _ w(3)]) (use w(5,6) p1 len in \<open>simp_all add: s'\<close>)
  then show thesis using w(1,2) v(1,2) by (intro that) simp_all
qed

lemma kernel_event_ok:
  assumes "machine_ok ts s" and "event_ok e"
  shows "\<exists>r s'. kernel_event hw cmd kesp e s = Some (r, s') \<and> machine_ok ts s'"
proof (cases e)
  case (Vector n r)
  then have n: "n < 512" using assms(2) by (simp add: plain_vector_def)
  show ?thesis unfolding Vector kernel_event.simps
    by (rule vector_ok [OF assms(1) n, of hw r kesp]) blast
next
  case (Syscall r)
  show ?thesis unfolding Syscall kernel_event.simps
    by (rule syscall_event_ok [OF assms(1), of cmd r kesp]) blast
qed

lemma run_kernel_ok:
  assumes "machine_ok ts s" and "\<forall>e \<in> set es. event_ok e"
  shows "\<exists>r' s'. run_kernel hw cmd kesp es (r, s) = Some (r', s') \<and> machine_ok ts s'"
  using assms
proof (induction es arbitrary: r s)
  case Nil
  then show ?case by simp
next
  case (Cons e es)
  obtain r1 s1 where e: "kernel_event hw cmd kesp e s = Some (r1, s1)" "machine_ok ts s1"
    using kernel_event_ok [OF Cons.prems(1), of e hw cmd kesp] Cons.prems(2) by auto
  with Cons.IH [OF e(2), of r1] Cons.prems(2) show ?case by simp
qed

section \<open>Properties\<close>

text \<open>
  C3. The booted kernel never gets stuck and stays well typed: whatever the user program does, that
  is, for every sequence of clock interrupts, other vectors without error code and system calls with
  any registers, every handler returns without undefined behaviour or panic, and in the resulting
  state every task of the list is still a task object whose process is a process object of the
  table's range, and the callbacks are in place.
\<close>

theorem kernel_never_stuck:
  fixes s0 :: "('d, 'a) kernelmem_scheme"
  assumes "ata_ok hw img idle xfer" and "idle (dev s0)" and "volume_ok img n"
    and "mount_room img + 2060 \<le> 25600" and "power_on im raw s0" and "\<forall>e \<in> set es. event_ok e"
  shows "\<exists>regs s tsk r' s'. kernel_main hw im raw s0 = Some (regs, s) \<and>
    run_kernel hw cmd kesp es (regs, s) = Some (r', s') \<and> machine_ok [tsk] s'"
proof -
  obtain regs proc tsk s where b: "kernel_main hw im raw s0 = Some (regs, s)" "first_process_runs regs proc tsk s"
    "gates_loaded im s"
    using kernel_main_ok [OF assms(1-5)] by blast
  have "machine_ok [tsk] s"
    using b(2,3) by (auto simp: machine_ok_def first_process_runs_def gates_loaded_def task_typed_def)
  from run_kernel_ok [OF this assms(6)] b(1) show ?thesis by blast
qed

text \<open>A system call, a tick, a spurious interrupt, an invalid opcode and another tick.\<close>

lemma kernel_never_stuck_witness:
  "\<exists>regs s tsk r' s'. kernel_main (sample_ata sample_volume) sample_image (replicate 25600 0xAA) sample_kernel = Some (regs, s) \<and>
     run_kernel (sample_ata sample_volume) (\<lambda>_ _ _. None) 0x5FFFEC
       [Syscall (zero_registers\<lparr>r_eax := 3\<rparr>), Vector 0x20 zero_registers, Vector 0x27 zero_registers,
        Vector 6 zero_registers, Vector 0x20 zero_registers] (regs, s) = Some (r', s') \<and> machine_ok [tsk] s'"
proof -
  have "mount_room sample_volume + 2060 \<le> 25600" using sample_volume_room(2) by simp
  moreover have "\<forall>e \<in> set [Syscall (zero_registers\<lparr>r_eax := 3\<rparr>), Vector 0x20 zero_registers, Vector 0x27 zero_registers,
      Vector 6 zero_registers, Vector 0x20 zero_registers]. event_ok e"
    by (simp add: plain_vector_def)
  ultimately show ?thesis
    by (rule kernel_never_stuck [OF sample_volume_ok TrueI sample_volume_room(1) _ sample_kernel_on(1)])
qed

end
