(* ===== verification/Boot_Sector.thy ===== *)
theory Boot_Sector
  imports Gdt Disk
begin

text \<open>
  The boot sector of \<^verbatim>\<open>src/src/boot/boot.asm\<close>: the switch to protected mode and the load of the
  kernel's 100 sectors to 0x100000. A processor is the registers the code uses, the flags, the
  physical memory as bytes and the device behind the ports. Addresses that the assembler chooses are
  a parameter. \<open>None\<close> is a fault for which no handler is installed, or a poll that never ends.
\<close>

section \<open>The processor\<close>

text \<open>
  \<open>es_limit\<close> is the limit that the processor holds for \<^verbatim>\<open>es\<close>: loading a segment register in real
  mode sets its base and leaves the limit. Without the A20 line, address bit 20 reads as 0.
\<close>

record 'd boot_cpu =
  eax :: u32
  ebx :: u32
  ecx :: u32
  edx :: u32
  edi :: u32
  sp :: u16
  eip :: u32
  cs_reg :: u16
  ds_reg :: u16
  es_reg :: u16
  ss_reg :: u16
  es_limit :: u32
  cr0_reg :: u32
  boot_gdtr :: "(u32 \<times> u16) option"
  int_flag :: bool
  dir_flag :: bool
  a20 :: bool
  ram :: "u32 \<Rightarrow> u8"
  port_dev :: 'd

record boot_labels =
  gdt_start :: u32
  load32_label :: u32
  after_call :: u32

text \<open>The descriptor table of the boot sector.\<close>

definition boot_gdt :: "gdt list" where
  "boot_gdt = [[0, 0, 0, 0, 0, 0, 0, 0],
     [0xff, 0xff, 0, 0, 0, 0x9a, 0xCF, 0],
     [0xff, 0xff, 0, 0, 0, 0x92, 0xCF, 0]]"

abbreviation (input) CODE_SEG :: u16 where "CODE_SEG \<equiv> 8"
abbreviation (input) DATA_SEG :: u16 where "DATA_SEG \<equiv> 0x10"

section \<open>Registers, memory and ports\<close>

definition set_al :: "u8 \<Rightarrow> u32 \<Rightarrow> u32" where
  "set_al b r = push_bit 8 (drop_bit 8 r) OR ucast b"

definition set_low16 :: "u16 \<Rightarrow> u32 \<Rightarrow> u32" where
  "set_low16 w r = push_bit 16 (drop_bit 16 r) OR ucast w"

definition phys :: "bool \<Rightarrow> u32 \<Rightarrow> u32" where
  "phys line a = (if line then a else a AND NOT 0x100000)"

definition read32 :: "(u32 \<Rightarrow> u8) \<Rightarrow> u32 \<Rightarrow> u32" where
  "read32 m a = ucast (m a) OR push_bit 8 (ucast (m (a + 1))) OR push_bit 16 (ucast (m (a + 2))) OR
     push_bit 24 (ucast (m (a + 3)))"

definition write32 :: "(u32 \<Rightarrow> u8) \<Rightarrow> u32 \<Rightarrow> u32 \<Rightarrow> u32 \<Rightarrow> u8" where
  "write32 m a v = m(a := ucast (v AND 0xFF), a + 1 := ucast (drop_bit 8 v AND 0xFF),
     a + 2 := ucast (drop_bit 16 v AND 0xFF), a + 3 := ucast (drop_bit 24 v AND 0xFF))"

text \<open>The stack segment keeps the 16-bit stack pointer and the base 0 of real mode.\<close>

definition push32 :: "u32 \<Rightarrow> 'd boot_cpu \<Rightarrow> 'd boot_cpu" where
  "push32 v c = c\<lparr>sp := sp c - 4, ram := write32 (ram c) (ucast (sp c - 4)) v\<rparr>"

definition pop32 :: "'d boot_cpu \<Rightarrow> u32 \<times> 'd boot_cpu" where
  "pop32 c = (read32 (ram c) (ucast (sp c)), c\<lparr>sp := sp c + 4\<rparr>)"

text \<open>\<^verbatim>\<open>out dx, al\<close> and \<^verbatim>\<open>in al, dx\<close>.\<close>

definition out_al :: "'d ata \<Rightarrow> 'd boot_cpu \<Rightarrow> 'd boot_cpu" where
  "out_al hw c = c\<lparr>port_dev := hw_outb hw (ucast (edx c)) (ucast (eax c)) (port_dev c)\<rparr>"

definition in_al :: "'d ata \<Rightarrow> 'd boot_cpu \<Rightarrow> 'd boot_cpu" where
  "in_al hw c = (case hw_insb hw (ucast (edx c)) (port_dev c) of (b, d) \<Rightarrow> c\<lparr>eax := set_al b (eax c), port_dev := d\<rparr>)"

definition mov_dx :: "u16 \<Rightarrow> 'd boot_cpu \<Rightarrow> 'd boot_cpu" where
  "mov_dx w c = c\<lparr>edx := set_low16 w (edx c)\<rparr>"

text \<open>One \<^verbatim>\<open>insw\<close> to \<^verbatim>\<open>es:edi\<close>: beyond the segment limit it faults.\<close>

definition insw_edi :: "'d ata \<Rightarrow> 'd boot_cpu \<Rightarrow> 'd boot_cpu option" where
  "insw_edi hw c =
     (if unat (edi c) + 1 \<le> unat (es_limit c)
      then case hw_insw hw (ucast (edx c)) (port_dev c) of (w, d) \<Rightarrow>
        Some (c\<lparr>port_dev := d,
          ram := (ram c)(phys (a20 c) (edi c) := ucast w, phys (a20 c) (edi c + 1) := ucast (drop_bit 8 w)),
          edi := (if dir_flag c then edi c - 2 else edi c + 2)\<rparr>)
      else None)"

text \<open>\<^verbatim>\<open>rep insw\<close> with \<open>n\<close> words to go.\<close>

fun insw_times :: "'d ata \<Rightarrow> nat \<Rightarrow> 'd boot_cpu \<Rightarrow> 'd boot_cpu option" where
  "insw_times hw 0 c = Some c"
| "insw_times hw (Suc n) c = do { c \<leftarrow> insw_edi hw c; insw_times hw n (c\<lparr>ecx := ecx c - 1\<rparr>) }"

definition rep_insw :: "'d ata \<Rightarrow> 'd boot_cpu \<Rightarrow> 'd boot_cpu option" where
  "rep_insw hw c = insw_times hw (unat (ecx c)) c"

section \<open>The code\<close>

text \<open>\<^verbatim>\<open>start\<close>, \<^verbatim>\<open>step2\<close> and \<^verbatim>\<open>.load_protected\<close>.\<close>

definition load_protected :: "boot_labels \<Rightarrow> 'd boot_cpu \<Rightarrow> 'd boot_cpu" where
  "load_protected lb c =
     (let c = c\<lparr>cs_reg := 0\<rparr>;
          c = c\<lparr>int_flag := False, eax := set_low16 0 (eax c), ds_reg := 0, es_reg := 0, ss_reg := 0, sp := 0x7c00\<rparr>;
          c = c\<lparr>int_flag := True\<rparr>;
          c = c\<lparr>int_flag := False, boot_gdtr := Some (gdt_start lb, of_nat (length (concat boot_gdt) - 1)), eax := cr0_reg c\<rparr>;
          c = c\<lparr>eax := eax c OR 1\<rparr>
      in c\<lparr>cr0_reg := eax c, cs_reg := CODE_SEG, eip := load32_label lb\<rparr>)"

text \<open>The port writes of \<^verbatim>\<open>ata_lba_read\<close>.\<close>

definition ata_command :: "'d ata \<Rightarrow> 'd boot_cpu \<Rightarrow> 'd boot_cpu" where
  "ata_command hw c =
     (let c = c\<lparr>ebx := eax c\<rparr>;
          c = c\<lparr>eax := drop_bit 24 (eax c) OR 0xE0\<rparr>;
          c = out_al hw (mov_dx 0x1F6 c);
          c = out_al hw (mov_dx 0x1F2 (c\<lparr>eax := ecx c\<rparr>));
          c = out_al hw (mov_dx 0x1F3 (c\<lparr>eax := ebx c\<rparr>));
          c = out_al hw ((mov_dx 0x1F4 c)\<lparr>eax := drop_bit 8 (ebx c)\<rparr>);
          c = out_al hw ((mov_dx 0x1F5 c)\<lparr>eax := drop_bit 16 (ebx c)\<rparr>);
          c = mov_dx 0x1F7 c
      in out_al hw (c\<lparr>eax := set_al 0x20 (eax c)\<rparr>))"

partial_function (option) try_again :: "'d ata \<Rightarrow> 'd boot_cpu \<Rightarrow> 'd boot_cpu option" where
  "try_again hw c =
     (let c = in_al hw (mov_dx 0x1F7 c) in if eax c AND 8 = 0 then try_again hw c else Some c)"

partial_function (option) next_sector :: "'d ata \<Rightarrow> 'd boot_cpu \<Rightarrow> 'd boot_cpu option" where
  "next_sector hw c =
     do { c \<leftarrow> try_again hw (push32 (ecx c) c);
          c \<leftarrow> rep_insw hw (mov_dx 0x1F0 (c\<lparr>ecx := 256\<rparr>));
          let (v, c) = pop32 c;
          let c = c\<lparr>ecx := v - 1\<rparr>;
          if ecx c \<noteq> 0 then next_sector hw c else Some c }"

text \<open>\<^verbatim>\<open>ret\<close> takes the address to go on at from the stack.\<close>

definition ata_lba_read :: "'d ata \<Rightarrow> 'd boot_cpu \<Rightarrow> 'd boot_cpu option" where
  "ata_lba_read hw c = do {
     c \<leftarrow> next_sector hw (ata_command hw c);
     let (v, c) = pop32 c;
     Some (c\<lparr>eip := v\<rparr>) }"

definition load32 :: "'d ata \<Rightarrow> boot_labels \<Rightarrow> 'd boot_cpu \<Rightarrow> 'd boot_cpu option" where
  "load32 hw lb c = do {
     c \<leftarrow> ata_lba_read hw (push32 (after_call lb) (c\<lparr>eax := 1, ecx := 100, edi := 0x0100000\<rparr>));
     if eip c = after_call lb then Some (c\<lparr>cs_reg := CODE_SEG, eip := 0x0100000\<rparr>) else None }"

definition boot_sector :: "'d ata \<Rightarrow> boot_labels \<Rightarrow> 'd boot_cpu \<Rightarrow> 'd boot_cpu option" where
  "boot_sector hw lb c = load32 hw lb (load_protected lb c)"

section \<open>The volume\<close>

text \<open>
  The header that makes the disk a FAT16 volume, as the assembler lays it out: the jump, the BIOS
  parameter block and its extension. The kernel is in the reserved sectors.
\<close>

definition dw :: "u16 \<Rightarrow> u8 list" where
  "dw w = [ucast w, ucast (drop_bit 8 w)]"

definition dd :: "u32 \<Rightarrow> u8 list" where
  "dd w = [ucast w, ucast (drop_bit 8 w), ucast (drop_bit 16 w), ucast (drop_bit 24 w)]"

definition db :: "string \<Rightarrow> u8 list" where
  "db cs = map of_char cs"

definition boot_header :: "u8 list" where
  "boot_header = [0xEB, 0x3C, 0x90] @ db ''PEACHOS '' @ dw 0x200 @ [0x80] @ dw 200 @ [2] @ dw 0x40 @ dw 0 @ [0xF8] @
     dw 0x100 @ dw 0x20 @ dw 0x40 @ dd 0 @ dd 0x773594 @ [0x80, 0, 0x29] @ dd 0xD105 @ db ''PEACHOS BOO'' @ db ''FAT16   ''"

end
