(* ===== verification/Boot_Load.thy ===== *)
theory Boot_Load
  imports Boot_Sector
begin

text \<open>
  What the boot sector does on a controller that follows the READ SECTORS protocol: the sectors 1 to
  100 are in memory from 0x100000 on when it jumps there, provided that the segment limit reaches
  them.
\<close>

section \<open>Registers and memory\<close>

lemma byte_regs [simp]: "ucast (set_al b r) = b" "ucast (set_low16 w r) = w"
  by (rule bit_word_eqI; auto simp: set_al_def set_low16_def bit_simps dest: bit_imp_le_length)+

lemma set_al_bit3: "set_al b r AND 8 = 0 \<longleftrightarrow> b AND 8 = 0"
proof -
  have "bit (set_al b r) 3 = bit b 3" by (simp add: set_al_def bit_simps)
  moreover have "(x AND 8 = 0) = (\<not> bit x 3)" for x :: u32
    using and_exp_eq_0_iff_not_bit [of x 3] by simp
  moreover have "(x AND 8 = 0) = (\<not> bit x 3)" for x :: u8
    using and_exp_eq_0_iff_not_bit [of x 3] by simp
  ultimately show ?thesis by simp
qed

lemma read_write32:
  assumes "distinct [a, a + 1, a + 2, a + 3]"
  shows "read32 (write32 m a v) a = v"
  using assms bytes_join [of v] by (simp add: read32_def write32_def)

lemma word_offsets_distinct: "distinct [a, a + 1, a + 2, a + 3 :: u32]"
  by simp

lemma read32_cong: "(\<And>i. i < 4 \<Longrightarrow> m' (a + of_nat i) = m (a + of_nat i)) \<Longrightarrow> read32 m' a = read32 m a"
proof -
  assume *: "\<And>i. i < 4 \<Longrightarrow> m' (a + of_nat i) = m (a + of_nat i)"
  show ?thesis using *[of 0] *[of 1] *[of 2] *[of 3] by (simp add: read32_def)
qed

text \<open>Storing bytes at consecutive addresses.\<close>

primrec store_bytes :: "(u32 \<Rightarrow> u8) \<Rightarrow> u32 \<Rightarrow> u8 list \<Rightarrow> u32 \<Rightarrow> u8" where
  "store_bytes m a [] = m"
| "store_bytes m a (b # bs) = store_bytes (m(a := b)) (a + 1) bs"

lemma store_bytes_at:
  assumes "length bs \<le> 4294967296"
  shows "store_bytes m a bs x = (if unat (x - a) < length bs then bs ! unat (x - a) else m x)"
  using assms
proof (induction bs arbitrary: m a)
  case (Cons b bs)
  show ?case
  proof (cases "x = a")
    case True
    then have "unat (x - (a + 1)) = 4294967295" by (simp add: unsigned_minus_1_eq_mask mask_eq_exp_minus_1)
    then show ?thesis using Cons True by simp
  next
    case False
    then have "x - a \<noteq> 0" by simp
    then have "unat (x - a - 1) + 1 = unat (x - a)" by (simp add: unat_minus_one unat_gt_0 Suc_leI)
    then show ?thesis using Cons False by (cases "unat (x - a)") (auto simp: algebra_simps)
  qed
qed simp

lemma insw_loop:
  assumes "data_words hw d ws d'" and "port_dev c = d" and "ucast (edx c) = (0x1F0 :: u16)" and "a20 c" and "\<not> dir_flag c"
    and "unat (edi c) + 2 * length ws \<le> unat (es_limit c) + 1"
  shows "insw_times hw (length ws) c = Some (c\<lparr>port_dev := d', ram := store_bytes (ram c) (edi c) (bytes_of ws),
    edi := edi c + of_nat (2 * length ws), ecx := ecx c - of_nat (length ws)\<rparr>)"
  using assms
proof (induction ws arbitrary: c d)
  case Nil
  then show ?case by (auto elim!: data_words_NilE)
next
  case (Cons w ws)
  from Cons.prems(1) obtain d1 where d1: "hw_insw hw 0x1F0 d = (w, d1)" "data_words hw d1 ws d'"
    by (auto elim: data_words_ConsE)
  have lim: "unat (edi c) + 2 * length ws + 2 \<le> unat (es_limit c) + 1" using Cons.prems(6) by simp
  let ?c = "c\<lparr>port_dev := d1, ram := (ram c)(edi c := ucast w, edi c + 1 := ucast (drop_bit 8 w)),
     edi := edi c + 2, ecx := ecx c - 1\<rparr>"
  have "insw_edi hw c = Some (?c\<lparr>ecx := ecx c\<rparr>)"
    using d1(1) Cons.prems(2-5) lim by (simp add: insw_edi_def phys_def)
  then have step: "insw_times hw (length (w # ws)) c = insw_times hw (length ws) ?c" by simp
  show ?case
  proof (cases "ws = []")
    case True
    with d1(2) have "d' = d1" by (auto elim: data_words_NilE)
    with True show ?thesis unfolding step by (simp add: fun_upd_def)
  next
    case False
    have "unat (es_limit c) < 4294967296" "0 < length ws" using False by simp_all
    then have "unat (edi c) + 2 < 4294967296" using lim by linarith
    then have e: "unat (edi c + 2) = unat (edi c) + 2" by (simp add: unat_word_ariths)
    have "insw_times hw (length ws) ?c = Some (?c\<lparr>port_dev := d', ram := store_bytes (ram ?c) (edi ?c) (bytes_of ws),
        edi := edi ?c + of_nat (2 * length ws), ecx := ecx ?c - of_nat (length ws)\<rparr>)"
      by (rule Cons.IH [OF d1(2)]) (use Cons.prems(3-5) lim e in simp_all)
    then show ?thesis unfolding step by (simp add: add.assoc diff_diff_eq)
  qed
qed

lemma try_again_drq:
  assumes "drq_after hw d d1" and "port_dev c = d"
  shows "\<exists>e x. try_again hw c = Some (c\<lparr>eax := e, edx := x, port_dev := d1\<rparr>)"
  using assms
proof (induction arbitrary: c rule: drq_after.induct)
  case (now d c' d1)
  then show ?case
    by (subst try_again.simps, intro exI [of _ "set_al c' (eax c)"] exI [of _ "set_low16 0x1F7 (edx c)"])
      (simp add: in_al_def mov_dx_def set_al_bit3 Let_def)
next
  case (later d c' d' d1)
  let ?c = "in_al hw (mov_dx 0x1F7 c)"
  have c: "?c = c\<lparr>eax := set_al c' (eax c), edx := set_low16 0x1F7 (edx c), port_dev := d'\<rparr>" "eax ?c AND 8 = 0"
    using later by (simp_all add: in_al_def mov_dx_def set_al_bit3)
  then have "port_dev ?c = d'" by simp
  from later.IH [OF this] obtain e x where "try_again hw ?c = Some (?c\<lparr>eax := e, edx := x, port_dev := d1\<rparr>)" by blast
  then show ?case
    using c by (subst try_again.simps) (auto simp: Let_def)
qed

section \<open>Sectors\<close>

text \<open>The sector loop with the stack word at \<open>sp - 4\<close> as its counter.\<close>

lemma push_pop:
  assumes "ram c' = store_bytes (write32 m (ucast (sp c - 4)) v) a bs" and "sp c' = sp c - 4" and "length bs \<le> 4294967296"
    and "\<And>i. i < 4 \<Longrightarrow> length bs \<le> unat (ucast (sp c - 4) + of_nat i - a)"
  shows "pop32 c' = (v, c'\<lparr>sp := sp c\<rparr>)"
proof -
  have "read32 (ram c') (ucast (sp c - 4)) = read32 (write32 m (ucast (sp c - 4)) v) (ucast (sp c - 4))"
    by (rule read32_cong) (use assms(4) in \<open>simp add: assms(1) store_bytes_at [OF assms(3)] not_less leD\<close>)
  then show ?thesis using assms(2) by (simp add: pop32_def read_write32 [OF word_offsets_distinct])
qed

lemma next_sector_step:
  fixes c :: "'d boot_cpu"
  assumes hw: "ata_ok hw img idle xfer" and x: "xfer (port_dev c) lba (Suc n)" and cpu: "a20 c" "\<not> dir_flag c" "sp c = 0x7BFC"
    and low: "0x8000 \<le> unat (edi c)" and lim: "unat (edi c) + 512 \<le> unat (es_limit c) + 1"
  obtains e x d where "next_sector hw c = (let c = c\<lparr>eax := e, edx := x, port_dev := d,
      ram := store_bytes (write32 (ram c) 0x7BF8 (ecx c)) (edi c) (img lba), edi := edi c + 512, ecx := ecx c - 1\<rparr>
    in if ecx c \<noteq> 0 then next_sector hw c else Some c)" "xfer d (lba + 1) n"
proof -
  obtain d1 d2 where d: "drq_after hw (port_dev c) d1" "data_words hw d1 (words_of (img lba)) d2" "xfer d2 (lba + 1) n"
    by (rule ata_ok_next [OF hw x])
  let ?m = "write32 (ram c) 0x7BF8 (ecx c)"
  let ?p = "push32 (ecx c) c"
  have p: "?p = c\<lparr>sp := 0x7BF8, ram := ?m\<rparr>" by (simp add: push32_def cpu(3))
  have "port_dev ?p = port_dev c" by (simp add: p)
  from try_again_drq [OF d(1) this] obtain e x where t: "try_again hw ?p = Some (?p\<lparr>eax := e, edx := x, port_dev := d1\<rparr>)" by blast
  let ?q = "mov_dx 0x1F0 (?p\<lparr>eax := e, edx := x, port_dev := d1, ecx := 256\<rparr>)"
  have len: "length (img lba) = 512" by (rule ata_ok_length [OF hw])
  have ws: "length (words_of (img lba)) = 256" "bytes_of (words_of (img lba)) = img lba"
    by (simp_all add: length_words_of bytes_of_words_of len)
  have r: "insw_times hw 256 ?q = Some (?q\<lparr>port_dev := d2, ram := store_bytes (ram ?q) (edi ?q) (img lba),
      edi := edi ?q + 512, ecx := ecx ?q - 256\<rparr>)"
    using insw_loop [OF d(2), of ?q] cpu lim by (simp add: ws p mov_dx_def)
  let ?r = "?q\<lparr>port_dev := d2, ram := store_bytes (ram ?q) (edi ?q) (img lba), edi := edi ?q + 512, ecx := ecx ?q - 256\<rparr>"
  have "pop32 ?r = (ecx c, ?r\<lparr>sp := sp c\<rparr>)"
  proof (rule push_pop)
    show "ram ?r = store_bytes (write32 (ram c) (ucast (sp c - 4)) (ecx c)) (edi c) (img lba)"
      by (simp add: p mov_dx_def cpu(3))
    show "sp ?r = sp c - 4" by (simp add: p mov_dx_def cpu(3))
    show "length (img lba) \<le> unat (ucast (sp c - 4) + of_nat i - edi c)" if "i < 4" for i
    proof -
      have "unat (0x7BF8 + of_nat i :: u32) = 0x7BF8 + i" using that by (simp add: unat_word_ariths unat_of_nat_u32)
      moreover have "unat (es_limit c) < 4294967296" by simp
      ultimately have "512 \<le> 4294967296 + (0x7BF8 + i) - unat (edi c)" "\<not> unat (edi c) \<le> 0x7BF8 + i"
        using low lim that by linarith+
      with \<open>unat (0x7BF8 + of_nat i :: u32) = 0x7BF8 + i\<close> show ?thesis by (simp add: len cpu(3) unat_sub_if')
    qed
  qed (simp add: len)
  then have "next_sector hw c = (let c = c\<lparr>eax := e, edx := set_low16 0x1F0 x, port_dev := d2,
      ram := store_bytes ?m (edi c) (img lba), edi := edi c + 512, ecx := ecx c - 1\<rparr>
    in if ecx c \<noteq> 0 then next_sector hw c else Some c)"
    using t r by (subst next_sector.simps) (simp add: rep_insw_def p mov_dx_def Let_def)
  then show thesis using d(3) by (rule that)
qed

text \<open>What the loop leaves of memory: the bytes \<open>bs\<close> at \<open>a\<close>, and the rest but for the eight bytes of stack.\<close>

definition stored :: "(u32 \<Rightarrow> u8) \<Rightarrow> u32 \<Rightarrow> u8 list \<Rightarrow> (u32 \<Rightarrow> u8) \<Rightarrow> bool" where
  "stored m a bs m' \<longleftrightarrow> (\<forall>i < length bs. m' (a + of_nat i) = bs ! i) \<and>
     (\<forall>x. length bs \<le> unat (x - a) \<longrightarrow> 8 \<le> unat (x - 0x7BF8) \<longrightarrow> m' x = m x)"

lemma write32_other: "4 \<le> unat (x - a) \<Longrightarrow> write32 m a v x = m x"
  by (auto simp: write32_def)

lemma stored_append:
  assumes s1: "stored m a bs m1" and s2: "stored m1 (a + of_nat (length bs)) cs m2"
    and len: "unat a + length bs + length cs \<le> 4294967296" and low: "0x8000 \<le> unat a"
  shows "stored m a (bs @ cs) m2"
  unfolding stored_def
proof (intro conjI allI impI)
  fix i assume i: "i < length (bs @ cs)"
  show "m2 (a + of_nat i) = (bs @ cs) ! i"
  proof (cases "i < length bs")
    case True
    have u: "unat (a + of_nat i) = unat a + i" "unat (of_nat i :: u32) = i" "unat (of_nat (length bs) :: u32) = length bs"
      using True len low by (simp_all add: unat_word_ariths unat_of_nat_u32)
    have "length cs \<le> unat (a + of_nat i - (a + of_nat (length bs)))"
      using u True len low by (simp add: unat_sub_if')
    moreover have "8 \<le> unat (a + of_nat i - 0x7BF8)" using u low by (simp add: unat_sub_if')
    ultimately show ?thesis using s1 s2 True by (simp add: stored_def nth_append)
  next
    case False
    then have j: "i - length bs < length cs" using i by simp
    have "\<forall>j < length cs. m2 (a + of_nat (length bs) + of_nat j) = cs ! j" using s2 unfolding stored_def by (rule conjunct1)
    with j have "m2 (a + of_nat (length bs) + of_nat (i - length bs)) = cs ! (i - length bs)" by blast
    moreover have "(of_nat (length bs) :: u32) + of_nat (i - length bs) = of_nat i"
      using False by (simp flip: of_nat_add)
    ultimately show ?thesis using False by (simp add: nth_append add.assoc)
  qed
next
  fix x assume x: "length (bs @ cs) \<le> unat (x - a)" "8 \<le> unat (x - 0x7BF8)"
  have u: "unat (of_nat (length bs) :: u32) = length bs" using len low by (intro unat_of_nat_u32) linarith
  have "x - (a + of_nat (length bs)) = (x - a) - of_nat (length bs)" by simp
  then have "unat (x - (a + of_nat (length bs))) = unat (x - a) - length bs"
    using x(1) u by (simp only: unat_sub_if' u) simp
  then have "m2 x = m1 x" using x s2 by (simp add: stored_def)
  then show "m2 x = m x" using x s1 by (simp add: stored_def)
qed

text \<open>One sector, away from the stack.\<close>

lemma stored_sector:
  assumes len: "length bs = 512" and low: "0x8000 \<le> unat a" and top: "unat a + 512 \<le> 4294967296"
  shows "stored m a bs (store_bytes (write32 m 0x7BF8 v) a bs)"
    and "i < 4 \<Longrightarrow> store_bytes (write32 m 0x7BF8 v) a bs (0x7BFC + of_nat i) = m (0x7BFC + of_nat i)"
proof -
  have at: "store_bytes m' a bs x = (if unat (x - a) < 512 then bs ! unat (x - a) else m' x)" for m' x
    by (simp add: store_bytes_at len)
  show "stored m a bs (store_bytes (write32 m 0x7BF8 v) a bs)"
    by (auto simp: stored_def at len unat_of_nat_u32 write32_other)
  show "store_bytes (write32 m 0x7BF8 v) a bs (0x7BFC + of_nat i) = m (0x7BFC + of_nat i)" if "i < 4"
  proof -
    have u: "unat (0x7BFC + of_nat i :: u32) = 0x7BFC + i" using that by (simp add: unat_word_ariths unat_of_nat_u32)
    have "\<not> unat (0x7BFC + of_nat i - a) < 512"
      using that low top by (simp add: unat_sub_if' u)
    moreover have "unat (4 + of_nat i :: u32) = 4 + i" using that by (simp add: unat_word_ariths unat_of_nat_u32)
    then have "4 \<le> unat (0x7BFC + of_nat i - 0x7BF8 :: u32)" by simp
    ultimately show ?thesis by (simp add: at write32_other)
  qed
qed

definition kept :: "'d boot_cpu \<Rightarrow> 'd boot_cpu \<Rightarrow> bool" where
  "kept c c' \<longleftrightarrow> sp c' = sp c \<and> cs_reg c' = cs_reg c \<and> ds_reg c' = ds_reg c \<and> es_reg c' = es_reg c \<and>
     ss_reg c' = ss_reg c \<and> cr0_reg c' = cr0_reg c \<and> boot_gdtr c' = boot_gdtr c \<and> int_flag c' = int_flag c \<and>
     a20 c' = a20 c"

lemma sector_loop:
  fixes c :: "'d boot_cpu"
  assumes hw: "ata_ok hw img idle xfer" and "xfer (port_dev c) lba (Suc n)" and "ecx c = of_nat (Suc n)" and "n < 4294967295"
    and "a20 c" and "\<not> dir_flag c" and "sp c = 0x7BFC"
    and "0x8000 \<le> unat (edi c)" and "unat (edi c) + 512 * Suc n \<le> unat (es_limit c) + 1"
  shows "\<exists>c'. next_sector hw c = Some c' \<and> idle (port_dev c') \<and> kept c c' \<and>
    stored (ram c) (edi c) (concat (map img [lba..<lba + Suc n])) (ram c') \<and>
    (\<forall>i < 4. ram c' (0x7BFC + of_nat i) = ram c (0x7BFC + of_nat i))"
  using assms(2-)
proof (induction n arbitrary: c lba)
  case 0
  have lim: "unat (edi c) + 512 \<le> unat (es_limit c) + 1" using "0.prems"(8) by simp
  obtain e x d where s: "next_sector hw c = (let c = c\<lparr>eax := e, edx := x, port_dev := d,
      ram := store_bytes (write32 (ram c) 0x7BF8 (ecx c)) (edi c) (img lba), edi := edi c + 512, ecx := ecx c - 1\<rparr>
    in if ecx c \<noteq> 0 then next_sector hw c else Some c)" "xfer d (lba + 1) 0"
    by (rule next_sector_step [OF hw "0.prems"(1,4-7) lim])
  have "unat (es_limit c) < 4294967296" by simp
  then have top: "unat (edi c) + 512 \<le> 4294967296" using lim by linarith
  note st = stored_sector [OF ata_ok_length [OF hw, of lba] "0.prems"(7) top, where m = "ram c" and v = "ecx c"]
  show ?case using s(1) ata_ok_idle [OF hw s(2)] st "0.prems"(2,6) by (simp add: Let_def kept_def)
next
  case (Suc n)
  have lim: "unat (edi c) + 512 \<le> unat (es_limit c) + 1" using Suc.prems(8) by simp
  obtain e x d where s: "next_sector hw c = (let c = c\<lparr>eax := e, edx := x, port_dev := d,
      ram := store_bytes (write32 (ram c) 0x7BF8 (ecx c)) (edi c) (img lba), edi := edi c + 512, ecx := ecx c - 1\<rparr>
    in if ecx c \<noteq> 0 then next_sector hw c else Some c)" "xfer d (lba + 1) (Suc n)"
    by (rule next_sector_step [OF hw Suc.prems(1,4-7) lim])
  let ?c = "c\<lparr>eax := e, edx := x, port_dev := d,
      ram := store_bytes (write32 (ram c) 0x7BF8 (ecx c)) (edi c) (img lba), edi := edi c + 512, ecx := ecx c - 1\<rparr>"
  have lm: "unat (es_limit c) < 4294967296" by simp
  then have top: "unat (edi c) + 512 + 512 * Suc n \<le> 4294967296" using Suc.prems(8) unfolding mult_Suc_right by linarith
  then have e: "unat (edi c + 512) = unat (edi c) + 512" by (simp add: unat_word_ariths)
  have ec1: "ecx ?c = of_nat (Suc n)" using Suc.prems(2) by simp
  moreover have "unat (of_nat (Suc n) :: u32) = Suc n" using Suc.prems(3) by (intro unat_of_nat_u32) simp
  ultimately have ec: "ecx ?c = of_nat (Suc n)" "ecx ?c \<noteq> 0" by (simp, metis nat.simps(3) unsigned_0)
  have "\<exists>c'. next_sector hw ?c = Some c' \<and> idle (port_dev c') \<and> kept ?c c' \<and>
      stored (ram ?c) (edi ?c) (concat (map img [lba + 1..<lba + 1 + Suc n])) (ram c') \<and>
      (\<forall>i < 4. ram c' (0x7BFC + of_nat i) = ram ?c (0x7BFC + of_nat i))"
    by (rule Suc.IH) (use s(2) ec(1) Suc.prems(3-8) e in simp_all)
  then obtain c' where c': "next_sector hw ?c = Some c'" "idle (port_dev c')" "kept ?c c'"
    "stored (ram ?c) (edi ?c) (concat (map img [lba + 1..<lba + 1 + Suc n])) (ram c')"
    "\<forall>i < 4. ram c' (0x7BFC + of_nat i) = ram ?c (0x7BFC + of_nat i)" by blast
  have len: "length (img l) = 512" for l by (rule ata_ok_length [OF hw])
  have lens: "length (concat (map img [lba + 1..<lba + 1 + Suc n])) = 512 * Suc n"
    by (simp only: length_concat map_map o_def len) (simp add: sum_list_triv)
  have top1: "unat (edi c) + 512 \<le> 4294967296" using top by simp
  note st = stored_sector [OF len Suc.prems(7) top1, where m = "ram c" and v = "ecx c"]
  have "stored (ram c) (edi c) (img lba @ concat (map img [lba + 1..<lba + 1 + Suc n])) (ram c')"
    by (rule stored_append [OF st(1)]) (use c'(4) Suc.prems(7) top lens len in simp_all)
  moreover have "[lba..<lba + Suc (Suc n)] = lba # [lba + 1..<lba + 1 + Suc n]" by (simp add: upt_conv_Cons)
  ultimately show ?case using s(1) ec(2) c' st(2) by (simp add: Let_def kept_def)
qed

section \<open>The boot sector\<close>

text \<open>The state in which \<^verbatim>\<open>ata_lba_read\<close> is entered, and after its port writes.\<close>

definition read_entry :: "boot_labels \<Rightarrow> 'd boot_cpu \<Rightarrow> 'd boot_cpu" where
  "read_entry lb c = push32 (after_call lb) ((load_protected lb c)\<lparr>eax := 1, ecx := 100, edi := 0x0100000\<rparr>)"

lemma read_entry_fields:
  "sp (read_entry lb c) = 0x7BFC" "ram (read_entry lb c) = write32 (ram c) 0x7BFC (after_call lb)"
  "edi (read_entry lb c) = 0x100000" "ecx (read_entry lb c) = 100" "eax (read_entry lb c) = 1"
  "port_dev (read_entry lb c) = port_dev c" "a20 (read_entry lb c) = a20 c" "dir_flag (read_entry lb c) = dir_flag c"
  "es_limit (read_entry lb c) = es_limit c" "cr0_reg (read_entry lb c) = cr0_reg c OR 1" "\<not> int_flag (read_entry lb c)"
  "boot_gdtr (read_entry lb c) = Some (gdt_start lb, 23)"
  "ds_reg (read_entry lb c) = 0" "es_reg (read_entry lb c) = 0" "ss_reg (read_entry lb c) = 0"
  by (simp_all add: read_entry_def push32_def load_protected_def Let_def boot_gdt_def)

lemma ata_command_fields:
  "kept c (ata_command hw c)" "ram (ata_command hw c) = ram c" "edi (ata_command hw c) = edi c" "ecx (ata_command hw c) = ecx c"
  "dir_flag (ata_command hw c) = dir_flag c" "es_limit (ata_command hw c) = es_limit c"
  by (simp_all add: ata_command_def out_al_def mov_dx_def Let_def kept_def)

lemma ata_command_xfer:
  assumes "ata_ok hw img idle xfer" and "idle (port_dev c)" and "eax c = 1" and "ecx c = 100"
  shows "xfer (port_dev (ata_command hw c)) 1 100"
proof -
  have "port_dev (ata_command hw c) = hw_outb hw 0x1F7 0x20 (hw_outb hw 0x1F5 0 (hw_outb hw 0x1F4 0
      (hw_outb hw 0x1F3 1 (hw_outb hw 0x1F2 100 (hw_outb hw 0x1F6 0xE0 (port_dev c))))))"
    by (simp add: ata_command_def out_al_def mov_dx_def Let_def assms(3,4))
  then show ?thesis using ata_ok_start [OF assms(1,2), of 100 "0xE0" 0 0 1] by simp
qed

lemma load32_unfold:
  "boot_sector hw lb c = do {
     c \<leftarrow> next_sector hw (ata_command hw (read_entry lb c));
     let (v, c) = pop32 c;
     if v = after_call lb then Some (c\<lparr>cs_reg := CODE_SEG, eip := 0x0100000\<rparr>) else None }"
  by (cases "next_sector hw (ata_command hw (read_entry lb c))")
    (simp_all add: boot_sector_def load32_def ata_lba_read_def read_entry_def [symmetric] pop32_def Let_def)

lemma boot_sector_ok:
  fixes c :: "'d boot_cpu"
  assumes hw: "ata_ok hw img idle xfer" and idle: "idle (port_dev c)"
    and cpu: "a20 c" "\<not> dir_flag c" and lim: "0x10C7FF \<le> es_limit c"
  obtains c' where "boot_sector hw lb c = Some c'" "cs_reg c' = 8" "eip c' = 0x100000" "cr0_reg c' = cr0_reg c OR 1"
    "boot_gdtr c' = Some (gdt_start lb, 23)" "\<not> int_flag c'" "idle (port_dev c')"
    "stored (ram c) 0x100000 (concat (map img [1..<101])) (ram c')"
proof -
  let ?e = "read_entry lb c" and ?d = "ata_command hw (read_entry lb c)"
  note f = read_entry_fields [of lb c] and g = ata_command_fields [where c = ?e and hw = hw]
  have "xfer (port_dev ?d) 1 100" by (rule ata_command_xfer [OF hw]) (simp_all add: f idle)
  then have x: "xfer (port_dev ?d) 1 (Suc 99)" by simp
  have k: "a20 ?d" "sp ?d = 0x7BFC" using g(1) cpu f by (simp_all add: kept_def)
  have "unat (0x10C7FF :: u32) \<le> unat (es_limit c)" using lim by (simp only: word_le_nat_alt)
  then have lm: "unat (edi ?d) + 512 * Suc 99 \<le> unat (es_limit ?d) + 1" by (simp add: f g)
  obtain c1 where n: "next_sector hw ?d = Some c1" "idle (port_dev c1)" "kept ?d c1"
    "stored (ram ?d) (edi ?d) (concat (map img [1..<1 + Suc 99])) (ram c1)"
    "\<forall>i < 4. ram c1 (0x7BFC + of_nat i) = ram ?d (0x7BFC + of_nat i)"
    using sector_loop [OF hw x _ _ k(1) _ k(2) _ lm] by (auto simp: f g cpu)
  have "read32 (ram c1) 0x7BFC = after_call lb"
    using read32_cong [where m' = "ram c1" and m = "ram ?d" and a = "0x7BFC"] n(5) by (simp add: f g read_write32)
  then have p: "pop32 c1 = (after_call lb, c1\<lparr>sp := 0x7C00\<rparr>)" using n(3) k(2) by (simp add: pop32_def kept_def)
  have kp: "kept ?e c1" using g(1) n(3) by (simp add: kept_def)
  have "stored (ram c) 0x100000 (concat (map img [1..<101])) (ram c1)"
  proof -
    have "write32 (ram c) 0x7BFC (after_call lb) x = ram c x" if "8 \<le> unat (x - 0x7BF8)" for x
    proof (rule write32_other)
      have "x - 0x7BFC = (x - 0x7BF8) - 4" by simp
      then show "4 \<le> unat (x - 0x7BFC)" using that by (simp only: unat_sub_if') simp
    qed
    then show ?thesis using n(4) by (simp add: f g stored_def)
  qed
  then show thesis
    using n(1,2) p kp f by (intro that [of "c1\<lparr>sp := 0x7C00, cs_reg := CODE_SEG, eip := 0x0100000\<rparr>"])
      (simp_all add: load32_unfold kept_def)
qed

lemma insw_times_fault: "insw_edi hw c = None \<Longrightarrow> 0 < n \<Longrightarrow> insw_times hw n c = None"
  by (cases n) simp_all

text \<open>A limit below the first word faults.\<close>

lemma boot_sector_faults:
  fixes c :: "'d boot_cpu"
  assumes hw: "ata_ok hw img idle xfer" and idle: "idle (port_dev c)" and lim: "es_limit c < 0x100001"
  shows "boot_sector hw lb c = None"
proof -
  let ?e = "read_entry lb c" and ?d = "ata_command hw (read_entry lb c)"
  note f = read_entry_fields [of lb c] and g = ata_command_fields [where c = ?e and hw = hw]
  have "xfer (port_dev ?d) 1 100" by (rule ata_command_xfer [OF hw]) (simp_all add: f idle)
  then have "xfer (port_dev ?d) 1 (Suc 99)" by simp
  then obtain d1 d2 where "drq_after hw (port_dev ?d) d1" "data_words hw d1 (words_of (img 1)) d2" "xfer d2 (1 + 1) 99"
    by (rule ata_ok_next [OF hw])
  then obtain e x where t: "try_again hw (push32 (ecx ?d) ?d) = Some ((push32 (ecx ?d) ?d)\<lparr>eax := e, edx := x, port_dev := d1\<rparr>)"
    using try_again_drq [of hw "port_dev ?d" d1 "push32 (ecx ?d) ?d"] by (auto simp: push32_def)
  have "unat (es_limit c) < unat (0x100001 :: u32)" using lim by (simp only: word_less_nat_alt)
  then have "insw_edi hw (mov_dx 0x1F0 ((push32 (ecx ?d) ?d)\<lparr>eax := e, edx := x, port_dev := d1, ecx := 256\<rparr>)) = None"
    by (simp add: insw_edi_def mov_dx_def push32_def f g)
  moreover have "ecx (mov_dx w c') = ecx c'" for w and c' :: "'d boot_cpu" by (simp add: mov_dx_def)
  ultimately have "next_sector hw ?d = None"
    using t by (subst next_sector.simps) (simp add: rep_insw_def insw_times_fault)
  then show ?thesis by (simp add: load32_unfold)
qed

lemma boot_gdt_flat: "map decode_desc boot_gdt =
    [\<lparr>gs_base = 0, gs_limit = 0, gs_type = 0\<rparr>, \<lparr>gs_base = 0, gs_limit = 0xFFFFFFFF, gs_type = 0x9a\<rparr>,
     \<lparr>gs_base = 0, gs_limit = 0xFFFFFFFF, gs_type = 0x92\<rparr>]"
  by (simp add: boot_gdt_def decode_desc_def desc_base_def desc_limit_def desc_raw_limit_def)

section \<open>Properties\<close>

text \<open>
  C2. The boot sector, on a controller that follows the READ SECTORS protocol, with the A20 line and
  the direction flag as the BIOS leaves them and a segment limit that reaches 0x10C7FF, enters
  protected mode with interrupts off and its flat descriptors and jumps to 0x100000, where the
  sectors 1 to 100 of the disk are; the rest of memory is as it was, but for eight bytes of stack. With
  the limit of 64 KB that real mode has after a reset the first word faults: the code does not load
  \<^verbatim>\<open>es\<close> with a protected-mode descriptor.
\<close>

theorem boot_sector_loads_kernel:
  fixes c :: "'d boot_cpu"
  assumes hw: "ata_ok hw img idle xfer" and "idle (port_dev c)" and "a20 c" and "\<not> dir_flag c"
  shows "map decode_desc boot_gdt = [\<lparr>gs_base = 0, gs_limit = 0, gs_type = 0\<rparr>,
      \<lparr>gs_base = 0, gs_limit = 0xFFFFFFFF, gs_type = 0x9a\<rparr>, \<lparr>gs_base = 0, gs_limit = 0xFFFFFFFF, gs_type = 0x92\<rparr>] \<and>
    (0x10C7FF \<le> es_limit c \<longrightarrow> (\<exists>c'. boot_sector hw lb c = Some c' \<and> cs_reg c' = 8 \<and> eip c' = 0x100000 \<and>
      cr0_reg c' = cr0_reg c OR 1 \<and> boot_gdtr c' = Some (gdt_start lb, 23) \<and> \<not> int_flag c' \<and> idle (port_dev c') \<and>
      (\<forall>i < 51200. ram c' (0x100000 + of_nat i) = concat (map img [1..<101]) ! i) \<and>
      (\<forall>x. 51200 \<le> unat (x - 0x100000) \<longrightarrow> 8 \<le> unat (x - 0x7BF8) \<longrightarrow> ram c' x = ram c x))) \<and>
    (es_limit c < 0x100001 \<longrightarrow> boot_sector hw lb c = None)"
proof (intro conjI impI)
  assume lim: "0x10C7FF \<le> es_limit c"
  have "length (concat (map img [1..<101])) = 51200"
    by (simp only: length_concat map_map o_def ata_ok_length [OF hw]) (simp add: sum_list_triv)
  moreover obtain c' where "boot_sector hw lb c = Some c'" "cs_reg c' = 8" "eip c' = 0x100000" "cr0_reg c' = cr0_reg c OR 1"
    "boot_gdtr c' = Some (gdt_start lb, 23)" "\<not> int_flag c'" "idle (port_dev c')"
    "stored (ram c) 0x100000 (concat (map img [1..<101])) (ram c')"
    by (rule boot_sector_ok [OF assms lim])
  ultimately show "\<exists>c'. boot_sector hw lb c = Some c' \<and> cs_reg c' = 8 \<and> eip c' = 0x100000 \<and>
      cr0_reg c' = cr0_reg c OR 1 \<and> boot_gdtr c' = Some (gdt_start lb, 23) \<and> \<not> int_flag c' \<and> idle (port_dev c') \<and>
      (\<forall>i < 51200. ram c' (0x100000 + of_nat i) = concat (map img [1..<101]) ! i) \<and>
      (\<forall>x. 51200 \<le> unat (x - 0x100000) \<longrightarrow> 8 \<le> unat (x - 0x7BF8) \<longrightarrow> ram c' x = ram c x)"
    by (intro exI [of _ c']) (simp add: stored_def)
qed (use boot_gdt_flat boot_sector_faults [OF hw assms(2)] in auto)

text \<open>A machine at the boot sector, with the labels of the assembled file.\<close>

definition sample_labels :: boot_labels where
  "sample_labels = \<lparr>gdt_start = 0x7c68, load32_label = 0x7c86, after_call = 0x7c9a\<rparr>"

definition boot_machine :: "sample_dev boot_cpu" where
  "boot_machine = \<lparr>eax = 0, ebx = 0, ecx = 0, edx = 0x80, edi = 0, sp = 0, eip = 0x7c00, cs_reg = 0, ds_reg = 0, es_reg = 0,
     ss_reg = 0, es_limit = 0xFFFFFFFF, cr0_reg = 0x10, boot_gdtr = None, int_flag = True, dir_flag = False, a20 = True,
     ram = (\<lambda>_. 0), port_dev = sample_device\<rparr>"

lemma boot_sector_loads_kernel_witness:
  "\<exists>c'. boot_sector (sample_ata sample_img) sample_labels boot_machine = Some c' \<and> eip c' = 0x100000 \<and>
     ram c' 0x100000 = 1 \<and> ram c' 0x10C600 = 100 \<and> ram c' 0x10C800 = 0 \<and>
     boot_sector (sample_ata sample_img) sample_labels (boot_machine\<lparr>es_limit := 0xFFFF\<rparr>) = None"
proof -
  have m: "a20 boot_machine" "\<not> dir_flag boot_machine" "0x10C7FF \<le> es_limit boot_machine" "ram boot_machine = (\<lambda>_. 0)"
    by (simp_all add: boot_machine_def)
  obtain c' where c: "boot_sector (sample_ata sample_img) sample_labels boot_machine = Some c'" "eip c' = 0x100000"
    "\<forall>i < 51200. ram c' (0x100000 + of_nat i) = concat (map sample_img [1..<101]) ! i"
    "\<forall>x. 51200 \<le> unat (x - 0x100000) \<longrightarrow> 8 \<le> unat (x - 0x7BF8) \<longrightarrow> ram c' x = ram boot_machine x"
    using boot_sector_loads_kernel [OF sample_img_ok TrueI m(1,2), of sample_labels] m(3) by auto
  define mid where "mid = concat (map sample_img [2..<100])"
  have "[1..<101 :: nat] = 1 # [2..<100] @ [100]" by (simp add: upt_rec)
  then have split: "concat (map sample_img [1..<101]) = replicate 512 1 @ mid @ replicate 512 100"
    by (simp only: mid_def list.map map_append concat.simps concat_append) (simp add: sample_img_def)
  have "length mid = 50176"
    unfolding mid_def by (simp only: length_concat map_map o_def sample_img_def length_replicate) (simp add: sum_list_triv)
  then have "concat (map sample_img [1..<101]) ! 0 = 1" "concat (map sample_img [1..<101]) ! 50688 = 100"
    unfolding split by (simp_all add: nth_append)
  moreover have "ram c' 0x10C800 = 0" using c(4) m(4) by simp
  moreover have "boot_sector (sample_ata sample_img) sample_labels (boot_machine\<lparr>es_limit := 0xFFFF\<rparr>) = None"
    using boot_sector_loads_kernel [OF sample_img_ok TrueI, of "boot_machine\<lparr>es_limit := 0xFFFF\<rparr>" sample_labels] m by simp
  ultimately show ?thesis
    using c(1,2) c(3) [rule_format, of 0] c(3) [rule_format, of 50688] by (intro exI [of _ c']) simp
qed

end
