(* ===== verification/Kernel_Entry.thy ===== *)
theory Kernel_Entry
  imports Boot_Load Kernel_Boot
begin

text \<open>
  The port functions of \<^verbatim>\<open>src/src/io/io.asm\<close>, the entry \<^verbatim>\<open>_start\<close> of \<^verbatim>\<open>src/src/kernel.asm\<close>, and the
  machine from the boot sector to user mode.
\<close>

section \<open>Port functions\<close>

text \<open>What the functions leave in \<^verbatim>\<open>eax\<close>; \<open>out16\<close> is the 16-bit write to a port, which the kernel never uses.\<close>

definition insb :: "'d ata \<Rightarrow> u32 \<Rightarrow> 'd \<Rightarrow> u32 \<times> 'd" where
  "insb hw rdx d = (case hw_insb hw (ucast rdx) d of (al, d) \<Rightarrow> (set_al al 0, d))"

definition insw :: "'d ata \<Rightarrow> u32 \<Rightarrow> 'd \<Rightarrow> u32 \<times> 'd" where
  "insw hw rdx d = (case hw_insw hw (ucast rdx) d of (ax, d) \<Rightarrow> (set_low16 ax 0, d))"

definition outw :: "(u16 \<Rightarrow> u16 \<Rightarrow> 'd \<Rightarrow> 'd) \<Rightarrow> u32 \<Rightarrow> u32 \<Rightarrow> 'd \<Rightarrow> 'd" where
  "outw out16 rdx rax d = out16 (ucast rdx) (ucast rax) d"

lemma port_argument: "ucast (ucast port :: u32) = (port :: u16)"
  by (rule bit_word_eqI) (simp add: bit_simps)

text \<open>Cut to the C return type, the functions return what the device gave.\<close>

lemma port_returns:
  "map_prod ucast id (insb hw (ucast port) d) = hw_insb hw port d"
  "map_prod ucast id (insw hw (ucast port) d) = hw_insw hw port d"
  by (simp_all add: insb_def insw_def port_argument split: prod.splits)

section \<open>The entry of the kernel\<close>

text \<open>
  \<^verbatim>\<open>_start\<close>: the segment registers, the A20 gate at port 0x92 and the three writes to the interrupt
  controller, then \<^verbatim>\<open>kernel_main\<close>. The stack of the kernel is not part of the state.
\<close>

definition kernel_entry ::
  "'d ata \<Rightarrow> image \<Rightarrow> u8 list \<Rightarrow> ('d, 'a) kernelmem_scheme \<Rightarrow> (registers \<times> ('d, 'a) kernelmem_scheme) option" where
  "kernel_entry hw im raw s =
     (let s = s\<lparr>data_segments := 0x10\<rparr>;
          (al, d) = hw_insb hw 0x92 (dev s);
          d = hw_outb hw 0x92 (al OR 2) d;
          d = hw_outb hw 0x20 0x11 d;
          d = hw_outb hw 0x21 0x20 d;
          d = hw_outb hw 0x21 0x01 d
      in kernel_main hw im raw (s\<lparr>dev := d\<rparr>))"

text \<open>Ports outside 0x1F0 to 0x1F7 do not reach the disk controller.\<close>

definition ports_apart :: "'d ata \<Rightarrow> ('d \<Rightarrow> bool) \<Rightarrow> bool" where
  "ports_apart hw idle \<longleftrightarrow> (\<forall>port v d. port < 0x1F0 \<longrightarrow> idle d \<longrightarrow>
     idle (hw_outb hw port v d) \<and> idle (snd (hw_insb hw port d)))"

lemma ports_apartD:
  assumes "ports_apart hw idle" and "port < 0x1F0" and "idle d"
  shows "idle (hw_outb hw port v d)" and "idle (snd (hw_insb hw port d))"
  using assms unfolding ports_apart_def by blast+

lemma kernel_entry_eq:
  assumes ports: "ports_apart hw idle" and "idle (dev s)"
  obtains d where "kernel_entry hw im raw s = kernel_main hw im raw (s\<lparr>data_segments := 0x10, dev := d\<rparr>)" "idle d"
proof -
  obtain al d0 where a: "hw_insb hw 0x92 (dev s) = (al, d0)" by (cases "hw_insb hw 0x92 (dev s)")
  then have "idle d0" using ports_apartD(2) [OF ports _ assms(2), of "0x92"] by simp
  then have "idle (hw_outb hw 0x21 0x01 (hw_outb hw 0x21 0x20 (hw_outb hw 0x20 0x11 (hw_outb hw 0x92 (al OR 2) d0))))"
    by (intro ports_apartD(1) [OF ports]) simp_all
  then show thesis using a by (intro that) (simp_all add: kernel_entry_def Let_def)
qed

section \<open>The volume of the boot sector\<close>

lemma boot_header_fields:
  "length boot_header = 62" "h_signature boot_header = 0x29" "h_root_dir_entries boot_header = 64"
  "root_sector boot_header = 712" "root_size boot_header = 2048" "root_end boot_header = 716"
  by (simp_all add: boot_header_def db_def dw_def dd_def h_signature_def h_root_dir_entries_def root_sector_def
      root_size_def root_end_def h_fat_copies_def h_sectors_per_fat_def h_reserved_sectors_def le16_def)

lemma boot_volume:
  assumes "img_bytes img 0 FAT_HEADER_SIZE = boot_header" and "dir_end img 364544 n" and "n \<le> 64"
  shows "volume_ok img n" and "mount_room img = 6"
  using assms by (simp_all add: volume_ok_def mount_room_def boot_header_fields blocks_for_small)

section \<open>Properties\<close>

text \<open>
  C1. The machine from the boot sector to user mode. On a disk that starts with the boot sector and has
  an ended root directory, the boot sector puts the sectors 1 to 100 at 0x100000 and jumps there; the
  entry of the kernel, run from there on the same device, neither panics nor stops: the processor
  holds the kernel's segments and gates, paging is on, the volume that the boot sector describes is
  mounted, the messages are on the screen, and the only task of the only process runs in user mode
  with interrupts enabled.
\<close>

theorem machine_boots:
  fixes s :: "('d, 'a) kernelmem_scheme" and c :: "'d boot_cpu"
  assumes hw: "ata_ok hw img idle xfer" and ports: "ports_apart hw idle" and idle: "idle (port_dev c)"
    and cpu: "a20 c" "\<not> dir_flag c" "0x10C7FF \<le> es_limit c"
    and disk: "img_bytes img 0 FAT_HEADER_SIZE = boot_header" "dir_end img 364544 n" "n \<le> 64"
    and on: "power_on im raw s"
  shows "\<exists>c' regs proc tsk p s'. boot_sector hw lb c = Some c' \<and> cs_reg c' = 8 \<and> eip c' = 0x100000 \<and>
    (\<forall>i < 51200. ram c' (0x100000 + of_nat i) = concat (map img [1..<101]) ! i) \<and>
    kernel_entry hw im raw (s\<lparr>dev := port_dev c'\<rparr>) = Some (regs, s') \<and> first_process_runs regs proc tsk s' \<and>
    segments_loaded im s' \<and> gates_loaded im s' \<and> cr0 s' AND 0x80000000 \<noteq> 0 \<and> volume_loaded img n p s' \<and>
    screen_of (screen s') = fold screen_put load_text (boot_screen (vga (screen s)))"
proof -
  obtain c' where c: "boot_sector hw lb c = Some c'" "cs_reg c' = 8" "eip c' = 0x100000" "cr0_reg c' = cr0_reg c OR 1"
    "boot_gdtr c' = Some (gdt_start lb, 23)" "\<not> int_flag c'" "idle (port_dev c')"
    "stored (ram c) 0x100000 (concat (map img [1..<101])) (ram c')"
    by (rule boot_sector_ok [OF hw idle cpu])
  let ?s = "s\<lparr>dev := port_dev c'\<rparr>"
  have "idle (dev ?s)" using c(7) by simp
  then obtain d where e: "kernel_entry hw im raw ?s = kernel_main hw im raw (?s\<lparr>data_segments := 0x10, dev := d\<rparr>)" "idle d"
    by (rule kernel_entry_eq [OF ports])
  let ?t = "?s\<lparr>data_segments := 0x10, dev := d\<rparr>"
  note v = boot_volume [OF disk]
  have pre: "idle (dev ?t)" "mount_room img + 2060 \<le> 25600" "power_on im raw ?t"
    using e(2) v(2) on by (simp_all add: power_on_def)
  obtain regs proc tsk p and s' :: "('d, 'a) kernelmem_scheme" where k: "kernel_main hw im raw ?t = Some (regs, s')"
    "first_process_runs regs proc tsk s'" "segments_loaded im s'" "gates_loaded im s'" "cr0 s' AND 0x80000000 \<noteq> 0"
    "volume_loaded img n p s'" "screen_of (screen s') = fold screen_put load_text (boot_screen (vga (screen ?t)))"
    using kernel_main_ok [OF hw pre(1) v(1) pre(2,3)] by blast
  have len: "length (concat (map img [1..<101])) = 51200"
    by (simp only: length_concat map_map o_def ata_ok_length [OF hw]) (simp add: sum_list_triv)
  then have "\<forall>i < 51200. ram c' (0x100000 + of_nat i) = concat (map img [1..<101]) ! i"
    using c(8) by (simp add: stored_def)
  then show ?thesis using c(1-3) e(1) k
    by (intro exI [of _ c'] exI [of _ regs] exI [of _ proc] exI [of _ tsk] exI [of _ p] exI [of _ s']) simp
qed

text \<open>A disk with the boot sector's header and an empty root directory.\<close>

definition boot_disk :: "nat \<Rightarrow> u8 list" where
  "boot_disk lba = (if lba = 0 then boot_header @ replicate 450 0 else replicate 512 0)"

lemma boot_disk_ok: "ata_ok (sample_ata boot_disk) boot_disk (\<lambda>_. True) (\<lambda>d lba n. sd_queue d = sample_words boot_disk lba n)"
  by (rule sample_ata_ok) (simp add: boot_disk_def boot_header_fields)

lemma boot_disk_volume: "img_bytes boot_disk 0 FAT_HEADER_SIZE = boot_header" "dir_end boot_disk 364544 0"
proof -
  show "img_bytes boot_disk 0 FAT_HEADER_SIZE = boot_header"
  proof (rule nth_equalityI)
    fix i assume "i < length (img_bytes boot_disk 0 FAT_HEADER_SIZE)"
    then show "img_bytes boot_disk 0 FAT_HEADER_SIZE ! i = boot_header ! i"
      by (simp add: img_byte_def boot_disk_def nth_append boot_header_fields)
  qed (simp add: boot_header_fields)
  show "dir_end boot_disk 364544 0" by (simp add: dir_end_def img_byte_def boot_disk_def)
qed

lemma machine_boots_witness:
  "\<exists>c' regs proc tsk p s'. boot_sector (sample_ata boot_disk) sample_labels boot_machine = Some c' \<and>
     kernel_entry (sample_ata boot_disk) sample_image (replicate 25600 0xAA) (sample_kernel\<lparr>dev := port_dev c'\<rparr>) = Some (regs, s') \<and>
     first_process_runs regs proc tsk s' \<and> volume_loaded boot_disk 0 p s' \<and> r_ip regs = 0x400000"
proof -
  have "ports_apart (sample_ata boot_disk) (\<lambda>_. True)" by (simp add: ports_apart_def)
  moreover have "a20 boot_machine" "\<not> dir_flag boot_machine" "0x10C7FF \<le> es_limit boot_machine"
    by (simp_all add: boot_machine_def)
  ultimately show ?thesis
    using machine_boots [OF boot_disk_ok _ TrueI _ _ _ boot_disk_volume _ sample_kernel_on(1), of boot_machine sample_labels]
    by (auto simp: first_process_runs_def)
qed

end
