(* ===== verification/Spec2Isabelle.thy ===== *)
theory Spec2Isabelle
  imports Prelude Memory_Ops Strings_OS Heap_Allocator KHeap Paging_Props Terminal Gdt Disk Streamer
    Path_Parser Vfs Fat16_Files Task Process Elf Idt Kernel Heap_Room Task_List Process_Props Scheduler
    Idt_Props Elf_Load Fat16_Props Fat16_Directories Kernel_Running Kernel_Entry
begin

text \<open>
  A verification library for the kernel under \<^verbatim>\<open>src/src/\<close>: a 32-bit x86 kernel in C with a block
  heap, paging, a FAT16 filesystem on a PIO disk, preemptive user tasks and system calls.

  \<^bold>\<open>The program and its parts.\<close> The boot sector (\<^verbatim>\<open>boot.asm\<close>) enters protected mode, loads the kernel
  from the disk and jumps to \<^verbatim>\<open>_start\<close> (\<^verbatim>\<open>kernel.asm\<close>), which calls \<^verbatim>\<open>kernel_main\<close>. That
  (\<^verbatim>\<open>kernel.c\<close>) starts the terminal, the segment descriptors, the kernel heap, the file layer, the disk, the interrupt descriptors, the task state
  segment and paging, loads one process and enters it. From then on the kernel runs only when an
  interrupt enters it through a stub of \<^verbatim>\<open>idt.asm\<close>: the clock switches to the next task, an exception
  terminates a process, vector 0x80 is the system call. Everything is allocated by \<^verbatim>\<open>kzalloc\<close>; the
  path parser, the page directories, the filesystem driver and the task list are linked objects in
  that heap, and the file layer calls the driver through a table of functions.

  \<^bold>\<open>State.\<close> There is one state, a record that each theory extends with the globals of its file:
  \<open>kmem\<close> (the heap's block table and the store of objects by address, \<^verbatim>\<open>kheap.c\<close>), \<open>pagemem\<close> (paging
  registers), \<open>diskmem\<close> (the disk and its controller), \<open>vfsmem\<close> (filesystems and descriptors),
  \<open>taskmem\<close> (task list, running task), \<open>procmem\<close> (process table), \<open>idtmem\<close> (interrupt tables and
  screen), \<open>kernelmem\<close> (segment tables). An operation takes the smallest state that it touches, with
  the rest as the record's extension, so it also runs in the larger ones. A C function becomes a
  HOL function of the same name from its arguments and the state to its result and the new state in
  \<open>option\<close>. \<open>None\<close> is undefined behaviour, a panic or an endless loop; every theorem that a call
  returns therefore says that it is free of these. A C error code is a value of the result. Objects
  are typed (\<^verbatim>\<open>Objects\<close>): reading an object that is not there, was freed or has another type is
  \<open>None\<close>; a block is raw memory with uninitialised bytes until it is written, \<^verbatim>\<open>kzalloc\<close> writes its
  zeros byte by byte, and a zeroed struct is taken only from zero bytes that it fits into. Unsigned integers are words and wrap around, a C \<^verbatim>\<open>int\<close> is an \<open>int\<close> with its conversions
  written out (\<^verbatim>\<open>Prelude\<close>).

  \<^bold>\<open>Theories and sources.\<close>
  \<^item> \<^verbatim>\<open>Prelude\<close>, \<^verbatim>\<open>Objects\<close>: integers, constants (\<^verbatim>\<open>config.h\<close>, \<^verbatim>\<open>status.h\<close>), arrays, the counting loop
    and its invariant rule; the types of heap objects.
  \<^item> \<^verbatim>\<open>Memory_Ops\<close>, \<^verbatim>\<open>Strings_OS\<close>: \<^verbatim>\<open>memory.c\<close>, \<^verbatim>\<open>stringos.c\<close>.
  \<^item> \<^verbatim>\<open>Heap\<close>, \<^verbatim>\<open>Heap_Refinement\<close>, \<^verbatim>\<open>Heap_Scan\<close>, \<^verbatim>\<open>Heap_Allocator\<close>, \<^verbatim>\<open>Heap_Room\<close>: \<^verbatim>\<open>heap.c\<close>. The block table
    renders a list of segments, on which \<^verbatim>\<open>heap_malloc\<close> is first fit and \<^verbatim>\<open>heap_free\<close> its inverse;
    the room is the run of free blocks at the end, which bounds what a sequence of calls can take.
  \<^item> \<^verbatim>\<open>KHeap\<close>: \<^verbatim>\<open>kheap.c\<close>, allocations with contents.
  \<^item> \<^verbatim>\<open>Paging\<close>, \<^verbatim>\<open>Paging_Props\<close>: \<^verbatim>\<open>paging.c\<close>, \<^verbatim>\<open>paging.asm\<close>. A directory is a chunk that points to 1024
    tables; what it means is the translation \<^verbatim>\<open>paging_get\<close>.
  \<^item> \<^verbatim>\<open>Terminal\<close>, \<^verbatim>\<open>Gdt\<close>: the screen of \<^verbatim>\<open>kernel.c\<close> as one position in a buffer; \<^verbatim>\<open>gdt.c\<close> against the
    processor's reading of a descriptor.
  \<^item> \<^verbatim>\<open>Disk\<close>, \<^verbatim>\<open>Streamer\<close>: \<^verbatim>\<open>disk.c\<close> port by port, \<^verbatim>\<open>streamer.c\<close>.
  \<^item> \<^verbatim>\<open>Path_Parser\<close>, \<^verbatim>\<open>Path_Room\<close>, \<^verbatim>\<open>Vfs\<close>: \<^verbatim>\<open>pparser.c\<close>, \<^verbatim>\<open>file.c\<close> over a table of drivers.
  \<^item> \<^verbatim>\<open>Fat16\<close>, \<^verbatim>\<open>Fat16_Files\<close>, \<^verbatim>\<open>Fat16_Chain\<close>, \<^verbatim>\<open>Fat16_Props\<close>, \<^verbatim>\<open>Fat16_Lookup\<close>, \<^verbatim>\<open>Fat16_Directories\<close>,
    \<^verbatim>\<open>File_Driver\<close>: \<^verbatim>\<open>fat16.c\<close>. The specification is the disk image: the allocation table is a function
    of its bytes, a file is the chain of clusters from its entry, the directory tree is a relation
    between paths and entries, and mounting, searching, reading and counting agree with it.
  \<^item> \<^verbatim>\<open>Task\<close>, \<^verbatim>\<open>Task_List\<close>, \<^verbatim>\<open>Scheduler\<close>: \<^verbatim>\<open>task.c\<close>, \<^verbatim>\<open>task.asm\<close>; the doubly linked list as a list of
    tasks, round robin as a step function.
  \<^item> \<^verbatim>\<open>Process\<close>, \<^verbatim>\<open>Process_Props\<close>, \<^verbatim>\<open>Program_Load\<close>: \<^verbatim>\<open>process.c\<close>; the process table and its invariant,
    loading a binary from the mounted volume.
  \<^item> \<^verbatim>\<open>Elf\<close>, \<^verbatim>\<open>Elf_Props\<close>, \<^verbatim>\<open>Elf_Load\<close>: \<^verbatim>\<open>loader/formats/\<close>, which the kernel does not call yet.
  \<^item> \<^verbatim>\<open>Idt\<close>, \<^verbatim>\<open>Idt_Props\<close>, \<^verbatim>\<open>Interrupt_Entry\<close>: \<^verbatim>\<open>idt.c\<close> and the stubs of \<^verbatim>\<open>idt.asm\<close>.
  \<^item> \<^verbatim>\<open>Kernel\<close>, \<^verbatim>\<open>Kernel_Boot\<close>, \<^verbatim>\<open>Kernel_Running\<close>: \<^verbatim>\<open>kernel_main\<close>, the proof that it boots, and the booted
    kernel as a machine driven by interrupts, with its invariant.
  \<^item> \<^verbatim>\<open>Boot_Sector\<close>, \<^verbatim>\<open>Boot_Load\<close>, \<^verbatim>\<open>Kernel_Entry\<close>: \<^verbatim>\<open>boot/boot.asm\<close> on a processor of registers, flags and byte
    memory; \<^verbatim>\<open>_start\<close> of \<^verbatim>\<open>kernel.asm\<close>, the functions of \<^verbatim>\<open>io.asm\<close>, and the machine from the boot sector
    to user mode. The boot sector and the kernel share the device and the disk, not the memory: that
    the loaded bytes are the kernel's code is what the linker does.
\<close>

text \<open>
  \<^bold>\<open>Interfaces.\<close> Five contracts are locales, each interpreted on the model:
  \<open>block_allocator\<close> on \<^verbatim>\<open>heap_malloc\<close> and \<^verbatim>\<open>heap_free\<close>; \<open>object_allocator\<close>, which extends it with contents,
  on \<^verbatim>\<open>kmalloc\<close>, \<^verbatim>\<open>kzalloc\<close> and on the typed \<open>alloc_as\<close>, which \<open>kzalloc_as\<close> is for a zeroed struct; \<open>page_store\<close> on \<^verbatim>\<open>paging_set\<close> and \<^verbatim>\<open>paging_map\<close>;
  \<open>round_robin\<close> on the clock interrupt and on \<^verbatim>\<open>task_next\<close>; \<open>file_driver\<close>, what \<^verbatim>\<open>file.c\<close> needs of a
  driver, on \<open>fat16_fs\<close>.

  \<^bold>\<open>What the theorems show.\<close> The heap refines first-fit allocation, keeps live allocations apart
  under any interleaving and restores the table on release. Page directories translate what was
  mapped and give back every block. The screen, the descriptors and the gates are what the processor
  reads. Disk reads deliver the image on any controller that follows the READ SECTORS protocol, and
  streams, mounting, lookup, \<^verbatim>\<open>fopen\<close>, \<^verbatim>\<open>fread\<close> and the two program loaders compose to: the memory of a
  process, and the buffer of an ELF file, hold the bytes that the disk chains for the file; a path
  through directories opens the file that it names on the disk. Every task is scheduled within one
  round and resumes with the registers it was interrupted with; a system call
  returns with the registers that its command leaves in the caller's frame, and its result in eax.
  The process table keeps its invariant. From the boot sector on, a disk that starts with it reaches
  user mode with all of this in place, and no sequence of interrupts and system calls gets the kernel stuck after that,
  except through the exceptions that push an error code and through vector 0. Where the code fails
  (an allocation that overruns the table, a freed task that dangles, a missing file that is closed,
  a read that runs on into the next cluster of the disk, an exception that does not stop its task, a
  frame off by one word) the theorem states what it does
  instead.

  \<^bold>\<open>Parameters.\<close> The ATA controller is \<open>hw\<close>, a record of port functions on a device state, with the
  hypothesis \<open>ata_ok\<close>: after the six port writes of a READ SECTORS command the status port raises DRQ
  after finitely many polls and the data port then delivers the image's words; \<open>sample_ata\<close> shows
  that it can hold, and with \<open>ports_apart\<close> for the entry of the kernel, which writes to other ports. The
  addresses that the linker and the assembler choose are the records \<open>image\<close> and \<open>boot_labels\<close>. The commands behind the
  system call are the function \<open>cmd\<close>, which gets the frame on the stack and returns it as it leaves it: the kernel registers none.

  \<^bold>\<open>Loops and bounds.\<close> Counting loops are \<open>for_range\<close> over the loop's own bound; the 512 byte recursion of
  the streams, the cluster walk and the slot searches end structurally. Loops that depend on memory
  or the device (polling, path components, directory items, reads by cluster, walking a path) are
  partial functions, for which \<open>None\<close> is not returning: that they return is part of the theorems about
  them. Sizes are those of the configuration: 25600 heap blocks, 12 processes, 512 descriptors and
  vectors; a directory takes 1026 blocks, a process 1034.

  \<^bold>\<open>Not modelled.\<close> The sample user program, which is a jump to itself; an older boot sector that is not
  built; the linker script and build files; what the A20 gate and the interrupt controller do with
  the bytes that \<^verbatim>\<open>_start\<close> writes to them. User code is not executed: between two interrupts a
  task may do anything to its registers, which is how the scheduler's theorems quantify over
  frames, and its memory accesses are not part of the state. Interrupts do not nest, since every gate
  is an interrupt gate and the kernel never enables interrupts itself. Page tables do not guard the
  kernel's own accesses in the model: every directory maps the kernel's memory to itself.
\<close>

end
